(* ===== verification/Rome_Prelude.thy ===== *)
theory Rome_Prelude
  imports "HOL-Library.Word"
begin

text \<open>
  The prelude of the development: the machine integers and byte strings the crates share,
  the error type of \<^verbatim>\<open>rome-evm-client/src/error.rs\<close>, the result of a Rust
  call that may return an error or panic, the byte encodings of integers, and the list
  lemmas and hint collections the components use.
\<close>

section \<open>Types\<close>

type_synonym u8 = "8 word"
type_synonym u64 = "64 word"
type_synonym u256 = "256 word"
type_synonym h256 = "256 word"
type_synonym address = "160 word"
type_synonym bytes = "u8 list"

text \<open>\<^verbatim>\<open>solana_sdk::clock::Slot\<close> is a 64-bit unsigned integer.\<close>

type_synonym slot = u64

section \<open>Errors and results\<close>

text \<open>
  The constructors of \<^verbatim>\<open>RomeEvmError\<close>.  A payload that is an error value of another
  crate is its rendered text; the text of a \<open>Custom\<close> error is the constant part of
  the message.
\<close>

datatype rome_error =
    RpcClientError string
  | RomeProgramError string
  | RequestError string
  | MutexLockError string
  | Base64DecodeError
  | LogParserError string
  | InternalError
  | EmulationRevert "nat list" "nat list"
  | EmulationError string
  | NoFreeHolders
  | TooManyAccounts nat
  | BincodeError
  | Custom string
  | NoChainId
  | UnsupportedChainId u64
  | TokioSendError
  | JoinError
  | DieselError
  | ConnectionPoolError
  | TransportError
  | TxDecodeError
  | SignatureError
  | SerdeJsonError
  | EthersProviderError
  | RelayerError
  | InvalidSlot
  | SignerError
  | AddressLookupTableNotFound
  | InstructionError
  | SvmCompositeTxError string

text \<open>
  \<^verbatim>\<open>ProgramResult<T>\<close> with the third way a Rust call can end: a panic (an out-of-range
  index, an arithmetic overflow, \<^verbatim>\<open>unwrap\<close> of nothing, \<^verbatim>\<open>panic!\<close>).
\<close>

datatype 'a res = Ok 'a | Err rome_error | Panic string

text \<open>The \<^verbatim>\<open>?\<close> operator: go on with the value, or leave with the error or the panic.\<close>

fun try_res :: "'a res \<Rightarrow> ('a \<Rightarrow> 'b res) \<Rightarrow> 'b res" where
  "try_res (Ok x) k = k x"
| "try_res (Err e) k = Err e"
| "try_res (Panic m) k = Panic m"

fun is_ok :: "'a res \<Rightarrow> bool" where
  "is_ok (Ok x) = True"
| "is_ok (Err e) = False"
| "is_ok (Panic m) = False"

fun is_panic :: "'a res \<Rightarrow> bool" where
  "is_panic (Ok x) = False"
| "is_panic (Err e) = False"
| "is_panic (Panic m) = True"

text \<open>\<^verbatim>\<open>Option::ok_or\<close> and \<^verbatim>\<open>Result::map_err\<close> of a call whose error is foreign.\<close>

fun ok_or :: "rome_error \<Rightarrow> 'a option \<Rightarrow> 'a res" where
  "ok_or e None = Err e"
| "ok_or e (Some x) = Ok x"

text \<open>\<^verbatim>\<open>Option::expect\<close>.\<close>

fun expect :: "string \<Rightarrow> 'a option \<Rightarrow> 'a res" where
  "expect m None = Panic m"
| "expect m (Some x) = Ok x"

text \<open>\<^verbatim>\<open>U256::as_u64\<close> panics on a number that does not fit.\<close>

definition as_u64 :: "u256 \<Rightarrow> u64 res" where
  "as_u64 v = (if unat v < 2 ^ 64 then Ok (word_of_nat (unat v))
               else Panic ''Integer overflow when casting to u64'')"

text \<open>The results of futures that were joined: \<^verbatim>\<open>collect::<Result<Vec<_>, _>>\<close>, and a panic of
  any of them.\<close>

fun first_panic :: "'a res list \<Rightarrow> string option" where
  "first_panic [] = None"
| "first_panic (Panic m # rs) = Some m"
| "first_panic (r # rs) = first_panic rs"

fun collect_results :: "'a res list \<Rightarrow> 'a list res" where
  "collect_results [] = Ok []"
| "collect_results (r # rs) = try_res r (\<lambda>x. try_res (collect_results rs) (\<lambda>xs. Ok (x # xs)))"

definition joined :: "'a res list \<Rightarrow> 'b res \<Rightarrow> 'b res" where
  "joined rs r = (case first_panic rs of Some m \<Rightarrow> Panic m | None \<Rightarrow> r)"

named_theorems res_elims \<open>inversion of results\<close>

lemma try_res_eq_Ok [res_elims]:
  "try_res m k = Ok y \<longleftrightarrow> (\<exists>x. m = Ok x \<and> k x = Ok y)"
  by (cases m) auto

lemma try_res_eq_Err [res_elims]:
  "try_res m k = Err e \<longleftrightarrow> m = Err e \<or> (\<exists>x. m = Ok x \<and> k x = Err e)"
  by (cases m) auto

lemma try_res_eq_Panic [res_elims]:
  "try_res m k = Panic e \<longleftrightarrow> m = Panic e \<or> (\<exists>x. m = Ok x \<and> k x = Panic e)"
  by (cases m) auto

lemma ok_or_eq [res_elims]:
  "ok_or e v = Ok y \<longleftrightarrow> v = Some y"
  "ok_or e v = Err e' \<longleftrightarrow> v = None \<and> e' = e"
  "ok_or e v \<noteq> Panic m"
  by (cases v; auto)+

lemma expect_eq [res_elims]:
  "expect m v = Ok y \<longleftrightarrow> v = Some y"
  "expect m v \<noteq> Err e"
  "expect m v = Panic m' \<longleftrightarrow> v = None \<and> m' = m"
  by (cases v; auto)+

lemma is_ok_iff: "is_ok r \<longleftrightarrow> (\<exists>x. r = Ok x)"
  by (cases r) auto

lemma is_panic_iff: "is_panic r \<longleftrightarrow> (\<exists>m. r = Panic m)"
  by (cases r) auto

lemma try_res_assoc: "try_res (try_res m f) g = try_res m (\<lambda>x. try_res (f x) g)"
  by (cases m) auto

lemma try_res_Ok_right [simp]: "try_res m Ok = m"
  by (cases m) auto

lemma collect_results_Ok: "collect_results rs = Ok xs \<Longrightarrow> list_all is_ok rs"
proof (induction rs arbitrary: xs)
  case (Cons r rs)
  then obtain x ys where "r = Ok x" "collect_results rs = Ok ys" by (auto simp: res_elims)
  with Cons.IH show ?case by simp
qed simp

lemma joined_Ok: "joined rs r = Ok x \<Longrightarrow> r = Ok x"
  by (simp add: joined_def split: option.splits)

text \<open>
  A computation that changes a state and may fail: what comes next runs on the state
  reached if there is a value, otherwise the error or panic is the result.
\<close>

definition and_then :: "'s \<times> 'a res \<Rightarrow> ('s \<Rightarrow> 'a \<Rightarrow> 's \<times> 'b res) \<Rightarrow> 's \<times> 'b res" where
  "and_then m k = (case m of (s, r) \<Rightarrow>
     (case r of Ok x \<Rightarrow> k s x | Err e \<Rightarrow> (s, Err e) | Panic e \<Rightarrow> (s, Panic e)))"

lemma and_then_simps [simp]:
  "and_then (s, Ok x) k = k s x"
  "and_then (s, Err e) k = (s, Err e)"
  "and_then (s, Panic p) k = (s, Panic p)"
  by (simp_all add: and_then_def)

lemma and_then_eq_Ok [res_elims]:
  "and_then m k = (s', Ok y) \<longleftrightarrow> (\<exists>s x. m = (s, Ok x) \<and> k s x = (s', Ok y))"
  by (cases m; cases "snd m") (auto simp: and_then_def)

section \<open>Checked arithmetic\<close>

text \<open>
  \<^verbatim>\<open>U256\<close> addition of the ethers types panics on overflow; \<^verbatim>\<open>checked_add\<close>
  returns nothing.
\<close>

definition checked_add :: "'a::len word \<Rightarrow> 'a word \<Rightarrow> 'a word option" where
  "checked_add a b = (if unat a + unat b < 2 ^ LENGTH('a) then Some (a + b) else None)"

definition add_or_panic :: "'a::len word \<Rightarrow> 'a word \<Rightarrow> 'a word res" where
  "add_or_panic a b = expect ''arithmetic operation overflow'' (checked_add a b)"

definition sub_or_panic :: "'a::len word \<Rightarrow> 'a word \<Rightarrow> 'a word res" where
  "sub_or_panic a b = (if b \<le> a then Ok (a - b) else Panic ''attempt to subtract with overflow'')"

lemma unat_bound: "unat w < 2 ^ LENGTH('a)" for w :: "'a::len word"
  by (rule unsigned_less)

lemma checked_add_Some:
  "checked_add a b = Some c \<longleftrightarrow> unat a + unat b < 2 ^ LENGTH('a) \<and> c = a + b"
  for a :: "'a::len word"
  by (auto simp: checked_add_def)

lemma unat_checked_add:
  "checked_add a b = Some c \<Longrightarrow> unat c = unat a + unat b"
  for a :: "'a::len word"
  by (auto simp: checked_add_def unat_word_ariths split: if_splits)

lemma add_or_panic_Ok [res_elims]:
  "add_or_panic a b = Ok c \<longleftrightarrow> unat a + unat b < 2 ^ LENGTH('a) \<and> c = a + b"
  for a :: "'a::len word"
  by (auto simp: add_or_panic_def checked_add_def)

lemma add_or_panic_not_Err [res_elims, simp]: "add_or_panic a b \<noteq> Err e"
  by (simp add: add_or_panic_def res_elims)

lemma unat_add_or_panic:
  "add_or_panic a b = Ok c \<Longrightarrow> unat c = unat a + unat b"
  for a :: "'a::len word"
  by (auto simp: add_or_panic_Ok unat_word_ariths)

lemma sub_or_panic_Ok [res_elims]: "sub_or_panic a b = Ok c \<longleftrightarrow> b \<le> a \<and> c = a - b"
  by (auto simp: sub_or_panic_def)

section \<open>Byte encodings of integers\<close>

text \<open>
  \<^verbatim>\<open>to_le_bytes\<close> and \<^verbatim>\<open>to_be_bytes\<close>: the \<open>n\<close> low bytes of a number,
  least and most significant byte first, and the reading of such a byte list.
\<close>

fun le_bytes :: "nat \<Rightarrow> nat \<Rightarrow> bytes" where
  "le_bytes 0 v = []"
| "le_bytes (Suc n) v = word_of_nat (v mod 256) # le_bytes n (v div 256)"

definition be_bytes :: "nat \<Rightarrow> nat \<Rightarrow> bytes" where
  "be_bytes n v = rev (le_bytes n v)"

fun of_le_bytes :: "bytes \<Rightarrow> nat" where
  "of_le_bytes [] = 0"
| "of_le_bytes (b # bs) = unat b + 256 * of_le_bytes bs"

definition of_be_bytes :: "bytes \<Rightarrow> nat" where
  "of_be_bytes bs = of_le_bytes (rev bs)"

lemma length_le_bytes [simp]: "length (le_bytes n v) = n"
  by (induction n arbitrary: v) auto

lemma length_be_bytes [simp]: "length (be_bytes n v) = n"
  by (simp add: be_bytes_def)

lemma of_le_bytes_le_bytes: "of_le_bytes (le_bytes n v) = v mod 256 ^ n"
proof (induction n arbitrary: v)
  case 0
  then show ?case by simp
next
  case (Suc n)
  have "v mod 256 < 2 ^ 8" by simp
  then have "unat (word_of_nat (v mod 256) :: u8) = v mod 256"
    by (simp add: unat_of_nat)
  with Suc show ?case
    by (simp add: mod_mult2_eq mult.commute add.commute)
qed

lemma of_be_bytes_be_bytes: "of_be_bytes (be_bytes n v) = v mod 256 ^ n"
  by (simp add: of_be_bytes_def be_bytes_def of_le_bytes_le_bytes)

lemma of_le_bytes_bound: "of_le_bytes bs < 256 ^ length bs"
proof (induction bs)
  case Nil
  then show ?case by simp
next
  case (Cons b bs)
  have "unat b < 256" using unat_bound [of b] by simp
  with Cons show ?case by simp
qed

lemma le_bytes_of_le_bytes: "le_bytes (length bs) (of_le_bytes bs) = bs"
proof (induction bs)
  case Nil
  then show ?case by simp
next
  case (Cons b bs)
  have "unat b < 256" using unat_bound [of b] by simp
  then show ?case using Cons by simp
qed

lemma be_bytes_of_be_bytes: "be_bytes (length bs) (of_be_bytes bs) = bs"
  using le_bytes_of_le_bytes [of "rev bs"] by (simp add: of_be_bytes_def be_bytes_def)

text \<open>\<^verbatim>\<open>U256::to_big_endian\<close>, \<^verbatim>\<open>H256::as_bytes\<close>, \<^verbatim>\<open>Address::as_bytes\<close>, \<^verbatim>\<open>u64::to_le_bytes\<close>.\<close>

definition u256_be :: "u256 \<Rightarrow> bytes" where
  "u256_be v = be_bytes 32 (unat v)"

definition u256_of_be :: "bytes \<Rightarrow> u256" where
  "u256_of_be bs = word_of_nat (of_be_bytes bs)"

definition address_be :: "address \<Rightarrow> bytes" where
  "address_be a = be_bytes 20 (unat a)"

definition address_of_be :: "bytes \<Rightarrow> address" where
  "address_of_be bs = word_of_nat (of_be_bytes bs)"

definition u64_le :: "u64 \<Rightarrow> bytes" where
  "u64_le v = le_bytes 8 (unat v)"

definition u64_of_le :: "bytes \<Rightarrow> u64" where
  "u64_of_le bs = word_of_nat (of_le_bytes bs)"

lemma length_encodings [simp]:
  "length (u256_be v) = 32" "length (address_be a) = 20" "length (u64_le w) = 8"
  by (simp_all add: u256_be_def address_be_def u64_le_def)

lemma u256_of_be_u256_be [simp]: "u256_of_be (u256_be v) = v"
  using unat_bound [of v] by (simp add: u256_of_be_def u256_be_def of_be_bytes_be_bytes)

lemma address_of_be_address_be [simp]: "address_of_be (address_be a) = a"
  using unat_bound [of a] by (simp add: address_of_be_def address_be_def of_be_bytes_be_bytes)

lemma u64_of_le_u64_le [simp]: "u64_of_le (u64_le v) = v"
  using unat_bound [of v] by (simp add: u64_of_le_def u64_le_def of_le_bytes_le_bytes)

lemma u256_be_inject [simp]: "u256_be a = u256_be b \<longleftrightarrow> a = b"
  by (metis u256_of_be_u256_be)

end
