(* ===== verification/Ordered_Map.thy ===== *)
theory Ordered_Map
  imports Rome_Prelude "HOL-Library.Sublist"
begin

text \<open>
  The two maps of the Rust standard library that the indexer keeps its state in.
  \<^verbatim>\<open>BTreeMap\<close> is an association list with strictly increasing keys (\<open>bt_ok\<close>),
  \<^verbatim>\<open>HashMap\<close> one with distinct keys (\<open>hm_ok\<close>), whose order is the iteration order
  of the map, which the code does not know: statements about all lists are statements
  about all iteration orders.  The locale \<open>kv_map\<close> is the interface both provide: what
  insertion and filtering do to lookups and to the representation invariant.  Its lemmas
  on the entry API (\<^verbatim>\<open>entry(k).or_insert(v)\<close>, \<^verbatim>\<open>entry(k).or_default()\<close>) and on
  \<^verbatim>\<open>retain\<close> are proved once, for both maps.
\<close>

type_synonym ('k, 'v) btree = "('k \<times> 'v) list"
type_synonym ('k, 'v) hmap = "('k \<times> 'v) list"

section \<open>Operations\<close>

definition bt_ok :: "('k::linorder, 'v) btree \<Rightarrow> bool" where
  "bt_ok m \<longleftrightarrow> sorted_wrt (<) (map fst m)"

definition hm_ok :: "('k, 'v) hmap \<Rightarrow> bool" where
  "hm_ok m \<longleftrightarrow> distinct (map fst m)"

fun bt_insert :: "'k::linorder \<Rightarrow> 'v \<Rightarrow> ('k, 'v) btree \<Rightarrow> ('k, 'v) btree" where
  "bt_insert k v [] = [(k, v)]"
| "bt_insert k v ((k', v') # m) =
     (if k < k' then (k, v) # (k', v') # m
      else if k = k' then (k, v) # m
      else (k', v') # bt_insert k v m)"

fun hm_insert :: "'k \<Rightarrow> 'v \<Rightarrow> ('k, 'v) hmap \<Rightarrow> ('k, 'v) hmap" where
  "hm_insert k v [] = [(k, v)]"
| "hm_insert k v ((k', v') # m) =
     (if k = k' then (k, v) # m else (k', v') # hm_insert k v m)"

text \<open>\<^verbatim>\<open>remove(k)\<close>, the same on both representations.\<close>

definition kv_remove :: "'k \<Rightarrow> ('k \<times> 'v) list \<Rightarrow> ('k \<times> 'v) list" where
  "kv_remove k m = filter (\<lambda>(k', v). k' \<noteq> k) m"

text \<open>
  \<^verbatim>\<open>retain(|k, v| ...)\<close>: the closure sees each entry, may change the value in place
  (\<open>Some\<close> of the new value) or drop the entry (\<open>None\<close>).
\<close>

fun kv_retain :: "('k \<Rightarrow> 'v \<Rightarrow> 'v option) \<Rightarrow> ('k \<times> 'v) list \<Rightarrow> ('k \<times> 'v) list" where
  "kv_retain f [] = []"
| "kv_retain f ((k, v) # m) =
     (case f k v of None \<Rightarrow> kv_retain f m | Some v' \<Rightarrow> (k, v') # kv_retain f m)"

text \<open>
  The entry API over an insertion \<open>ins\<close>: \<open>kv_or_insert\<close> is
  \<^verbatim>\<open>entry(k).or_insert(v)\<close>, \<open>kv_modify\<close> is \<^verbatim>\<open>entry(k).or_insert(d)\<close> followed by
  a change \<open>f\<close> of the value it returns a reference to.
\<close>

definition kv_or_insert ::
  "('k \<Rightarrow> 'v \<Rightarrow> ('k \<times> 'v) list \<Rightarrow> ('k \<times> 'v) list) \<Rightarrow> 'k \<Rightarrow> 'v \<Rightarrow> ('k \<times> 'v) list \<Rightarrow> ('k \<times> 'v) list" where
  "kv_or_insert ins k v m = (case map_of m k of None \<Rightarrow> ins k v m | Some _ \<Rightarrow> m)"

definition kv_modify ::
  "('k \<Rightarrow> 'v \<Rightarrow> ('k \<times> 'v) list \<Rightarrow> ('k \<times> 'v) list) \<Rightarrow> 'k \<Rightarrow> 'v \<Rightarrow> ('v \<Rightarrow> 'v)
    \<Rightarrow> ('k \<times> 'v) list \<Rightarrow> ('k \<times> 'v) list" where
  "kv_modify ins k d f m = ins k (f (case map_of m k of None \<Rightarrow> d | Some v \<Rightarrow> v)) m"

text \<open>\<^verbatim>\<open>first_key_value\<close> and \<^verbatim>\<open>last_key_value\<close> of a \<^verbatim>\<open>BTreeMap\<close>.\<close>

definition bt_first :: "('k, 'v) btree \<Rightarrow> ('k \<times> 'v) option" where
  "bt_first m = (case m of [] \<Rightarrow> None | e # _ \<Rightarrow> Some e)"

definition bt_last :: "('k, 'v) btree \<Rightarrow> ('k \<times> 'v) option" where
  "bt_last m = (case m of [] \<Rightarrow> None | _ # _ \<Rightarrow> Some (last m))"

text \<open>All values of a map satisfy a property.\<close>

definition kv_all :: "('v \<Rightarrow> bool) \<Rightarrow> ('k \<times> 'v) list \<Rightarrow> bool" where
  "kv_all P m \<longleftrightarrow> (\<forall>(k, v) \<in> set m. P v)"

lemma kv_all_Nil [simp]: "kv_all P []"
  by (simp add: kv_all_def)

lemma kv_all_Cons [simp]: "kv_all P ((k, v) # m) \<longleftrightarrow> P v \<and> kv_all P m"
  by (simp add: kv_all_def)

lemma kv_all_lookup: "kv_all P m \<Longrightarrow> map_of m k = Some v \<Longrightarrow> P v"
  by (auto simp: kv_all_def dest: map_of_SomeD)

lemma kv_all_iff:
  "distinct (map fst m) \<Longrightarrow> kv_all P m \<longleftrightarrow> (\<forall>k v. map_of m k = Some v \<longrightarrow> P v)"
  by (auto simp: kv_all_def map_of_eq_Some_iff)

lemma kv_all_default:
  "kv_all P m \<Longrightarrow> P d \<Longrightarrow> P (case map_of m k of None \<Rightarrow> d | Some v \<Rightarrow> v)"
  by (auto dest: kv_all_lookup split: option.split)

lemma kv_all_subset: "kv_all P m \<Longrightarrow> set m' \<subseteq> set m \<Longrightarrow> kv_all P m'"
  by (auto simp: kv_all_def)

section \<open>The interface\<close>

locale kv_map =
  fixes ok :: "('k \<times> 'v) list \<Rightarrow> bool"
    and ins :: "'k \<Rightarrow> 'v \<Rightarrow> ('k \<times> 'v) list \<Rightarrow> ('k \<times> 'v) list"
  assumes ok_empty: "ok []"
    and ok_distinct: "ok m \<Longrightarrow> distinct (map fst m)"
    and ok_ins: "ok m \<Longrightarrow> ok (ins k v m)"
    and ok_subseq: "ok m \<Longrightarrow> subseq (map fst m') (map fst m) \<Longrightarrow> ok m'"
    and lookup_ins: "ok m \<Longrightarrow> map_of (ins k v m) = (map_of m)(k \<mapsto> v)"
    and ins_same: "ok m \<Longrightarrow> map_of m k = Some v \<Longrightarrow> ins k v m = m"
begin

lemma keys_ins: "ok m \<Longrightarrow> fst ` set (ins k v m) = insert k (fst ` set m)"
  by (metis dom_fun_upd dom_map_of_conv_image_fst lookup_ins option.discI)

lemma ok_or_insert: "ok m \<Longrightarrow> ok (kv_or_insert ins k v m)"
  by (simp add: kv_or_insert_def ok_ins split: option.split)

lemma lookup_or_insert:
  "ok m \<Longrightarrow> map_of (kv_or_insert ins k v m) k' =
     (if k' = k \<and> map_of m k = None then Some v else map_of m k')"
  by (simp add: kv_or_insert_def lookup_ins split: option.split)

lemma or_insert_id: "map_of m k \<noteq> None \<Longrightarrow> kv_or_insert ins k v m = m"
  by (auto simp: kv_or_insert_def)

lemma ok_modify: "ok m \<Longrightarrow> ok (kv_modify ins k d f m)"
  by (simp add: kv_modify_def ok_ins)

lemma lookup_modify:
  "ok m \<Longrightarrow> map_of (kv_modify ins k d f m) k' =
     (if k' = k then Some (f (case map_of m k of None \<Rightarrow> d | Some v \<Rightarrow> v)) else map_of m k')"
  by (simp add: kv_modify_def lookup_ins)

lemma modify_id:
  "ok m \<Longrightarrow> map_of m k = Some v \<Longrightarrow> f v = v \<Longrightarrow> kv_modify ins k d f m = m"
  by (simp add: kv_modify_def ins_same)

lemma kv_all_ins: "ok m \<Longrightarrow> kv_all P m \<Longrightarrow> P v \<Longrightarrow> kv_all P (ins k v m)"
  by (simp add: kv_all_iff ok_distinct ok_ins lookup_ins)

lemma kv_all_or_insert: "ok m \<Longrightarrow> kv_all P m \<Longrightarrow> P v \<Longrightarrow> kv_all P (kv_or_insert ins k v m)"
  by (simp add: kv_or_insert_def kv_all_ins split: option.split)

lemma kv_all_modify:
  "ok m \<Longrightarrow> kv_all P m \<Longrightarrow> P d \<Longrightarrow> (\<And>v. P v \<Longrightarrow> P (f v)) \<Longrightarrow> kv_all P (kv_modify ins k d f m)"
  using kv_all_default [of P m d k] by (simp add: kv_modify_def kv_all_ins)

lemma ok_remove: "ok m \<Longrightarrow> ok (kv_remove k m)"
  unfolding kv_remove_def by (erule ok_subseq) (intro subseq_map subseq_filter_left)

end

section \<open>Facts about the shared operations\<close>

lemma subseq_set_mono: "subseq xs ys \<Longrightarrow> set xs \<subseteq> set ys"
  by (induction rule: list_emb.induct) auto

lemma subseq_sorted_wrt: "subseq xs ys \<Longrightarrow> sorted_wrt P ys \<Longrightarrow> sorted_wrt P xs"
  by (induction rule: list_emb.induct) (auto dest: subseq_set_mono)

lemma subseq_distinct: "subseq xs ys \<Longrightarrow> distinct ys \<Longrightarrow> distinct xs"
  by (induction rule: list_emb.induct) (auto dest: subseq_set_mono)

lemma map_of_filter_fst:
  "map_of (filter (\<lambda>(k', v). P k') m) k = (if P k then map_of m k else None)"
  by (induction m) auto

lemma lookup_remove: "map_of (kv_remove k m) k' = (if k' = k then None else map_of m k')"
  unfolding kv_remove_def by (simp add: map_of_filter_fst)

lemma keys_retain_subseq: "subseq (map fst (kv_retain f m)) (map fst m)"
  by (induction f m rule: kv_retain.induct) (auto split: option.split)

lemma lookup_retain:
  "distinct (map fst m) \<Longrightarrow> map_of (kv_retain f m) k = Option.bind (map_of m k) (f k)"
proof (induction f m rule: kv_retain.induct)
  case (1 f)
  then show ?case by simp
next
  case (2 f k' v m)
  have no: "map_of m k' = None" using "2.prems" by (simp add: map_of_eq_None_iff)
  show ?case
  proof (cases "f k' v")
    case None
    with 2 no show ?thesis by auto
  next
    case (Some v')
    with 2 no show ?thesis by auto
  qed
qed

lemma kv_all_retain:
  "(\<And>k v v'. (k, v) \<in> set m \<Longrightarrow> f k v = Some v' \<Longrightarrow> P v') \<Longrightarrow> kv_all P (kv_retain f m)"
  by (induction f m rule: kv_retain.induct) (auto split: option.split)

lemma kv_retain_id:
  "(\<And>k v. (k, v) \<in> set m \<Longrightarrow> f k v = Some v) \<Longrightarrow> kv_retain f m = m"
  by (induction f m rule: kv_retain.induct) auto

lemma kv_retain_filter:
  "kv_retain (\<lambda>k v. if P k v then Some v else None) m = filter (\<lambda>(k, v). P k v) m"
  by (induction m) auto

section \<open>The ordered map\<close>

lemma keys_bt_insert: "fst ` set (bt_insert k v m) = insert k (fst ` set m)"
  by (induction k v m rule: bt_insert.induct) auto

lemma set_bt_insert: "set (bt_insert k v m) \<subseteq> insert (k, v) (set m)"
  by (induction k v m rule: bt_insert.induct) auto

lemma set_bt_insert_fresh:
  "map_of m k = None \<Longrightarrow> set (bt_insert k v m) = insert (k, v) (set m)"
  by (induction k v m rule: bt_insert.induct) (auto split: if_splits)

lemma bt_ok_Cons [simp]: "bt_ok ((k, v) # m) \<longleftrightarrow> (\<forall>k' \<in> fst ` set m. k < k') \<and> bt_ok m"
  by (simp add: bt_ok_def)

lemma bt_ok_Nil [simp]: "bt_ok []"
  by (simp add: bt_ok_def)

lemma bt_ok_insert: "bt_ok m \<Longrightarrow> bt_ok (bt_insert k v m)"
proof (induction k v m rule: bt_insert.induct)
  case (1 k v)
  then show ?case by simp
next
  case (2 k v k' v' m)
  then show ?case by (auto simp: keys_bt_insert dest: less_trans)
qed

lemma bt_ok_distinct: "bt_ok m \<Longrightarrow> distinct (map fst m)"
  by (simp add: bt_ok_def strict_sorted_iff)

lemma lookup_bt_insert: "map_of (bt_insert k v m) = (map_of m)(k \<mapsto> v)" if "bt_ok m"
  using that
proof (induction k v m rule: bt_insert.induct)
  case (1 k v)
  then show ?case by simp
next
  case (2 k v k' v' m)
  then show ?case by (auto simp: fun_eq_iff)
qed

lemma bt_insert_same: "bt_ok m \<Longrightarrow> map_of m k = Some v \<Longrightarrow> bt_insert k v m = m"
proof (induction k v m rule: bt_insert.induct)
  case (1 k v)
  then show ?case by simp
next
  case (2 k v k' v' m)
  have "k' < k" if "k \<noteq> k'"
    using 2 that by (force dest: map_of_SomeD)
  then show ?case using 2 by (auto split: if_splits)
qed

interpretation bt: kv_map bt_ok bt_insert
proof unfold_locales
  fix m m' :: "('k::linorder \<times> 'v) list"
  assume "bt_ok m" and "subseq (map fst m') (map fst m)"
  then show "bt_ok m'" unfolding bt_ok_def by (auto intro: subseq_sorted_wrt)
qed (simp_all add: bt_ok_insert bt_ok_distinct lookup_bt_insert bt_insert_same)

section \<open>The hash map\<close>

lemma keys_hm_insert: "fst ` set (hm_insert k v m) = insert k (fst ` set m)"
  by (induction k v m rule: hm_insert.induct) auto

lemma hm_ok_Cons [simp]: "hm_ok ((k, v) # m) \<longleftrightarrow> k \<notin> fst ` set m \<and> hm_ok m"
  by (simp add: hm_ok_def)

lemma hm_ok_Nil [simp]: "hm_ok []"
  by (simp add: hm_ok_def)

lemma hm_ok_insert: "hm_ok m \<Longrightarrow> hm_ok (hm_insert k v m)"
  by (induction k v m rule: hm_insert.induct) (auto simp: keys_hm_insert)

lemma lookup_hm_insert: "map_of (hm_insert k v m) = (map_of m)(k \<mapsto> v)"
  by (induction k v m rule: hm_insert.induct) (auto simp: fun_eq_iff)

lemma hm_insert_same: "hm_ok m \<Longrightarrow> map_of m k = Some v \<Longrightarrow> hm_insert k v m = m"
  by (induction k v m rule: hm_insert.induct) (auto split: if_splits)

interpretation hm: kv_map hm_ok hm_insert
proof unfold_locales
  fix m m' :: "('k \<times> 'v) list"
  assume "hm_ok m" and "subseq (map fst m') (map fst m)"
  then show "hm_ok m'" unfolding hm_ok_def by (auto intro: subseq_distinct)
qed (simp_all add: hm_ok_insert lookup_hm_insert hm_insert_same, simp add: hm_ok_def)

section \<open>Order\<close>

lemma bt_ok_append: "bt_ok (m @ m') \<longleftrightarrow>
    bt_ok m \<and> bt_ok m' \<and> (\<forall>k \<in> fst ` set m. \<forall>k' \<in> fst ` set m'. k < k')"
  by (auto simp: bt_ok_def sorted_wrt_append)

text \<open>An ordered map is determined by its lookups.\<close>

lemma bt_ext:
  assumes "bt_ok m" "bt_ok m'" "map_of m = map_of m'"
  shows "m = m'"
proof -
  have d: "distinct (map fst m)" "distinct (map fst m')"
    using assms(1,2) by (auto intro: bt_ok_distinct)
  then have s: "set m = set m'"
    using assms(3) by (simp add: map_of_inject_set)
  have inj: "inj_on fst (set m \<union> set m')"
    using d(1) s by (simp add: distinct_map)
  show ?thesis
    using inj _ _ _ _ s
  proof (rule map_sorted_distinct_set_unique)
    show "sorted (map fst m)" "sorted (map fst m')"
      using assms(1,2) by (simp_all add: bt_ok_def strict_sorted_iff)
  qed (use d in auto)
qed

lemma bt_insert_append:
  "bt_ok m \<Longrightarrow> (\<And>k'. k' \<in> fst ` set m \<Longrightarrow> k' < k) \<Longrightarrow> bt_insert k v m = m @ [(k, v)]"
proof (induction k v m rule: bt_insert.induct)
  case (1 k v)
  then show ?case by simp
next
  case (2 k v k' v' m)
  have "k' < k" using "2.prems"(2) [of k'] by simp
  moreover from this have "\<not> k < k'" "k \<noteq> k'" by auto
  ultimately show ?case using 2 by simp
qed

end
