(* ===== verification/Eth_Types.thy ===== *)
theory Eth_Types
  imports Ordered_Map
begin

text \<open>
  The data the indexer passes around: the fields of the ethers structs
  \<^verbatim>\<open>Transaction\<close> and \<^verbatim>\<open>Log\<close> that the code reads or writes, and the results of
  \<^verbatim>\<open>rome-evm-client/src/indexer/parsers/block_parser.rs\<close>.  The functions of other
  crates (RLP decoding, signature recovery, hashing) are fields of the record
  \<open>eth_lib\<close>, an argument of every definition that calls them.
\<close>

section \<open>Transactions, logs and results\<close>

record transaction =
  tx_hash :: h256
  tx_nonce :: u256
  tx_block_hash :: "h256 option"
  tx_block_number :: "u64 option"
  tx_transaction_index :: "u64 option"
  tx_from :: address
  tx_to :: "address option"
  tx_value :: u256
  tx_gas_price :: "u256 option"
  tx_gas :: u256
  tx_input :: bytes
  tx_source_hash :: h256
  tx_mint :: "u256 option"
  tx_is_system_tx :: bool
  tx_transaction_type :: "u64 option"
  tx_chain_id :: "u256 option"

text \<open>\<^verbatim>\<open>Transaction::default()\<close>.\<close>

definition default_transaction :: transaction where
  "default_transaction = \<lparr>tx_hash = 0, tx_nonce = 0, tx_block_hash = None, tx_block_number = None,
     tx_transaction_index = None, tx_from = 0, tx_to = None, tx_value = 0, tx_gas_price = None,
     tx_gas = 0, tx_input = [], tx_source_hash = 0, tx_mint = None, tx_is_system_tx = False,
     tx_transaction_type = None, tx_chain_id = None\<rparr>"

record eth_log =
  log_address :: address
  log_topics :: "h256 list"
  log_data :: bytes
  log_block_hash :: "h256 option"
  log_block_number :: "u64 option"
  log_transaction_hash :: "h256 option"
  log_transaction_index :: "u64 option"
  log_log_index :: "u256 option"
  log_transaction_log_index :: "u256 option"
  log_removed :: "bool option"

text \<open>\<^verbatim>\<open>Log::default()\<close>.\<close>

definition default_log :: eth_log where
  "default_log = \<lparr>log_address = 0, log_topics = [], log_data = [], log_block_hash = None,
     log_block_number = None, log_transaction_hash = None, log_transaction_index = None,
     log_log_index = None, log_transaction_log_index = None, log_removed = None\<rparr>"

text \<open>
  \<^verbatim>\<open>ExitReason\<close>; a Rust \<^verbatim>\<open>String\<close> is its UTF-8 bytes.
\<close>

record exit_reason =
  code :: u8
  reason :: bytes
  return_value :: bytes

definition default_exit_reason :: exit_reason where
  "default_exit_reason = \<lparr>code = 0, reason = [], return_value = []\<rparr>"

record gas_report =
  gas_value :: u256
  gas_price :: u256
  gas_recipient :: "address option"

definition default_gas_report :: gas_report where
  "default_gas_report = \<lparr>gas_value = 0, gas_price = 0, gas_recipient = None\<rparr>"

record tx_result =
  res_exit_reason :: exit_reason
  res_logs :: "eth_log list"
  res_gas_report :: gas_report

definition default_tx_result :: tx_result where
  "default_tx_result = \<lparr>res_exit_reason = default_exit_reason, res_logs = [],
     res_gas_report = default_gas_report\<rparr>"

section \<open>Functions of other crates\<close>

text \<open>The request a deposit transaction is made of.\<close>

record deposit_request =
  dep_from :: "address option"
  dep_to :: "address option"
  dep_gas :: "u256 option"
  dep_gas_price :: "u256 option"
  dep_value :: "u256 option"
  dep_data :: "bytes option"
  dep_nonce :: "u256 option"
  dep_chain_id :: "u64 option"
  dep_source_hash :: h256
  dep_mint :: "u256 option"
  dep_is_system_tx :: bool

record eth_lib =
  rlp_decode :: "bytes \<Rightarrow> transaction option"
  recover_from :: "transaction \<Rightarrow> address option"
  transaction_hash :: "transaction \<Rightarrow> h256"
  keccak256 :: "bytes \<Rightarrow> h256"
  deposit_rlp :: "deposit_request \<Rightarrow> bytes"

text \<open>The type byte of a deposit transaction.\<close>

definition deposit_type :: u64 where
  "deposit_type = 0x7E"

end
