(* ===== verification/Tx_Parser.thy ===== *)
theory Tx_Parser
  imports Eth_Types
begin

text \<open>
  \<^verbatim>\<open>rome-evm-client/src/indexer/parsers/tx_parser.rs\<close>: what the block parser finds of
  an EVM transaction in one Solana transaction (\<open>parsed_tx_step\<close>), the steps of one slot
  by transaction hash and Solana transaction index, and the trait \<^verbatim>\<open>TxParser\<close> as a
  record of operations with the locale \<open>tx_parser_trait\<close> stating its contract.
\<close>

datatype parsed_tx_step =
    SmallTx transaction "tx_result option"
  | BigTx "tx_result option"
  | TransmitTx nat bytes

fun step_result :: "parsed_tx_step \<Rightarrow> tx_result option" where
  "step_result (SmallTx tx r) = r"
| "step_result (BigTx r) = r"
| "step_result (TransmitTx offset data) = None"

type_synonym tx_steps = "(nat, parsed_tx_step) btree"
type_synonym parsed_txs = "(h256, tx_steps) hmap"

text \<open>The representation invariant of the steps of a slot.\<close>

definition parsed_txs_ok :: "parsed_txs \<Rightarrow> bool" where
  "parsed_txs_ok m \<longleftrightarrow> hm_ok m \<and> (\<forall>(h, steps) \<in> set m. bt_ok steps)"

text \<open>The step recorded for a transaction hash and a Solana transaction index.\<close>

definition step_at :: "parsed_txs \<Rightarrow> h256 \<Rightarrow> nat \<Rightarrow> parsed_tx_step option" where
  "step_at m h i = Option.bind (map_of m h) (\<lambda>steps. map_of steps i)"

text \<open>
  The block parser records a step with
  \<^verbatim>\<open>entry(hash).or_default().entry(tx_idx).or_insert(step)\<close>: the first step of a
  transaction in a Solana transaction stays.
\<close>

definition insert_step :: "h256 \<Rightarrow> nat \<Rightarrow> parsed_tx_step \<Rightarrow> parsed_txs \<Rightarrow> parsed_txs" where
  "insert_step h i st m = kv_modify hm_insert h [] (kv_or_insert bt_insert i st) m"

lemma parsed_txs_ok_lookup:
  "parsed_txs_ok m \<Longrightarrow> map_of m h = Some steps \<Longrightarrow> bt_ok steps"
  by (auto simp: parsed_txs_ok_def dest: map_of_SomeD)

lemma parsed_txs_ok_hm [simp]: "parsed_txs_ok m \<Longrightarrow> hm_ok m"
  by (simp add: parsed_txs_ok_def)

lemma parsed_txs_ok_Nil [simp]: "parsed_txs_ok []"
  by (simp add: parsed_txs_ok_def)

lemma set_hm_insert: "set (hm_insert k v m) \<subseteq> insert (k, v) (set m)"
  by (induction k v m rule: hm_insert.induct) auto

lemma parsed_txs_ok_insert_step:
  assumes "parsed_txs_ok m"
  shows "parsed_txs_ok (insert_step h i st m)"
proof -
  let ?v = "kv_or_insert bt_insert i st (case map_of m h of None \<Rightarrow> [] | Some v \<Rightarrow> v)"
  have "bt_ok ?v"
    using assms by (auto intro!: bt.ok_or_insert dest: parsed_txs_ok_lookup split: option.split)
  moreover have "set (insert_step h i st m) \<subseteq> insert (h, ?v) (set m)"
    using set_hm_insert by (simp add: insert_step_def kv_modify_def)
  ultimately show ?thesis
    using assms by (auto simp: parsed_txs_ok_def insert_step_def intro: hm.ok_modify)
qed

lemma step_at_insert_step:
  assumes "parsed_txs_ok m"
  shows "step_at (insert_step h i st m) h' i' =
    (if h' = h \<and> i' = i \<and> step_at m h i = None then Some st else step_at m h' i')"
proof -
  have "map_of (insert_step h i st m) h' =
    (if h' = h then Some (kv_or_insert bt_insert i st
        (case map_of m h of None \<Rightarrow> [] | Some v \<Rightarrow> v)) else map_of m h')"
    using assms by (simp add: insert_step_def hm.lookup_modify)
  moreover have "bt_ok (case map_of m h of None \<Rightarrow> [] | Some v \<Rightarrow> v)"
    using assms by (auto dest: parsed_txs_ok_lookup split: option.split)
  ultimately show ?thesis
    by (auto simp: step_at_def bt.lookup_or_insert split: option.splits)
qed

section \<open>The trait TxParser\<close>

text \<open>
  The operations the block parser calls.  A failing \<open>register\<close> leaves the state it
  reached, since the code goes on with it.
\<close>

record 'p tx_parser_ops =
  register_slot_transactions :: "'p \<Rightarrow> slot \<Rightarrow> parsed_txs \<Rightarrow> 'p \<times> unit res"
  is_slot_complete :: "'p \<Rightarrow> slot \<Rightarrow> bool res"
  finalize_slot :: "'p \<Rightarrow> slot \<Rightarrow> (transaction \<times> tx_result) list res"
  retain_from_slot :: "'p \<Rightarrow> slot \<Rightarrow> 'p"

text \<open>
  The contract: \<open>ok\<close> is the state invariant, \<open>results\<close> the results the parser holds
  for a slot, a transaction hash and a Solana transaction index.  Registering a slot
  replaces exactly the results of that slot by the ones given; after it succeeded, asking
  whether the slot is complete does not panic, and a slot that is complete finalizes to
  the transactions that have results in it unless a transaction does not decode.  A parser
  is \<open>closed\<close> when it knows the transaction of every result; registering, even when it
  fails, keeps it so, and then no slot makes the question panic.
\<close>

locale tx_parser_trait =
  fixes ops :: "'p tx_parser_ops"
    and ok :: "'p \<Rightarrow> bool"
    and closed :: "'p \<Rightarrow> bool"
    and results :: "'p \<Rightarrow> slot \<Rightarrow> h256 \<Rightarrow> nat \<Rightarrow> tx_result option option"
    and decode_error :: "rome_error \<Rightarrow> bool"
  assumes ok_register:
      "ok p \<Longrightarrow> parsed_txs_ok txs \<Longrightarrow> ok (fst (register_slot_transactions ops p s txs))"
    and ok_retain: "ok p \<Longrightarrow> ok (retain_from_slot ops p s)"
    and results_register:
      "ok p \<Longrightarrow> parsed_txs_ok txs \<Longrightarrow> register_slot_transactions ops p s txs = (p', Ok ()) \<Longrightarrow>
       results p' s' h i =
         (if s' = s then map_option step_result (step_at txs h i) else results p s' h i)"
    and complete_no_panic:
      "ok p \<Longrightarrow> parsed_txs_ok txs \<Longrightarrow> register_slot_transactions ops p s txs = (p', Ok ()) \<Longrightarrow>
       \<not> is_panic (is_slot_complete ops p' s)"
    and closed_register:
      "ok p \<Longrightarrow> closed p \<Longrightarrow> parsed_txs_ok txs \<Longrightarrow>
       closed (fst (register_slot_transactions ops p s txs))"
    and closed_no_panic: "ok p \<Longrightarrow> closed p \<Longrightarrow> \<not> is_panic (is_slot_complete ops p s)"
    and complete_finalizes:
      "ok p \<Longrightarrow> is_slot_complete ops p s = Ok True \<Longrightarrow>
       (\<exists>out. finalize_slot ops p s = Ok out) \<or>
       (\<exists>e. finalize_slot ops p s = Err e \<and> decode_error e)"
    and finalize_results:
      "ok p \<Longrightarrow> finalize_slot ops p s = Ok out \<Longrightarrow> (t, r) \<in> set out \<Longrightarrow>
       \<exists>h i. results p s h i = Some (Some r)"
    and results_retain:
      "ok p \<Longrightarrow> results (retain_from_slot ops p from) s h i =
         (if from \<le> s then results p s h i else None)"
begin

lemma finalize_not_incomplete:
  assumes "ok p" and "is_slot_complete ops p s = Ok True" and "finalize_slot ops p s = Err e"
  shows "decode_error e"
  using complete_finalizes [OF assms(1,2)] assms(3) by auto

lemma finalize_no_panic:
  assumes "ok p" and "is_slot_complete ops p s = Ok True"
  shows "\<not> is_panic (finalize_slot ops p s)"
  using complete_finalizes [OF assms] by auto

lemma registered_result_finalized:
  assumes "ok p" and "parsed_txs_ok txs"
    and "register_slot_transactions ops p s txs = (p', Ok ())"
    and "finalize_slot ops p' s = Ok out" and "(t, r) \<in> set out"
  shows "\<exists>h i st. step_at txs h i = Some st \<and> step_result st = Some r"
proof -
  have "ok p'" using ok_register [OF assms(1,2), of s] assms(3) by simp
  from finalize_results [OF this assms(4,5)] obtain h i where "results p' s h i = Some (Some r)"
    by blast
  then show ?thesis using results_register [OF assms(1-3), of s h i] by auto
qed

end

end
