(* ===== verification/Chunks.thy ===== *)
theory Chunks
  imports Rome_Prelude
begin

text \<open>
  \<^verbatim>\<open>rome-utils/src/iter.rs\<close>: \<open>into_chunks\<close> splits a vector into consecutive
  chunks.  The transmit transaction cuts an EVM transaction into such chunks and the
  address lookup table transaction its keys; what they rely on is proved here: nothing
  is lost or reordered, no chunk is empty or longer than asked for, only the last one is
  shorter.
\<close>

text \<open>
  The \<^verbatim>\<open>while !vec.is_empty()\<close> loop: \<^verbatim>\<open>vec.drain(..chunk_size.min(vec.len()))\<close>.
  The loop is entered with a positive \<open>chunk_size\<close> only.
\<close>

function chunks_loop :: "nat \<Rightarrow> 'a list \<Rightarrow> 'a list list" where
  "chunks_loop chunk_size vec =
     (if vec = [] \<or> chunk_size = 0 then []
      else take (min chunk_size (length vec)) vec #
           chunks_loop chunk_size (drop (min chunk_size (length vec)) vec))"
  by pat_completeness auto
termination
  by (relation "measure (\<lambda>(n, xs). length xs)") auto

declare chunks_loop.simps [simp del]

definition into_chunks :: "'a list \<Rightarrow> nat \<Rightarrow> 'a list list res" where
  "into_chunks vec chunk_size =
     (if chunk_size = 0 then Panic ''chunk_size must be greater than 0''
      else Ok (chunks_loop chunk_size vec))"

text \<open>Each chunk with the number of elements before it.\<close>

fun with_offsets :: "nat \<Rightarrow> 'a list list \<Rightarrow> (nat \<times> 'a list) list" where
  "with_offsets off [] = []"
| "with_offsets off (c # cs) = (off, c) # with_offsets (off + length c) cs"

lemma chunks_loop_Nil [simp]: "chunks_loop n [] = []"
  by (simp add: chunks_loop.simps)

lemma drop_min_length [simp]: "drop (min n (length xs)) xs = drop n xs"
  by (simp add: min_def)

lemma chunks_loop_step:
  "xs \<noteq> [] \<Longrightarrow> 0 < n \<Longrightarrow> chunks_loop n xs = take n xs # chunks_loop n (drop n xs)"
  by (subst chunks_loop.simps) (simp add: min_def)

lemma concat_chunks_loop: "0 < n \<Longrightarrow> concat (chunks_loop n xs) = xs"
proof (induction n xs rule: chunks_loop.induct)
  case (1 n xs)
  show ?case
  proof (cases "xs = []")
    case True
    then show ?thesis by simp
  next
    case False
    with 1 show ?thesis by (simp add: chunks_loop_step)
  qed
qed

lemma chunk_lengths:
  "0 < n \<Longrightarrow> c \<in> set (chunks_loop n xs) \<Longrightarrow> c \<noteq> [] \<and> length c \<le> n"
proof (induction n xs rule: chunks_loop.induct)
  case (1 n xs)
  show ?case
  proof (cases "xs = []")
    case True
    with 1 show ?thesis by simp
  next
    case False
    with 1 show ?thesis by (auto simp: chunks_loop_step)
  qed
qed

text \<open>Chunk number \<open>i\<close> is the slice that starts at \<open>i * n\<close>.\<close>

lemma nth_chunks_loop:
  "0 < n \<Longrightarrow> i < length (chunks_loop n xs) \<Longrightarrow> chunks_loop n xs ! i = take n (drop (i * n) xs)"
proof (induction n xs arbitrary: i rule: chunks_loop.induct)
  case (1 n xs)
  have ne: "xs \<noteq> []" using 1 by auto
  show ?case
  proof (cases i)
    case 0
    with 1 ne show ?thesis by (simp add: chunks_loop_step)
  next
    case (Suc j)
    with 1 ne show ?thesis
      by (simp add: chunks_loop_step add.commute)
  qed
qed

lemma length_chunks_loop:
  "0 < n \<Longrightarrow> length (chunks_loop n xs) = (length xs + n - 1) div n"
proof (induction n xs rule: chunks_loop.induct)
  case (1 n xs)
  show ?case
  proof (cases "xs = []")
    case True
    with 1 show ?thesis by simp
  next
    case False
    then have pos: "0 < length xs" by simp
    have IH: "length (chunks_loop n (drop n xs)) = (length xs - n + n - 1) div n"
      using 1 False by simp
    show ?thesis
    proof (cases "n \<le> length xs")
      case True
      have "length xs + n - 1 = (length xs - n + n - 1) + n" using True pos by simp
      then have "(length xs + n - 1) div n = (length xs - n + n - 1) div n + 1"
        using "1.prems" by (simp only: div_add_self2)
      with IH False "1.prems" show ?thesis by (simp add: chunks_loop_step)
    next
      case F: False
      have "(length xs + n - 1) div n = 1"
        using F False "1.prems" by (cases xs) (auto intro!: div_nat_eqI)
      with F IH False "1.prems" show ?thesis by (simp add: chunks_loop_step)
    qed
  qed
qed

lemma concat_with_offsets [simp]: "concat (map snd (with_offsets off cs)) = concat cs"
  by (induction off cs rule: with_offsets.induct) auto

lemma with_offsets_ge: "(o', c) \<in> set (with_offsets off cs) \<Longrightarrow> off \<le> o'"
  by (induction off cs rule: with_offsets.induct) force+

text \<open>A chunk at its offset is the slice of the whole that it was cut from.\<close>

lemma with_offsets_slice:
  "(o', c) \<in> set (with_offsets off cs) \<Longrightarrow>
     o' - off + length c \<le> length (concat cs) \<and>
     take (length c) (drop (o' - off) (concat cs)) = c"
proof (induction off cs rule: with_offsets.induct)
  case (1 off)
  then show ?case by simp
next
  case (2 off c1 cs)
  show ?case
  proof (cases "(o', c) = (off, c1)")
    case True
    then show ?thesis by simp
  next
    case False
    then have m: "(o', c) \<in> set (with_offsets (off + length c1) cs)" using 2 by auto
    then have ge: "off + length c1 \<le> o'" by (rule with_offsets_ge)
    have "o' - off = length c1 + (o' - (off + length c1))" using ge by simp
    then show ?thesis using "2.IH" [OF m] by simp
  qed
qed

text \<open>Every position of the whole lies in some chunk.\<close>

lemma with_offsets_cover:
  "j < length (concat cs) \<Longrightarrow>
     \<exists>o' c. (o', c) \<in> set (with_offsets off cs) \<and> o' \<le> off + j \<and> off + j < o' + length c"
proof (induction off cs arbitrary: j rule: with_offsets.induct)
  case (1 off)
  then show ?case by simp
next
  case (2 off c cs)
  show ?case
  proof (cases "j < length c")
    case True
    then show ?thesis by (intro exI [of _ off] exI [of _ c]) simp
  next
    case False
    then have "j - length c < length (concat cs)" using 2 by auto
    from "2.IH" [OF this] obtain o' c' where
      "(o', c') \<in> set (with_offsets (off + length c) cs)"
      "o' \<le> off + length c + (j - length c)" "off + length c + (j - length c) < o' + length c'"
      by blast
    with False show ?thesis by (intro exI [of _ o'] exI [of _ c']) simp
  qed
qed

end
