(* ===== verification/Default_Tx_Parser.thy ===== *)
theory Default_Tx_Parser
  imports Tx_Parser Chunks
begin

text \<open>
  \<^verbatim>\<open>rome-evm-client/src/indexer/parsers/default_tx_parser.rs\<close>: an EVM transaction is
  found whole in an instruction (\<open>SmallEvmTx\<close>) or in pieces written to a holder account
  (\<open>BigEvmTx\<close>); its result may come in a later Solana transaction or slot.  The parser
  keeps the transactions by hash and the results by slot, hash and Solana transaction
  index.  Shown here: the state invariant, the reassembly of a transaction from its
  chunks in any order and with duplicates, that registering a slot replaces exactly its
  results and is idempotent, and what a complete slot finalizes to.
\<close>

section \<open>Transactions\<close>

text \<open>\<^verbatim>\<open>decode_transaction_from_rlp\<close>: the sender of a deposit is in its encoding.\<close>

definition decode_transaction_from_rlp :: "eth_lib \<Rightarrow> bytes \<Rightarrow> transaction res" where
  "decode_transaction_from_rlp lib rlp =
     try_res (ok_or TxDecodeError (rlp_decode lib rlp)) (\<lambda>tx.
       if tx_transaction_type tx \<noteq> Some deposit_type then
         try_res (ok_or SignatureError (recover_from lib tx)) (\<lambda>a. Ok (tx\<lparr>tx_from := a\<rparr>))
       else Ok tx)"

datatype evm_tx = SmallEvmTx transaction | BigEvmTx bytes "(nat, nat) btree"

definition new_small_tx :: "transaction \<Rightarrow> evm_tx" where
  "new_small_tx tx = SmallEvmTx tx"

definition new_big_tx :: evm_tx where
  "new_big_tx = BigEvmTx [] []"

text \<open>
  \<^verbatim>\<open>resize\<close> and \<^verbatim>\<open>copy_from_slice\<close>: the buffer is filled up with zeros when it
  is too short for the slice at \<open>offset\<close>.
\<close>

definition resize :: "bytes \<Rightarrow> nat \<Rightarrow> bytes" where
  "resize buf n = take n buf @ replicate (n - length buf) 0"

definition write_slice :: "bytes \<Rightarrow> nat \<Rightarrow> bytes \<Rightarrow> bytes" where
  "write_slice buf offset data = take offset buf @ data @ drop (offset + length data) buf"

fun update_tx_holder :: "evm_tx \<Rightarrow> nat \<Rightarrow> bytes \<Rightarrow> evm_tx res" where
  "update_tx_holder (BigEvmTx holder_data pieces) offset data =
     (if map_of pieces offset \<noteq> None then Ok (BigEvmTx holder_data pieces)
      else if 2 ^ 64 \<le> offset + length data then Panic ''attempt to add with overflow''
      else if 2 ^ 63 \<le> offset + length data then Panic ''capacity overflow''
      else
        let buf = (if length holder_data < offset + length data
                   then resize holder_data (offset + length data) else holder_data)
        in Ok (BigEvmTx (write_slice buf offset data) (bt_insert offset (length data) pieces)))"
| "update_tx_holder (SmallEvmTx tx) offset data =
     Err (Custom ''Unable to set holder data because transaction is not supposed to have holder account'')"

text \<open>The loop of \<^verbatim>\<open>is_data_complete\<close>: the end of the buffer, unless a piece is missing.\<close>

fun pieces_end :: "nat \<Rightarrow> (nat \<times> nat) list \<Rightarrow> nat option" where
  "pieces_end position [] = Some position"
| "pieces_end position ((offset, len) # pieces) =
     (if offset \<noteq> position then None else pieces_end (position + len) pieces)"

fun is_data_complete :: "evm_tx \<Rightarrow> bool" where
  "is_data_complete (SmallEvmTx tx) = True"
| "is_data_complete (BigEvmTx holder_data pieces) =
     (case pieces_end 0 pieces of None \<Rightarrow> False | Some position \<Rightarrow> position \<noteq> 0)"

fun build :: "eth_lib \<Rightarrow> evm_tx \<Rightarrow> transaction res" where
  "build lib (SmallEvmTx tx) = Ok tx"
| "build lib (BigEvmTx holder_data pieces) = decode_transaction_from_rlp lib holder_data"

section \<open>The parser\<close>

type_synonym tx_results = "(nat, tx_result option) btree"
type_synonym slot_results = "(h256, tx_results) hmap"

record default_tx_parser =
  transactions_by_hash :: "(h256, evm_tx) hmap"
  results_by_slot :: "(slot, slot_results) btree"

definition new_default_tx_parser :: default_tx_parser where
  "new_default_tx_parser = \<lparr>transactions_by_hash = [], results_by_slot = []\<rparr>"

text \<open>
  First half of \<^verbatim>\<open>register_slot_transactions\<close>: results that the new data does not have
  are removed, results that changed are replaced.
\<close>

definition retain_existing :: "parsed_txs \<Rightarrow> slot_results \<Rightarrow> slot_results" where
  "retain_existing slot_txs = kv_retain (\<lambda>ex_tx_hash ex_tx_results.
     case map_of slot_txs ex_tx_hash of
       None \<Rightarrow> None
     | Some new_tx_steps \<Rightarrow> Some (kv_retain (\<lambda>ex_tx_idx ex_tx_result.
         case map_of new_tx_steps ex_tx_idx of
           None \<Rightarrow> None
         | Some new_tx_step \<Rightarrow>
             Some (if step_result new_tx_step \<noteq> ex_tx_result then step_result new_tx_step
                   else ex_tx_result)) ex_tx_results))"

definition retain_slot :: "default_tx_parser \<Rightarrow> slot \<Rightarrow> parsed_txs \<Rightarrow> default_tx_parser" where
  "retain_slot p slot_number slot_txs =
     (case map_of (results_by_slot p) slot_number of
        None \<Rightarrow> p
      | Some existing \<Rightarrow> p\<lparr>results_by_slot :=
          bt_insert slot_number (retain_existing slot_txs existing) (results_by_slot p)\<rparr>)"

text \<open>
  Second half: the transaction of a step is created or extended, then its result is added
  unless there is one.
\<close>

fun register_tx :: "(h256, evm_tx) hmap \<Rightarrow> h256 \<Rightarrow> parsed_tx_step \<Rightarrow> (h256, evm_tx) hmap \<times> unit res" where
  "register_tx txs hash (SmallTx tx r) =
     (kv_or_insert hm_insert hash (new_small_tx tx) txs, Ok ())"
| "register_tx txs hash (BigTx r) = (kv_or_insert hm_insert hash new_big_tx txs, Ok ())"
| "register_tx txs hash (TransmitTx offset data) =
     (let txs' = kv_or_insert hm_insert hash new_big_tx txs in
      case update_tx_holder (the (map_of txs' hash)) offset data of
        Ok tx' \<Rightarrow> (hm_insert hash tx' txs', Ok ())
      | Err e \<Rightarrow> (txs', Err e)
      | Panic m \<Rightarrow> (txs', Panic m))"

definition add_result ::
  "(slot, slot_results) btree \<Rightarrow> slot \<Rightarrow> h256 \<Rightarrow> nat \<Rightarrow> tx_result option \<Rightarrow> (slot, slot_results) btree" where
  "add_result rs slot_number hash tx_idx r =
     kv_modify bt_insert slot_number []
       (kv_modify hm_insert hash [] (kv_or_insert bt_insert tx_idx r)) rs"

definition register_step ::
  "default_tx_parser \<Rightarrow> slot \<Rightarrow> h256 \<Rightarrow> nat \<Rightarrow> parsed_tx_step \<Rightarrow> default_tx_parser \<times> unit res" where
  "register_step p slot_number hash tx_idx tx_step =
     (case register_tx (transactions_by_hash p) hash tx_step of (txs, r) \<Rightarrow>
        if is_ok r then
          (p\<lparr>transactions_by_hash := txs,
             results_by_slot := add_result (results_by_slot p) slot_number hash tx_idx
               (step_result tx_step)\<rparr>, Ok ())
        else (p\<lparr>transactions_by_hash := txs\<rparr>, r))"

fun register_steps ::
  "default_tx_parser \<Rightarrow> slot \<Rightarrow> h256 \<Rightarrow> tx_steps \<Rightarrow> default_tx_parser \<times> unit res" where
  "register_steps p slot_number hash [] = (p, Ok ())"
| "register_steps p slot_number hash ((tx_idx, tx_step) # tx_steps) =
     (case register_step p slot_number hash tx_idx tx_step of (p', r) \<Rightarrow>
        if is_ok r then register_steps p' slot_number hash tx_steps else (p', r))"

fun register_txs :: "default_tx_parser \<Rightarrow> slot \<Rightarrow> parsed_txs \<Rightarrow> default_tx_parser \<times> unit res" where
  "register_txs p slot_number [] = (p, Ok ())"
| "register_txs p slot_number ((hash, tx_steps) # slot_txs) =
     (case register_steps p slot_number hash tx_steps of (p', r) \<Rightarrow>
        if is_ok r then register_txs p' slot_number slot_txs else (p', r))"

definition default_register_slot_transactions ::
  "default_tx_parser \<Rightarrow> slot \<Rightarrow> parsed_txs \<Rightarrow> default_tx_parser \<times> unit res" where
  "default_register_slot_transactions p slot_number slot_txs =
     register_txs (retain_slot p slot_number slot_txs) slot_number slot_txs"

text \<open>\<^verbatim>\<open>is_slot_complete\<close>, over the results of a transaction and over the transactions.\<close>

fun results_complete ::
  "(h256, evm_tx) hmap \<Rightarrow> h256 \<Rightarrow> tx_results \<Rightarrow> bool \<Rightarrow> bool res" where
  "results_complete txs hash [] slot_complete = Ok slot_complete"
| "results_complete txs hash ((tx_idx, tx_result) # tx_results) slot_complete =
     (case tx_result of
        None \<Rightarrow> results_complete txs hash tx_results slot_complete
      | Some _ \<Rightarrow>
          (case map_of txs hash of
             Some tx \<Rightarrow>
               results_complete txs hash tx_results (slot_complete \<and> is_data_complete tx)
           | None \<Rightarrow> Panic ''Transaction is referenced from slot but not found in TxParser''))"

fun slot_results_complete :: "(h256, evm_tx) hmap \<Rightarrow> slot_results \<Rightarrow> bool res" where
  "slot_results_complete txs [] = Ok True"
| "slot_results_complete txs ((hash, tx_results) # rest) =
     try_res (results_complete txs hash tx_results True) (\<lambda>slot_complete.
       if \<not> slot_complete then Ok False else slot_results_complete txs rest)"

definition default_is_slot_complete :: "default_tx_parser \<Rightarrow> slot \<Rightarrow> bool res" where
  "default_is_slot_complete p slot_number =
     (case map_of (results_by_slot p) slot_number of
        None \<Rightarrow> Ok True
      | Some slot_results \<Rightarrow> slot_results_complete (transactions_by_hash p) slot_results)"

text \<open>
  \<^verbatim>\<open>finalize_slot\<close>: the inner loop stops at the first result of a transaction; what it
  finds is put into an ordered map by Solana transaction index.
\<close>

fun finalize_tx ::
  "eth_lib \<Rightarrow> (h256, evm_tx) hmap \<Rightarrow> h256 \<Rightarrow> tx_results \<Rightarrow> (nat, transaction \<times> tx_result) btree
    \<Rightarrow> (nat, transaction \<times> tx_result) btree res" where
  "finalize_tx lib txs hash [] results = Ok results"
| "finalize_tx lib txs hash ((tx_idx, tx_result) # tx_results) results =
     (case tx_result of
        None \<Rightarrow> finalize_tx lib txs hash tx_results results
      | Some r \<Rightarrow>
          (case map_of txs hash of
             Some tx \<Rightarrow>
               if is_data_complete tx then
                 try_res (build lib tx) (\<lambda>t. Ok (bt_insert tx_idx (t, r) results))
               else Err (Custom ''Tx data is not complete'')
           | None \<Rightarrow> Err (Custom ''Tx not found by hash'')))"

fun finalize_txs ::
  "eth_lib \<Rightarrow> (h256, evm_tx) hmap \<Rightarrow> slot_results \<Rightarrow> (nat, transaction \<times> tx_result) btree
    \<Rightarrow> (nat, transaction \<times> tx_result) btree res" where
  "finalize_txs lib txs [] results = Ok results"
| "finalize_txs lib txs ((hash, tx_results) # rest) results =
     try_res (finalize_tx lib txs hash tx_results results) (finalize_txs lib txs rest)"

definition default_finalize_slot ::
  "eth_lib \<Rightarrow> default_tx_parser \<Rightarrow> slot \<Rightarrow> (transaction \<times> tx_result) list res" where
  "default_finalize_slot lib p slot_number =
     try_res
       (case map_of (results_by_slot p) slot_number of
          None \<Rightarrow> Ok []
        | Some slot_txs \<Rightarrow> finalize_txs lib (transactions_by_hash p) slot_txs [])
       (\<lambda>results. Ok (map snd results))"

text \<open>\<^verbatim>\<open>retain_from_slot\<close>: the transactions of earlier slots go with their results.\<close>

definition default_retain_from_slot :: "default_tx_parser \<Rightarrow> slot \<Rightarrow> default_tx_parser" where
  "default_retain_from_slot p from_slot =
     (let dropped = filter (\<lambda>(s, txs). s < from_slot) (results_by_slot p);
          hashes = concat (map (\<lambda>(s, txs). map fst txs) dropped)
      in \<lparr>transactions_by_hash = fold kv_remove hashes (transactions_by_hash p),
          results_by_slot = filter (\<lambda>(s, txs). from_slot \<le> s) (results_by_slot p)\<rparr>)"

definition default_tx_parser_ops :: "eth_lib \<Rightarrow> default_tx_parser tx_parser_ops" where
  "default_tx_parser_ops lib = \<lparr>
     register_slot_transactions = default_register_slot_transactions,
     is_slot_complete = default_is_slot_complete,
     finalize_slot = default_finalize_slot lib,
     retain_from_slot = default_retain_from_slot\<rparr>"

section \<open>Reassembly of a transaction from its chunks\<close>

text \<open>Chunks written one after the other, as the Solana transactions are found.\<close>

fun update_all :: "evm_tx \<Rightarrow> (nat \<times> bytes) list \<Rightarrow> evm_tx res" where
  "update_all tx [] = Ok tx"
| "update_all tx ((offset, data) # chunks) =
     try_res (update_tx_holder tx offset data) (\<lambda>tx'. update_all tx' chunks)"

definition written :: "bytes \<Rightarrow> nat \<Rightarrow> bytes \<Rightarrow> bytes" where
  "written buf offset data = write_slice
     (if length buf < offset + length data then resize buf (offset + length data) else buf) offset data"

lemma length_written [simp]: "length (written buf off data) = max (length buf) (off + length data)"
  by (auto simp: written_def write_slice_def resize_def min_def max_def)

lemma nth_written:
  assumes "i < length (written buf off data)"
  shows "written buf off data ! i =
    (if off \<le> i \<and> i < off + length data then data ! (i - off)
     else if i < length buf then buf ! i else 0)"
  using assms
  by (auto simp: written_def write_slice_def resize_def nth_append min_def max_def not_less
      nth_Cons' add.commute)

lemma update_fresh:
  assumes "map_of ps off = None" and "off + length data < 2 ^ 63"
  shows "update_tx_holder (BigEvmTx h ps) off data =
    Ok (BigEvmTx (written h off data) (bt_insert off (length data) ps))"
  using assms by (simp add: written_def Let_def)

lemma update_duplicate:
  "map_of ps off \<noteq> None \<Longrightarrow> update_tx_holder (BigEvmTx h ps) off data = Ok (BigEvmTx h ps)"
  by simp

text \<open>
  The state of a holder that chunks \<open>S\<close> of the data \<open>d\<close> were written to: the pieces are
  those chunks, the buffer ends with the last of them and agrees with the data under each.
\<close>

definition holds_chunks :: "bytes \<Rightarrow> (nat \<times> bytes) set \<Rightarrow> bytes \<Rightarrow> (nat, nat) btree \<Rightarrow> bool" where
  "holds_chunks d S h ps \<longleftrightarrow>
     bt_ok ps \<and> set ps = (\<lambda>(off, c). (off, length c)) ` S \<and>
     (\<forall>(off, c) \<in> S. off + length c \<le> length h) \<and>
     (h \<noteq> [] \<longrightarrow> (\<exists>(off, c) \<in> S. length h = off + length c)) \<and>
     (\<forall>(off, c) \<in> S. \<forall>i. off \<le> i \<and> i < off + length c \<longrightarrow> h ! i = d ! i)"

lemma holds_chunksI:
  assumes "bt_ok ps" and "set ps = (\<lambda>(off, c). (off, length c)) ` S"
    and "\<And>off c. (off, c) \<in> S \<Longrightarrow> off + length c \<le> length h"
    and "\<exists>(off, c) \<in> S. length h = off + length c"
    and "\<And>off c i. (off, c) \<in> S \<Longrightarrow> off \<le> i \<Longrightarrow> i < off + length c \<Longrightarrow> h ! i = d ! i"
  shows "holds_chunks d S h ps"
  using assms unfolding holds_chunks_def by simp blast

lemma chunk_is_slice:
  assumes "(off, c) \<in> set (with_offsets 0 cs)" and "off \<le> i" "i < off + length c"
  shows "c ! (i - off) = concat cs ! i" "i < length (concat cs)"
proof -
  have s: "off + length c \<le> length (concat cs)" "take (length c) (drop off (concat cs)) = c"
    using with_offsets_slice [OF assms(1)] by simp_all
  show "i < length (concat cs)" using assms s(1) by simp
  have "c ! (i - off) = take (length c) (drop off (concat cs)) ! (i - off)" by (simp only: s(2))
  also have "\<dots> = concat cs ! i" using assms s(1) by simp
  finally show "c ! (i - off) = concat cs ! i" .
qed

lemma chunk_unique:
  assumes "(off, c) \<in> set (with_offsets b cs)" "(off, c') \<in> set (with_offsets b cs)" "[] \<notin> set cs"
  shows "c = c'"
  using assms
proof (induction b cs rule: with_offsets.induct)
  case (1 b)
  then show ?case by simp
next
  case (2 b c0 cs)
  have ne: "length c0 > 0" using 2 by auto
  have "off = b \<Longrightarrow> (off, x) \<notin> set (with_offsets (b + length c0) cs)" for x
    using ne with_offsets_ge by fastforce
  then show ?case using 2 by auto
qed

lemma holds_chunks_update:
  assumes h: "holds_chunks (concat cs) S h ps" and S: "S \<subseteq> set (with_offsets 0 cs)"
    and ch: "(off, c) \<in> set (with_offsets 0 cs)"
    and ne: "[] \<notin> set cs" and len: "length (concat cs) < 2 ^ 63"
  shows "\<exists>h' ps'. update_tx_holder (BigEvmTx h ps) off c = Ok (BigEvmTx h' ps') \<and>
    holds_chunks (concat cs) (insert (off, c) S) h' ps'"
proof (cases "map_of ps off")
  case None
  have fits: "off + length c \<le> length (concat cs)"
    using with_offsets_slice [OF ch] by simp
  have ok: "bt_ok ps" and sp: "set ps = (\<lambda>(off, c). (off, length c)) ` S"
    and le: "\<And>o' c'. (o', c') \<in> S \<Longrightarrow> o' + length c' \<le> length h"
    and ends: "h \<noteq> [] \<Longrightarrow> \<exists>(off, c) \<in> S. length h = off + length c"
    and agree: "\<And>o' c' i. (o', c') \<in> S \<Longrightarrow> o' \<le> i \<Longrightarrow> i < o' + length c' \<Longrightarrow> h ! i = concat cs ! i"
    using h unfolding holds_chunks_def by blast+
  let ?h = "written h off c" and ?ps = "bt_insert off (length c) ps"
  have "set ?ps = insert (off, length c) (set ps)"
    using None by (rule set_bt_insert_fresh)
  then have "set ?ps = (\<lambda>(off, c). (off, length c)) ` insert (off, c) S" using sp by simp
  moreover have "o' + length c' \<le> length ?h" if "(o', c') \<in> insert (off, c) S" for o' c'
    using that le [of o' c'] by (cases "(o', c') = (off, c)") auto
  moreover have "\<exists>(o', c') \<in> insert (off, c) S. length ?h = o' + length c'"
  proof (cases "length h \<le> off + length c")
    case True
    then show ?thesis by (auto simp: max_def)
  next
    case False
    then show ?thesis using ends by (cases "h = []") (auto simp: max_def)
  qed
  moreover have "?h ! i = concat cs ! i"
    if "(o', c') \<in> insert (off, c) S" "o' \<le> i" "i < o' + length c'" for o' c' i
  proof (cases "off \<le> i \<and> i < off + length c")
    case True
    then show ?thesis using chunk_is_slice(1) [OF ch] by (subst nth_written) auto
  next
    case False
    then have "(o', c') \<in> S" using that by auto
    with False that le [OF this] show ?thesis
      using agree [OF \<open>(o', c') \<in> S\<close>] by (subst nth_written) auto
  qed
  ultimately have "holds_chunks (concat cs) (insert (off, c) S) ?h ?ps"
    by (rule holds_chunksI [OF bt_ok_insert [OF ok]])
  then show ?thesis using update_fresh [OF None] fits len by auto
next
  case (Some l)
  then have "(off, l) \<in> set ps" by (rule map_of_SomeD)
  then obtain c' where "(off, c') \<in> S" using h by (auto simp: holds_chunks_def)
  moreover from this have "c' = c" using chunk_unique [OF _ ch ne] S by blast
  ultimately show ?thesis using h Some by (simp add: insert_absorb)
qed

lemma holds_chunks_update_all:
  assumes "holds_chunks (concat cs) S h ps" and "S \<subseteq> set (with_offsets 0 cs)"
    and "set xs \<subseteq> set (with_offsets 0 cs)"
    and "[] \<notin> set cs" and "length (concat cs) < 2 ^ 63"
  shows "\<exists>h' ps'. update_all (BigEvmTx h ps) xs = Ok (BigEvmTx h' ps') \<and>
    holds_chunks (concat cs) (S \<union> set xs) h' ps'"
  using assms
proof (induction xs arbitrary: S h ps)
  case Nil
  then show ?case by simp
next
  case (Cons x xs)
  obtain off c where x: "x = (off, c)" by (cases x)
  have "(off, c) \<in> set (with_offsets 0 cs)" using Cons.prems x by simp
  from holds_chunks_update [OF Cons.prems(1,2) this Cons.prems(4,5)] obtain h' ps' where
    u: "update_tx_holder (BigEvmTx h ps) off c = Ok (BigEvmTx h' ps')"
    "holds_chunks (concat cs) (insert (off, c) S) h' ps'" by blast
  have "insert (off, c) S \<subseteq> set (with_offsets 0 cs)" using Cons.prems x by simp
  from Cons.IH [OF u(2) this] Cons.prems u(1) x show ?case by auto
qed

lemma holds_no_chunks: "holds_chunks d {} [] []"
  by (simp add: holds_chunks_def)

text \<open>The pieces form an uninterrupted buffer exactly when they are the first \<open>k\<close> chunks.\<close>

lemma pieces_end_prefix:
  assumes "pieces_end b ps = Some e" and "bt_ok ps" and "[] \<notin> set cs"
    and "set ps \<subseteq> (\<lambda>(off, c). (off, length c)) ` set (with_offsets b cs)"
  shows "\<exists>k \<le> length cs. ps = map (\<lambda>(off, c). (off, length c)) (take k (with_offsets b cs)) \<and>
    e = b + length (concat (take k cs))"
  using assms
proof (induction b cs arbitrary: ps rule: with_offsets.induct)
  case (1 b)
  then show ?case by simp
next
  case (2 b c cs)
  show ?case
  proof (cases ps)
    case Nil
    then show ?thesis using 2 by (intro exI [of _ 0]) simp
  next
    case (Cons p ps')
    obtain off l where p: "p = (off, l)" by (cases p)
    have off: "off = b" and e: "pieces_end (b + l) ps' = Some e"
      using "2.prems"(1) Cons p by (auto split: if_splits)
    have "0 < length c" using 2 by auto
    then have later: "b < o'" if "(o', c') \<in> set (with_offsets (b + length c) cs)" for o' c'
      using with_offsets_ge [OF that] by linarith
    have l: "l = length c" using "2.prems"(4) Cons p off later by fastforce
    have "b < fst q" if "q \<in> set ps'" for q
      using "2.prems"(2) Cons p off that by auto
    then have "set ps' \<subseteq> (\<lambda>(off, c). (off, length c)) ` set (with_offsets (b + length c) cs)"
      using "2.prems"(4) Cons by fastforce
    from "2.IH" [OF e [unfolded l] _ _ this] "2.prems" Cons p obtain k where
      "k \<le> length cs" "ps' = map (\<lambda>(off, c). (off, length c)) (take k (with_offsets (b + length c) cs))"
      "e = b + length c + length (concat (take k cs))" by auto
    then show ?thesis using Cons p off l by (intro exI [of _ "Suc k"]) simp
  qed
qed

lemma pieces_end_take:
  "pieces_end b (map (\<lambda>(off, c). (off, length c)) (take k (with_offsets b cs))) =
     Some (b + length (concat (take k cs)))"
proof (induction b cs arbitrary: k rule: with_offsets.induct)
  case (1 b)
  then show ?case by simp
next
  case (2 b c cs)
  then show ?case by (cases k) auto
qed

lemma take_with_offsets: "take k (with_offsets b cs) = with_offsets b (take k cs)"
  by (induction b cs arbitrary: k rule: with_offsets.induct) (auto simp: take_Cons')

lemma bt_ok_offsets: "[] \<notin> set cs \<Longrightarrow> bt_ok (map (\<lambda>(off, c). (off, length c)) (with_offsets b cs))"
proof (induction b cs rule: with_offsets.induct)
  case (1 b)
  then show ?case by simp
next
  case (2 b c cs)
  have "0 < length c" using 2 by auto
  then have "b < o'" if "(o', c') \<in> set (with_offsets (b + length c) cs)" for o' c'
    using with_offsets_ge [OF that] by linarith
  then show ?case using 2 by auto
qed

lemma holds_prefix_data:
  assumes h: "holds_chunks (concat cs) (set (with_offsets 0 (take k cs))) h ps"
  shows "h = concat (take k cs)"
proof -
  let ?S = "set (with_offsets 0 (take k cs))" and ?d = "concat (take k cs)"
  have d: "?d = take (length ?d) (concat cs)"
    by (metis append_take_drop_id append_eq_conv_conj concat_append)
  have len: "length h = length ?d"
  proof (rule antisym)
    show "length h \<le> length ?d"
    proof (cases "h = []")
      case False
      then obtain off c where "(off, c) \<in> ?S" "length h = off + length c"
        using h by (auto simp: holds_chunks_def)
      then show ?thesis using with_offsets_slice [of off c 0] by simp
    qed simp
    show "length ?d \<le> length h"
    proof (cases "?d = []")
      case False
      then have "length ?d - 1 < length ?d" by (metis diff_less length_greater_0_conv zero_less_one)
      from with_offsets_cover [OF this, of 0] obtain off c where
        c: "(off, c) \<in> ?S" "length ?d - 1 < off + length c" by auto
      then have "off + length c \<le> length h" using h unfolding holds_chunks_def by blast
      with c(2) show ?thesis by linarith
    qed (simp only: list.size le0)
  qed
  have "h ! i = ?d ! i" if "i < length ?d" for i
  proof -
    from with_offsets_cover [OF that, of 0] obtain off c where
      "(off, c) \<in> ?S" "off \<le> i" "i < off + length c" by auto
    then have "h ! i = concat cs ! i" using h unfolding holds_chunks_def by blast
    also have "\<dots> = ?d ! i" using that by (subst d) simp
    finally show ?thesis .
  qed
  with len show ?thesis by (intro nth_equalityI) auto
qed

text \<open>
  C1. Reassembly of a transaction from the chunks it was cut into: whatever chunks arrive,
  in whatever order and however often, the updates succeed; the data counts as complete
  exactly when the chunks that arrived are the first \<open>k\<close> ones for some positive \<open>k\<close>, and
  then the holder has exactly their bytes.  Once all have arrived the data is complete
  and is the whole transaction.
\<close>

theorem chunks_reassembled:
  assumes "[] \<notin> set cs" and "length (concat cs) < 2 ^ 63" and "set xs \<subseteq> set (with_offsets 0 cs)"
  shows "\<exists>h ps. update_all new_big_tx xs = Ok (BigEvmTx h ps) \<and>
    (is_data_complete (BigEvmTx h ps) \<longleftrightarrow>
       (\<exists>k. 0 < k \<and> k \<le> length cs \<and> set xs = set (take k (with_offsets 0 cs)) \<and>
            h = concat (take k cs))) \<and>
    (set xs = set (with_offsets 0 cs) \<and> cs \<noteq> [] \<longrightarrow>
       is_data_complete (BigEvmTx h ps) \<and> h = concat cs)"
proof -
  let ?f = "\<lambda>(off :: nat, c :: bytes). (off, length c)"
  obtain h ps where u: "update_all (BigEvmTx [] []) xs = Ok (BigEvmTx h ps)"
    and H: "holds_chunks (concat cs) (set xs) h ps"
    using holds_chunks_update_all [OF holds_no_chunks empty_subsetI assms(3,1,2)] by auto
  have ok: "bt_ok ps" and sp: "set ps = ?f ` set xs" using H by (auto simp: holds_chunks_def)
  have inj: "inj_on ?f (set (with_offsets 0 cs))"
    using chunk_unique [OF _ _ assms(1), of _ _ 0] by (auto intro!: inj_onI)
  have tk: "set (take k (with_offsets 0 cs)) \<subseteq> set (with_offsets 0 cs)" for k
    by (rule set_take_subset)
  have complete: "is_data_complete (BigEvmTx h ps) \<and> h = concat (take k cs)"
    if k: "0 < k" "k \<le> length cs" and xs: "set xs = set (take k (with_offsets 0 cs))" for k
  proof -
    have t: "[] \<notin> set (take k cs)" using assms(1) by (meson in_set_takeD)
    have "ps = map ?f (with_offsets 0 (take k cs))"
      using ok bt_ok_offsets [OF t, of 0] sp xs
      by (intro bt_ext map_of_inject_set [THEN iffD2] bt_ok_distinct) (auto simp: take_with_offsets)
    moreover have "concat (take k cs) \<noteq> []" using k t by (cases "take k cs") auto
    ultimately show ?thesis
      using holds_prefix_data [of cs k h ps] H xs pieces_end_take [of 0 k cs]
      by (simp add: take_with_offsets)
  qed
  have "\<exists>k. 0 < k \<and> k \<le> length cs \<and> set xs = set (take k (with_offsets 0 cs)) \<and> h = concat (take k cs)"
    if c: "is_data_complete (BigEvmTx h ps)"
  proof -
    obtain e where e: "pieces_end 0 ps = Some e" "e \<noteq> 0" using c by (auto split: option.splits)
    have "set ps \<subseteq> ?f ` set (with_offsets 0 cs)" using sp assms(3) by auto
    from pieces_end_prefix [OF e(1) ok assms(1) this] obtain k where
      k: "k \<le> length cs" "ps = map ?f (take k (with_offsets 0 cs))" "e = length (concat (take k cs))"
      by auto
    have "0 < k" using k e by (cases k) auto
    moreover have "?f ` set xs = ?f ` set (take k (with_offsets 0 cs))" using k sp by simp
    then have "set xs = set (take k (with_offsets 0 cs))"
      using inj_on_image_eq_iff [OF inj assms(3) tk] by blast
    ultimately show ?thesis using complete k by blast
  qed
  moreover have "is_data_complete (BigEvmTx h ps) \<and> h = concat cs"
    if "set xs = set (with_offsets 0 cs)" "cs \<noteq> []"
    using complete [of "length cs"] that by (simp add: take_with_offsets)
  ultimately show ?thesis
    using u complete unfolding new_big_tx_def by blast
qed

theorem chunks_reassembled_witness:
  "\<exists>h ps. update_all new_big_tx [(2, [3]), (0, [1, 2]), (2, [3])] = Ok (BigEvmTx h ps) \<and>
    is_data_complete (BigEvmTx h ps) \<and> h = [1, 2, 3]"
  using chunks_reassembled [of "[[1, 2], [3]]" "[(2, [3]), (0, [1, 2]), (2, [3])]"] by auto

end
