(* ===== verification/Default_Tx_Parser_Facts.thy ===== *)
theory Default_Tx_Parser_Facts
  imports Default_Tx_Parser
begin

text \<open>
  The facts on \<open>default_tx_parser\<close>: its state invariant, the view of its results by slot,
  transaction hash and Solana transaction index (\<open>result_at\<close>), what each operation does to
  that view, and the interpretation of the contract \<open>tx_parser_trait\<close>.
\<close>

section \<open>Invariant and view\<close>

fun evm_tx_ok :: "evm_tx \<Rightarrow> bool" where
  "evm_tx_ok (SmallEvmTx tx) = True"
| "evm_tx_ok (BigEvmTx holder_data pieces) \<longleftrightarrow>
     bt_ok pieces \<and> length holder_data < 2 ^ 63 \<and>
     (\<forall>(offset, len) \<in> set pieces. offset + len \<le> length holder_data)"

definition slot_results_ok :: "slot_results \<Rightarrow> bool" where
  "slot_results_ok m \<longleftrightarrow> hm_ok m \<and> kv_all bt_ok m"

definition results_ok :: "(slot, slot_results) btree \<Rightarrow> bool" where
  "results_ok rs \<longleftrightarrow> bt_ok rs \<and> kv_all slot_results_ok rs"

definition parser_ok :: "default_tx_parser \<Rightarrow> bool" where
  "parser_ok p \<longleftrightarrow>
     hm_ok (transactions_by_hash p) \<and> kv_all evm_tx_ok (transactions_by_hash p) \<and>
     results_ok (results_by_slot p)"

definition results_at :: "(slot, slot_results) btree \<Rightarrow> slot \<Rightarrow> h256 \<Rightarrow> tx_results" where
  "results_at rs s h = (case map_of rs s of None \<Rightarrow> [] | Some m \<Rightarrow>
     (case map_of m h of None \<Rightarrow> [] | Some r \<Rightarrow> r))"

definition result_at :: "default_tx_parser \<Rightarrow> slot \<Rightarrow> h256 \<Rightarrow> nat \<Rightarrow> tx_result option option" where
  "result_at p s h i = map_of (results_at (results_by_slot p) s h) i"

lemma results_okD:
  assumes "results_ok rs"
  shows "bt_ok rs" "map_of rs s = Some m \<Longrightarrow> slot_results_ok m" "bt_ok (results_at rs s h)"
proof -
  show "bt_ok rs" using assms by (simp add: results_ok_def)
  show m: "map_of rs s = Some m \<Longrightarrow> slot_results_ok m" for m
    using assms by (auto simp: results_ok_def dest: kv_all_lookup)
  show "bt_ok (results_at rs s h)"
    by (auto simp: results_at_def slot_results_ok_def split: option.split
        dest!: m dest: kv_all_lookup)
qed

lemma results_ok_insert:
  "results_ok rs \<Longrightarrow> slot_results_ok m \<Longrightarrow> results_ok (bt_insert s m rs)"
  by (simp add: results_ok_def bt_ok_insert bt.kv_all_ins)

lemma slot_results_ok_modify:
  "slot_results_ok m \<Longrightarrow> (\<And>r. bt_ok r \<Longrightarrow> bt_ok (f r)) \<Longrightarrow> slot_results_ok (kv_modify hm_insert h [] f m)"
  unfolding slot_results_ok_def by (auto intro: hm.ok_modify hm.kv_all_modify)

lemma slot_results_ok_Nil: "slot_results_ok []"
  by (simp add: slot_results_ok_def)

lemma results_ok_add:
  assumes "results_ok rs"
  shows "results_ok (add_result rs s h i r)"
  using assms unfolding results_ok_def add_result_def
  by (auto intro!: bt.ok_modify bt.kv_all_modify slot_results_ok_Nil
      intro: slot_results_ok_modify bt.ok_or_insert)

lemma results_at_add:
  assumes "results_ok rs"
  shows "results_at (add_result rs s h i r) s' h' =
    (if s' = s \<and> h' = h then kv_or_insert bt_insert i r (results_at rs s h) else results_at rs s' h')"
proof -
  have "bt_ok rs" and "hm_ok (case map_of rs s of None \<Rightarrow> [] | Some v \<Rightarrow> v)"
    using results_okD [OF assms]
    by (auto simp: slot_results_ok_def split: option.split)
  then show ?thesis
    by (auto simp: results_at_def add_result_def bt.lookup_modify hm.lookup_modify split: option.splits)
qed

text \<open>A result that is there already is not added again.\<close>

lemma add_result_id:
  assumes "results_ok rs" and "map_of (results_at rs s h) i \<noteq> None"
  shows "add_result rs s h i r = rs"
proof -
  obtain m rr where m: "map_of rs s = Some m" "map_of m h = Some rr" "map_of rr i \<noteq> None"
    using assms(2) by (auto simp: results_at_def split: option.splits)
  have "slot_results_ok m" using results_okD(2) [OF assms(1) m(1)] .
  then have "kv_modify hm_insert h [] (kv_or_insert bt_insert i r) m = m"
    using m by (intro hm.modify_id) (auto simp: slot_results_ok_def bt.or_insert_id)
  then show ?thesis
    unfolding add_result_def using results_okD(1) [OF assms(1)] m(1) by (intro bt.modify_id)
qed

section \<open>Removing results that are gone\<close>

lemma bt_ok_retain: "bt_ok m \<Longrightarrow> bt_ok (kv_retain f m)"
  using bt.ok_subseq keys_retain_subseq by blast

lemma hm_ok_retain: "hm_ok m \<Longrightarrow> hm_ok (kv_retain f m)"
  using hm.ok_subseq keys_retain_subseq by blast

lemma slot_results_ok_retain:
  assumes "slot_results_ok m"
  shows "slot_results_ok (retain_existing txs m)"
proof -
  have "bt_ok r" if "(h, r) \<in> set m" for h r
    using assms that by (auto simp: slot_results_ok_def kv_all_def)
  then have "kv_all bt_ok (retain_existing txs m)"
    unfolding retain_existing_def
    by (intro kv_all_retain) (auto simp: bt_ok_retain split: option.splits)
  then show ?thesis
    using assms by (simp add: slot_results_ok_def retain_existing_def hm_ok_retain)
qed

lemma results_ok_retain_slot: "results_ok (results_by_slot p) \<Longrightarrow> results_ok (results_by_slot (retain_slot p s txs))"
  by (auto simp: retain_slot_def results_ok_insert slot_results_ok_retain results_okD
      split: option.split)

lemma lookup_retain_existing:
  assumes "slot_results_ok m"
  shows "(case map_of (retain_existing txs m) h of None \<Rightarrow> [] | Some r \<Rightarrow> r) =
    kv_retain (\<lambda>i r. map_option step_result (step_at txs h i))
      (case map_of m h of None \<Rightarrow> [] | Some r \<Rightarrow> r)"
proof -
  have hm: "distinct (map fst m)" using assms by (simp add: slot_results_ok_def hm.ok_distinct)
  have eq: "(\<lambda>i r. case map_of steps i of None \<Rightarrow> None
     | Some st \<Rightarrow> Some (if step_result st \<noteq> r then step_result st else r)) =
     (\<lambda>i r. map_option step_result (map_of steps i))" for steps
    by (auto simp: fun_eq_iff split: option.split)
  have none: "kv_retain (\<lambda>i r. None) rr = []" for rr :: "(nat \<times> tx_result option) list"
    by (induction rr) auto
  show ?thesis
    unfolding retain_existing_def lookup_retain [OF hm]
    by (auto simp: eq none step_at_def split: option.split)
qed

lemma results_at_retain_slot:
  assumes "results_ok (results_by_slot p)"
  shows "results_at (results_by_slot (retain_slot p s txs)) s' h =
    (if s' = s then kv_retain (\<lambda>i r. map_option step_result (step_at txs h i))
       (results_at (results_by_slot p) s h)
     else results_at (results_by_slot p) s' h)"
proof (cases "map_of (results_by_slot p) s")
  case None
  then show ?thesis by (simp add: retain_slot_def results_at_def)
next
  case (Some m)
  note ok = results_okD [OF assms]
  from lookup_retain_existing [OF ok(2) [OF Some], of txs h] Some ok(1) show ?thesis
    by (simp add: retain_slot_def results_at_def lookup_bt_insert)
qed

lemma result_at_retain_slot:
  assumes "results_ok (results_by_slot p)"
  shows "result_at (retain_slot p s txs) s' h i =
    (if s' = s then Option.bind (result_at p s h i) (\<lambda>_. map_option step_result (step_at txs h i))
     else result_at p s' h i)"
  using results_okD(3) [OF assms, of s h]
  by (simp add: result_at_def results_at_retain_slot [OF assms] lookup_retain bt_ok_distinct)

lemma transactions_retain_slot [simp]:
  "transactions_by_hash (retain_slot p s txs) = transactions_by_hash p"
  by (simp add: retain_slot_def split: option.split)

section \<open>Registering steps\<close>

lemma evm_tx_ok_update:
  assumes "evm_tx_ok t" and "update_tx_holder t off data = Ok t'"
  shows "evm_tx_ok t'"
proof (cases t)
  case (SmallEvmTx tx)
  then show ?thesis using assms by simp
next
  case (BigEvmTx h ps)
  show ?thesis
  proof (cases "map_of ps off")
    case None
    then have lt: "off + length data < 2 ^ 63"
      using assms(2) BigEvmTx by (auto split: if_splits)
    then have t': "t' = BigEvmTx (written h off data) (bt_insert off (length data) ps)"
      using update_fresh [OF None lt] assms(2) BigEvmTx by simp
    show ?thesis
      using assms(1) BigEvmTx lt unfolding t'
      by (auto simp: bt_ok_insert set_bt_insert_fresh [OF None])
  next
    case (Some l)
    then show ?thesis using assms BigEvmTx by auto
  qed
qed

definition txs_ok :: "(h256, evm_tx) hmap \<Rightarrow> bool" where
  "txs_ok txs \<longleftrightarrow> hm_ok txs \<and> kv_all evm_tx_ok txs"

lemma parser_ok_iff:
  "parser_ok p \<longleftrightarrow> txs_ok (transactions_by_hash p) \<and> results_ok (results_by_slot p)"
  by (simp add: parser_ok_def txs_ok_def)

lemma txs_ok_insert: "txs_ok txs \<Longrightarrow> evm_tx_ok t \<Longrightarrow> txs_ok (hm_insert h t txs)"
  by (simp add: txs_ok_def hm_ok_insert hm.kv_all_ins)

lemma txs_ok_or_insert: "txs_ok txs \<Longrightarrow> evm_tx_ok t \<Longrightarrow> txs_ok (kv_or_insert hm_insert h t txs)"
  by (simp add: kv_or_insert_def txs_ok_insert split: option.split)

lemma evm_tx_ok_new [simp]: "evm_tx_ok (new_small_tx tx)" "evm_tx_ok new_big_tx"
  by (simp_all add: new_small_tx_def new_big_tx_def)

lemma lookup_or_insert_some: "hm_ok txs \<Longrightarrow> map_of (kv_or_insert hm_insert h t txs) h \<noteq> None"
  by (simp add: hm.lookup_or_insert)

lemma txs_ok_register_tx:
  assumes "txs_ok txs"
  shows "txs_ok (fst (register_tx txs h st))"
proof (cases st)
  case (TransmitTx off data)
  let ?txs = "kv_or_insert hm_insert h new_big_tx txs"
  have ok: "txs_ok ?txs" using assms by (intro txs_ok_or_insert) simp_all
  obtain t where t: "map_of ?txs h = Some t"
    using lookup_or_insert_some [of txs h new_big_tx] assms unfolding txs_ok_def by blast
  have "evm_tx_ok t" using ok kv_all_lookup [OF _ t, of evm_tx_ok] by (simp add: txs_ok_def)
  then show ?thesis
    using ok t TransmitTx txs_ok_insert [OF ok evm_tx_ok_update [OF \<open>evm_tx_ok t\<close>]]
    by (simp add: Let_def split: res.split)
qed (use assms in \<open>simp_all add: txs_ok_or_insert\<close>)

text \<open>How the transaction of a hash may change: it appears, or its pieces grow.\<close>

definition tx_grows :: "evm_tx \<Rightarrow> evm_tx \<Rightarrow> bool" where
  "tx_grows t t' \<longleftrightarrow> (case t of
     SmallEvmTx tx \<Rightarrow> t' = t
   | BigEvmTx h ps \<Rightarrow> (\<exists>h' ps'. t' = BigEvmTx h' ps' \<and> dom (map_of ps) \<subseteq> dom (map_of ps')))"

definition txs_grow :: "(h256, evm_tx) hmap \<Rightarrow> (h256, evm_tx) hmap \<Rightarrow> bool" where
  "txs_grow txs txs' \<longleftrightarrow>
     (\<forall>h t. map_of txs h = Some t \<longrightarrow> (\<exists>t'. map_of txs' h = Some t' \<and> tx_grows t t'))"

lemma tx_grows_refl [simp]: "tx_grows t t"
  by (simp add: tx_grows_def split: evm_tx.split)

lemma tx_grows_trans: "tx_grows t t' \<Longrightarrow> tx_grows t' t'' \<Longrightarrow> tx_grows t t''"
  by (auto simp: tx_grows_def split: evm_tx.splits)

lemma txs_grow_refl [simp]: "txs_grow txs txs"
  by (simp add: txs_grow_def)

lemma txs_grow_trans: "txs_grow a b \<Longrightarrow> txs_grow b c \<Longrightarrow> txs_grow a c"
  unfolding txs_grow_def by (meson tx_grows_trans)

lemma txs_grow_or_insert: "hm_ok txs \<Longrightarrow> txs_grow txs (kv_or_insert hm_insert h t txs)"
  by (auto simp: txs_grow_def hm.lookup_or_insert)

lemma lookup_bt_insert_same: "\<exists>v'. map_of (bt_insert k v m) k = Some v'"
  using keys_bt_insert [of k v m] by (metis insertI1 map_of_eq_None_iff not_None_eq set_map)

lemma dom_bt_insert: "insert k (dom (map_of m)) = dom (map_of (bt_insert k v m))"
  by (simp add: dom_map_of_conv_image_fst keys_bt_insert)

lemma tx_grows_update: "update_tx_holder t off data = Ok t' \<Longrightarrow> tx_grows t t'"
  by (cases t) (auto simp: tx_grows_def Let_def dom_bt_insert [symmetric] split: if_splits)

lemma txs_grow_register_tx:
  assumes "txs_ok txs"
  shows "txs_grow txs (fst (register_tx txs h st))"
proof (cases st)
  case (TransmitTx off data)
  let ?txs = "kv_or_insert hm_insert h new_big_tx txs"
  have ok: "hm_ok txs" using assms by (simp add: txs_ok_def)
  obtain t where t: "map_of ?txs h = Some t" using lookup_or_insert_some [OF ok] by blast
  have "txs_grow ?txs (fst (register_tx txs h st))"
    using t TransmitTx
    by (auto simp: Let_def txs_grow_def lookup_hm_insert dest: tx_grows_update split: res.split)
  then show ?thesis using txs_grow_or_insert [OF ok] txs_grow_trans by blast
qed (use assms in \<open>simp_all add: txs_grow_or_insert txs_ok_def\<close>)

text \<open>The transactions know a step: registering it again changes nothing.\<close>

fun knows_step :: "(h256, evm_tx) hmap \<Rightarrow> h256 \<Rightarrow> parsed_tx_step \<Rightarrow> bool" where
  "knows_step txs h (TransmitTx off data) =
     (\<exists>d ps. map_of txs h = Some (BigEvmTx d ps) \<and> map_of ps off \<noteq> None)"
| "knows_step txs h _ = (map_of txs h \<noteq> None)"

lemma knows_step_found: "knows_step txs h st \<Longrightarrow> map_of txs h \<noteq> None"
  by (cases st) auto

lemma knows_step_grow: "knows_step txs h st \<Longrightarrow> txs_grow txs txs' \<Longrightarrow> knows_step txs' h st"
  by (cases st) (fastforce simp: txs_grow_def tx_grows_def)+

lemma update_ok_knows:
  "update_tx_holder t off data = Ok t' \<Longrightarrow> \<exists>d ps. t' = BigEvmTx d ps \<and> map_of ps off \<noteq> None"
  by (cases t) (auto simp: Let_def lookup_bt_insert_same split: if_splits)

lemma register_tx_knows:
  assumes "hm_ok txs" and "register_tx txs h st = (txs', Ok ())"
  shows "knows_step txs' h st"
  using assms
proof (cases st)
  case (TransmitTx off data)
  with assms show ?thesis
    by (auto simp: Let_def lookup_hm_insert dest: update_ok_knows split: res.splits)
qed (auto simp: hm.lookup_or_insert)

lemma register_tx_id:
  assumes "hm_ok txs" and "knows_step txs h st"
  shows "register_tx txs h st = (txs, Ok ())"
proof (cases st)
  case (TransmitTx off data)
  then obtain d ps where t: "map_of txs h = Some (BigEvmTx d ps)" "map_of ps off \<noteq> None"
    using assms(2) by auto
  then have "kv_or_insert hm_insert h new_big_tx txs = txs" by (intro hm.or_insert_id) simp
  then show ?thesis using TransmitTx t assms(1) by (simp add: hm_insert_same)
qed (use assms in \<open>auto simp: hm.or_insert_id\<close>)

text \<open>The two loops of the registration are one loop over the steps.\<close>

definition flat_steps :: "parsed_txs \<Rightarrow> (h256 \<times> nat \<times> parsed_tx_step) list" where
  "flat_steps txs = concat (map (\<lambda>(h, steps). map (Pair h) steps) txs)"

fun register_flat ::
  "default_tx_parser \<Rightarrow> slot \<Rightarrow> (h256 \<times> nat \<times> parsed_tx_step) list \<Rightarrow> default_tx_parser \<times> unit res" where
  "register_flat p s [] = (p, Ok ())"
| "register_flat p s ((h, i, st) # xs) =
     (case register_step p s h i st of (p', r) \<Rightarrow>
        if is_ok r then register_flat p' s xs else (p', r))"

lemma register_flat_append:
  "register_flat p s (xs @ ys) =
     (case register_flat p s xs of (p', r) \<Rightarrow>
        if is_ok r then register_flat p' s ys else (p', r))"
  by (induction p s xs rule: register_flat.induct) (auto split: prod.split)

lemma register_steps_flat:
  "register_steps p s h steps = register_flat p s (map (Pair h) steps)"
  by (induction p s h steps rule: register_steps.induct) (auto split: prod.split)

lemma register_txs_flat: "register_txs p s txs = register_flat p s (flat_steps txs)"
  by (induction p s txs rule: register_txs.induct)
    (auto simp: flat_steps_def register_flat_append register_steps_flat split: prod.split)

lemma parser_ok_register_step: "parser_ok p \<Longrightarrow> parser_ok (fst (register_step p s h i st))"
  using txs_ok_register_tx [of "transactions_by_hash p" h st]
  by (auto simp: parser_ok_iff register_step_def results_ok_add split: prod.split)

lemma parser_ok_register_flat: "parser_ok p \<Longrightarrow> parser_ok (fst (register_flat p s xs))"
proof (induction p s xs rule: register_flat.induct)
  case (2 p s h i st xs)
  then show ?case
    using parser_ok_register_step [of p s h i st] by (auto split: prod.splits)
qed simp

lemma result_at_register_step:
  assumes "parser_ok p" and "register_step p s h i st = (p', Ok ())"
  shows "result_at p' s' h' i' =
    (if s' = s \<and> h' = h \<and> i' = i \<and> result_at p s h i = None then Some (step_result st)
     else result_at p s' h' i')"
proof -
  have ok: "results_ok (results_by_slot p)" using assms(1) by (simp add: parser_ok_iff)
  have "results_by_slot p' = add_result (results_by_slot p) s h i (step_result st)"
    using assms(2) by (auto simp: register_step_def split: prod.splits if_splits)
  then show ?thesis
    using results_okD(3) [OF ok, of s h]
    by (auto simp: result_at_def results_at_add [OF ok] bt.lookup_or_insert)
qed

lemma register_step_Ok:
  assumes "parser_ok p" and "register_step p s h i st = (p', Ok ())"
  shows "txs_grow (transactions_by_hash p) (transactions_by_hash p')"
    and "knows_step (transactions_by_hash p') h st"
proof -
  have ok: "txs_ok (transactions_by_hash p)" using assms(1) by (simp add: parser_ok_iff)
  have "register_tx (transactions_by_hash p) h st = (transactions_by_hash p', Ok ())"
    using assms(2) by (auto simp: register_step_def is_ok_iff split: prod.splits if_splits)
  then show "txs_grow (transactions_by_hash p) (transactions_by_hash p')"
    and "knows_step (transactions_by_hash p') h st"
    using txs_grow_register_tx [OF ok, of h st] register_tx_knows ok by (auto simp: txs_ok_def)
qed

definition flat_lookup :: "(h256 \<times> nat \<times> parsed_tx_step) list \<Rightarrow> h256 \<Rightarrow> nat \<Rightarrow> parsed_tx_step option" where
  "flat_lookup xs h i = map_of (map (\<lambda>(h, i, st). ((h, i), st)) xs) (h, i)"

lemma flat_lookup_Cons:
  "flat_lookup ((h, i, st) # xs) h' i' = (if h' = h \<and> i' = i then Some st else flat_lookup xs h' i')"
  by (simp add: flat_lookup_def)

lemma register_flat_Ok:
  assumes "parser_ok p" and "register_flat p s xs = (p', Ok ())"
  shows "txs_grow (transactions_by_hash p) (transactions_by_hash p')"
    and "\<forall>(h, i, st) \<in> set xs. knows_step (transactions_by_hash p') h st"
    and "result_at p' s' h i = (if s' = s \<and> result_at p s h i = None
           then map_option step_result (flat_lookup xs h i) else result_at p s' h i)"
proof -
  have "txs_grow (transactions_by_hash p) (transactions_by_hash p') \<and>
    (\<forall>(h, i, st) \<in> set xs. knows_step (transactions_by_hash p') h st) \<and>
    (\<forall>s' h i. result_at p' s' h i = (if s' = s \<and> result_at p s h i = None
           then map_option step_result (flat_lookup xs h i) else result_at p s' h i))"
    using assms
  proof (induction p s xs rule: register_flat.induct)
    case (1 p s)
    then show ?case by (simp add: flat_lookup_def)
  next
    case (2 p s h i st xs)
    obtain p1 where p1: "register_step p s h i st = (p1, Ok ())" "register_flat p1 s xs = (p', Ok ())"
      using "2.prems"(2) by (auto simp: is_ok_iff split: prod.splits if_splits)
    have ok1: "parser_ok p1" using parser_ok_register_step [OF "2.prems"(1), of s h i st] p1 by simp
    note step = register_step_Ok [OF "2.prems"(1) p1(1)]
      and res = result_at_register_step [OF "2.prems"(1) p1(1)]
    have IH: "txs_grow (transactions_by_hash p1) (transactions_by_hash p')"
      "\<forall>(h, i, st) \<in> set xs. knows_step (transactions_by_hash p') h st"
      "\<And>s' h i. result_at p' s' h i = (if s' = s \<and> result_at p1 s h i = None
           then map_option step_result (flat_lookup xs h i) else result_at p1 s' h i)"
      using "2.IH" [OF p1(1) [symmetric]] p1(2) ok1 by auto
    then show ?case
      using step by (auto simp: flat_lookup_Cons res intro: txs_grow_trans knows_step_grow)
  qed
  then show "txs_grow (transactions_by_hash p) (transactions_by_hash p')"
    and "\<forall>(h, i, st) \<in> set xs. knows_step (transactions_by_hash p') h st"
    and "result_at p' s' h i = (if s' = s \<and> result_at p s h i = None
           then map_option step_result (flat_lookup xs h i) else result_at p s' h i)"
    by blast+
qed

lemma flat_lookup_append:
  "flat_lookup (xs @ ys) h i = (case flat_lookup xs h i of None \<Rightarrow> flat_lookup ys h i | Some st \<Rightarrow> Some st)"
  unfolding flat_lookup_def map_append map_of_append map_add_def by (rule refl)

lemma flat_lookup_steps:
  "flat_lookup (map (Pair h) steps) h' i = (if h' = h then map_of steps i else None)"
  by (induction steps) (auto simp: flat_lookup_def)

lemma flat_lookup_flat_steps:
  assumes "hm_ok txs"
  shows "flat_lookup (flat_steps txs) h i = step_at txs h i"
  using assms
proof (induction txs)
  case Nil
  then show ?case by (simp add: flat_steps_def flat_lookup_def step_at_def)
next
  case (Cons x txs)
  obtain h' steps where x: "x = (h', steps)" by (cases x)
  have fs: "flat_steps (x # txs) = map (Pair h') steps @ flat_steps txs"
    by (simp add: flat_steps_def x)
  have "map_of txs h' = None" using Cons.prems x by (simp add: map_of_eq_None_iff)
  then show ?case
    using Cons x
    by (auto simp: fs [unfolded x] flat_lookup_append flat_lookup_steps step_at_def split: option.split)
qed

text \<open>Registering steps that are all known, with their results, changes nothing.\<close>

lemma register_step_id:
  assumes "parser_ok p" and "knows_step (transactions_by_hash p) h st" and "result_at p s h i \<noteq> None"
  shows "register_step p s h i st = (p, Ok ())"
  using assms
  by (simp add: register_step_def parser_ok_iff txs_ok_def register_tx_id add_result_id result_at_def)

lemma register_flat_id:
  assumes "parser_ok p"
    and "\<forall>(h, i, st) \<in> set xs. knows_step (transactions_by_hash p) h st \<and> result_at p s h i \<noteq> None"
  shows "register_flat p s xs = (p, Ok ())"
  using assms by (induction p s xs rule: register_flat.induct) (auto simp: register_step_id)

section \<open>The whole registration\<close>

lemma parser_ok_retain_slot: "parser_ok p \<Longrightarrow> parser_ok (retain_slot p s txs)"
  by (simp add: parser_ok_iff results_ok_retain_slot)

lemma parser_ok_register:
  "parser_ok p \<Longrightarrow> parser_ok (fst (default_register_slot_transactions p s txs))"
  by (simp add: default_register_slot_transactions_def register_txs_flat parser_ok_register_flat
      parser_ok_retain_slot)

lemma result_at_register:
  assumes "parser_ok p" and "parsed_txs_ok txs"
    and "default_register_slot_transactions p s txs = (p', Ok ())"
  shows "result_at p' s' h i =
    (if s' = s then map_option step_result (step_at txs h i) else result_at p s' h i)"
proof -
  have "results_ok (results_by_slot p)" using assms(1) by (simp add: parser_ok_iff)
  note ret = result_at_retain_slot [OF this, of s txs]
  have "register_flat (retain_slot p s txs) s (flat_steps txs) = (p', Ok ())"
    using assms(3) by (simp add: default_register_slot_transactions_def register_txs_flat)
  from register_flat_Ok(3) [OF parser_ok_retain_slot [OF assms(1)] this, of s' h i] show ?thesis
    using assms(2)
    by (cases "step_at txs h i") (auto simp: ret flat_lookup_flat_steps bind_eq_None_conv
        split: Option.bind_splits)
qed

lemma registered_knows:
  assumes "parser_ok p" and "parsed_txs_ok txs"
    and "default_register_slot_transactions p s txs = (p', Ok ())"
    and "step_at txs h i = Some st"
  shows "knows_step (transactions_by_hash p') h st"
proof -
  have "register_flat (retain_slot p s txs) s (flat_steps txs) = (p', Ok ())"
    using assms(3) by (simp add: default_register_slot_transactions_def register_txs_flat)
  from register_flat_Ok(2) [OF parser_ok_retain_slot [OF assms(1)] this]
  have k: "\<forall>(h, i, st) \<in> set (flat_steps txs). knows_step (transactions_by_hash p') h st" .
  have "flat_lookup (flat_steps txs) h i = Some st"
    using assms(2,4) by (simp add: flat_lookup_flat_steps)
  then have "(h, i, st) \<in> set (flat_steps txs)"
    by (auto simp: flat_lookup_def dest!: map_of_SomeD)
  with k show ?thesis by auto
qed

lemma retain_slot_id:
  assumes "parser_ok p"
    and "\<And>h i. result_at p s h i = map_option step_result (step_at txs h i)"
    and "\<And>m h. map_of (results_by_slot p) s = Some m \<Longrightarrow> h \<in> fst ` set m \<Longrightarrow> map_of txs h \<noteq> None"
  shows "retain_slot p s txs = p"
proof (cases "map_of (results_by_slot p) s")
  case None
  then show ?thesis by (simp add: retain_slot_def)
next
  case (Some m)
  have ok: "results_ok (results_by_slot p)" using assms(1) by (simp add: parser_ok_iff)
  have m: "slot_results_ok m" by (rule results_okD(2) [OF ok Some])
  have "retain_existing txs m = m"
    unfolding retain_existing_def
  proof (rule kv_retain_id)
    fix h rr assume hr: "(h, rr) \<in> set m"
    have d: "distinct (map fst m)" and "bt_ok rr"
      using m hr by (auto simp: slot_results_ok_def hm.ok_distinct kv_all_def)
    have mh: "map_of m h = Some rr" using d hr by simp
    obtain steps where st: "map_of txs h = Some steps"
      using assms(3) [OF Some, of h] hr by force
    have "kv_retain (\<lambda>i r. case map_of steps i of None \<Rightarrow> None
        | Some st \<Rightarrow> Some (if step_result st \<noteq> r then step_result st else r)) rr = rr"
    proof (rule kv_retain_id)
      fix i r assume "(i, r) \<in> set rr"
      then have "map_of rr i = Some r" using \<open>bt_ok rr\<close> by (simp add: bt_ok_distinct)
      then have "map_option step_result (map_of steps i) = Some r"
        using assms(2) [of h i] Some mh st by (simp add: result_at_def results_at_def step_at_def)
      then show "(case map_of steps i of None \<Rightarrow> None
        | Some st \<Rightarrow> Some (if step_result st \<noteq> r then step_result st else r)) = Some r"
        by auto
    qed
    then show "(case map_of txs h of None \<Rightarrow> None | Some steps \<Rightarrow>
        Some (kv_retain (\<lambda>i r. case map_of steps i of None \<Rightarrow> None
          | Some st \<Rightarrow> Some (if step_result st \<noteq> r then step_result st else r)) rr)) = Some rr"
      using st by simp
  qed
  then show ?thesis
    using Some results_okD(1) [OF ok] by (simp add: retain_slot_def bt_insert_same)
qed

section \<open>Idempotence\<close>

lemma flat_lookup_found: "(h, i, st) \<in> set xs \<Longrightarrow> flat_lookup xs h i \<noteq> None"
  by (induction xs) (auto simp: flat_lookup_Cons)

definition slot_keys :: "(slot, slot_results) btree \<Rightarrow> slot \<Rightarrow> h256 set" where
  "slot_keys rs s = (case map_of rs s of None \<Rightarrow> {} | Some m \<Rightarrow> fst ` set m)"

lemma slot_keys_add:
  assumes "results_ok rs"
  shows "slot_keys (add_result rs s h i r) s = insert h (slot_keys rs s)"
  unfolding slot_keys_def add_result_def bt.lookup_modify [OF results_okD(1) [OF assms]]
  by (simp add: kv_modify_def keys_hm_insert split: option.split)

lemma keys_retain: "(k, v') \<in> set (kv_retain f m) \<Longrightarrow> \<exists>v. f k v = Some v'"
  by (induction f m rule: kv_retain.induct) (auto split: option.splits)

lemma slot_keys_retain:
  assumes "results_ok (results_by_slot p)"
  shows "slot_keys (results_by_slot (retain_slot p s txs)) s \<subseteq> fst ` set txs"
proof -
  have "fst ` set (retain_existing txs m) \<subseteq> dom (map_of txs)" for m
    unfolding retain_existing_def by (auto dest!: keys_retain split: option.splits)
  then show ?thesis
    using results_okD(1) [OF assms]
    by (auto simp: slot_keys_def retain_slot_def lookup_bt_insert dom_map_of_conv_image_fst
        split: option.splits)
qed

lemma slot_keys_register_flat:
  assumes "parser_ok p" and "register_flat p s xs = (p', Ok ())"
  shows "slot_keys (results_by_slot p') s = slot_keys (results_by_slot p) s \<union> fst ` set xs"
  using assms
proof (induction p s xs rule: register_flat.induct)
  case (2 p s h i st xs)
  obtain p1 where p1: "register_step p s h i st = (p1, Ok ())" "register_flat p1 s xs = (p', Ok ())"
    using "2.prems"(2) by (auto simp: is_ok_iff split: prod.splits if_splits)
  have "parser_ok p1" using parser_ok_register_step [OF "2.prems"(1), of s h i st] p1 by simp
  moreover have "slot_keys (results_by_slot p1) s = insert h (slot_keys (results_by_slot p) s)"
    using p1(1) "2.prems"(1)
    by (auto simp: register_step_def parser_ok_iff slot_keys_add split: prod.splits if_splits)
  ultimately show ?case using "2.IH" [OF p1(1) [symmetric]] p1(2) by auto
qed simp

lemma register_again:
  assumes ok: "parser_ok p" and txs: "parsed_txs_ok txs"
    and reg: "default_register_slot_transactions p s txs = (p', Ok ())"
  shows "default_register_slot_transactions p' s txs = (p', Ok ())"
proof -
  have flat: "register_flat (retain_slot p s txs) s (flat_steps txs) = (p', Ok ())"
    using reg by (simp add: default_register_slot_transactions_def register_txs_flat)
  have ok': "parser_ok p'" using parser_ok_register [OF ok, of s txs] reg by simp
  note res = result_at_register [OF ok txs reg, of s]
  have "fst ` set (flat_steps txs) \<subseteq> fst ` set txs"
    by (force simp: flat_steps_def)
  then have keys: "slot_keys (results_by_slot p') s \<subseteq> fst ` set txs"
    using slot_keys_register_flat [OF parser_ok_retain_slot [OF ok] flat]
      slot_keys_retain [of p s txs] ok by (simp add: parser_ok_iff)
  have "retain_slot p' s txs = p'"
  proof (rule retain_slot_id [OF ok'])
    show "result_at p' s h i = map_option step_result (step_at txs h i)" for h i
      by (simp add: res)
    show "map_of txs h \<noteq> None" if "map_of (results_by_slot p') s = Some m" "h \<in> fst ` set m" for m h
      using keys that by (auto simp: slot_keys_def map_of_eq_None_iff)
  qed
  moreover have "knows_step (transactions_by_hash p') h st \<and> result_at p' s h i \<noteq> None"
    if "(h, i, st) \<in> set (flat_steps txs)" for h i st
  proof -
    have "knows_step (transactions_by_hash p') h st"
      using register_flat_Ok(2) [OF parser_ok_retain_slot [OF ok] flat] that by auto
    moreover have "flat_lookup (flat_steps txs) h i \<noteq> None"
      using that by (rule flat_lookup_found)
    ultimately show ?thesis using txs by (simp add: res flat_lookup_flat_steps)
  qed
  then have "register_flat p' s (flat_steps txs) = (p', Ok ())"
    by (intro register_flat_id [OF ok']) auto
  ultimately show ?thesis
    by (simp add: default_register_slot_transactions_def register_txs_flat)
qed

section \<open>Complete slots\<close>

text \<open>The first result of a transaction in a slot.\<close>

fun first_result :: "tx_results \<Rightarrow> (nat \<times> tx_result) option" where
  "first_result [] = None"
| "first_result ((i, r) # rs) = (case r of None \<Rightarrow> first_result rs | Some r' \<Rightarrow> Some (i, r'))"

lemma first_result_in: "first_result rs = Some (i, r) \<Longrightarrow> (i, Some r) \<in> set rs"
  by (induction rs rule: first_result.induct) (auto split: option.splits)

lemma first_result_None: "first_result rs = None \<longleftrightarrow> (\<forall>r \<in> snd ` set rs. r = None)"
  by (induction rs rule: first_result.induct) (auto split: option.split)

lemma results_complete_eq:
  "results_complete txs h rs b =
    (case first_result rs of None \<Rightarrow> Ok b
     | Some _ \<Rightarrow> (case map_of txs h of
         Some tx \<Rightarrow> Ok (b \<and> is_data_complete tx)
       | None \<Rightarrow> Panic ''Transaction is referenced from slot but not found in TxParser''))"
  by (induction txs h rs b rule: results_complete.induct) (auto split: option.splits)

lemma finalize_tx_eq:
  "finalize_tx lib txs h rs out =
    (case first_result rs of None \<Rightarrow> Ok out
     | Some (i, r) \<Rightarrow> (case map_of txs h of
         Some tx \<Rightarrow>
           if is_data_complete tx then try_res (build lib tx) (\<lambda>t. Ok (bt_insert i (t, r) out))
           else Err (Custom ''Tx data is not complete'')
       | None \<Rightarrow> Err (Custom ''Tx not found by hash'')))"
  by (induction lib txs h rs out rule: finalize_tx.induct) (auto split: option.splits)

lemma slot_results_complete_True:
  "slot_results_complete txs m = Ok True \<longleftrightarrow>
    (\<forall>(h, rs) \<in> set m. first_result rs \<noteq> None \<longrightarrow>
       (\<exists>tx. map_of txs h = Some tx \<and> is_data_complete tx))"
proof (induction txs m rule: slot_results_complete.induct)
  case (2 txs h rs rest)
  have IH: "slot_results_complete txs rest = Ok True \<longleftrightarrow>
    (\<forall>(h, rs) \<in> set rest. first_result rs \<noteq> None \<longrightarrow>
       (\<exists>tx. map_of txs h = Some tx \<and> is_data_complete tx))"
    using "2.IH" [of True] by simp
  show ?case
    by (cases "first_result rs"; cases "map_of txs h") (simp_all add: results_complete_eq IH)
qed simp

lemma slot_results_complete_panic:
  "is_panic (slot_results_complete txs m) \<Longrightarrow>
    \<exists>(h, rs) \<in> set m. first_result rs \<noteq> None \<and> map_of txs h = None"
proof (induction txs m rule: slot_results_complete.induct)
  case (2 txs h rs rest)
  then show ?case
    by (cases "first_result rs"; cases "map_of txs h") (auto simp: results_complete_eq split: if_splits)
qed simp

definition decode_error :: "rome_error \<Rightarrow> bool" where
  "decode_error e \<longleftrightarrow> e = TxDecodeError \<or> e = SignatureError"

lemma build_cases: "(\<exists>t. build lib tx = Ok t) \<or> (\<exists>e. build lib tx = Err e \<and> decode_error e)"
proof (cases tx)
  case (BigEvmTx d ps)
  show ?thesis
  proof (cases "rlp_decode lib d")
    case (Some t)
    then show ?thesis
      using BigEvmTx
      by (cases "recover_from lib t") (simp_all add: decode_transaction_from_rlp_def decode_error_def)
  qed (simp add: BigEvmTx decode_transaction_from_rlp_def decode_error_def)
qed simp

lemma finalize_txs_complete:
  assumes "slot_results_complete txs m = Ok True"
  shows "(\<exists>out'. finalize_txs lib txs m out = Ok out') \<or>
    (\<exists>e. finalize_txs lib txs m out = Err e \<and> decode_error e)"
  using assms
proof (induction lib txs m out rule: finalize_txs.induct)
  case (2 lib txs h rs rest out)
  note all = "2.prems" [unfolded slot_results_complete_True]
  have rest: "slot_results_complete txs rest = Ok True"
    using all by (simp add: slot_results_complete_True)
  show ?case
  proof (cases "first_result rs")
    case None
    then show ?thesis using 2 rest by (simp add: finalize_tx_eq)
  next
    case (Some ir)
    then obtain tx where tx: "map_of txs h = Some tx" "is_data_complete tx"
      using all by auto
    then show ?thesis
      using Some "2.IH" [OF rest] build_cases [of lib tx]
      by (cases "build lib tx") (auto simp: finalize_tx_eq split: prod.split)
  qed
qed simp

text \<open>What finalizing has put into the ordered map.\<close>

definition finalized_from ::
  "eth_lib \<Rightarrow> (h256, evm_tx) hmap \<Rightarrow> slot_results \<Rightarrow> nat \<Rightarrow> transaction \<Rightarrow> tx_result \<Rightarrow> bool" where
  "finalized_from lib txs m i t r \<longleftrightarrow>
     (\<exists>(h, rs) \<in> set m. first_result rs = Some (i, r) \<and>
        (\<exists>tx. map_of txs h = Some tx \<and> is_data_complete tx \<and> build lib tx = Ok t))"

lemma finalize_txs_Ok:
  assumes "finalize_txs lib txs m out = Ok out'" and "bt_ok out"
  shows "bt_ok out' \<and>
    (\<forall>i t r. map_of out' i = Some (t, r) \<longrightarrow> map_of out i = Some (t, r) \<or> finalized_from lib txs m i t r) \<and>
    dom (map_of out') = dom (map_of out) \<union> {i. \<exists>(h, rs) \<in> set m. \<exists>r. first_result rs = Some (i, r)}"
  using assms
proof (induction lib txs m out rule: finalize_txs.induct)
  case (1 lib txs out)
  then show ?case by simp
next
  case (2 lib txs h rs rest out)
  from "2.prems"(1) obtain out1 where
    o1: "finalize_tx lib txs h rs out = Ok out1" "finalize_txs lib txs rest out1 = Ok out'"
    by (auto simp: res_elims)
  show ?case
  proof (cases "first_result rs")
    case None
    then have "out1 = out" using o1 by (simp add: finalize_tx_eq)
    then show ?thesis using "2.IH" [OF o1(2)] "2.prems"(2) None by (auto simp: finalized_from_def)
  next
    case (Some ir)
    obtain i r where ir: "ir = (i, r)" by (cases ir)
    from o1(1) Some ir obtain tx t where
      tx: "map_of txs h = Some tx" "is_data_complete tx" "build lib tx = Ok t"
        "out1 = bt_insert i (t, r) out"
      by (auto simp: finalize_tx_eq res_elims split: option.splits if_splits)
    have ok1: "bt_ok out1" using "2.prems"(2) tx by (simp add: bt_ok_insert)
    have ff: "finalized_from lib txs ((h, rs) # rest) i t r"
      using tx Some ir by (auto simp: finalized_from_def)
    have "finalized_from lib txs rest j t' r' \<Longrightarrow> finalized_from lib txs ((h, rs) # rest) j t' r'" for j t' r'
      by (auto simp: finalized_from_def)
    note rest = this
    have IH: "bt_ok out'"
      "\<And>j t r. map_of out' j = Some (t, r) \<Longrightarrow> map_of out1 j = Some (t, r) \<or> finalized_from lib txs rest j t r"
      "dom (map_of out') = dom (map_of out1) \<union> {i. \<exists>(h, rs) \<in> set rest. \<exists>r. first_result rs = Some (i, r)}"
      using "2.IH" [OF o1(2) ok1] by blast+
    have "map_of out j = Some (t', r') \<or> finalized_from lib txs ((h, rs) # rest) j t' r'"
      if "map_of out' j = Some (t', r')" for j t' r'
      using IH(2) [OF that] rest ff "2.prems"(2)
      by (auto simp: tx(4) lookup_bt_insert split: if_splits)
    then show ?thesis
      using IH(1,3) Some ir "2.prems"(2) by (auto simp: tx(4) lookup_bt_insert)
  qed
qed

lemma results_at_lookup: "map_of rs s = Some m \<Longrightarrow> hm_ok m \<Longrightarrow> (h, r) \<in> set m \<Longrightarrow> results_at rs s h = r"
  by (simp add: results_at_def hm_ok_def)

lemma result_at_first:
  assumes "parser_ok p" and "first_result (results_at (results_by_slot p) s h) = Some (i, r)"
  shows "result_at p s h i = Some (Some r)"
  using first_result_in [OF assms(2)] results_okD(3) [of "results_by_slot p" s h] assms(1)
  by (simp add: result_at_def parser_ok_iff bt_ok_distinct)

lemma slot_entry:
  assumes "parser_ok p" and "map_of (results_by_slot p) s = Some m" and "(h, rs) \<in> set m"
  shows "results_at (results_by_slot p) s h = rs"
proof -
  have "hm_ok m" using results_okD(2) [OF _ assms(2)] assms(1)
    by (simp add: parser_ok_iff slot_results_ok_def)
  then show ?thesis using results_at_lookup assms by blast
qed

lemma complete_no_panic_default:
  assumes "parser_ok p" and "parsed_txs_ok txs"
    and "default_register_slot_transactions p s txs = (p', Ok ())"
  shows "\<not> is_panic (default_is_slot_complete p' s)"
proof
  assume "is_panic (default_is_slot_complete p' s)"
  then obtain m where m: "map_of (results_by_slot p') s = Some m"
    and "is_panic (slot_results_complete (transactions_by_hash p') m)"
    by (auto simp: default_is_slot_complete_def split: option.splits)
  from slot_results_complete_panic [OF this(2)] obtain h rs i r where
    h: "(h, rs) \<in> set m" "first_result rs = Some (i, r)" "map_of (transactions_by_hash p') h = None"
    by auto
  have ok': "parser_ok p'" using parser_ok_register [OF assms(1), of s txs] assms(3) by simp
  have "result_at p' s h i \<noteq> None"
    using result_at_first [OF ok', of s h] slot_entry [OF ok' m h(1)] h(2) by simp
  then obtain st where "step_at txs h i = Some st"
    using result_at_register [OF assms, of s h i] by auto
  then show False using registered_knows [OF assms] knows_step_found h(3) by blast
qed

lemma parser_ok_retain_from: "parser_ok p \<Longrightarrow> parser_ok (default_retain_from_slot p from)"
proof -
  assume ok: "parser_ok p"
  have "txs_ok (fold kv_remove hs txs)" if "txs_ok txs" for hs and txs :: "(h256, evm_tx) hmap"
    using that
  proof (induction hs arbitrary: txs)
    case (Cons h hs)
    have "set (kv_remove h txs) \<subseteq> set txs" by (auto simp: kv_remove_def)
    then have "txs_ok (kv_remove h txs)"
      using Cons.prems kv_all_subset [of evm_tx_ok txs "kv_remove h txs"]
      by (simp add: txs_ok_def hm.ok_remove)
    then show ?case using Cons.IH by simp
  qed simp
  moreover have "results_ok (filter P rs)" if "results_ok rs" for P rs
    using that bt.ok_subseq [OF _ subseq_map [OF subseq_filter_left], of rs P]
      kv_all_subset [of slot_results_ok rs "filter P rs"] by (auto simp: results_ok_def)
  ultimately show ?thesis
    using ok by (simp add: parser_ok_iff default_retain_from_slot_def Let_def)
qed

lemma result_at_retain_from:
  "result_at (default_retain_from_slot p from) s h i = (if from \<le> s then result_at p s h i else None)"
  by (simp add: result_at_def results_at_def default_retain_from_slot_def Let_def map_of_filter_fst)

text \<open>
  A parser that knows the transaction of every result, as it does until old slots are
  dropped.  A step that fails adds no result, so this survives failing registrations.
\<close>

definition parser_closed :: "default_tx_parser \<Rightarrow> bool" where
  "parser_closed p \<longleftrightarrow>
     (\<forall>s h i r. result_at p s h i = Some r \<longrightarrow> map_of (transactions_by_hash p) h \<noteq> None)"

lemma closed_step:
  assumes "parser_ok p" and "parser_closed p"
  shows "parser_closed (fst (register_step p s h i st))"
proof -
  let ?p = "fst (register_step p s h i st)"
  have ok: "txs_ok (transactions_by_hash p)" using assms(1) by (simp add: parser_ok_iff)
  have T: "transactions_by_hash ?p = fst (register_tx (transactions_by_hash p) h st)"
    by (simp add: register_step_def split: prod.split)
  have grow: "map_of (transactions_by_hash p) h' \<noteq> None \<Longrightarrow> map_of (transactions_by_hash ?p) h' \<noteq> None" for h'
    using txs_grow_register_tx [OF ok, of h st] unfolding T txs_grow_def by fastforce
  show ?thesis
  proof (cases "register_step p s h i st")
    case (Pair p' r)
    show ?thesis
    proof (cases "is_ok r")
      case True
      then have o: "register_step p s h i st = (p', Ok ())"
        using Pair by (auto simp: register_step_def split: prod.splits if_splits)
      then have "knows_step (transactions_by_hash ?p) h st"
        using register_step_Ok(2) [OF assms(1)] by simp
      then show ?thesis
        using assms(2) grow knows_step_found result_at_register_step [OF assms(1) o] o
        unfolding parser_closed_def by (metis fst_conv)
    next
      case False
      then have "results_by_slot ?p = results_by_slot p"
        using Pair by (auto simp: register_step_def split: prod.splits if_splits)
      then show ?thesis
        using assms(2) grow unfolding parser_closed_def result_at_def by metis
    qed
  qed
qed

lemma closed_flat:
  "parser_ok p \<Longrightarrow> parser_closed p \<Longrightarrow> parser_closed (fst (register_flat p s xs))"
proof (induction p s xs rule: register_flat.induct)
  case (2 p s h i st xs)
  then show ?case
    using parser_ok_register_step [of p s h i st] closed_step [of p s h i st]
    by (auto split: prod.splits)
qed simp

lemma closed_register_default:
  assumes "parser_ok p" and "parser_closed p"
  shows "parser_closed (fst (default_register_slot_transactions p s txs))"
proof -
  have ok: "results_ok (results_by_slot p)" using assms(1) by (simp add: parser_ok_iff)
  have "parser_closed (retain_slot p s txs)"
    using assms(2) unfolding parser_closed_def
    by (fastforce simp: result_at_retain_slot [OF ok] bind_eq_Some_conv split: if_splits)
  then show ?thesis
    using closed_flat [OF parser_ok_retain_slot [OF assms(1)]]
    by (simp add: default_register_slot_transactions_def register_txs_flat)
qed

lemma closed_no_panic_default:
  assumes ok: "parser_ok p" and "parser_closed p"
  shows "\<not> is_panic (default_is_slot_complete p s)"
proof
  assume "is_panic (default_is_slot_complete p s)"
  then obtain m where m: "map_of (results_by_slot p) s = Some m"
    and "is_panic (slot_results_complete (transactions_by_hash p) m)"
    by (auto simp: default_is_slot_complete_def split: option.splits)
  from slot_results_complete_panic [OF this(2)] obtain h rs i r where
    h: "(h, rs) \<in> set m" "first_result rs = Some (i, r)" "map_of (transactions_by_hash p) h = None"
    by auto
  have "result_at p s h i \<noteq> None"
    using result_at_first [OF ok, of s h] slot_entry [OF ok m h(1)] h(2) by simp
  then show False using assms(2) h(3) unfolding parser_closed_def by blast
qed

text \<open>The contract holds of the code's parser.\<close>

interpretation dtp: tx_parser_trait "default_tx_parser_ops lib" parser_ok parser_closed result_at decode_error
  for lib
proof unfold_locales
  fix p p' :: default_tx_parser and txs s
  assume p: "parser_ok p" "parsed_txs_ok txs"
  show "parser_ok (fst (register_slot_transactions (default_tx_parser_ops lib) p s txs))"
    using p by (simp add: default_tx_parser_ops_def parser_ok_register)
  show "parser_closed (fst (register_slot_transactions (default_tx_parser_ops lib) p s txs))"
    if "parser_closed p"
    using that p by (simp add: default_tx_parser_ops_def closed_register_default)
  assume r: "register_slot_transactions (default_tx_parser_ops lib) p s txs = (p', Ok ())"
  show "result_at p' s' h i =
      (if s' = s then map_option step_result (step_at txs h i) else result_at p s' h i)" for s' h i
    using p r by (intro result_at_register) (simp_all add: default_tx_parser_ops_def)
  show "\<not> is_panic (is_slot_complete (default_tx_parser_ops lib) p' s)"
    using complete_no_panic_default [OF p] r by (simp add: default_tx_parser_ops_def)
next
  fix p :: default_tx_parser and frm s h i
  assume p: "parser_ok p"
  show "parser_ok (retain_from_slot (default_tx_parser_ops lib) p s)"
    using p by (simp add: default_tx_parser_ops_def parser_ok_retain_from)
  show "result_at (retain_from_slot (default_tx_parser_ops lib) p frm) s h i =
      (if frm \<le> s then result_at p s h i else None)"
    by (simp add: default_tx_parser_ops_def result_at_retain_from)
next
  fix p :: default_tx_parser and s
  assume "parser_ok p" and "parser_closed p"
  then show "\<not> is_panic (is_slot_complete (default_tx_parser_ops lib) p s)"
    by (simp add: default_tx_parser_ops_def closed_no_panic_default)
next
  fix p :: default_tx_parser and s
  assume "parser_ok p" and "is_slot_complete (default_tx_parser_ops lib) p s = Ok True"
  then show "(\<exists>out. finalize_slot (default_tx_parser_ops lib) p s = Ok out) \<or>
      (\<exists>e. finalize_slot (default_tx_parser_ops lib) p s = Err e \<and> decode_error e)"
    using finalize_txs_complete [of "transactions_by_hash p" _ lib "[]"]
    by (fastforce simp: default_tx_parser_ops_def default_is_slot_complete_def
        default_finalize_slot_def split: option.splits)
next
  fix p :: default_tx_parser and s out t r
  assume p: "parser_ok p" and o: "finalize_slot (default_tx_parser_ops lib) p s = Ok out"
    and tr: "(t, r) \<in> set out"
  obtain m out' where m: "map_of (results_by_slot p) s = Some m"
    "finalize_txs lib (transactions_by_hash p) m [] = Ok out'" "out = map snd out'"
    using o tr by (auto simp: default_tx_parser_ops_def default_finalize_slot_def res_elims
        split: option.splits)
  obtain i where "(i, t, r) \<in> set out'" using tr m(3) by auto
  then have "map_of out' i = Some (t, r)"
    using finalize_txs_Ok [OF m(2)] by (simp add: bt_ok_distinct)
  then have "finalized_from lib (transactions_by_hash p) m i t r"
    using finalize_txs_Ok [OF m(2)] by simp
  then obtain h rs where "(h, rs) \<in> set m" "first_result rs = Some (i, r)"
    unfolding finalized_from_def by blast
  then show "\<exists>h i. result_at p s h i = Some (Some r)"
    using result_at_first [OF p, of s h] slot_entry [OF p m(1)] by auto
qed

section \<open>Properties\<close>

text \<open>
  C2. Registering the transactions of a slot keeps the state invariant and, when it
  succeeds, replaces exactly the results of that slot by the ones given: results of
  other slots stay, results that a fork removed are gone, changed results are updated.
\<close>

theorem registered_slot_results:
  assumes "parser_ok p" and "parsed_txs_ok txs"
    and "default_register_slot_transactions p s txs = (p', Ok ())"
  shows "parser_ok p' \<and> (\<forall>s' h i. result_at p' s' h i =
    (if s' = s then map_option step_result (step_at txs h i) else result_at p s' h i))"
  using parser_ok_register [OF assms(1), of s txs] result_at_register [OF assms] assms(3) by simp

text \<open>A small transaction with its result, and the library of a test.\<close>

definition test_lib :: eth_lib where
  "test_lib = \<lparr>rlp_decode = (\<lambda>b. Some (default_transaction\<lparr>tx_input := b\<rparr>)),
     recover_from = (\<lambda>t. Some 1), transaction_hash = (\<lambda>t. 0), keccak256 = u256_of_be,
     deposit_rlp = (\<lambda>d. [])\<rparr>"

definition test_small :: "tx_result option \<Rightarrow> parsed_tx_step" where
  "test_small r = SmallTx default_transaction r"

lemmas parser_eval = default_register_slot_transactions_def retain_slot_def retain_existing_def
  register_step_def add_result_def kv_modify_def kv_or_insert_def new_default_tx_parser_def
  new_small_tx_def new_big_tx_def default_is_slot_complete_def default_finalize_slot_def
  write_slice_def resize_def test_small_def

lemma parser_ok_new: "parser_ok new_default_tx_parser"
  by (simp add: parser_ok_def new_default_tx_parser_def results_ok_def)

theorem registered_slot_results_witness:
  "\<exists>p'. default_register_slot_transactions new_default_tx_parser 5
      [(7, [(2, test_small (Some default_tx_result))])] = (p', Ok ()) \<and>
    result_at p' 5 7 2 = Some (Some default_tx_result) \<and> result_at p' 5 7 3 = None"
proof -
  let ?t = "[(7 :: h256, [(2 :: nat, test_small (Some default_tx_result))])]"
  obtain p' where p': "default_register_slot_transactions new_default_tx_parser 5 ?t = (p', Ok ())"
    by (simp add: parser_eval)
  have "parsed_txs_ok ?t" by (simp add: parsed_txs_ok_def)
  from registered_slot_results [OF parser_ok_new this p'] p' show ?thesis
    by (auto simp: step_at_def test_small_def)
qed

text \<open>
  C18. Registering a slot a second time with the same transactions changes nothing, as it
  must when the block loader delivers a slot again: neither a result nor a chunk of a
  transaction is added twice.
\<close>

theorem register_slot_idempotent:
  assumes "parser_ok p" and "parsed_txs_ok txs"
    and "default_register_slot_transactions p s txs = (p', Ok ())"
  shows "default_register_slot_transactions p' s txs = (p', Ok ())"
  using assms by (rule register_again)

theorem register_slot_idempotent_witness:
  "\<exists>p'. default_register_slot_transactions new_default_tx_parser 5
      [(7, [(2, TransmitTx 0 [1]), (4, BigTx (Some default_tx_result))])] = (p', Ok ()) \<and>
    default_register_slot_transactions p' 5
      [(7, [(2, TransmitTx 0 [1]), (4, BigTx (Some default_tx_result))])] = (p', Ok ())"
proof -
  let ?t = "[(7 :: h256, [(2 :: nat, TransmitTx 0 [1]), (4, BigTx (Some default_tx_result))])]"
  obtain p' where p': "default_register_slot_transactions new_default_tx_parser 5 ?t = (p', Ok ())"
    by (simp add: parser_eval Let_def)
  have "parsed_txs_ok ?t" by (simp add: parsed_txs_ok_def)
  from register_slot_idempotent [OF parser_ok_new this p'] p' show ?thesis by blast
qed

text \<open>
  C19. After a slot was registered, asking whether it is complete does not panic, and a
  complete slot can be finalized: the only errors left are those of decoding a
  transaction or recovering its sender.
\<close>

theorem complete_slot_finalizes:
  assumes "parser_ok p" and "parsed_txs_ok txs"
    and "default_register_slot_transactions p s txs = (p', Ok ())"
  shows "\<not> is_panic (default_is_slot_complete p' s) \<and>
    (default_is_slot_complete p' s = Ok True \<longrightarrow>
      (\<exists>out. default_finalize_slot lib p' s = Ok out) \<or>
      (\<exists>e. default_finalize_slot lib p' s = Err e \<and> decode_error e))"
proof -
  have ops: "register_slot_transactions (default_tx_parser_ops lib) p s txs = (p', Ok ())"
    using assms(3) by (simp add: default_tx_parser_ops_def)
  have "parser_ok p'" using dtp.ok_register [OF assms(1,2), of lib s] ops by simp
  then show ?thesis
    using dtp.complete_no_panic [OF assms(1,2) ops] dtp.complete_finalizes [of p' lib s]
    by (simp add: default_tx_parser_ops_def)
qed

theorem complete_slot_finalizes_witness:
  "\<exists>p'. default_register_slot_transactions new_default_tx_parser 5
      [(7, [(2, TransmitTx 0 [1]), (4, BigTx (Some default_tx_result))])] = (p', Ok ()) \<and>
    \<not> is_panic (default_is_slot_complete p' 5)"
proof -
  let ?t = "[(7 :: h256, [(2 :: nat, TransmitTx 0 [1]), (4, BigTx (Some default_tx_result))])]"
  obtain p' where p': "default_register_slot_transactions new_default_tx_parser 5 ?t = (p', Ok ())"
    by (simp add: parser_eval Let_def)
  have "parsed_txs_ok ?t" by (simp add: parsed_txs_ok_def)
  from complete_slot_finalizes [OF parser_ok_new this p', of test_lib] p' show ?thesis by blast
qed

text \<open>
  C20. What finalizing returns: one entry for each Solana transaction index at which some
  transaction has its first result, in the order of these indices, each with that result
  and the transaction built from the complete data held for its hash.
\<close>

theorem finalized_slot_exact:
  assumes "parser_ok p" and "default_finalize_slot lib p s = Ok out"
  shows "\<exists>m. bt_ok m \<and> out = map snd m \<and>
    dom (map_of m) = {i. \<exists>h r. first_result (results_at (results_by_slot p) s h) = Some (i, r)} \<and>
    (\<forall>(i, t, r) \<in> set m. \<exists>h tx. first_result (results_at (results_by_slot p) s h) = Some (i, r) \<and>
       map_of (transactions_by_hash p) h = Some tx \<and> is_data_complete tx \<and> build lib tx = Ok t)"
proof (cases "map_of (results_by_slot p) s")
  case None
  then show ?thesis
    using assms(2) by (intro exI [of _ "[]"]) (simp add: default_finalize_slot_def results_at_def)
next
  case (Some sm)
  then obtain m where m: "finalize_txs lib (transactions_by_hash p) sm [] = Ok m" "out = map snd m"
    using assms(2) by (auto simp: default_finalize_slot_def res_elims)
  note fin = finalize_txs_Ok [OF m(1) bt_ok_Nil]
  have entry: "results_at (results_by_slot p) s h = rs" if "(h, rs) \<in> set sm" for h rs
    using slot_entry [OF assms(1) Some that] .
  have held: "\<exists>rs. (h, rs) \<in> set sm \<and> results_at (results_by_slot p) s h = rs"
    if "first_result (results_at (results_by_slot p) s h) = Some ir" for h ir
    using that Some by (auto simp: results_at_def split: option.splits dest: map_of_SomeD)
  have dom: "dom (map_of m) = {i. \<exists>h r. first_result (results_at (results_by_slot p) s h) = Some (i, r)}"
  proof -
    have "(\<exists>(h, rs) \<in> set sm. \<exists>r. first_result rs = Some (i, r)) \<longleftrightarrow>
      (\<exists>h r. first_result (results_at (results_by_slot p) s h) = Some (i, r))" for i
    proof
      assume "\<exists>(h, rs) \<in> set sm. \<exists>r. first_result rs = Some (i, r)"
      then obtain h rs r where "(h, rs) \<in> set sm" "first_result rs = Some (i, r)" by blast
      then show "\<exists>h r. first_result (results_at (results_by_slot p) s h) = Some (i, r)"
        using entry by blast
    next
      assume "\<exists>h r. first_result (results_at (results_by_slot p) s h) = Some (i, r)"
      then obtain h r where hr: "first_result (results_at (results_by_slot p) s h) = Some (i, r)" by blast
      from held [OF hr] hr show "\<exists>(h, rs) \<in> set sm. \<exists>r. first_result rs = Some (i, r)" by blast
    qed
    then show ?thesis using fin by simp
  qed
  have "\<exists>h tx. first_result (results_at (results_by_slot p) s h) = Some (i, r) \<and>
      map_of (transactions_by_hash p) h = Some tx \<and> is_data_complete tx \<and> build lib tx = Ok t"
    if "(i, t, r) \<in> set m" for i t r
  proof -
    have "finalized_from lib (transactions_by_hash p) sm i t r"
      using fin that by (simp add: bt_ok_distinct)
    then obtain h rs tx where "(h, rs) \<in> set sm" "first_result rs = Some (i, r)"
      "map_of (transactions_by_hash p) h = Some tx" "is_data_complete tx" "build lib tx = Ok t"
      unfolding finalized_from_def by blast
    then show ?thesis using entry [of h rs] by (intro exI [of _ h] exI [of _ tx]) simp
  qed
  then show ?thesis using fin dom m(2) by (intro exI [of _ m]) auto
qed

definition test_parser :: default_tx_parser where
  "test_parser = fst (default_register_slot_transactions new_default_tx_parser 5
     [(7, [(2, test_small (Some default_tx_result))]), (8, [(1, test_small (Some default_tx_result))])])"

theorem finalized_slot_exact_witness:
  "\<exists>m. bt_ok m \<and> dom (map_of m) = {i. \<exists>h r.
     first_result (results_at (results_by_slot test_parser) 5 h) = Some (i, r)} \<and>
     map snd m = [(default_transaction, default_tx_result), (default_transaction, default_tx_result)]"
proof -
  have "parser_ok test_parser"
    unfolding test_parser_def by (rule parser_ok_register [OF parser_ok_new])
  moreover have "default_finalize_slot test_lib test_parser 5 =
      Ok [(default_transaction, default_tx_result), (default_transaction, default_tx_result)]"
    by (simp add: test_parser_def parser_eval)
  ultimately show ?thesis
    using finalized_slot_exact [of test_parser test_lib 5
        "[(default_transaction, default_tx_result), (default_transaction, default_tx_result)]"]
    by auto
qed

text \<open>
  The results are keyed by the index of the Solana transaction, not of the
  instruction: of two EVM transactions that complete in one Solana transaction only the
  one the hash map yields last is returned, the other is lost without an error.
\<close>

theorem finalize_loses_transaction:
  "\<exists>p'. default_register_slot_transactions new_default_tx_parser 5
      [(7, [(2, SmallTx t1 (Some r1))]), (8, [(2, SmallTx t2 (Some r2))])] = (p', Ok ()) \<and>
    default_is_slot_complete p' 5 = Ok True \<and>
    default_finalize_slot lib p' 5 = Ok [(t2, r2)]"
  by (simp add: parser_eval)

text \<open>
  Dropping the slots before a given one also drops the transactions that later slots
  refer to: a transaction that was started in slot 5 and got its result in slot 6 is gone
  after \<open>retain_from_slot 6\<close>, and asking whether slot 6 is complete panics.
\<close>

theorem retain_drops_referenced_transaction:
  "\<exists>p1 p2. default_register_slot_transactions new_default_tx_parser 5
       [(7, [(0, TransmitTx 0 data)])] = (p1, Ok ()) \<and>
     default_register_slot_transactions p1 6 [(7, [(1, BigTx (Some r))])] = (p2, Ok ()) \<and>
     is_panic (default_is_slot_complete (default_retain_from_slot p2 6) 6)"
  if "length data < 2 ^ 63"
  using that by (simp add: parser_eval Let_def default_retain_from_slot_def kv_remove_def)

theorem retain_drops_referenced_transaction_witness:
  "\<exists>p1 p2. default_register_slot_transactions new_default_tx_parser 5
       [(7, [(0, TransmitTx 0 [1, 2])])] = (p1, Ok ()) \<and>
     default_register_slot_transactions p1 6 [(7, [(1, BigTx (Some default_tx_result))])] = (p2, Ok ()) \<and>
     is_panic (default_is_slot_complete (default_retain_from_slot p2 6) 6)"
  using retain_drops_referenced_transaction [of "[1, 2]" default_tx_result] by simp

end
