(* ===== verification/Log_Parser.thy ===== *)
theory Log_Parser
  imports Eth_Types
begin

text \<open>
  \<^verbatim>\<open>rome-evm-client/src/indexer/parsers/log_parser.rs\<close>: the log lines of a Solana
  transaction carry base64 items after \<^verbatim>\<open>Program data: \<close>; five state machines look
  for events, the exit reason and the gas report in each line.  A Rust \<^verbatim>\<open>str\<close> is the
  list of its Unicode scalar values, a \<^verbatim>\<open>String\<close> made from bytes its UTF-8 encoding.
  The markers of the Rome EVM program, base64 and the ABI decoder are fields of
  \<open>log_env\<close>.  The locale \<open>marked_parser\<close> states what the five machines share.
\<close>

section \<open>Strings\<close>

type_synonym rstr = "nat list"

definition str :: "string \<Rightarrow> rstr" where
  "str s = map of_char s"

text \<open>\<^verbatim>\<open>char::is_whitespace\<close>, the property White_Space.\<close>

definition is_whitespace :: "nat \<Rightarrow> bool" where
  "is_whitespace c \<longleftrightarrow> (9 \<le> c \<and> c \<le> 13) \<or> c = 0x20 \<or> c = 0x85 \<or> c = 0xA0 \<or> c = 0x1680 \<or>
     (0x2000 \<le> c \<and> c \<le> 0x200A) \<or> c = 0x2028 \<or> c = 0x2029 \<or> c = 0x202F \<or> c = 0x205F \<or> c = 0x3000"

text \<open>\<^verbatim>\<open>split_whitespace\<close>: the non-empty pieces between white space.\<close>

fun split_pieces :: "rstr \<Rightarrow> rstr \<Rightarrow> rstr list" where
  "split_pieces piece [] = [piece]"
| "split_pieces piece (c # cs) =
     (if is_whitespace c then piece # split_pieces [] cs else split_pieces (piece @ [c]) cs)"

definition split_whitespace :: "rstr \<Rightarrow> rstr list" where
  "split_whitespace s = filter (\<lambda>p. p \<noteq> []) (split_pieces [] s)"

text \<open>\<^verbatim>\<open>starts_with\<close> and the rest that \<^verbatim>\<open>split_at\<close> of the prefix length gives.\<close>

definition strip_prefix :: "rstr \<Rightarrow> rstr \<Rightarrow> rstr option" where
  "strip_prefix p s = (if take (length p) s = p then Some (drop (length p) s) else None)"

text \<open>\<^verbatim>\<open>String::from_utf8\<close> accepts the byte sequences of the Unicode standard.\<close>

definition cont_byte :: "u8 \<Rightarrow> bool" where
  "cont_byte b \<longleftrightarrow> 0x80 \<le> b \<and> b \<le> 0xBF"

fun utf8_valid :: "bytes \<Rightarrow> bool" where
  "utf8_valid [] = True"
| "utf8_valid (b # bs) =
     (if b \<le> 0x7F then utf8_valid bs
      else if 0xC2 \<le> b \<and> b \<le> 0xDF then
        (case bs of c # bs' \<Rightarrow> cont_byte c \<and> utf8_valid bs' | _ \<Rightarrow> False)
      else if 0xE0 \<le> b \<and> b \<le> 0xEF then
        (case bs of c # d # bs' \<Rightarrow>
           cont_byte c \<and> (b = 0xE0 \<longrightarrow> 0xA0 \<le> c) \<and> (b = 0xED \<longrightarrow> c \<le> 0x9F) \<and>
           cont_byte d \<and> utf8_valid bs' | _ \<Rightarrow> False)
      else if 0xF0 \<le> b \<and> b \<le> 0xF4 then
        (case bs of c # d # e # bs' \<Rightarrow>
           cont_byte c \<and> (b = 0xF0 \<longrightarrow> 0x90 \<le> c) \<and> (b = 0xF4 \<longrightarrow> c \<le> 0x8F) \<and>
           cont_byte d \<and> cont_byte e \<and> utf8_valid bs' | _ \<Rightarrow> False)
      else False)"

section \<open>What comes from other crates\<close>

datatype abi_token = StringToken rstr | UintToken u256 | OtherToken

record log_env =
  base64_decode :: "rstr \<Rightarrow> bytes option"
  EVENT_LOG :: bytes
  EXIT_REASON :: bytes
  GAS_VALUE :: bytes
  GAS_PRICE :: bytes
  GAS_RECIPIENT :: bytes
  REVERT_ERROR :: bytes
  REVERT_PANIC :: bytes
  abi_decode_string :: "bytes \<Rightarrow> abi_token list option"
  abi_decode_uint :: "bytes \<Rightarrow> abi_token list option"

section \<open>The trait Parser\<close>

fun consume_items ::
  "log_env \<Rightarrow> ('s \<Rightarrow> bytes \<Rightarrow> 's res) \<Rightarrow> 's \<Rightarrow> rstr list \<Rightarrow> 's res" where
  "consume_items env advance st [] = Ok st"
| "consume_items env advance st (encode # iter) =
     try_res (ok_or Base64DecodeError (base64_decode env encode)) (\<lambda>decode.
       try_res (advance st decode) (\<lambda>st'. consume_items env advance st' iter))"

definition consume :: "log_env \<Rightarrow> ('s \<Rightarrow> bytes \<Rightarrow> 's res) \<Rightarrow> 's \<Rightarrow> rstr \<Rightarrow> 's res" where
  "consume env advance st log =
     (case strip_prefix (str ''Program data: '') log of
        Some rest \<Rightarrow> consume_items env advance st (split_whitespace rest)
      | None \<Rightarrow> Ok st)"

section \<open>The five parsers\<close>

datatype event_state = EvInit | EvAddress | EvTopicsLen | EvTopics | EvData

record event_parser =
  ev_state :: event_state
  topics_len :: nat
  event :: eth_log

definition default_event_parser :: event_parser where
  "default_event_parser = \<lparr>ev_state = EvInit, topics_len = 0, event = default_log\<rparr>"

definition event_advance :: "log_env \<Rightarrow> event_parser \<Rightarrow> bytes \<Rightarrow> event_parser res" where
  "event_advance env p item =
     (case ev_state p of
        EvInit \<Rightarrow> Ok (if item = EVENT_LOG env then p\<lparr>ev_state := EvAddress\<rparr> else p)
      | EvAddress \<Rightarrow>
          if length item \<noteq> 20 then Err (LogParserError ''event log: address expected'')
          else Ok (p\<lparr>event := (event p)\<lparr>log_address := address_of_be item\<rparr>, ev_state := EvTopicsLen\<rparr>)
      | EvTopicsLen \<Rightarrow>
          if length item \<noteq> 1 then Err (LogParserError ''event log: topics_len expected'')
          else Ok (p\<lparr>topics_len := unat (item ! 0),
                    ev_state := (if 0 < unat (item ! 0) then EvTopics else EvData)\<rparr>)
      | EvTopics \<Rightarrow>
          if length item \<noteq> 32 then Err (LogParserError ''event log: topic expected'')
          else
            let topics = log_topics (event p) @ [u256_of_be item]
            in Ok (p\<lparr>event := (event p)\<lparr>log_topics := topics\<rparr>,
                     ev_state := (if length topics = topics_len p then EvData else EvTopics)\<rparr>)
      | EvData \<Rightarrow> Ok (p\<lparr>event := (event p)\<lparr>log_data := item\<rparr>\<rparr>))"

definition event_found :: "event_parser \<Rightarrow> bool" where
  "event_found p \<longleftrightarrow> ev_state p = EvTopics \<or> ev_state p = EvData"

datatype exit_reason_state = ExInit | ExCode | ExReasonLen | ExReason | ExReturnValue

record exit_reason_parser =
  ex_state :: exit_reason_state
  reason_len :: u64
  ex_exit_reason :: exit_reason

definition default_exit_reason_parser :: exit_reason_parser where
  "default_exit_reason_parser =
     \<lparr>ex_state = ExInit, reason_len = 0, ex_exit_reason = default_exit_reason\<rparr>"

definition exit_advance :: "log_env \<Rightarrow> exit_reason_parser \<Rightarrow> bytes \<Rightarrow> exit_reason_parser res" where
  "exit_advance env p item =
     (case ex_state p of
        ExInit \<Rightarrow> Ok (if item = EXIT_REASON env then p\<lparr>ex_state := ExCode\<rparr> else p)
      | ExCode \<Rightarrow>
          if length item \<noteq> 1 then Err (LogParserError ''exit reason: code expected'')
          else Ok (p\<lparr>ex_exit_reason := (ex_exit_reason p)\<lparr>code := item ! 0\<rparr>, ex_state := ExReasonLen\<rparr>)
      | ExReasonLen \<Rightarrow>
          if length item \<noteq> 8 then Err (LogParserError ''exit reason: topics_len expected'')
          else Ok (p\<lparr>reason_len := u64_of_le item, ex_state := ExReason\<rparr>)
      | ExReason \<Rightarrow>
          if \<not> utf8_valid item then Err (LogParserError ''exit reason: msg convert error'')
          else Ok (p\<lparr>ex_exit_reason := (ex_exit_reason p)\<lparr>reason := item\<rparr>, ex_state := ExReturnValue\<rparr>)
      | ExReturnValue \<Rightarrow> Ok (p\<lparr>ex_exit_reason := (ex_exit_reason p)\<lparr>return_value := item\<rparr>\<rparr>))"

definition exit_found :: "exit_reason_parser \<Rightarrow> bool" where
  "exit_found p \<longleftrightarrow> ex_state p = ExReason \<or> ex_state p = ExReturnValue"

datatype gas_report_state =
  GasInit | GasValue | GasRecipient | GasPrice | GasValueFound | GasRecipientFound | GasPriceFound

record gas_value_parser =
  gv_state :: gas_report_state
  gv_gas_value :: u256

definition default_gas_value_parser :: gas_value_parser where
  "default_gas_value_parser = \<lparr>gv_state = GasInit, gv_gas_value = 0\<rparr>"

definition gas_value_advance :: "log_env \<Rightarrow> gas_value_parser \<Rightarrow> bytes \<Rightarrow> gas_value_parser res" where
  "gas_value_advance env p item =
     (case gv_state p of
        GasInit \<Rightarrow> Ok (if item = GAS_VALUE env then p\<lparr>gv_state := GasValue\<rparr> else p)
      | GasValue \<Rightarrow>
          if length item \<noteq> 32 then Err (LogParserError ''Gas value: U256 expected'')
          else Ok (p\<lparr>gv_gas_value := u256_of_be item, gv_state := GasValueFound\<rparr>)
      | _ \<Rightarrow> Ok p)"

definition gas_value_found :: "gas_value_parser \<Rightarrow> bool" where
  "gas_value_found p \<longleftrightarrow> gv_state p = GasValueFound"

record gas_recipient_parser =
  gr_state :: gas_report_state
  recipient :: "address option"

definition default_gas_recipient_parser :: gas_recipient_parser where
  "default_gas_recipient_parser = \<lparr>gr_state = GasInit, recipient = None\<rparr>"

definition gas_recipient_advance ::
  "log_env \<Rightarrow> gas_recipient_parser \<Rightarrow> bytes \<Rightarrow> gas_recipient_parser res" where
  "gas_recipient_advance env p item =
     (case gr_state p of
        GasInit \<Rightarrow> Ok (if item = GAS_RECIPIENT env then p\<lparr>gr_state := GasRecipient\<rparr> else p)
      | GasRecipient \<Rightarrow>
          if length item \<noteq> 20 then Err (LogParserError ''Gas recipient: H160 expected'')
          else Ok (p\<lparr>recipient := Some (address_of_be item), gr_state := GasRecipientFound\<rparr>)
      | _ \<Rightarrow> Ok p)"

definition gas_recipient_found :: "gas_recipient_parser \<Rightarrow> bool" where
  "gas_recipient_found p \<longleftrightarrow> gr_state p = GasRecipientFound"

record gas_price_parser =
  gp_state :: gas_report_state
  gp_gas_price :: u256

definition default_gas_price_parser :: gas_price_parser where
  "default_gas_price_parser = \<lparr>gp_state = GasInit, gp_gas_price = 0\<rparr>"

definition gas_price_advance :: "log_env \<Rightarrow> gas_price_parser \<Rightarrow> bytes \<Rightarrow> gas_price_parser res" where
  "gas_price_advance env p item =
     (case gp_state p of
        GasInit \<Rightarrow> Ok (if item = GAS_PRICE env then p\<lparr>gp_state := GasPrice\<rparr> else p)
      | GasPrice \<Rightarrow>
          if length item \<noteq> 32 then Err (LogParserError ''Gas price: U256 expected'')
          else Ok (p\<lparr>gp_gas_price := u256_of_be item, gp_state := GasPriceFound\<rparr>)
      | _ \<Rightarrow> Ok p)"

definition gas_price_found :: "gas_price_parser \<Rightarrow> bool" where
  "gas_price_found p \<longleftrightarrow> gp_state p = GasPriceFound"

section \<open>LogParser\<close>

record log_parser =
  events :: "eth_log list"
  lp_exit_reason :: "exit_reason option"
  lp_gas_value :: "u256 option"
  lp_gas_price :: "u256 option"
  lp_gas_recipient :: "address option"

definition new_log_parser :: log_parser where
  "new_log_parser = \<lparr>events = [], lp_exit_reason = None, lp_gas_value = None,
     lp_gas_price = None, lp_gas_recipient = None\<rparr>"

text \<open>What a line adds to the state, once the five machines have consumed it.\<close>

definition log_update ::
  "event_parser \<Rightarrow> exit_reason_parser \<Rightarrow> gas_value_parser \<Rightarrow> gas_price_parser \<Rightarrow> gas_recipient_parser
    \<Rightarrow> log_parser \<Rightarrow> log_parser" where
  "log_update ep rp vp pp cp lp = lp\<lparr>
     events := (if event_found ep then events lp @ [event ep] else events lp),
     lp_exit_reason := (if exit_found rp then Some (ex_exit_reason rp) else lp_exit_reason lp),
     lp_gas_value := (if gas_value_found vp then Some (gv_gas_value vp) else lp_gas_value lp),
     lp_gas_price := (if gas_price_found pp then Some (gp_gas_price pp) else lp_gas_price lp),
     lp_gas_recipient := (if gas_recipient_found cp then recipient cp else lp_gas_recipient lp)\<rparr>"

definition parse_line :: "log_env \<Rightarrow> log_parser \<Rightarrow> rstr \<Rightarrow> log_parser res" where
  "parse_line env lp log =
     try_res (consume env (event_advance env) default_event_parser log) (\<lambda>ep.
     try_res (consume env (exit_advance env) default_exit_reason_parser log) (\<lambda>rp.
     try_res (consume env (gas_value_advance env) default_gas_value_parser log) (\<lambda>vp.
     try_res (consume env (gas_price_advance env) default_gas_price_parser log) (\<lambda>pp.
     try_res (consume env (gas_recipient_advance env) default_gas_recipient_parser log) (\<lambda>cp.
       Ok (log_update ep rp vp pp cp lp))))))"

fun parse_logs :: "log_env \<Rightarrow> log_parser \<Rightarrow> rstr list \<Rightarrow> log_parser res" where
  "parse_logs env lp [] = Ok lp"
| "parse_logs env lp (log # logs) =
     try_res (parse_line env lp log) (\<lambda>lp'. parse_logs env lp' logs)"

section \<open>Reverts\<close>

fun decimal :: "nat \<Rightarrow> rstr" where
  "decimal n = (if n < 10 then [48 + n] else decimal (n div 10) @ [48 + n mod 10])"

definition hex_digit :: "nat \<Rightarrow> nat" where
  "hex_digit d = (if d < 10 then 48 + d else 87 + d)"

definition hex_encode :: "bytes \<Rightarrow> rstr" where
  "hex_encode bs = concat (map (\<lambda>b. [hex_digit (unat b div 16), hex_digit (unat b mod 16)]) bs)"

definition decode_revert :: "log_env \<Rightarrow> bytes \<Rightarrow> rstr option" where
  "decode_revert env rv =
     (if length rv < 4 then None
      else
        let return_reason = take 4 rv; rest = drop 4 rv in
        if return_reason = REVERT_ERROR env then
          (case abi_decode_string env rest of
             Some tokens \<Rightarrow>
               (case tokens of
                  token # _ \<Rightarrow> Some (case token of StringToken s \<Rightarrow> s | _ \<Rightarrow> [])
                | [] \<Rightarrow> None)
           | None \<Rightarrow> None)
        else if return_reason = REVERT_PANIC env then
          (case abi_decode_uint env rest of
             Some tokens \<Rightarrow>
               (case tokens of
                  token # _ \<Rightarrow> Some (str ''panic '' @ decimal (case token of UintToken v \<Rightarrow> unat v | _ \<Rightarrow> 0))
                | [] \<Rightarrow> None)
           | None \<Rightarrow> None)
        else Some (hex_encode rest))"

section \<open>What the five machines share\<close>

text \<open>The items of a line, once decoded.\<close>

fun advance_all :: "('s \<Rightarrow> bytes \<Rightarrow> 's res) \<Rightarrow> 's \<Rightarrow> bytes list \<Rightarrow> 's res" where
  "advance_all advance st [] = Ok st"
| "advance_all advance st (item # items) =
     try_res (advance st item) (\<lambda>st'. advance_all advance st' items)"

lemma advance_all_append:
  "advance_all advance st (xs @ ys) =
     try_res (advance_all advance st xs) (\<lambda>st'. advance_all advance st' ys)"
  by (induction xs arbitrary: st) (simp_all add: try_res_assoc)

lemma consume_items_eq:
  assumes "map (base64_decode env) toks = map Some items"
  shows "consume_items env advance st toks = advance_all advance st items"
  using assms
proof (induction toks arbitrary: st items)
  case (Cons t toks)
  then obtain x xs where "items = x # xs" by (cases items) auto
  with Cons show ?case by simp
qed simp

text \<open>
  A machine waits for its marker and takes the items after it; it has found nothing
  before at least one item followed the marker.
\<close>

locale marked_parser =
  fixes advance :: "'s \<Rightarrow> bytes \<Rightarrow> 's res"
    and init started :: 's
    and marker :: bytes
    and found :: "'s \<Rightarrow> bool"
  assumes advance_init: "advance init item = Ok (if item = marker then started else init)"
    and found_init: "\<not> found init"
    and found_started: "\<not> found started"
begin

lemma advance_all_quiet: "marker \<notin> set items \<Longrightarrow> advance_all advance init items = Ok init"
  by (induction items) (auto simp: advance_init)

text \<open>The last item of a line may look like the marker: nothing comes after it.\<close>

lemma advance_all_others:
  assumes "marker \<notin> set items"
  shows "\<exists>st. advance_all advance init (items @ [item]) = Ok st \<and> \<not> found st"
  using assms
  by (simp add: advance_all_append advance_all_quiet advance_init found_init found_started)

lemma others_filtered:
  assumes "marker \<notin> set (butlast items)"
  shows "\<exists>st. advance_all advance init (filter (\<lambda>x. x \<noteq> []) items) = Ok st \<and> \<not> found st"
proof (cases items rule: rev_cases)
  case Nil
  then show ?thesis by (simp add: found_init)
next
  case (snoc ys y)
  then have "marker \<notin> set (filter (\<lambda>x. x \<noteq> []) ys)" using assms by simp
  from advance_all_others [OF this] advance_all_quiet [OF this] snoc show ?thesis
    by (cases "y = []") (auto simp: found_init)
qed

lemma advance_all_marked:
  "advance_all advance init (marker # items) = advance_all advance started items"
  by (simp add: advance_init)

end

interpretation event: marked_parser "event_advance env" default_event_parser
  "default_event_parser\<lparr>ev_state := EvAddress\<rparr>" "EVENT_LOG env" event_found for env
  by unfold_locales (auto simp: event_advance_def default_event_parser_def event_found_def)

interpretation exit: marked_parser "exit_advance env" default_exit_reason_parser
  "default_exit_reason_parser\<lparr>ex_state := ExCode\<rparr>" "EXIT_REASON env" exit_found for env
  by unfold_locales (auto simp: exit_advance_def default_exit_reason_parser_def exit_found_def)

interpretation gas_value: marked_parser "gas_value_advance env" default_gas_value_parser
  "default_gas_value_parser\<lparr>gv_state := GasValue\<rparr>" "GAS_VALUE env" gas_value_found for env
  by unfold_locales (auto simp: gas_value_advance_def default_gas_value_parser_def gas_value_found_def)

interpretation gas_price: marked_parser "gas_price_advance env" default_gas_price_parser
  "default_gas_price_parser\<lparr>gp_state := GasPrice\<rparr>" "GAS_PRICE env" gas_price_found for env
  by unfold_locales (auto simp: gas_price_advance_def default_gas_price_parser_def gas_price_found_def)

interpretation gas_recipient: marked_parser "gas_recipient_advance env" default_gas_recipient_parser
  "default_gas_recipient_parser\<lparr>gr_state := GasRecipient\<rparr>" "GAS_RECIPIENT env" gas_recipient_found for env
  by unfold_locales
    (auto simp: gas_recipient_advance_def default_gas_recipient_parser_def gas_recipient_found_def)

section \<open>Log lines\<close>

text \<open>
  The lines the Solana runtime writes for \<^verbatim>\<open>sol_log_data\<close>: the base64 items after
  the prefix, separated by a space.  An empty item leaves no token.
\<close>

fun join_space :: "rstr list \<Rightarrow> rstr" where
  "join_space [] = []"
| "join_space [x] = x"
| "join_space (x # y # zs) = x @ 32 # join_space (y # zs)"

definition data_line :: "(bytes \<Rightarrow> rstr) \<Rightarrow> bytes list \<Rightarrow> rstr" where
  "data_line enc items = str ''Program data: '' @ join_space (map enc items)"

definition base64_law :: "log_env \<Rightarrow> (bytes \<Rightarrow> rstr) \<Rightarrow> bool" where
  "base64_law env enc \<longleftrightarrow> enc [] = [] \<and>
     (\<forall>x. x \<noteq> [] \<longrightarrow> enc x \<noteq> [] \<and> (\<forall>c \<in> set (enc x). \<not> is_whitespace c) \<and>
        base64_decode env (enc x) = Some x)"

lemma split_pieces_word:
  "\<forall>c \<in> set w. \<not> is_whitespace c \<Longrightarrow> split_pieces p (w @ s) = split_pieces (p @ w) s"
  by (induction w arbitrary: p) simp_all

lemma is_whitespace_space [simp]: "is_whitespace 32"
  by (simp add: is_whitespace_def)

lemma split_join_space:
  "\<forall>w \<in> set ws. \<forall>c \<in> set w. \<not> is_whitespace c \<Longrightarrow>
   split_whitespace (join_space ws) = filter (\<lambda>w. w \<noteq> []) ws"
proof (induction ws rule: join_space.induct)
  case (2 x)
  then show ?case using split_pieces_word [of x "[]" "[]"] by (simp add: split_whitespace_def)
next
  case (3 x y zs)
  then show ?case by (simp add: split_whitespace_def split_pieces_word)
qed (simp add: split_whitespace_def)

lemma strip_prefix_append [simp]: "strip_prefix p (p @ s) = Some s"
  by (simp add: strip_prefix_def)

lemma consume_data_line:
  assumes "base64_law env enc"
  shows "consume env advance st (data_line enc items) =
    advance_all advance st (filter (\<lambda>x. x \<noteq> []) items)"
proof -
  have enc: "enc x \<noteq> [] \<longleftrightarrow> x \<noteq> []" "\<forall>c \<in> set (enc x). \<not> is_whitespace c" for x
    using assms by (cases "x = []"; force simp: base64_law_def)+
  have "split_whitespace (join_space (map enc items)) = map enc (filter (\<lambda>x. x \<noteq> []) items)"
    using split_join_space [of "map enc items"] enc by (simp add: filter_map o_def)
  moreover have "map (base64_decode env) (map enc (filter (\<lambda>x. x \<noteq> []) items)) =
      map Some (filter (\<lambda>x. x \<noteq> []) items)"
    using assms by (simp add: base64_law_def)
  ultimately show ?thesis
    unfolding consume_def data_line_def strip_prefix_append option.case
    by (simp only: consume_items_eq)
qed

section \<open>Round trip of the log entries\<close>

text \<open>
  What the Rome EVM program reports, the items it logs for it, and what the report adds
  to the state of the parser.
\<close>

datatype log_entry =
    EventEntry eth_log
  | ExitEntry exit_reason u64
  | GasValueEntry u256
  | GasPriceEntry u256
  | GasRecipientEntry address
  | ForeignEntry "bytes list"
  | OtherEntry rstr

text \<open>
  How an exit report is read back.  An empty reason leaves no token in the line, so that the return
  value, when there is one, is taken for the reason.
\<close>

definition exit_read :: "exit_reason \<Rightarrow> exit_reason" where
  "exit_read r = (if reason r = [] then r\<lparr>reason := return_value r, return_value := []\<rparr> else r)"

fun render_entry :: "log_env \<Rightarrow> (bytes \<Rightarrow> rstr) \<Rightarrow> log_entry \<Rightarrow> rstr" where
  "render_entry env enc (EventEntry e) = data_line enc
     ([EVENT_LOG env, address_be (log_address e), [word_of_nat (length (log_topics e))]]
        @ map u256_be (log_topics e) @ [log_data e])"
| "render_entry env enc (ExitEntry r n) =
     data_line enc [EXIT_REASON env, [code r], u64_le n, reason r, return_value r]"
| "render_entry env enc (GasValueEntry v) = data_line enc [GAS_VALUE env, u256_be v]"
| "render_entry env enc (GasPriceEntry v) = data_line enc [GAS_PRICE env, u256_be v]"
| "render_entry env enc (GasRecipientEntry a) = data_line enc [GAS_RECIPIENT env, address_be a]"
| "render_entry env enc (ForeignEntry items) = data_line enc items"
| "render_entry env enc (OtherEntry line) = line"

fun log_effect :: "log_entry \<Rightarrow> log_parser \<Rightarrow> log_parser" where
  "log_effect (EventEntry e) lp = lp\<lparr>events := events lp @ [e]\<rparr>"
| "log_effect (ExitEntry r n) lp = lp\<lparr>lp_exit_reason := Some (exit_read r)\<rparr>"
| "log_effect (GasValueEntry v) lp = lp\<lparr>lp_gas_value := Some v\<rparr>"
| "log_effect (GasPriceEntry v) lp = lp\<lparr>lp_gas_price := Some v\<rparr>"
| "log_effect (GasRecipientEntry a) lp = lp\<lparr>lp_gas_recipient := Some a\<rparr>"
| "log_effect (ForeignEntry items) lp = lp"
| "log_effect (OtherEntry line) lp = lp"

definition markers :: "log_env \<Rightarrow> bytes list" where
  "markers env = [EVENT_LOG env, EXIT_REASON env, GAS_VALUE env, GAS_PRICE env, GAS_RECIPIENT env]"

definition markers_ok :: "log_env \<Rightarrow> bool" where
  "markers_ok env \<longleftrightarrow> distinct (markers env) \<and>
     (\<forall>m \<in> set (markers env). length m \<notin> {0, 1, 8, 20, 32})"

fun entry_ok :: "log_env \<Rightarrow> log_entry \<Rightarrow> bool" where
  "entry_ok env (EventEntry e) \<longleftrightarrow> length (log_topics e) < 256 \<and>
     e = default_log\<lparr>log_address := log_address e, log_topics := log_topics e, log_data := log_data e\<rparr>"
| "entry_ok env (ExitEntry r n) \<longleftrightarrow>
     utf8_valid (if reason r = [] then return_value r else reason r) \<and> reason r \<notin> set (markers env)"
| "entry_ok env (ForeignEntry items) \<longleftrightarrow> set (markers env) \<inter> set (butlast items) = {}"
| "entry_ok env (OtherEntry line) \<longleftrightarrow> strip_prefix (str ''Program data: '') line = None"
| "entry_ok env _ \<longleftrightarrow> True"

lemma marker_lengths:
  assumes "markers_ok env" and "m \<in> set (markers env)"
  shows "m \<noteq> []" "m \<noteq> [b]" "m \<noteq> u64_le n" "m \<noteq> address_be a" "m \<noteq> u256_be v"
  using assms by (auto simp: markers_ok_def)

lemma event_steps:
  "ev_state p = EvInit \<Longrightarrow> event_advance env p (EVENT_LOG env) = Ok (p\<lparr>ev_state := EvAddress\<rparr>)"
  "ev_state p = EvAddress \<Longrightarrow> event_advance env p (address_be a) =
     Ok (p\<lparr>event := (event p)\<lparr>log_address := a\<rparr>, ev_state := EvTopicsLen\<rparr>)"
  "ev_state p = EvTopicsLen \<Longrightarrow> event_advance env p [b] =
     Ok (p\<lparr>topics_len := unat b, ev_state := (if 0 < unat b then EvTopics else EvData)\<rparr>)"
  "ev_state p = EvTopics \<Longrightarrow> event_advance env p (u256_be t) =
     Ok (p\<lparr>event := (event p)\<lparr>log_topics := log_topics (event p) @ [t]\<rparr>,
       ev_state := (if Suc (length (log_topics (event p))) = topics_len p then EvData else EvTopics)\<rparr>)"
  "ev_state p = EvData \<Longrightarrow> event_advance env p item = Ok (p\<lparr>event := (event p)\<lparr>log_data := item\<rparr>\<rparr>)"
  by (simp_all add: event_advance_def Let_def)

lemma advance_topics:
  assumes "ev_state p = EvTopics" and "ts \<noteq> []"
    and "length (log_topics (event p)) + length ts = topics_len p"
  shows "advance_all (event_advance env) p (map u256_be ts @ items) =
    advance_all (event_advance env)
      (p\<lparr>event := (event p)\<lparr>log_topics := log_topics (event p) @ ts\<rparr>, ev_state := EvData\<rparr>) items"
  using assms
proof (induction ts arbitrary: p)
  case (Cons t ts)
  show ?case
  proof (cases "ts = []")
    case True
    with Cons show ?thesis by (simp add: event_steps)
  next
    case False
    then have "Suc (length (log_topics (event p))) \<noteq> topics_len p" using Cons.prems by (cases ts) auto
    with Cons False show ?thesis by (simp add: event_steps)
  qed
qed simp

lemma unat_u8: "n < 256 \<Longrightarrow> unat (word_of_nat n :: u8) = n"
  by (simp add: unat_of_nat)

lemma advance_event:
  assumes "entry_ok env (EventEntry e)" and "EVENT_LOG env \<noteq> []"
  shows "\<exists>p. advance_all (event_advance env) default_event_parser (filter (\<lambda>x. x \<noteq> [])
      ([EVENT_LOG env, address_be (log_address e), [word_of_nat (length (log_topics e))]]
        @ map u256_be (log_topics e) @ [log_data e])) = Ok p \<and> event_found p \<and> event p = e"
proof -
  have ne: "address_be a \<noteq> []" "u256_be v \<noteq> []" for a v
    using length_encodings by (metis list.size(3) zero_neq_numeral)+
  then have fl: "filter (\<lambda>x. x \<noteq> []) (map u256_be ts) = map u256_be ts" for ts
    by (simp add: filter_empty_conv)
  define d where "d = filter (\<lambda>x. x \<noteq> []) [log_data e]"
  let ?t = "log_topics e"
  let ?p = "\<lambda>ts st. \<lparr>ev_state = st, topics_len = length ?t,
    event = default_log\<lparr>log_address := log_address e, log_topics := ts\<rparr>\<rparr>"
  have e: "e = default_log\<lparr>log_address := log_address e, log_topics := ?t, log_data := log_data e\<rparr>"
    and n: "length ?t < 256" using assms(1) by simp_all
  have start: "advance_all (event_advance env) default_event_parser (filter (\<lambda>x. x \<noteq> [])
      ([EVENT_LOG env, address_be (log_address e), [word_of_nat (length ?t)]]
        @ map u256_be ?t @ [log_data e])) =
    advance_all (event_advance env) (?p [] (if 0 < length ?t then EvTopics else EvData))
      (map u256_be ?t @ d)"
    unfolding filter_append fl d_def
    using assms(2) ne unat_u8 [OF n]
    by (simp add: event_steps default_event_parser_def default_log_def)
  have "advance_all (event_advance env) (?p [] (if 0 < length ?t then EvTopics else EvData))
      (map u256_be ?t @ d) = advance_all (event_advance env) (?p ?t EvData) d"
  proof (cases "?t = []")
    case False
    then show ?thesis by (subst advance_topics) (simp_all add: default_log_def)
  qed simp
  moreover have "event (?p ?t EvData)\<lparr>log_data := log_data e\<rparr> = e"
    using e by simp
  then have "\<exists>p. advance_all (event_advance env) (?p ?t EvData) d = Ok p \<and> event_found p \<and> event p = e"
    by (cases "log_data e = []") (auto simp: d_def event_steps event_found_def default_log_def)
  ultimately show ?thesis using start by simp
qed

lemma advance_exit:
  assumes "entry_ok env (ExitEntry r n)" and "EXIT_REASON env \<noteq> []"
  shows "\<exists>p. advance_all (exit_advance env) default_exit_reason_parser (filter (\<lambda>x. x \<noteq> [])
      [EXIT_REASON env, [code r], u64_le n, reason r, return_value r]) = Ok p \<and>
    exit_found p \<and> ex_exit_reason p = exit_read r"
proof -
  have "u64_le n \<noteq> []" using length_encodings(3) by (metis list.size(3) zero_neq_numeral)
  moreover have "length (u64_le n) = 8" by simp
  ultimately show ?thesis
    using assms
    by (cases "return_value r = []"; cases "reason r = []")
      (auto simp: exit_advance_def default_exit_reason_parser_def default_exit_reason_def exit_found_def exit_read_def)
qed

lemma encodings_not_Nil [simp]: "u256_be v \<noteq> []" "address_be a \<noteq> []" "u64_le w \<noteq> []"
  using length_encodings by (metis list.size(3) zero_neq_numeral)+

lemma advance_gas:
  "GAS_VALUE env \<noteq> [] \<Longrightarrow> advance_all (gas_value_advance env) default_gas_value_parser
     (filter (\<lambda>x. x \<noteq> []) [GAS_VALUE env, u256_be v]) = Ok \<lparr>gv_state = GasValueFound, gv_gas_value = v\<rparr>"
  "GAS_PRICE env \<noteq> [] \<Longrightarrow> advance_all (gas_price_advance env) default_gas_price_parser
     (filter (\<lambda>x. x \<noteq> []) [GAS_PRICE env, u256_be v]) = Ok \<lparr>gp_state = GasPriceFound, gp_gas_price = v\<rparr>"
  "GAS_RECIPIENT env \<noteq> [] \<Longrightarrow> advance_all (gas_recipient_advance env) default_gas_recipient_parser
     (filter (\<lambda>x. x \<noteq> []) [GAS_RECIPIENT env, address_be a]) =
     Ok \<lparr>gr_state = GasRecipientFound, recipient = Some a\<rparr>"
  by (simp_all add: gas_value_advance_def gas_price_advance_def gas_recipient_advance_def
      default_gas_value_parser_def default_gas_price_parser_def default_gas_recipient_parser_def)

lemma consume_others:
  assumes "base64_law env enc"
  shows "EVENT_LOG env \<notin> set (butlast items) \<Longrightarrow>
      \<exists>p. consume env (event_advance env) default_event_parser (data_line enc items) = Ok p \<and>
        \<not> event_found p"
    and "EXIT_REASON env \<notin> set (butlast items) \<Longrightarrow>
      \<exists>p. consume env (exit_advance env) default_exit_reason_parser (data_line enc items) = Ok p \<and>
        \<not> exit_found p"
    and "GAS_VALUE env \<notin> set (butlast items) \<Longrightarrow>
      \<exists>p. consume env (gas_value_advance env) default_gas_value_parser (data_line enc items) = Ok p \<and>
        \<not> gas_value_found p"
    and "GAS_PRICE env \<notin> set (butlast items) \<Longrightarrow>
      \<exists>p. consume env (gas_price_advance env) default_gas_price_parser (data_line enc items) = Ok p \<and>
        \<not> gas_price_found p"
    and "GAS_RECIPIENT env \<notin> set (butlast items) \<Longrightarrow>
      \<exists>p. consume env (gas_recipient_advance env) default_gas_recipient_parser (data_line enc items) = Ok p \<and>
        \<not> gas_recipient_found p"
  unfolding consume_data_line [OF assms]
  by (blast intro: event.others_filtered exit.others_filtered gas_value.others_filtered
      gas_price.others_filtered gas_recipient.others_filtered)+

lemma distinct_markers:
  assumes "markers_ok env"
  shows "EVENT_LOG env \<noteq> EXIT_REASON env" "EVENT_LOG env \<noteq> GAS_VALUE env"
    "EVENT_LOG env \<noteq> GAS_PRICE env" "EVENT_LOG env \<noteq> GAS_RECIPIENT env"
    "EXIT_REASON env \<noteq> GAS_VALUE env" "EXIT_REASON env \<noteq> GAS_PRICE env"
    "EXIT_REASON env \<noteq> GAS_RECIPIENT env" "GAS_VALUE env \<noteq> GAS_PRICE env"
    "GAS_VALUE env \<noteq> GAS_RECIPIENT env" "GAS_PRICE env \<noteq> GAS_RECIPIENT env"
  using assms by (auto simp: markers_ok_def markers_def)

lemma markers_in [simp]:
  "EVENT_LOG env \<in> set (markers env)" "EXIT_REASON env \<in> set (markers env)"
  "GAS_VALUE env \<in> set (markers env)" "GAS_PRICE env \<in> set (markers env)"
  "GAS_RECIPIENT env \<in> set (markers env)"
  by (simp_all add: markers_def)

lemma butlast_event:
  "butlast ([m, address_be a, [b]] @ map u256_be ts @ [d]) = [m, address_be a, [b]] @ map u256_be ts"
  by (simp add: butlast_append)

lemma parse_line_render:
  assumes m: "markers_ok env" and b: "base64_law env enc" and e: "entry_ok env e"
  shows "parse_line env lp (render_entry env enc e) = Ok (log_effect e lp)"
proof -
  note len = marker_lengths [OF m] and dm = distinct_markers [OF m]
  note neq = len(2-5) [THEN not_sym] dm dm [THEN not_sym]
  note co = consume_others [OF b] and cd = consume_data_line [OF b]
  show ?thesis
  proof (cases e)
    case (EventEntry ev)
    let ?items = "[EVENT_LOG env, address_be (log_address ev), [word_of_nat (length (log_topics ev))]]
        @ map u256_be (log_topics ev) @ [log_data ev]"
    have no: "x \<notin> set (butlast ?items)" if "x \<in> set (markers env)" "x \<noteq> EVENT_LOG env" for x
      using that len [of x] unfolding butlast_event by auto
    obtain p where p: "consume env (event_advance env) default_event_parser (data_line enc ?items) = Ok p"
      "event_found p" "event p = ev"
      using advance_event [of env ev] e EventEntry len(1) [of "EVENT_LOG env"] unfolding cd by auto
    from co(2-5) [of ?items] no dm obtain rp vp pp cp where
      "consume env (exit_advance env) default_exit_reason_parser (data_line enc ?items) = Ok rp" "\<not> exit_found rp"
      "consume env (gas_value_advance env) default_gas_value_parser (data_line enc ?items) = Ok vp" "\<not> gas_value_found vp"
      "consume env (gas_price_advance env) default_gas_price_parser (data_line enc ?items) = Ok pp" "\<not> gas_price_found pp"
      "consume env (gas_recipient_advance env) default_gas_recipient_parser (data_line enc ?items) = Ok cp" "\<not> gas_recipient_found cp"
      by (metis markers_in)
    then show ?thesis using p EventEntry by (simp add: parse_line_def log_update_def)
  next
    case (ExitEntry r n)
    let ?items = "[EXIT_REASON env, [code r], u64_le n, reason r, return_value r]"
    have no: "x \<notin> set (butlast ?items)" if "x \<in> set (markers env)" "x \<noteq> EXIT_REASON env" for x
      using that len [of x] e ExitEntry by auto
    obtain p where p: "consume env (exit_advance env) default_exit_reason_parser (data_line enc ?items) = Ok p"
      "exit_found p" "ex_exit_reason p = exit_read r"
      using advance_exit [of env r n] e ExitEntry len(1) [of "EXIT_REASON env"] unfolding cd by auto
    from co(1,3-5) [of ?items] no dm obtain ep vp pp cp where
      "consume env (event_advance env) default_event_parser (data_line enc ?items) = Ok ep" "\<not> event_found ep"
      "consume env (gas_value_advance env) default_gas_value_parser (data_line enc ?items) = Ok vp" "\<not> gas_value_found vp"
      "consume env (gas_price_advance env) default_gas_price_parser (data_line enc ?items) = Ok pp" "\<not> gas_price_found pp"
      "consume env (gas_recipient_advance env) default_gas_recipient_parser (data_line enc ?items) = Ok cp" "\<not> gas_recipient_found cp"
      by (metis markers_in)
    then show ?thesis using p ExitEntry by (simp add: parse_line_def log_update_def)
  next
    case (GasValueEntry v)
    let ?items = "[GAS_VALUE env, u256_be v]"
    have p: "consume env (gas_value_advance env) default_gas_value_parser (data_line enc ?items) =
        Ok \<lparr>gv_state = GasValueFound, gv_gas_value = v\<rparr>"
      using advance_gas(1) len(1) [of "GAS_VALUE env"] unfolding cd by simp
    from co(1,2,4,5) [of ?items] dm obtain ep rp pp cp where
      "consume env (event_advance env) default_event_parser (data_line enc ?items) = Ok ep" "\<not> event_found ep"
      "consume env (exit_advance env) default_exit_reason_parser (data_line enc ?items) = Ok rp" "\<not> exit_found rp"
      "consume env (gas_price_advance env) default_gas_price_parser (data_line enc ?items) = Ok pp" "\<not> gas_price_found pp"
      "consume env (gas_recipient_advance env) default_gas_recipient_parser (data_line enc ?items) = Ok cp" "\<not> gas_recipient_found cp"
      by auto
    then show ?thesis using p GasValueEntry by (simp add: parse_line_def log_update_def gas_value_found_def)
  next
    case (GasPriceEntry v)
    let ?items = "[GAS_PRICE env, u256_be v]"
    have p: "consume env (gas_price_advance env) default_gas_price_parser (data_line enc ?items) =
        Ok \<lparr>gp_state = GasPriceFound, gp_gas_price = v\<rparr>"
      using advance_gas(2) len(1) [of "GAS_PRICE env"] unfolding cd by simp
    from co(1,2,3,5) [of ?items] neq obtain ep rp vp cp where
      "consume env (event_advance env) default_event_parser (data_line enc ?items) = Ok ep" "\<not> event_found ep"
      "consume env (exit_advance env) default_exit_reason_parser (data_line enc ?items) = Ok rp" "\<not> exit_found rp"
      "consume env (gas_value_advance env) default_gas_value_parser (data_line enc ?items) = Ok vp" "\<not> gas_value_found vp"
      "consume env (gas_recipient_advance env) default_gas_recipient_parser (data_line enc ?items) = Ok cp" "\<not> gas_recipient_found cp"
      by auto
    then show ?thesis using p GasPriceEntry by (simp add: parse_line_def log_update_def gas_price_found_def)
  next
    case (GasRecipientEntry a)
    let ?items = "[GAS_RECIPIENT env, address_be a]"
    have p: "consume env (gas_recipient_advance env) default_gas_recipient_parser (data_line enc ?items) =
        Ok \<lparr>gr_state = GasRecipientFound, recipient = Some a\<rparr>"
      using advance_gas(3) len(1) [of "GAS_RECIPIENT env"] unfolding cd by simp
    from co(1,2,3,4) [of ?items] neq obtain ep rp vp pp where
      "consume env (event_advance env) default_event_parser (data_line enc ?items) = Ok ep" "\<not> event_found ep"
      "consume env (exit_advance env) default_exit_reason_parser (data_line enc ?items) = Ok rp" "\<not> exit_found rp"
      "consume env (gas_value_advance env) default_gas_value_parser (data_line enc ?items) = Ok vp" "\<not> gas_value_found vp"
      "consume env (gas_price_advance env) default_gas_price_parser (data_line enc ?items) = Ok pp" "\<not> gas_price_found pp"
      by auto
    then show ?thesis using p GasRecipientEntry by (simp add: parse_line_def log_update_def gas_recipient_found_def)
  next
    case (ForeignEntry items)
    then have "m \<notin> set (butlast items)" if "m \<in> set (markers env)" for m using e that by auto
    from co [of items] this obtain ep rp vp pp cp where
      "consume env (event_advance env) default_event_parser (data_line enc items) = Ok ep" "\<not> event_found ep"
      "consume env (exit_advance env) default_exit_reason_parser (data_line enc items) = Ok rp" "\<not> exit_found rp"
      "consume env (gas_value_advance env) default_gas_value_parser (data_line enc items) = Ok vp" "\<not> gas_value_found vp"
      "consume env (gas_price_advance env) default_gas_price_parser (data_line enc items) = Ok pp" "\<not> gas_price_found pp"
      "consume env (gas_recipient_advance env) default_gas_recipient_parser (data_line enc items) = Ok cp" "\<not> gas_recipient_found cp"
      by (metis markers_in)
    then show ?thesis using ForeignEntry by (simp add: parse_line_def log_update_def)
  next
    case (OtherEntry line)
    then show ?thesis
      using e event.found_init exit.found_init gas_value.found_init gas_price.found_init
        gas_recipient.found_init by (simp add: parse_line_def consume_def log_update_def)
  qed
qed

text \<open>
  C21. Round trip of the logs of a transaction: from the lines that the program's reports
  are logged as, the parser gets back every event in order, and the last exit reason, gas value,
  gas price and gas recipient.  Between them may stand any lines that are not program data, and program data
  of other programs in which no marker is followed by another item.  A return value without a
  reason is the exception to the round trip: it is read as the reason (\<^const>\<open>exit_read\<close>), and must
  then be valid UTF-8.
\<close>

theorem log_round_trip:
  assumes "markers_ok env" and "base64_law env enc" and "\<forall>e \<in> set es. entry_ok env e"
  shows "parse_logs env lp (map (render_entry env enc) es) = Ok (fold log_effect es lp)"
  using assms(3) by (induction es arbitrary: lp) (simp_all add: parse_line_render assms(1,2))

definition test_enc :: "bytes \<Rightarrow> rstr" where
  "test_enc bs = map (\<lambda>b. 256 + unat b) bs"

definition test_env :: log_env where
  "test_env = \<lparr>base64_decode = (\<lambda>s. Some (map (\<lambda>c. word_of_nat (c - 256)) s)),
     EVENT_LOG = [1, 1], EXIT_REASON = [2, 2], GAS_VALUE = [3, 3], GAS_PRICE = [4, 4],
     GAS_RECIPIENT = [5, 5], REVERT_ERROR = [6, 6, 6, 6], REVERT_PANIC = [7, 7, 7, 7],
     abi_decode_string = (\<lambda>_. None), abi_decode_uint = (\<lambda>_. None)\<rparr>"

lemma test_env_ok: "markers_ok test_env" "base64_law test_env test_enc"
proof -
  show "markers_ok test_env" by (simp add: markers_ok_def markers_def test_env_def)
  have "\<not> is_whitespace (256 + unat b)" for b :: u8
    using unat_bound [of b] by (auto simp: is_whitespace_def)
  then show "base64_law test_env test_enc"
    by (auto simp: base64_law_def test_env_def test_enc_def o_def)
qed

theorem log_round_trip_witness:
  "parse_logs test_env new_log_parser (map (render_entry test_env test_enc)
     [EventEntry (default_log\<lparr>log_address := 7, log_topics := [1, 2]\<rparr>), OtherEntry (str ''x''),
      ForeignEntry [[9, 9], [], [1, 1]], GasValueEntry 21000, ExitEntry \<lparr>code = 0, reason = [83], return_value = []\<rparr> 1]) =
   Ok (new_log_parser\<lparr>events := [default_log\<lparr>log_address := 7, log_topics := [1, 2]\<rparr>],
     lp_gas_value := Some 21000,
     lp_exit_reason := Some \<lparr>code = 0, reason = [83], return_value = []\<rparr>\<rparr>)"
  by (subst log_round_trip [OF test_env_ok])
    (simp_all add: new_log_parser_def default_log_def markers_def test_env_def exit_read_def strip_prefix_def str_def)

text \<open>
  An empty exit reason is not read back: its item leaves no token in the line, so the
  return value is taken for the reason and, when it is not UTF-8, the line is an error.
\<close>

theorem empty_reason_misread:
  assumes "markers_ok env" and "base64_law env enc" and "v \<noteq> []"
  shows "consume env (exit_advance env) default_exit_reason_parser
      (data_line enc [EXIT_REASON env, [c], u64_le n, [], v]) =
    (if utf8_valid v
     then Ok \<lparr>ex_state = ExReturnValue, reason_len = n,
              ex_exit_reason = \<lparr>code = c, reason = v, return_value = []\<rparr>\<rparr>
     else Err (LogParserError ''exit reason: msg convert error''))"
proof -
  have "EXIT_REASON env \<noteq> []" "length (u64_le n) = 8"
    using marker_lengths(1) [OF assms(1)] by auto
  then show ?thesis
    using assms(3) unfolding consume_data_line [OF assms(2)]
    by (simp add: exit_advance_def default_exit_reason_parser_def default_exit_reason_def)
qed

theorem empty_reason_misread_witness:
  "consume test_env (exit_advance test_env) default_exit_reason_parser
     (data_line test_enc [EXIT_REASON test_env, [1], u64_le 0, [], [0xFF]]) =
   Err (LogParserError ''exit reason: msg convert error'')"
  by (subst empty_reason_misread [OF test_env_ok]) simp_all

end
