(* ===== verification/L1_Attributes.thy ===== *)
theory L1_Attributes
  imports Eth_Types
begin

text \<open>
  \<^verbatim>\<open>rome-evm-client/src/indexer/parsers/l1_attributes.rs\<close>: the system transaction that
  opens every block after deposits are enabled, and the source hashes of deposits.
\<close>

definition L1_ATTRIBUTES_DEPOSITOR :: address where
  "L1_ATTRIBUTES_DEPOSITOR = 0xdeaddeaddeaddeaddeaddeaddeaddeaddead0001"

definition L1_ATTRIBUTES_SC :: address where
  "L1_ATTRIBUTES_SC = 0x4200000000000000000000000000000000000015"

definition SET_L1_ATTRIBUTES_HASH :: bytes where
  "SET_L1_ATTRIBUTES_HASH = [0x01, 0x5d, 0x8e, 0xb9]"

definition L1_ATTRIBUTES_GAS_LIMIT :: u64 where
  "L1_ATTRIBUTES_GAS_LIMIT = 150000000"

text \<open>\<^verbatim>\<open>U256::from\<close> of a 64-bit number.\<close>

definition u256_of_u64 :: "u64 \<Rightarrow> u256" where
  "u256_of_u64 n = word_of_nat (unat n)"

definition create_l1_attributes_tx_data :: "slot \<Rightarrow> h256 \<Rightarrow> u256 \<Rightarrow> bytes" where
  "create_l1_attributes_tx_data l1_block_number l1_blockhash l1_timestamp =
     SET_L1_ATTRIBUTES_HASH
     @ u256_be (u256_of_u64 l1_block_number)
     @ u256_be l1_timestamp
     @ u256_be 0
     @ u256_be l1_blockhash
     @ u256_be (u256_of_u64 l1_block_number)
     @ u256_be 0
     @ u256_be 0
     @ u256_be 0"

definition create_l1_attributes_source_hash :: "eth_lib \<Rightarrow> slot \<Rightarrow> h256 \<Rightarrow> h256" where
  "create_l1_attributes_source_hash lib l1_block_number l1_blockhash =
     (let part2 = keccak256 lib (u256_be l1_blockhash @ u256_be (u256_of_u64 l1_block_number))
      in keccak256 lib (u256_be 1 @ u256_be part2))"

definition create_user_deposit_source_hash :: "eth_lib \<Rightarrow> h256 \<Rightarrow> u256 \<Rightarrow> h256" where
  "create_user_deposit_source_hash lib l1_blockhash l1_log_index =
     (let part2 = keccak256 lib (u256_be l1_blockhash @ u256_be l1_log_index)
      in keccak256 lib (u256_be 0 @ u256_be part2))"

text \<open>
  The transaction is encoded by the ethers crate and decoded again; a failure to decode it
  is an \<^verbatim>\<open>unwrap\<close> of an error.
\<close>

definition create_l1_attributes_tx ::
  "eth_lib \<Rightarrow> slot \<Rightarrow> h256 \<Rightarrow> u256 \<Rightarrow> (transaction \<times> tx_result) res" where
  "create_l1_attributes_tx lib l1_block_number l1_blockhash l1_timestamp =
     (let tx = \<lparr>dep_from = Some L1_ATTRIBUTES_DEPOSITOR, dep_to = Some L1_ATTRIBUTES_SC,
            dep_gas = Some (u256_of_u64 L1_ATTRIBUTES_GAS_LIMIT), dep_gas_price = None,
            dep_value = None,
            dep_data = Some (create_l1_attributes_tx_data l1_block_number l1_blockhash l1_timestamp),
            dep_nonce = None, dep_chain_id = None,
            dep_source_hash = create_l1_attributes_source_hash lib l1_block_number l1_blockhash,
            dep_mint = None, dep_is_system_tx = True\<rparr>
      in try_res (expect ''called Result::unwrap() on an Err value'' (rlp_decode lib (deposit_rlp lib tx)))
           (\<lambda>t. Ok (t, default_tx_result)))"

definition update_if_user_deposited_tx :: "eth_lib \<Rightarrow> transaction \<Rightarrow> h256 \<Rightarrow> u256 \<Rightarrow> transaction" where
  "update_if_user_deposited_tx lib tx l1_blockhash l1_log_index =
     (if tx_transaction_type tx \<noteq> Some deposit_type \<or> tx_is_system_tx tx then tx
      else
        let tx' = tx\<lparr>tx_source_hash := create_user_deposit_source_hash lib l1_blockhash l1_log_index\<rparr>
        in tx'\<lparr>tx_hash := transaction_hash lib tx'\<rparr>)"

section \<open>Properties\<close>

lemma length_l1_data: "length (create_l1_attributes_tx_data n h t) = 260"
  by (simp add: create_l1_attributes_tx_data_def SET_L1_ATTRIBUTES_HASH_def)

lemma unat_u256_of_u64 [simp]: "unat (u256_of_u64 n) = unat n"
proof -
  have "unat n < 2 ^ LENGTH(256)" using unat_bound [of n] by simp
  then show ?thesis
    unfolding u256_of_u64_def unat_of_nat by (rule mod_less)
qed

lemma u256_of_u64_inject [simp]: "u256_of_u64 a = u256_of_u64 b \<longleftrightarrow> a = b"
  by (metis unat_u256_of_u64 word_unat_eq_iff)

lemma l1_data_parts:
  "take 32 (drop 4 (create_l1_attributes_tx_data n h t)) = u256_be (u256_of_u64 n)"
  "take 32 (drop 36 (create_l1_attributes_tx_data n h t)) = u256_be t"
  "take 32 (drop 100 (create_l1_attributes_tx_data n h t)) = u256_be h"
  by (simp_all add: create_l1_attributes_tx_data_def SET_L1_ATTRIBUTES_HASH_def)

text \<open>
  The call data of the attributes transaction is the selector and eight words, and
  the contract that decodes it reads back slot, timestamp and blockhash: the encoding
  loses none of them.
\<close>

theorem l1_data_injective:
  "length (create_l1_attributes_tx_data n h t) = 260 \<and>
   (create_l1_attributes_tx_data n h t = create_l1_attributes_tx_data n' h' t' \<longleftrightarrow>
     n = n' \<and> h = h' \<and> t = t')"
  using l1_data_parts [of n h t] l1_data_parts [of n' h' t'] length_l1_data [of n h t] by auto

lemma update_deposit_keeps:
  "tx_from (update_if_user_deposited_tx lib tx h i) = tx_from tx"
  "tx_transaction_type (update_if_user_deposited_tx lib tx h i) = tx_transaction_type tx"
  "tx_is_system_tx (update_if_user_deposited_tx lib tx h i) = tx_is_system_tx tx"
  by (simp_all add: update_if_user_deposited_tx_def Let_def)

end
