(* ===== verification/Block_Parser.thy ===== *)
theory Block_Parser
  imports Default_Tx_Parser_Facts Log_Parser L1_Attributes
begin

text \<open>
  \<^verbatim>\<open>rome-evm-client/src/indexer/parsers/block_parser.rs\<close>: the instructions of the EVM
  program in a Solana block become transaction steps (\<open>register_block\<close>), blocks are read
  back along the parents until the slot is complete (\<open>parse\<close>), and the transactions of
  a complete slot are grouped into Ethereum blocks (\<open>create_eth_blocks\<close>).
\<close>

section \<open>Solana blocks\<close>

type_synonym pubkey = "256 word"
type_synonym timestamp = "64 word"

text \<open>
  The parts of the Solana types that the parser reads.  A transaction is what
  \<^verbatim>\<open>transaction.decode()\<close> of the Solana crate returns, \<open>None\<close> when it does not decode;
  the account keys are the static ones of the message.
\<close>

record compiled_instruction =
  program_id_index :: u8
  instr_data :: bytes

record transaction_meta =
  meta_err :: bool
  log_messages :: "rstr list option"

record versioned_transaction =
  signatures :: "bytes list"
  static_account_keys :: "pubkey list"
  instructions :: "compiled_instruction list"

record encoded_transaction =
  decoded :: "versioned_transaction option"
  meta :: "transaction_meta option"

record solana_block =
  previous_blockhash :: rstr
  blockhash :: rstr
  parent_slot :: slot
  sol_transactions :: "encoded_transaction list option"
  block_time :: "timestamp option"

text \<open>
  The instruction discriminants and argument parsers of the \<^verbatim>\<open>rome_evm\<close> and
  \<^verbatim>\<open>emulator\<close> crates (\<open>None\<close> for an error), and base58.
\<close>

record evm_api =
  DoTx :: u8
  TransmitTx_disc :: u8
  DoTxHolder :: u8
  DoTxIterative :: u8
  DoTxHolderIterative :: u8
  Deposit :: u8
  split_fee :: "bytes \<Rightarrow> (u64 \<times> bytes) option"
  deposit_args :: "bytes \<Rightarrow> (u64 \<times> bytes) option"
  do_tx_iterative_args :: "bytes \<Rightarrow> bytes option"
  do_tx_holder_args :: "bytes \<Rightarrow> (h256 \<times> u64) option"
  do_tx_holder_iterative_args :: "bytes \<Rightarrow> (h256 \<times> u64) option"
  transmit_tx_args :: "bytes \<Rightarrow> (nat \<times> h256 \<times> u64 \<times> bytes) option"
  bs58_decode :: "rstr \<Rightarrow> bytes option"

record parse_env =
  env_lib :: eth_lib
  env_log :: log_env
  env_api :: evm_api

section \<open>Steps of a block\<close>

definition parse_transaction_meta :: "parse_env \<Rightarrow> transaction_meta \<Rightarrow> tx_result option res" where
  "parse_transaction_meta env m =
     (case log_messages m of
        Some logs \<Rightarrow>
          try_res (parse_logs (env_log env) new_log_parser logs) (\<lambda>parser.
            Ok (case lp_exit_reason parser of
                  Some er \<Rightarrow> Some \<lparr>res_exit_reason = er, res_logs = events parser,
                    res_gas_report = \<lparr>
                      gas_value = (case lp_gas_value parser of Some v \<Rightarrow> v | None \<Rightarrow> 0),
                      gas_price = (case lp_gas_price parser of Some v \<Rightarrow> v | None \<Rightarrow> 0),
                      gas_recipient = lp_gas_recipient parser\<rparr>\<rparr>
                | None \<Rightarrow> None))
      | None \<Rightarrow> Ok None)"

text \<open>
  The entry for the hash is created before the logs are parsed; if they do not parse, it
  stays without a step.
\<close>

definition add_step ::
  "parsed_txs \<Rightarrow> h256 \<Rightarrow> nat \<Rightarrow> (tx_result option \<Rightarrow> parsed_tx_step) \<Rightarrow> tx_result option res
    \<Rightarrow> parsed_txs \<times> unit res" where
  "add_step txs h tx_idx step r =
     (case r of
        Ok tx_result \<Rightarrow> (insert_step h tx_idx (step tx_result) txs, Ok ())
      | Err e \<Rightarrow> (kv_or_insert hm_insert h [] txs, Err e)
      | Panic m \<Rightarrow> (kv_or_insert hm_insert h [] txs, Panic m))"

definition add_small_tx ::
  "parse_env \<Rightarrow> parsed_txs \<Rightarrow> nat \<Rightarrow> transaction \<Rightarrow> transaction_meta \<Rightarrow> parsed_txs \<times> unit res" where
  "add_small_tx env txs tx_idx tx m =
     add_step txs (tx_hash tx) tx_idx (SmallTx tx) (parse_transaction_meta env m)"

definition add_big_tx ::
  "parse_env \<Rightarrow> parsed_txs \<Rightarrow> nat \<Rightarrow> h256 \<Rightarrow> transaction_meta \<Rightarrow> parsed_txs \<times> unit res" where
  "add_big_tx env txs tx_idx h m = add_step txs h tx_idx BigTx (parse_transaction_meta env m)"

text \<open>A step of a computation that may leave with an error or a panic, with its state.\<close>

definition try_with :: "'s \<Rightarrow> 'a res \<Rightarrow> ('a \<Rightarrow> 's \<times> 'b res) \<Rightarrow> 's \<times> 'b res" where
  "try_with s r k = (case r of Ok x \<Rightarrow> k x | Err e \<Rightarrow> (s, Err e) | Panic m \<Rightarrow> (s, Panic m))"

definition process_rlp_tx ::
  "parse_env \<Rightarrow> u64 \<Rightarrow> parsed_txs \<Rightarrow> nat \<Rightarrow> bytes \<Rightarrow> transaction_meta \<Rightarrow> parsed_txs \<times> unit res" where
  "process_rlp_tx env self_chain_id txs tx_idx rlp m =
     try_with txs (decode_transaction_from_rlp (env_lib env) rlp) (\<lambda>tx.
     try_with txs (ok_or NoChainId (tx_chain_id tx)) (\<lambda>c.
     try_with txs (as_u64 c) (\<lambda>chain_id.
       if chain_id = self_chain_id then add_small_tx env txs tx_idx tx m else (txs, Ok ()))))"

definition process_do_tx ::
  "parse_env \<Rightarrow> u64 \<Rightarrow> parsed_txs \<Rightarrow> nat \<Rightarrow> bytes \<Rightarrow> transaction_meta \<Rightarrow> parsed_txs \<times> unit res" where
  "process_do_tx env self_chain_id txs tx_idx data m =
     try_with txs (ok_or (RomeProgramError ''split_fee'') (split_fee (env_api env) data)) (\<lambda>(_, rlp).
       process_rlp_tx env self_chain_id txs tx_idx rlp m)"

definition process_deposit_tx ::
  "parse_env \<Rightarrow> u64 \<Rightarrow> parsed_txs \<Rightarrow> nat \<Rightarrow> bytes \<Rightarrow> parsed_txs \<times> unit res" where
  "process_deposit_tx env self_chain_id txs tx_idx data =
     try_with txs (ok_or (RomeProgramError ''deposit::args'') (deposit_args (env_api env) data))
       (\<lambda>(chain_id, rlp).
         if chain_id = self_chain_id then
           try_with txs (decode_transaction_from_rlp (env_lib env) rlp) (\<lambda>tx.
             (insert_step (tx_hash tx) tx_idx (SmallTx tx (Some default_tx_result)) txs, Ok ()))
         else (txs, Ok ()))"

definition process_do_tx_iterative ::
  "parse_env \<Rightarrow> u64 \<Rightarrow> parsed_txs \<Rightarrow> nat \<Rightarrow> bytes \<Rightarrow> transaction_meta \<Rightarrow> parsed_txs \<times> unit res" where
  "process_do_tx_iterative env self_chain_id txs tx_idx data m =
     try_with txs (ok_or (RomeProgramError ''do_tx_iterative::args'')
         (do_tx_iterative_args (env_api env) data)) (\<lambda>rlp.
       process_rlp_tx env self_chain_id txs tx_idx rlp m)"

definition process_do_tx_holder ::
  "parse_env \<Rightarrow> u64 \<Rightarrow> parsed_txs \<Rightarrow> nat \<Rightarrow> bytes \<Rightarrow> transaction_meta \<Rightarrow> parsed_txs \<times> unit res" where
  "process_do_tx_holder env self_chain_id txs tx_idx data m =
     try_with txs (ok_or (RomeProgramError ''do_tx_holder::args'')
         (do_tx_holder_args (env_api env) data)) (\<lambda>(hash, chain_id).
       if chain_id = self_chain_id then add_big_tx env txs tx_idx hash m else (txs, Ok ()))"

definition process_do_tx_holder_iterative ::
  "parse_env \<Rightarrow> u64 \<Rightarrow> parsed_txs \<Rightarrow> nat \<Rightarrow> bytes \<Rightarrow> transaction_meta \<Rightarrow> parsed_txs \<times> unit res" where
  "process_do_tx_holder_iterative env self_chain_id txs tx_idx data m =
     try_with txs (ok_or (RomeProgramError ''do_tx_holder_iterative::args'')
         (do_tx_holder_iterative_args (env_api env) data)) (\<lambda>(hash, chain_id).
       if chain_id = self_chain_id then add_big_tx env txs tx_idx hash m else (txs, Ok ()))"

definition process_transmit_tx ::
  "parse_env \<Rightarrow> u64 \<Rightarrow> parsed_txs \<Rightarrow> nat \<Rightarrow> bytes \<Rightarrow> parsed_txs \<times> unit res" where
  "process_transmit_tx env self_chain_id txs tx_idx data =
     try_with txs (ok_or (RomeProgramError ''transmit_tx::args'')
         (transmit_tx_args (env_api env) data)) (\<lambda>(offset, hash, chain_id, chunk).
       (if chain_id = self_chain_id
        then insert_step hash tx_idx (TransmitTx offset chunk) txs else txs, Ok ()))"

text \<open>
  The closure of \<^verbatim>\<open>register_block\<close>: the first byte of the data selects the handler;
  an error is logged and the block goes on.
\<close>

definition dispatch ::
  "parse_env \<Rightarrow> u64 \<Rightarrow> parsed_txs \<Rightarrow> nat \<Rightarrow> u8 \<Rightarrow> bytes \<Rightarrow> transaction_meta \<Rightarrow> parsed_txs \<times> unit res" where
  "dispatch env self_chain_id txs tx_idx n data m =
     (if n = DoTx (env_api env) then process_do_tx env self_chain_id txs tx_idx data m
      else if n = TransmitTx_disc (env_api env) then process_transmit_tx env self_chain_id txs tx_idx data
      else if n = DoTxHolder (env_api env) then process_do_tx_holder env self_chain_id txs tx_idx data m
      else if n = DoTxIterative (env_api env) then process_do_tx_iterative env self_chain_id txs tx_idx data m
      else if n = DoTxHolderIterative (env_api env) then
        process_do_tx_holder_iterative env self_chain_id txs tx_idx data m
      else if n = Deposit (env_api env) then process_deposit_tx env self_chain_id txs tx_idx data
      else (txs, Ok ()))"

definition process_instruction ::
  "parse_env \<Rightarrow> u64 \<Rightarrow> parsed_txs \<Rightarrow> nat \<Rightarrow> compiled_instruction \<Rightarrow> transaction_meta \<Rightarrow> parsed_txs res" where
  "process_instruction env self_chain_id txs tx_idx instr m =
     (case instr_data instr of
        [] \<Rightarrow> Panic ''range start index 1 out of range for slice of length 0''
      | n # data \<Rightarrow>
          (case dispatch env self_chain_id txs tx_idx n data m of
             (txs', r) \<Rightarrow> (case r of Panic e \<Rightarrow> Panic e | _ \<Rightarrow> Ok txs')))"

text \<open>
  \<^verbatim>\<open>parse_solana_block\<close>: transactions that do not decode, have no meta or failed are
  skipped; of the others the instructions of the program are parsed in order.
\<close>

fun parse_instructions ::
  "pubkey \<Rightarrow> ('s \<Rightarrow> compiled_instruction \<Rightarrow> 's res) \<Rightarrow> versioned_transaction \<Rightarrow> 's
    \<Rightarrow> compiled_instruction list \<Rightarrow> 's res" where
  "parse_instructions program_id f tx st [] = Ok st"
| "parse_instructions program_id f tx st (instr # instrs) =
     (if length (static_account_keys tx) \<le> unat (program_id_index instr) then
        Panic ''index out of bounds''
      else if static_account_keys tx ! unat (program_id_index instr) = program_id then
        (if signatures tx = [] then Panic ''index out of bounds''
         else try_res (f st instr) (\<lambda>st'. parse_instructions program_id f tx st' instrs))
      else parse_instructions program_id f tx st instrs)"

fun parse_transactions_of ::
  "pubkey \<Rightarrow> ('s \<Rightarrow> nat \<Rightarrow> compiled_instruction \<Rightarrow> transaction_meta \<Rightarrow> 's res) \<Rightarrow> nat \<Rightarrow> 's
    \<Rightarrow> encoded_transaction list \<Rightarrow> 's res" where
  "parse_transactions_of program_id f tx_idx st [] = Ok st"
| "parse_transactions_of program_id f tx_idx st (t # ts) =
     (case (decoded t, meta t) of
        (Some tx, Some m) \<Rightarrow>
          if meta_err m then parse_transactions_of program_id f (Suc tx_idx) st ts
          else try_res
            (parse_instructions program_id (\<lambda>st instr. f st tx_idx instr m) tx st (instructions tx))
            (\<lambda>st'. parse_transactions_of program_id f (Suc tx_idx) st' ts)
      | _ \<Rightarrow> parse_transactions_of program_id f (Suc tx_idx) st ts)"

definition parse_solana_block ::
  "solana_block \<Rightarrow> pubkey \<Rightarrow> ('s \<Rightarrow> nat \<Rightarrow> compiled_instruction \<Rightarrow> transaction_meta \<Rightarrow> 's res)
    \<Rightarrow> 's \<Rightarrow> 's res" where
  "parse_solana_block block program_id f st =
     (case sol_transactions block of
        Some ts \<Rightarrow> parse_transactions_of program_id f 0 st ts
      | None \<Rightarrow> Ok st)"

section \<open>Ethereum blocks\<close>

record block_params =
  bp_hash :: h256
  bp_parent_hash :: "h256 option"
  bp_number :: u64
  bp_timestamp :: u256

record eth_block =
  block_gas_used :: u256
  eb_transactions :: "h256 list"
  eb_gas_recipient :: "address option"
  slot_timestamp :: "timestamp option"
  eb_block_params :: "block_params option"

definition new_eth_block ::
  "timestamp option \<Rightarrow> h256 list \<Rightarrow> u256 \<Rightarrow> address option \<Rightarrow> eth_block" where
  "new_eth_block ts txs gas_used recip =
     \<lparr>block_gas_used = gas_used, eb_transactions = txs, eb_gas_recipient = recip,
      slot_timestamp = ts, eb_block_params = None\<rparr>"

datatype block_parse_mode = EngineApi | SingleState

text \<open>The local variables of \<^verbatim>\<open>create_eth_blocks\<close>.\<close>

record grouping =
  g_gas_used :: u256
  g_eth_blocks :: "eth_block list"
  g_block_txs :: "h256 list"
  g_gas_recipient :: "address option"
  g_log_index :: u256

definition new_grouping :: grouping where
  "new_grouping = \<lparr>g_gas_used = 0, g_eth_blocks = [], g_block_txs = [],
     g_gas_recipient = None, g_log_index = 0\<rparr>"

definition u256_of_len :: "nat \<Rightarrow> u256" where
  "u256_of_len n = word_of_nat n"

definition group_tx ::
  "timestamp option \<Rightarrow> block_parse_mode \<Rightarrow> h256 \<Rightarrow> tx_result \<Rightarrow> grouping \<Rightarrow> grouping res" where
  "group_tx ts parse_mode hash r g =
     (let gas = gas_value (res_gas_report r); recip = gas_recipient (res_gas_report r) in
      case parse_mode of
        EngineApi \<Rightarrow>
          if recip = g_gas_recipient g then
            try_res (add_or_panic (g_gas_used g) gas) (\<lambda>used.
              Ok (g\<lparr>g_block_txs := g_block_txs g @ [hash], g_gas_used := used\<rparr>))
          else if g_block_txs g = [] then
            Ok (g\<lparr>g_block_txs := [hash], g_gas_used := gas, g_gas_recipient := recip\<rparr>)
          else
            Ok (g\<lparr>g_eth_blocks := g_eth_blocks g @
                   [new_eth_block ts (g_block_txs g) (g_gas_used g) (g_gas_recipient g)],
                  g_block_txs := [hash], g_gas_used := gas, g_gas_recipient := recip,
                  g_log_index := 0\<rparr>)
      | SingleState \<Rightarrow>
          try_res (add_or_panic (g_gas_used g) gas) (\<lambda>used.
            Ok (g\<lparr>g_block_txs := g_block_txs g @ [hash], g_gas_used := used\<rparr>)))"

fun group_txs ::
  "eth_lib \<Rightarrow> h256 \<Rightarrow> timestamp option \<Rightarrow> block_parse_mode \<Rightarrow> grouping
    \<Rightarrow> (transaction \<times> tx_result) list \<Rightarrow> ((transaction \<times> tx_result) list \<times> grouping) res" where
  "group_txs lib solana_blockhash ts parse_mode g [] = Ok ([], g)"
| "group_txs lib solana_blockhash ts parse_mode g ((tx, r) # rest) =
     (let tx' = update_if_user_deposited_tx lib tx solana_blockhash (g_log_index g) in
      try_res (add_or_panic (g_log_index g) (u256_of_len (length (res_logs r)))) (\<lambda>index.
      try_res (group_tx ts parse_mode (tx_hash tx') r (g\<lparr>g_log_index := index\<rparr>)) (\<lambda>g'.
      try_res (group_txs lib solana_blockhash ts parse_mode g' rest) (\<lambda>(rest', g'').
        Ok ((tx', r) # rest', g'')))))"

definition create_eth_blocks ::
  "eth_lib \<Rightarrow> h256 \<Rightarrow> timestamp option \<Rightarrow> (transaction \<times> tx_result) list \<Rightarrow> block_parse_mode
    \<Rightarrow> ((transaction \<times> tx_result) list \<times> eth_block list) res" where
  "create_eth_blocks lib solana_blockhash ts txs parse_mode =
     try_res (group_txs lib solana_blockhash ts parse_mode new_grouping txs) (\<lambda>(txs', g).
       Ok (txs', if g_block_txs g \<noteq> [] then
                   g_eth_blocks g @ [new_eth_block ts (g_block_txs g) (g_gas_used g) (g_gas_recipient g)]
                 else g_eth_blocks g))"

record block_parse_result =
  slot_number :: slot
  solana_blockhash :: h256
  parent_solana_blockhash :: h256
  result_timestamp :: "timestamp option"
  result_transactions :: "(transaction \<times> tx_result) list"
  eth_blocks :: "eth_block list"

text \<open>\<^verbatim>\<open>H256::from_slice\<close> panics on a slice of another length.\<close>

definition h256_from_slice :: "bytes \<Rightarrow> h256 res" where
  "h256_from_slice bs = (if length bs = 32 then Ok (u256_of_be bs)
                         else Panic ''assertion failed: src.len() == 32'')"

definition u256_from_i64 :: "timestamp \<Rightarrow> u256 res" where
  "u256_from_i64 t = (if sint t < 0 then Panic ''Unsigned integer can't be created from negative value''
                      else Ok (word_of_nat (unat t)))"

definition parse_transactions ::
  "'p tx_parser_ops \<Rightarrow> eth_lib \<Rightarrow> slot \<Rightarrow> h256 \<Rightarrow> u256 \<Rightarrow> slot option \<Rightarrow> 'p
    \<Rightarrow> (transaction \<times> tx_result) list res" where
  "parse_transactions ops lib slot_nr bhash blocktime enable_deposits_slot tx_parser =
     try_res (finalize_slot ops tx_parser slot_nr) (\<lambda>parsed_txs.
       case enable_deposits_slot of
         Some enable \<Rightarrow>
           if enable \<le> slot_nr then
             try_res (create_l1_attributes_tx lib slot_nr bhash blocktime) (\<lambda>tx. Ok (tx # parsed_txs))
           else Ok parsed_txs
       | None \<Rightarrow> Ok parsed_txs)"

definition new_block_parse_result ::
  "'p tx_parser_ops \<Rightarrow> parse_env \<Rightarrow> slot \<Rightarrow> solana_block \<Rightarrow> 'p \<Rightarrow> block_parse_mode \<Rightarrow> slot option
    \<Rightarrow> block_parse_result res" where
  "new_block_parse_result ops env slot_nr block tx_parser parse_mode enable_deposits_slot =
     try_res (ok_or (Custom ''Solana block invalid blockhash'')
       (bs58_decode (env_api env) (blockhash block))) (\<lambda>bh.
     try_res (h256_from_slice bh) (\<lambda>bhash.
     try_res (ok_or (Custom ''Solana block invalid parent blockhash'')
       (bs58_decode (env_api env) (previous_blockhash block))) (\<lambda>ph.
     try_res (h256_from_slice ph) (\<lambda>phash.
     try_res (ok_or (Custom ''Solana blocktime is not set'') (block_time block)) (\<lambda>t.
     try_res (u256_from_i64 t) (\<lambda>blocktime.
     try_res (parse_transactions ops (env_lib env) slot_nr bhash blocktime enable_deposits_slot tx_parser)
       (\<lambda>txs.
     try_res (create_eth_blocks (env_lib env) bhash (block_time block) txs parse_mode) (\<lambda>(txs', blocks).
       Ok \<lparr>slot_number = slot_nr, solana_blockhash = bhash, parent_solana_blockhash = phash,
           result_timestamp = block_time block, result_transactions = txs', eth_blocks = blocks\<rparr>))))))))"

section \<open>BlockParser\<close>

text \<open>
  The storage of Solana blocks is outside the component: \<open>st t s\<close> is the answer to the
  \<open>t\<close>-th call of the run, for slot \<open>s\<close>, so that it may change between calls.
\<close>

type_synonym block_source = "nat \<Rightarrow> slot \<Rightarrow> solana_block option res"

record block_parser =
  program_id :: pubkey
  chain_id :: u64
  parse_mode :: block_parse_mode
  enable_deposit_slot :: "slot option"

text \<open>\<open>commit\<close> logs a failed registration and goes on.\<close>

definition commit :: "'p tx_parser_ops \<Rightarrow> 'p \<Rightarrow> slot \<Rightarrow> parsed_txs \<Rightarrow> 'p res" where
  "commit ops tx_parser slot_nr txs =
     (case register_slot_transactions ops tx_parser slot_nr txs of
        (tx_parser', r) \<Rightarrow> (case r of Panic m \<Rightarrow> Panic m | _ \<Rightarrow> Ok tx_parser'))"

definition register_block ::
  "'p tx_parser_ops \<Rightarrow> parse_env \<Rightarrow> block_parser \<Rightarrow> slot \<Rightarrow> solana_block \<Rightarrow> 'p \<Rightarrow> 'p res" where
  "register_block ops env bp slot_nr block tx_parser =
     try_res (parse_solana_block block (program_id bp) (process_instruction env (chain_id bp)) [])
       (commit ops tx_parser slot_nr)"

text \<open>\<^verbatim>\<open>get_block_with_retries\<close>: at most ten calls, an error counts as no block.\<close>

fun get_block_retry :: "block_source \<Rightarrow> slot \<Rightarrow> nat \<Rightarrow> nat \<Rightarrow> nat \<times> solana_block res" where
  "get_block_retry st slot_nr t 0 = (t, Err (Custom ''Unable to load block for slot''))"
| "get_block_retry st slot_nr t (Suc n) =
     (case st t slot_nr of
        Ok (Some block) \<Rightarrow> (Suc t, Ok block)
      | Panic m \<Rightarrow> (Suc t, Panic m)
      | _ \<Rightarrow> get_block_retry st slot_nr (Suc t) n)"

definition get_block_with_retries :: "block_source \<Rightarrow> slot \<Rightarrow> nat \<Rightarrow> nat \<times> solana_block res" where
  "get_block_with_retries st slot_nr t = get_block_retry st slot_nr t 10"

text \<open>
  The loop of \<^verbatim>\<open>parse\<close>: from the final slot back along the parents, at most
  \<open>max_blocks\<close> blocks (and at least one).
\<close>

function parse_loop ::
  "'p tx_parser_ops \<Rightarrow> parse_env \<Rightarrow> block_parser \<Rightarrow> block_source \<Rightarrow> slot \<Rightarrow> solana_block \<Rightarrow> nat
    \<Rightarrow> nat \<Rightarrow> nat \<Rightarrow> slot \<Rightarrow> solana_block \<Rightarrow> 'p \<Rightarrow> 'p \<times> nat \<times> block_parse_result option res" where
  "parse_loop ops env bp st final_slot final_block max_blocks blocks_parsed t current_slot current_block tx_parser =
     (case register_block ops env bp current_slot current_block tx_parser of
        Panic m \<Rightarrow> (tx_parser, t, Panic m)
      | Err e \<Rightarrow> (tx_parser, t, Err e)
      | Ok tx_parser' \<Rightarrow>
          (case is_slot_complete ops tx_parser' final_slot of
             Panic m \<Rightarrow> (tx_parser', t, Panic m)
           | Err e \<Rightarrow> (tx_parser', t, Err e)
           | Ok complete \<Rightarrow>
               if complete then
                 (tx_parser', t, try_res (new_block_parse_result ops env final_slot final_block
                   tx_parser' (parse_mode bp) (enable_deposit_slot bp)) (\<lambda>r. Ok (Some r)))
               else if max_blocks \<le> Suc blocks_parsed then
                 (tx_parser', t, Err (Custom ''blocks parsed. Slot is not complete''))
               else
                 (case get_block_with_retries st (parent_slot current_block) t of
                    (t', Ok block) \<Rightarrow> parse_loop ops env bp st final_slot final_block max_blocks
                      (Suc blocks_parsed) t' (parent_slot current_block) block tx_parser'
                  | (t', Err e) \<Rightarrow> (tx_parser', t', Err e)
                  | (t', Panic m) \<Rightarrow> (tx_parser', t', Panic m))))"
  by pat_completeness auto
termination
  by (relation "measure (\<lambda>(_, _, _, _, _, _, mb, n, _). mb - n)") auto

declare parse_loop.simps [simp del]

definition parse_block ::
  "'p tx_parser_ops \<Rightarrow> parse_env \<Rightarrow> block_parser \<Rightarrow> block_source \<Rightarrow> nat \<Rightarrow> slot \<Rightarrow> nat \<Rightarrow> 'p
    \<Rightarrow> 'p \<times> nat \<times> block_parse_result option res" where
  "parse_block ops env bp st t final_slot max_blocks tx_parser =
     (case st t final_slot of
        Ok (Some final_block) \<Rightarrow>
          parse_loop ops env bp st final_slot final_block (min max_blocks (unat final_slot)) 0 (Suc t)
            final_slot final_block tx_parser
      | Ok None \<Rightarrow> (tx_parser, Suc t, Ok None)
      | Err e \<Rightarrow> (tx_parser, Suc t, Err e)
      | Panic m \<Rightarrow> (tx_parser, Suc t, Panic m))"

end
