(* ===== verification/Pending_Blocks.thy ===== *)
theory Pending_Blocks
  imports Block_Parser "HOL-Library.Product_Lexorder"
begin

text \<open>
  \<^verbatim>\<open>rome-evm-client/src/indexer/pending_blocks.rs\<close>, \<^verbatim>\<open>produced_blocks.rs\<close>, the
  parameter types of \<^verbatim>\<open>ethereum_block_storage.rs\<close> and the functions of
  \<^verbatim>\<open>pg_storage/ethereum_block_storage.rs\<close> that fill these maps from database rows.
  An Ethereum block is named by a Solana slot and its index in the slot; both maps are
  ordered by that pair.
\<close>

section \<open>Data\<close>

record pending_l2_block =
  pl2_transactions :: "(nat, transaction \<times> tx_result) btree"
  pl2_gas_recipient :: "address option"

record pending_l1_block =
  pl1_blockhash :: h256
  pl1_timestamp :: u256
  l2_blocks :: "(nat, pending_l2_block) btree"

type_synonym pending_blocks = "(slot, pending_l1_block) btree"
type_synonym produced_blocks = "(slot, (nat, block_params) btree) btree"
type_synonym eth_block_id = "slot \<times> nat"

datatype finalized_block = Produced h256 | Pending eth_block_id

record producer_params =
  pp_parent_hash :: "h256 option"
  pp_finalized_block :: "finalized_block option"
  pp_pending_blocks :: pending_blocks

record reproduce_params =
  rp_producer_params :: producer_params
  rp_expected_results :: produced_blocks

section \<open>PendingBlocks\<close>

definition pending_is_empty :: "pending_blocks \<Rightarrow> bool" where
  "pending_is_empty pb \<longleftrightarrow> pb = []"

definition pending_get :: "pending_blocks \<Rightarrow> slot \<Rightarrow> nat \<Rightarrow> pending_l2_block option" where
  "pending_get pb slot_nr block_idx =
     Option.bind (map_of pb slot_nr) (\<lambda>slot_blocks. map_of (l2_blocks slot_blocks) block_idx)"

definition retain_after :: "pending_blocks \<Rightarrow> slot \<Rightarrow> nat \<Rightarrow> pending_blocks" where
  "retain_after pb min_slot_number min_block_idx = kv_retain (\<lambda>slot_nr b.
     if min_slot_number < slot_nr then Some b
     else if slot_nr = min_slot_number then
       (let kept = filter (\<lambda>(block_idx, _). min_block_idx < block_idx) (l2_blocks b)
        in if kept \<noteq> [] then Some (b\<lparr>l2_blocks := kept\<rparr>) else None)
     else None) pb"

definition pending_contains :: "pending_blocks \<Rightarrow> slot \<Rightarrow> nat \<Rightarrow> bool" where
  "pending_contains pb slot_nr block_idx =
     (case map_of pb slot_nr of
        None \<Rightarrow> False
      | Some slot_blocks \<Rightarrow> map_of (l2_blocks slot_blocks) block_idx \<noteq> None)"

definition pending_iter ::
  "pending_blocks \<Rightarrow> (slot \<times> pending_l1_block \<times> nat \<times> pending_l2_block) list" where
  "pending_iter pb =
     concat (map (\<lambda>(slot_nr, b). map (\<lambda>(idx, b2). (slot_nr, b, idx, b2)) (l2_blocks b)) pb)"

definition pending_keys :: "pending_blocks \<Rightarrow> eth_block_id list" where
  "pending_keys pb = concat (map (\<lambda>(slot_nr, b). map (\<lambda>(idx, _). (slot_nr, idx)) (l2_blocks b)) pb)"

section \<open>ProducedBlocks\<close>

definition produced_len :: "produced_blocks \<Rightarrow> nat" where
  "produced_len pb = length pb"

definition produced_first :: "produced_blocks \<Rightarrow> block_params option" where
  "produced_first pb =
     map_option snd (Option.bind (bt_first pb) (\<lambda>(_, slot_blocks). bt_first slot_blocks))"

definition produced_get :: "produced_blocks \<Rightarrow> slot \<Rightarrow> nat \<Rightarrow> block_params option" where
  "produced_get pb slot_nr block_idx =
     Option.bind (map_of pb slot_nr) (\<lambda>slot_blocks. map_of slot_blocks block_idx)"

definition last_key_value :: "produced_blocks \<Rightarrow> (slot \<times> nat \<times> block_params) option" where
  "last_key_value pb =
     Option.bind (bt_last pb) (\<lambda>(slot_nr, slot_blocks).
       map_option (\<lambda>(block_idx, params). (slot_nr, block_idx, params)) (bt_last slot_blocks))"

definition produced_insert :: "produced_blocks \<Rightarrow> slot \<Rightarrow> nat \<Rightarrow> block_params \<Rightarrow> produced_blocks" where
  "produced_insert pb slot_nr block_idx params =
     kv_modify bt_insert slot_nr [] (bt_insert block_idx params) pb"

definition produced_iter :: "produced_blocks \<Rightarrow> (eth_block_id \<times> block_params) list" where
  "produced_iter pb =
     concat (map (\<lambda>(slot_nr, bs). map (\<lambda>(idx, params). ((slot_nr, idx), params)) bs) pb)"

definition produced_keys :: "produced_blocks \<Rightarrow> eth_block_id list" where
  "produced_keys pb = concat (map (\<lambda>(slot_nr, bs). map (\<lambda>(idx, _). (slot_nr, idx)) bs) pb)"

section \<open>Database rows\<close>

text \<open>
  The conversions of other crates: a string to a hash or an address, JSON to a result.
  A conversion that fails in a constructor is a panic, in the transaction an error.
\<close>

record row_lib =
  row_bs58_decode :: "rstr \<Rightarrow> bytes option"
  h256_from_str :: "rstr \<Rightarrow> h256 option"
  address_from_str :: "rstr \<Rightarrow> address option"
  tx_from_rlp :: "bytes \<Rightarrow> transaction option"
  result_from_json :: "rstr \<Rightarrow> tx_result option"

datatype slot_status = Processed | Confirmed | Finalized

record pending_tx =
  pt_slot_number :: "64 word"
  pt_slot_status :: slot_status
  pt_slot_blockhash :: rstr
  pt_slot_timestamp :: "timestamp option"
  pt_slot_block_idx :: nat
  pt_gas_recipient :: "rstr option"
  pt_eth_blockhash :: "rstr option"
  pt_tx_idx :: nat
  pt_rlp :: bytes
  pt_tx_result :: rstr

record reproduced_block_row =
  rb_slot_number :: "64 word"
  rb_slot_timestamp :: "timestamp option"
  rb_slot_block_idx :: nat
  rb_gas_recipient :: "rstr option"
  rb_blockhash :: rstr
  rb_parent_hash :: "rstr option"
  rb_block_number :: nat
  rb_tx_idx :: nat
  rb_rlp :: bytes
  rb_tx_result :: rstr

definition l1_from_pending_tx :: "row_lib \<Rightarrow> pending_tx \<Rightarrow> pending_l1_block res" where
  "l1_from_pending_tx lib tx =
     try_res (expect ''Failed to decode L1 blockhash'' (row_bs58_decode lib (pt_slot_blockhash tx))) (\<lambda>bs.
     try_res (h256_from_slice bs) (\<lambda>h.
     try_res (expect ''Slot timestamp is not set'' (pt_slot_timestamp tx)) (\<lambda>t.
     try_res (u256_from_i64 t) (\<lambda>ts.
       Ok \<lparr>pl1_blockhash = h, pl1_timestamp = ts, l2_blocks = []\<rparr>))))"

definition l1_from_row :: "row_lib \<Rightarrow> reproduced_block_row \<Rightarrow> pending_l1_block res" where
  "l1_from_row lib row =
     try_res (expect ''Failed to decode L1 blockhash'' (h256_from_str lib (rb_blockhash row))) (\<lambda>h.
     try_res (expect ''Slot timestamp is not set'' (rb_slot_timestamp row)) (\<lambda>t.
     try_res (u256_from_i64 t) (\<lambda>ts.
       Ok \<lparr>pl1_blockhash = h, pl1_timestamp = ts, l2_blocks = []\<rparr>)))"

definition l2_with_gas_recipient :: "row_lib \<Rightarrow> rstr option \<Rightarrow> pending_l2_block res" where
  "l2_with_gas_recipient lib g =
     (case g of
        None \<Rightarrow> Ok \<lparr>pl2_transactions = [], pl2_gas_recipient = None\<rparr>
      | Some s \<Rightarrow> try_res (expect ''Failed to decode gas_recipient for L2 block'' (address_from_str lib s))
          (\<lambda>a. Ok \<lparr>pl2_transactions = [], pl2_gas_recipient = Some a\<rparr>))"

text \<open>
  The body that \<open>append_pending_tx\<close> and \<open>append_reproduced_block_row\<close> share: the blocks
  are created when they are not there, a transaction index that is taken is a panic.
\<close>

definition append_tx ::
  "row_lib \<Rightarrow> pending_blocks \<Rightarrow> slot \<Rightarrow> pending_l1_block res \<Rightarrow> nat \<Rightarrow> rstr option \<Rightarrow> nat \<Rightarrow> bytes \<Rightarrow> rstr
    \<Rightarrow> string \<Rightarrow> pending_blocks \<times> unit res" where
  "append_tx lib pb slot_nr new_l1 block_idx recip tx_idx rlp tx_res taken =
     try_with pb (case map_of pb slot_nr of Some b \<Rightarrow> Ok b | None \<Rightarrow> new_l1) (\<lambda>b1.
     try_with pb (case map_of (l2_blocks b1) block_idx of Some b \<Rightarrow> Ok b
                  | None \<Rightarrow> l2_with_gas_recipient lib recip) (\<lambda>b2.
       let put = (\<lambda>b2'. bt_insert slot_nr (b1\<lparr>l2_blocks := bt_insert block_idx b2' (l2_blocks b1)\<rparr>) pb)
       in case map_of (pl2_transactions b2) tx_idx of
            Some _ \<Rightarrow> (put b2, Panic taken)
          | None \<Rightarrow>
              try_with (put b2) (ok_or TxDecodeError (tx_from_rlp lib rlp)) (\<lambda>tx.
              try_with (put b2) (ok_or SerdeJsonError (result_from_json lib tx_res)) (\<lambda>r.
                (put (b2\<lparr>pl2_transactions := bt_insert tx_idx (tx, r) (pl2_transactions b2)\<rparr>), Ok ())))))"

definition append_pending_tx :: "row_lib \<Rightarrow> pending_blocks \<Rightarrow> pending_tx \<Rightarrow> pending_blocks \<times> unit res" where
  "append_pending_tx lib pb tx =
     append_tx lib pb (pt_slot_number tx) (l1_from_pending_tx lib tx) (pt_slot_block_idx tx)
       (pt_gas_recipient tx) (pt_tx_idx tx) (pt_rlp tx) (pt_tx_result tx)
       ''PendingBlock tx already occupied''"

definition append_reproduced_block_row ::
  "row_lib \<Rightarrow> pending_blocks \<Rightarrow> reproduced_block_row \<Rightarrow> pending_blocks \<times> unit res" where
  "append_reproduced_block_row lib pb row =
     append_tx lib pb (rb_slot_number row) (l1_from_row lib row) (rb_slot_block_idx row)
       (rb_gas_recipient row) (rb_tx_idx row) (rb_rlp row) (rb_tx_result row)
       ''DB data corrupted: Reproduce block already occupied''"

definition params_from_row :: "row_lib \<Rightarrow> reproduced_block_row \<Rightarrow> block_params res" where
  "params_from_row lib row =
     try_res (expect ''DB data corrupted: Failed to decode blockhash'' (h256_from_str lib (rb_blockhash row))) (\<lambda>h.
     try_res (case rb_parent_hash row of None \<Rightarrow> Ok None
       | Some p \<Rightarrow> try_res (expect ''DB data corrupted: Failed to decode parent hash'' (h256_from_str lib p))
           (\<lambda>p. Ok (Some p))) (\<lambda>p.
     try_res (expect ''DB data corrupted: slot timestamp is not set'' (rb_slot_timestamp row)) (\<lambda>t.
     try_res (u256_from_i64 t) (\<lambda>ts.
       Ok \<lparr>bp_hash = h, bp_parent_hash = p, bp_number = word_of_nat (rb_block_number row), bp_timestamp = ts\<rparr>))))"

text \<open>\<^verbatim>\<open>append_from_reproduced_block_row\<close>: the inner key is the number of the block.\<close>

definition append_from_row :: "row_lib \<Rightarrow> produced_blocks \<Rightarrow> reproduced_block_row \<Rightarrow> produced_blocks res" where
  "append_from_row lib pb row =
     (let bs = (case map_of pb (rb_slot_number row) of None \<Rightarrow> [] | Some bs \<Rightarrow> bs) in
      case map_of bs (rb_block_number row) of
        Some _ \<Rightarrow> Ok (bt_insert (rb_slot_number row) bs pb)
      | None \<Rightarrow> try_res (params_from_row lib row) (\<lambda>params.
          Ok (bt_insert (rb_slot_number row) (bt_insert (rb_block_number row) params bs) pb)))"

section \<open>Invariants\<close>

definition l1_ok :: "pending_l1_block \<Rightarrow> bool" where
  "l1_ok b \<longleftrightarrow> bt_ok (l2_blocks b)"

definition pending_ok :: "pending_blocks \<Rightarrow> bool" where
  "pending_ok pb \<longleftrightarrow> bt_ok pb \<and> kv_all l1_ok pb"

definition produced_ok :: "produced_blocks \<Rightarrow> bool" where
  "produced_ok pb \<longleftrightarrow> bt_ok pb \<and> kv_all (\<lambda>bs. bt_ok bs \<and> bs \<noteq> []) pb"

text \<open>Two levels of ordered maps list their pairs of keys in order.\<close>

lemma nested_sorted:
  assumes "bt_ok m" and "\<And>k v. (k, v) \<in> set m \<Longrightarrow> bt_ok (f v)"
  shows "sorted_wrt (<) (concat (map (\<lambda>(k, v). map (\<lambda>(i, _). (k, i)) (f v)) m))"
  using assms
proof (induction m)
  case (Cons e m)
  obtain k v where e: "e = (k, v)" by (cases e)
  have "bt_ok (f v)" using Cons.prems(2) [of k v] e by simp
  then have "sorted_wrt (<) (map fst (f v))" by (simp add: bt_ok_def)
  then have "sorted_wrt (<) (map (\<lambda>(i, _). (k, i)) (f v))"
    by (simp add: sorted_wrt_map split_def less_prod_def)
  moreover have "sorted_wrt (<) (concat (map (\<lambda>(k, v). map (\<lambda>(i, _). (k, i)) (f v)) m))"
  proof (rule Cons.IH)
    show "bt_ok m" using Cons.prems(1) e by simp
    show "bt_ok (f v)" if "(k, v) \<in> set m" for k v
      using Cons.prems(2) [of k v] that by simp
  qed
  moreover have "x < y"
    if xy: "x \<in> set (map (\<lambda>(i, _). (k, i)) (f v))"
      "y \<in> set (concat (map (\<lambda>(k, v). map (\<lambda>(i, _). (k, i)) (f v)) m))" for x y
  proof -
    obtain k' i' where "y = (k', i')" "k' \<in> fst ` set m" using xy(2) by force
    moreover from this have "k < k'" using Cons.prems(1) e by auto
    moreover obtain i where "x = (k, i)" using xy(1) by force
    ultimately show ?thesis by (simp add: less_prod_def)
  qed
  ultimately show ?case unfolding e by (simp add: sorted_wrt_append)
qed simp

lemma pending_keys_sorted: "pending_ok pb \<Longrightarrow> sorted_wrt (<) (pending_keys pb)"
  unfolding pending_keys_def
  by (rule nested_sorted) (auto simp: pending_ok_def kv_all_def l1_ok_def)

lemma pending_keys_iter: "pending_keys pb = map (\<lambda>(s, _, i, _). (s, i)) (pending_iter pb)"
  by (simp add: pending_keys_def pending_iter_def map_concat split_def o_def)

lemma retain_after_keys:
  "pending_ok pb \<Longrightarrow> pending_ok (retain_after pb s i) \<and>
    pending_keys (retain_after pb s i) = filter (\<lambda>k. (s, i) < k) (pending_keys pb)"
proof (induction pb)
  case Nil
  then show ?case by (simp add: retain_after_def pending_keys_def pending_ok_def)
next
  case (Cons e pb)
  obtain k b where e: "e = (k, b)" by (cases e)
  have ok: "pending_ok pb" "bt_ok (l2_blocks b)" and lt: "\<forall>k' \<in> fst ` set pb. k < k'"
    using Cons.prems by (simp_all add: e pending_ok_def l1_ok_def)
  let ?r = "retain_after pb s i"
  let ?kept = "filter (\<lambda>(idx, _). i < idx) (l2_blocks b)"
  have keys: "pending_keys ((k, b) # m) = map (\<lambda>(idx, _). (k, idx)) (l2_blocks b) @ pending_keys m" for k b m
    by (simp add: pending_keys_def)
  have sub: "fst ` set ?r \<subseteq> fst ` set pb"
    using subseq_set_mono [OF keys_retain_subseq] unfolding retain_after_def by (metis set_map)
  have kept_ok: "bt_ok ?kept"
    by (rule bt.ok_subseq [OF ok(2)]) (intro subseq_map subseq_filter_left)
  have r: "retain_after (e # pb) s i =
    (if s < k then (k, b) # ?r
     else if k = s then (if ?kept \<noteq> [] then (k, b\<lparr>l2_blocks := ?kept\<rparr>) # ?r else ?r) else ?r)"
    by (simp add: e retain_after_def Let_def)
  have IH: "pending_ok ?r" "pending_keys ?r = filter (\<lambda>k. (s, i) < k) (pending_keys pb)"
    using Cons.IH ok by auto
  have ok': "pending_ok ((k, b') # ?r)" if "l1_ok b'" for b'
  proof -
    have "\<forall>k' \<in> fst ` set ?r. k < k'" using sub lt by blast
    then show ?thesis using IH(1) that by (simp add: pending_ok_def)
  qed
  have map_filter: "filter (\<lambda>k'. (s, i) < k') (map (\<lambda>(idx, _). (s, idx)) xs) =
    map (\<lambda>(idx, _). (s, idx)) (filter (\<lambda>(idx, _). i < idx) xs)" for xs :: "(nat \<times> pending_l2_block) list"
    by (induction xs) (auto simp: less_prod_def)
  consider "s < k" | "k = s" | "k < s" by (rule linorder_cases)
  then show ?case
  proof cases
    case 1
    then have "filter (\<lambda>k'. (s, i) < k') (map (\<lambda>(idx, _). (k, idx)) (l2_blocks b)) =
        map (\<lambda>(idx, _). (k, idx)) (l2_blocks b)"
      by (auto simp: less_prod_def intro!: filter_True)
    then show ?thesis using 1 r IH ok' ok(2) by (simp add: e keys l1_ok_def)
  next
    case 2
    then show ?thesis
      using r IH ok' [of "b\<lparr>l2_blocks := ?kept\<rparr>"] kept_ok map_filter [of "l2_blocks b"]
      by (auto simp: e keys l1_ok_def)
  next
    case 3
    then have "filter (\<lambda>k'. (s, i) < k') (map (\<lambda>(idx, _). (k, idx)) (l2_blocks b)) = []"
      by (auto simp: less_prod_def filter_empty_conv)
    moreover from 3 have "\<not> s < k" "k \<noteq> s" by auto
    ultimately show ?thesis using r IH by (simp add: e keys)
  qed
qed

lemma bt_last_eq: "bt_last m = (if m = [] then None else Some (last m))"
  by (simp add: bt_last_def split: list.split)

text \<open>Inserting past the end appends.\<close>

lemma produced_insert_append:
  assumes "produced_ok pb" and "\<And>k'. k' \<in> set (produced_keys pb) \<Longrightarrow> k' < (s, i)"
  shows "produced_ok (produced_insert pb s i p)"
    and "produced_iter (produced_insert pb s i p) = produced_iter pb @ [((s, i), p)]"
    and "last_key_value (produced_insert pb s i p) = Some (s, i, p)"
proof -
  have ok: "bt_ok pb" "kv_all (\<lambda>bs. bt_ok bs \<and> bs \<noteq> []) pb" using assms(1) by (simp_all add: produced_ok_def)
  show "produced_ok (produced_insert pb s i p)"
  proof -
    have "bt_insert i p v \<noteq> []" for v :: "(nat, block_params) btree"
      using keys_bt_insert [of i p v] by fastforce
    moreover have "bt_ok (case map_of pb s of None \<Rightarrow> [] | Some v \<Rightarrow> v)"
      using ok(2) by (auto dest: kv_all_lookup split: option.split)
    ultimately show ?thesis
      using ok by (simp add: produced_ok_def produced_insert_def kv_modify_def bt_ok_insert bt.kv_all_ins)
  qed
  have le: "s' \<le> s" if "(s', bs) \<in> set pb" for s' bs
  proof -
    have "bs \<noteq> []" using ok(2) that unfolding kv_all_def by blast
    then obtain j q bs' where "bs = (j, q) # bs'" by (cases bs) auto
    then have "(s', j) \<in> set (produced_keys pb)" using that by (force simp: produced_keys_def)
    from assms(2) [OF this] show ?thesis by (auto simp: less_prod_def)
  qed
  show iter: "produced_iter (produced_insert pb s i p) = produced_iter pb @ [((s, i), p)]"
    and "last_key_value (produced_insert pb s i p) = Some (s, i, p)"
  proof -
    have "produced_iter (produced_insert pb s i p) = produced_iter pb @ [((s, i), p)] \<and>
      last_key_value (produced_insert pb s i p) = Some (s, i, p)"
    proof (cases "map_of pb s")
      case None
      then have "s' < s" if "s' \<in> fst ` set pb" for s'
        using le that by (force simp: map_of_eq_None_iff less_le)
      then have "produced_insert pb s i p = pb @ [(s, [(i, p)])]"
        using None ok by (simp add: produced_insert_def kv_modify_def bt_insert_append)
      then show ?thesis by (simp add: produced_iter_def last_key_value_def bt_last_eq)
    next
      case (Some bs)
      then obtain xs ys where pb: "pb = xs @ (s, bs) # ys" by (meson map_of_SomeD split_list)
      have "ys = []"
      proof (rule ccontr)
        assume "ys \<noteq> []"
        then obtain s' bs' ys' where "ys = (s', bs') # ys'" by (cases ys) auto
        then show False using le [of s' bs'] ok(1) pb by (auto simp: bt_ok_append)
      qed
      then have pb: "pb = xs @ [(s, bs)]" using pb by simp
      have bs: "bt_ok bs" using ok(2) pb by (auto simp: kv_all_def)
      have "j < i" if "j \<in> fst ` set bs" for j
      proof -
        have "(s, j) \<in> set (produced_keys pb)" using that pb by (force simp: produced_keys_def)
        from assms(2) [OF this] show ?thesis by (simp add: less_prod_def)
      qed
      then have ins: "bt_insert i p bs = bs @ [(i, p)]" by (intro bt_insert_append bs)
      have lt: "\<forall>k \<in> fst ` set xs. k < s" using ok(1) pb by (auto simp: bt_ok_append)
      have "bt_insert s bs' (xs @ [(s, bs)]) = xs @ [(s, bs')]" for bs'
        using lt
      proof (induction xs)
        case (Cons x xs)
        then show ?case by (cases x) auto
      qed simp
      then have "produced_insert pb s i p = xs @ [(s, bs @ [(i, p)])]"
        using Some ins by (simp add: produced_insert_def kv_modify_def pb)
      then show ?thesis by (simp add: pb produced_iter_def last_key_value_def bt_last_eq)
    qed
    then show "produced_iter (produced_insert pb s i p) = produced_iter pb @ [((s, i), p)]"
      and "last_key_value (produced_insert pb s i p) = Some (s, i, p)" by auto
  qed
qed

lemma produced_keys_iter: "produced_keys pb = map fst (produced_iter pb)"
  by (simp add: produced_keys_def produced_iter_def map_concat split_def o_def)

lemma last_key_value_None: "produced_ok pb \<Longrightarrow> last_key_value pb = None \<longleftrightarrow> pb = []"
  by (cases pb rule: rev_cases)
    (auto simp: last_key_value_def bt_last_eq produced_ok_def kv_all_def split: prod.splits)

text \<open>
  C4. After blocks were produced up to some block, \<open>retain_after\<close> keeps exactly the
  pending blocks that come later, in order: those of later slots and those of the same
  slot with a higher index; slots left without blocks are dropped.
\<close>

theorem retain_after_exact:
  assumes "pending_ok pb"
  shows "pending_ok (retain_after pb s i) \<and>
    pending_keys (retain_after pb s i) = filter (\<lambda>k. (s, i) < k) (pending_keys pb)"
  using assms by (rule retain_after_keys)

definition test_l2 :: pending_l2_block where
  "test_l2 = \<lparr>pl2_transactions = [], pl2_gas_recipient = None\<rparr>"

definition test_pending :: pending_blocks where
  "test_pending = [(5, \<lparr>pl1_blockhash = 50, pl1_timestamp = 1, l2_blocks = [(0, test_l2), (1, test_l2)]\<rparr>),
     (8, \<lparr>pl1_blockhash = 80, pl1_timestamp = 2, l2_blocks = [(0, test_l2)]\<rparr>)]"

lemma pending_ok_test: "pending_ok test_pending"
  by (simp add: pending_ok_def test_pending_def l1_ok_def)

theorem retain_after_exact_witness:
  "pending_keys (retain_after test_pending 5 0) = [(5, 1), (8, 0)]"
proof -
  have "filter (\<lambda>k. (5, 0) < k) (pending_keys test_pending) = [(5, 1), (8, 0)]"
    by (simp add: pending_keys_def test_pending_def less_prod_def)
  then show ?thesis using retain_after_exact [OF pending_ok_test, of 5 0] by simp
qed

end
