(* ===== verification/Geth_Engine.thy ===== *)
theory Geth_Engine
  imports Log_Parser L1_Attributes
begin

text \<open>
  \<^verbatim>\<open>rome-geth/src/engine/mod.rs\<close>: the Engine API calls that make op-geth build a block.
  The node is outside the component: it is the field \<open>geth_http\<close>, the answer to the
  \<open>t\<close>-th HTTP request of the run.  Shown here: the order and content of the four requests,
  and what a block that is returned rests on.
\<close>

section \<open>Requests and answers\<close>

record state_advance_tx =
  sa_rlp :: rstr
  sa_gas_price :: u64
  sa_gas_used :: u64

record forkchoice_state =
  headBlockHash :: rstr
  safeBlockHash :: rstr
  finalizedBlockHash :: rstr

record forkchoice_update_params =
  fc_transactions :: "rstr list"
  fc_gas_prices :: "u64 list"
  fc_gas_used :: "u64 list"
  fc_timestamp :: rstr
  fc_suggested_fee_recipient :: rstr
  fc_no_tx_pool :: bool

text \<open>The fields of \<^verbatim>\<open>ExecutionPayload\<close> that the code reads or sets; the others pass through.\<close>

record execution_payload =
  ep_block_number :: u64
  ep_block_hash :: rstr
  ep_rome_gas_used :: "u64 list option"
  ep_others :: rstr

datatype engine_request =
    ForkchoiceUpdatedV2 forkchoice_state "forkchoice_update_params option"
  | GetPayloadV2 rstr
  | NewPayloadV2 execution_payload

text \<open>
  A JSON answer, by what it can be read as: \<^verbatim>\<open>PayloadStatus\<close> has the status and the
  latest valid hash, a payload answer may lack the payload.
\<close>

datatype engine_response =
    ForkchoiceUpdateResponse rstr
  | PayloadResponse "execution_payload option"
  | PayloadStatus rstr rstr
  | OtherResponse

datatype http_result = Answer engine_response | HttpStatus nat | TransportFailure

record geth =
  geth_http :: "nat \<Rightarrow> engine_request \<Rightarrow> http_result"
  geth_token :: "nat \<Rightarrow> bool"
  h256_from_hex :: "rstr \<Rightarrow> h256 option"

section \<open>Hexadecimal\<close>

text \<open>\<^verbatim>\<open>format!("0x{:x}", hash)\<close> prints all digits of a hash, and a number without leading zeros.\<close>

definition hash_hex :: "h256 \<Rightarrow> rstr" where
  "hash_hex h = str ''0x'' @ hex_encode (u256_be h)"

fun hex_nat :: "nat \<Rightarrow> rstr" where
  "hex_nat n = (if n < 16 then [hex_digit n] else hex_nat (n div 16) @ [hex_digit (n mod 16)])"

definition number_hex :: "u256 \<Rightarrow> rstr" where
  "number_hex v = str ''0x'' @ hex_nat (unat v)"

definition address_hex :: "address \<Rightarrow> rstr" where
  "address_hex a = str ''0x'' @ hex_encode (address_be a)"

section \<open>GethEngine\<close>

text \<open>
  A run is the number of the next HTTP request and all requests sent, in order.
  \<^verbatim>\<open>send_request\<close>: an authentication error makes it renew the token and send the request
  once more.
\<close>

type_synonym engine_run = "nat \<times> engine_request list"

definition send_request :: "geth \<Rightarrow> engine_run \<Rightarrow> engine_request \<Rightarrow> engine_run \<times> engine_response res" where
  "send_request g st req =
     (let st1 = (Suc (fst st), snd st @ [req]) in
      case geth_http g (fst st) req of
        Answer r \<Rightarrow> (st1, Ok r)
      | HttpStatus c \<Rightarrow>
          if c = 401 \<or> c = 403 then
            (if geth_token g (fst st) then
               (let st2 = (Suc (fst st1), snd st1 @ [req]) in
                case geth_http g (fst st1) req of
                  Answer r \<Rightarrow> (st2, Ok r)
                | _ \<Rightarrow> (st2, Err (Custom ''request failed'')))
             else (st1, Err (Custom ''token'')))
          else (st1, Err (Custom ''request failed''))
      | TransportFailure \<Rightarrow> (st1, Err (Custom ''request failed'')))"

text \<open>A request whose answer is read by \<open>f\<close>.\<close>

definition request ::
  "geth \<Rightarrow> engine_run \<Rightarrow> engine_request \<Rightarrow> (engine_response \<Rightarrow> 'a res) \<Rightarrow> (engine_run \<Rightarrow> 'a \<Rightarrow> engine_run \<times> 'b res)
    \<Rightarrow> engine_run \<times> 'b res" where
  "request g st req f k =
     (case send_request g st req of
        (st', r) \<Rightarrow>
          (case try_res r f of
             Ok x \<Rightarrow> k st' x
           | Err e \<Rightarrow> (st', Err e)
           | Panic m \<Rightarrow> (st', Panic m)))"

fun read_payload_id :: "engine_response \<Rightarrow> rstr res" where
  "read_payload_id (ForkchoiceUpdateResponse i) = Ok i"
| "read_payload_id _ = Err (Custom ''json'')"

fun read_payload :: "engine_response \<Rightarrow> execution_payload res" where
  "read_payload (PayloadResponse (Some p)) = Ok p"
| "read_payload (PayloadResponse None) = Panic ''Failed to get execution payload''"
| "read_payload _ = Panic ''Failed to get execution payload''"

fun read_latest_valid_hash :: "engine_response \<Rightarrow> rstr res" where
  "read_latest_valid_hash (PayloadStatus status latest_valid_hash) = Ok latest_valid_hash"
| "read_latest_valid_hash _ = Err (Custom ''json'')"

definition forkchoice :: "rstr \<Rightarrow> rstr \<Rightarrow> forkchoice_state" where
  "forkchoice head finalized =
     \<lparr>headBlockHash = head, safeBlockHash = head, finalizedBlockHash = finalized\<rparr>"

definition forkchoice_params ::
  "u256 \<Rightarrow> state_advance_tx list \<Rightarrow> address option \<Rightarrow> forkchoice_update_params" where
  "forkchoice_params ts txs recip =
     \<lparr>fc_transactions = map sa_rlp txs, fc_gas_prices = map sa_gas_price txs,
      fc_gas_used = map sa_gas_used txs, fc_timestamp = number_hex ts,
      fc_suggested_fee_recipient = address_hex (case recip of None \<Rightarrow> 0 | Some a \<Rightarrow> a),
      fc_no_tx_pool = True\<rparr>"

definition advance_rollup_state ::
  "geth \<Rightarrow> engine_run \<Rightarrow> h256 \<Rightarrow> h256 \<Rightarrow> u256 \<Rightarrow> state_advance_tx list \<Rightarrow> address option \<Rightarrow> bool
    \<Rightarrow> engine_run \<times> (u64 \<times> h256) res" where
  "advance_rollup_state g st finalized_blockhash parent_hash ts txs recip finalize_new_block =
     request g st
       (ForkchoiceUpdatedV2 (forkchoice (hash_hex parent_hash) (hash_hex finalized_blockhash))
          (Some (forkchoice_params ts txs recip))) read_payload_id (\<lambda>st payload_id.
     request g st (GetPayloadV2 payload_id) read_payload (\<lambda>st payload.
       case h256_from_hex g (ep_block_hash payload) of
         None \<Rightarrow> (st, Err (Custom ''hex''))
       | Some block_hash \<Rightarrow>
     request g st (NewPayloadV2 (payload\<lparr>ep_rome_gas_used := Some (map sa_gas_used txs)\<rparr>))
       read_latest_valid_hash (\<lambda>st new_blockhash.
     request g st
       (ForkchoiceUpdatedV2 (forkchoice new_blockhash
          (if finalize_new_block then new_blockhash else hash_hex finalized_blockhash)) None) Ok (\<lambda>st _.
       (st, Ok (ep_block_number payload, block_hash))))))"

section \<open>Properties\<close>

text \<open>
  What op-geth answered to a request: to the first attempt, or to the second after it had refused the
  token of the first.
\<close>

definition answered :: "geth \<Rightarrow> engine_run \<Rightarrow> engine_request \<Rightarrow> engine_response \<Rightarrow> engine_run \<Rightarrow> bool" where
  "answered g st req r st' \<longleftrightarrow>
     geth_http g (fst st) req = Answer r \<and> st' = (fst st + 1, snd st @ [req]) \<or>
     geth_http g (fst st) req \<in> {HttpStatus 401, HttpStatus 403} \<and> geth_http g (fst st + 1) req = Answer r \<and>
       st' = (fst st + 2, snd st @ [req, req])"

lemma send_request_Ok: "send_request g st req = (st', Ok r) \<Longrightarrow> answered g st req r st'"
  by (auto simp: send_request_def answered_def Let_def split: http_result.splits if_splits)

lemma request_Ok:
  assumes "request g st req f k = (st', Ok x)"
  obtains st1 r y where "answered g st req r st1" "f r = Ok y" "k st1 y = (st', Ok x)"
proof -
  obtain st1 r where send: "send_request g st req = (st1, r)" by (cases "send_request g st req")
  then obtain r0 y where "r = Ok r0" "f r0 = Ok y" "k st1 y = (st', Ok x)"
    using assms by (cases r) (auto simp: request_def split: res.splits)
  then show ?thesis using send_request_Ok [of g st req st1 r0] send by (intro that) simp_all
qed

lemma read_Ok:
  "read_payload_id r = Ok i \<Longrightarrow> r = ForkchoiceUpdateResponse i"
  "read_payload r = Ok p \<Longrightarrow> r = PayloadResponse (Some p)"
  "read_latest_valid_hash r = Ok h \<Longrightarrow> \<exists>status. r = PayloadStatus status h"
  by (cases r rule: read_payload_id.cases, simp_all) (cases r rule: read_payload.cases, simp_all,
      cases r rule: read_latest_valid_hash.cases, simp_all)

text \<open>
  C22. A block is returned only after four requests, in this order: a fork choice on the parent with
  the transactions and the old finalized block; the payload with the identifier op-geth answered
  to it; that payload with the gas the rollup used; and a fork choice on the latest valid hash op-geth answered
  to that, which finalizes it when asked to and otherwise keeps the finalized block.  Number
  and hash are those of the payload op-geth answered.  Nothing else is sent, except that a request is
  sent a second time when op-geth refused its token.
\<close>

theorem advance_requests:
  assumes "advance_rollup_state g st fin parent ts txs recip finalize = (st', Ok (number, hash))"
  shows "\<exists>payload_id payload status new_hash last_answer st1 st2 st3.
    answered g st (ForkchoiceUpdatedV2 (forkchoice (hash_hex parent) (hash_hex fin)) (Some (forkchoice_params ts txs recip)))
      (ForkchoiceUpdateResponse payload_id) st1 \<and>
    answered g st1 (GetPayloadV2 payload_id) (PayloadResponse (Some payload)) st2 \<and>
    answered g st2 (NewPayloadV2 (payload\<lparr>ep_rome_gas_used := Some (map sa_gas_used txs)\<rparr>))
      (PayloadStatus status new_hash) st3 \<and>
    answered g st3 (ForkchoiceUpdatedV2 (forkchoice new_hash (if finalize then new_hash else hash_hex fin)) None)
      last_answer st' \<and>
    number = ep_block_number payload \<and> h256_from_hex g (ep_block_hash payload) = Some hash"
proof -
  obtain st1 r1 i where one: "answered g st (ForkchoiceUpdatedV2 (forkchoice (hash_hex parent) (hash_hex fin))
      (Some (forkchoice_params ts txs recip))) r1 st1" "read_payload_id r1 = Ok i"
    and k1: "request g st1 (GetPayloadV2 i) read_payload (\<lambda>st payload.
       case h256_from_hex g (ep_block_hash payload) of
         None \<Rightarrow> (st, Err (Custom ''hex''))
       | Some block_hash \<Rightarrow>
     request g st (NewPayloadV2 (payload\<lparr>ep_rome_gas_used := Some (map sa_gas_used txs)\<rparr>))
       read_latest_valid_hash (\<lambda>st new_blockhash.
     request g st
       (ForkchoiceUpdatedV2 (forkchoice new_blockhash
          (if finalize then new_blockhash else hash_hex fin)) None) Ok (\<lambda>st _.
       (st, Ok (ep_block_number payload, block_hash))))) = (st', Ok (number, hash))"
    using assms unfolding advance_rollup_state_def by (rule request_Ok)
  from k1 obtain st2 r2 payload block_hash where two: "answered g st1 (GetPayloadV2 i) r2 st2" "read_payload r2 = Ok payload"
    and hash: "h256_from_hex g (ep_block_hash payload) = Some block_hash"
    and k2: "request g st2 (NewPayloadV2 (payload\<lparr>ep_rome_gas_used := Some (map sa_gas_used txs)\<rparr>))
       read_latest_valid_hash (\<lambda>st new_blockhash.
     request g st (ForkchoiceUpdatedV2 (forkchoice new_blockhash
          (if finalize then new_blockhash else hash_hex fin)) None) Ok (\<lambda>st _.
       (st, Ok (ep_block_number payload, block_hash)))) = (st', Ok (number, hash))"
    by (rule request_Ok) (auto split: option.splits)
  from k2 obtain st3 r3 new_hash where three: "answered g st2 (NewPayloadV2 (payload\<lparr>ep_rome_gas_used := Some (map sa_gas_used txs)\<rparr>)) r3 st3"
    "read_latest_valid_hash r3 = Ok new_hash"
    and k3: "request g st3 (ForkchoiceUpdatedV2 (forkchoice new_hash (if finalize then new_hash else hash_hex fin)) None) Ok (\<lambda>st _.
       (st, Ok (ep_block_number payload, block_hash))) = (st', Ok (number, hash))"
    by (rule request_Ok)
  from k3 obtain r4 where "answered g st3 (ForkchoiceUpdatedV2 (forkchoice new_hash (if finalize then new_hash else hash_hex fin)) None) r4 st'"
    "number = ep_block_number payload" "hash = block_hash"
    by (rule request_Ok) auto
  moreover obtain status where "r3 = PayloadStatus status new_hash" using read_Ok(3) [OF three(2)] by blast
  ultimately show ?thesis
    using one(1) [unfolded read_Ok(1) [OF one(2)]] two(1) [unfolded read_Ok(2) [OF two(2)]] three(1) hash by blast
qed

definition test_payload :: execution_payload where
  "test_payload = \<lparr>ep_block_number = 3, ep_block_hash = str ''0x7'', ep_rome_gas_used = None, ep_others = []\<rparr>"

definition test_geth :: "rstr \<Rightarrow> rstr \<Rightarrow> geth" where
  "test_geth status latest = \<lparr>geth_http = (\<lambda>t r. case r of
       ForkchoiceUpdatedV2 s a \<Rightarrow> Answer (ForkchoiceUpdateResponse [49])
     | GetPayloadV2 i \<Rightarrow> Answer (PayloadResponse (Some test_payload))
     | NewPayloadV2 p \<Rightarrow> Answer (PayloadStatus status latest)),
   geth_token = (\<lambda>t. True), h256_from_hex = (\<lambda>s. Some (of_nat (length s)))\<rparr>"

lemmas geth_eval = advance_rollup_state_def request_def send_request_def test_geth_def test_payload_def
  Let_def forkchoice_def

theorem advance_requests_witness:
  "\<exists>st' i st1. advance_rollup_state (test_geth [] (str ''0x7'')) (0, []) 1 2 3 [] None True = (st', Ok (3, 3)) \<and>
     answered (test_geth [] (str ''0x7'')) (0, [])
       (ForkchoiceUpdatedV2 (forkchoice (hash_hex 2) (hash_hex 1)) (Some (forkchoice_params 3 [] None)))
       (ForkchoiceUpdateResponse i) st1"
proof -
  obtain st' where s: "advance_rollup_state (test_geth [] (str ''0x7'')) (0, []) 1 2 3 [] None True = (st', Ok (3, 3))"
    by (simp add: geth_eval str_def)
  from advance_requests [OF s] s show ?thesis by blast
qed

text \<open>
  The status of the new payload is not looked at: when op-geth answers that the payload
  is invalid and names the parent as the latest valid block, the call still returns the
  hash of the rejected block, after moving the head to the parent.
\<close>

theorem rejected_payload_returned:
  assumes "\<And>t s a. geth_http g t (ForkchoiceUpdatedV2 s a) = Answer (ForkchoiceUpdateResponse i)"
    and "\<And>t. geth_http g t (GetPayloadV2 i) = Answer (PayloadResponse (Some p))"
    and "\<And>t q. geth_http g t (NewPayloadV2 q) = Answer (PayloadStatus (str ''INVALID'') (hash_hex parent))"
    and "h256_from_hex g (ep_block_hash p) = Some hash"
  shows "\<exists>st'. advance_rollup_state g st fin parent ts txs recip False = (st', Ok (ep_block_number p, hash)) \<and>
    last (snd st') = ForkchoiceUpdatedV2 (forkchoice (hash_hex parent) (hash_hex fin)) None"
  using assms by (simp add: advance_rollup_state_def request_def send_request_def Let_def)

theorem rejected_payload_returned_witness:
  "\<exists>st'. advance_rollup_state (test_geth (str ''INVALID'') (hash_hex 2)) (0, []) 1 2 3 [] None False =
      (st', Ok (3, 3)) \<and>
    last (snd st') = ForkchoiceUpdatedV2 (forkchoice (hash_hex 2) (hash_hex 1)) None"
  using rejected_payload_returned [of "test_geth (str ''INVALID'') (hash_hex 2)" "[49]" test_payload 2 3 "(0, [])" 1 3 "[]" None]
  by (simp add: test_geth_def test_payload_def str_def)

end
