(* ===== verification/Block_Producers.thy ===== *)
theory Block_Producers
  imports Pending_Blocks Geth_Engine
begin

text \<open>
  The trait \<^verbatim>\<open>BlockProducer\<close> of
  \<^verbatim>\<open>rome-evm-client/src/indexer/block_producers/block_producer.rs\<close> and its three
  implementations: \<^verbatim>\<open>single_state_block_producer.rs\<close>,
  \<^verbatim>\<open>engine_api_block_producer.rs\<close> and the \<^verbatim>\<open>DummyBlockProducer\<close> of
  \<^verbatim>\<open>rome-evm-client/src/client.rs\<close>.  The locale \<open>block_producer\<close> is their contract:
  what is produced is a prefix of the pending blocks, in order, and forms a chain.
\<close>

record production_result =
  pr_produced_blocks :: produced_blocks
  pr_finalized_block :: h256

section \<open>Chains of blocks\<close>

text \<open>Each block names the one before as its parent, the first one \<open>start\<close>.\<close>

fun chained :: "h256 option \<Rightarrow> block_params list \<Rightarrow> bool" where
  "chained start [] \<longleftrightarrow> True"
| "chained start (p # ps) \<longleftrightarrow> bp_parent_hash p = start \<and> chained (Some (bp_hash p)) ps"

fun chain_end :: "h256 option \<Rightarrow> block_params list \<Rightarrow> h256 option" where
  "chain_end start [] = start"
| "chain_end start (p # ps) = chain_end (Some (bp_hash p)) ps"

lemma chained_append: "chained start (xs @ ys) \<longleftrightarrow> chained start xs \<and> chained (chain_end start xs) ys"
  by (induction xs arbitrary: start) auto

lemma chain_end_append [simp]: "chain_end start (xs @ ys) = chain_end (chain_end start xs) ys"
  by (induction xs arbitrary: start) auto

definition produced_chain :: "produced_blocks \<Rightarrow> block_params list" where
  "produced_chain pb = map snd (produced_iter pb)"

text \<open>
  The loop all three producers run over the pending blocks: \<open>ks\<close> are the keys produced so
  far.
\<close>

definition loop_inv :: "h256 option \<Rightarrow> eth_block_id list \<Rightarrow> produced_blocks \<Rightarrow> h256 option \<Rightarrow> bool" where
  "loop_inv start ks pb parent \<longleftrightarrow> produced_ok pb \<and> produced_keys pb = ks \<and>
     chained start (produced_chain pb) \<and> parent = chain_end start (produced_chain pb)"

lemma loop_inv_start: "loop_inv start [] [] start"
  by (simp add: loop_inv_def produced_ok_def produced_keys_def produced_chain_def produced_iter_def)

lemma loop_inv_step:
  assumes "loop_inv start ks pb parent" and "\<And>k. k \<in> set ks \<Longrightarrow> k < (s, i)" and "bp_parent_hash p = parent"
  shows "loop_inv start (ks @ [(s, i)]) (produced_insert pb s i p) (Some (bp_hash p))"
proof -
  have ok: "produced_ok pb" "\<And>k. k \<in> set (produced_keys pb) \<Longrightarrow> k < (s, i)"
    using assms(1,2) by (simp_all add: loop_inv_def)
  note ins = produced_insert_append [OF ok, of p]
  then have "produced_chain (produced_insert pb s i p) = produced_chain pb @ [p]"
    by (simp add: produced_chain_def)
  moreover have "produced_keys (produced_insert pb s i p) = produced_keys pb @ [(s, i)]"
    using ins(2) by (simp add: produced_keys_iter)
  ultimately show ?thesis
    using assms ins(1) by (simp add: loop_inv_def chained_append)
qed

text \<open>The pending entries of the loop, with keys that increase.\<close>

definition key_of :: "slot \<times> pending_l1_block \<times> nat \<times> pending_l2_block \<Rightarrow> eth_block_id" where
  "key_of e = (case e of (s, _, i, _) \<Rightarrow> (s, i))"

lemma key_of_simp [simp]: "key_of (s, b, i, b2) = (s, i)"
  by (simp add: key_of_def)

lemma key_of_iter: "map key_of (pending_iter pb) = pending_keys pb"
  by (simp add: pending_keys_iter key_of_def [abs_def])

section \<open>The contract\<close>

text \<open>
  \<open>good\<close> says of the state of a producer (with the node behind it) that it answers as
  documented.
\<close>

locale block_producer =
  fixes produce :: "'st \<Rightarrow> producer_params \<Rightarrow> nat option \<Rightarrow> 'st \<times> production_result res"
    and good :: "'st \<Rightarrow> bool"
  assumes good_produce: "good st \<Longrightarrow> good (fst (produce st pp limit))"
    and produces: "good st \<Longrightarrow> pending_ok (pp_pending_blocks pp) \<Longrightarrow> produce st pp limit = (st', Ok r) \<Longrightarrow>
      \<exists>n start parent. loop_inv start (take n (pending_keys (pp_pending_blocks pp))) (pr_produced_blocks r) parent \<and>
        (pp_parent_hash pp \<noteq> None \<longrightarrow> start = pp_parent_hash pp)"
    and progress: "good st \<Longrightarrow> pending_ok (pp_pending_blocks pp) \<Longrightarrow> produce st pp limit = (st', Ok r) \<Longrightarrow>
      pending_keys (pp_pending_blocks pp) \<noteq> [] \<Longrightarrow> pr_produced_blocks r \<noteq> []"
begin

lemma produced_prefix:
  assumes "good st" and "pending_ok (pp_pending_blocks pp)" and "produce st pp limit = (st', Ok r)"
  shows "\<exists>n. produced_keys (pr_produced_blocks r) = take n (pending_keys (pp_pending_blocks pp))"
    and "produced_ok (pr_produced_blocks r)"
    and "pp_parent_hash pp \<noteq> None \<Longrightarrow> chained (pp_parent_hash pp) (produced_chain (pr_produced_blocks r))"
  using produces [OF assms] by (auto simp: loop_inv_def)

end

section \<open>SingleStateBlockProducer\<close>

fun single_loop ::
  "(slot \<times> pending_l1_block \<times> nat \<times> pending_l2_block) list \<Rightarrow> nat option \<Rightarrow> nat \<Rightarrow> h256 option
    \<Rightarrow> produced_blocks \<Rightarrow> produced_blocks" where
  "single_loop [] limit produced parent_blockhash result = result"
| "single_loop ((slot_nr, pending_l1_block, l2_block_idx, _) # rest) limit produced parent_blockhash result =
     (let result' = produced_insert result slot_nr l2_block_idx
            \<lparr>bp_hash = pl1_blockhash pending_l1_block, bp_parent_hash = parent_blockhash,
             bp_number = slot_nr, bp_timestamp = pl1_timestamp pending_l1_block\<rparr>;
          parent' = Some (pl1_blockhash pending_l1_block);
          produced' = produced + 1
      in case limit of
           Some l \<Rightarrow> if l \<le> produced' then result' else single_loop rest limit produced' parent' result'
         | None \<Rightarrow> single_loop rest limit produced' parent' result')"

definition single_produce_blocks ::
  "unit \<Rightarrow> producer_params \<Rightarrow> nat option \<Rightarrow> unit \<times> production_result res" where
  "single_produce_blocks self pp limit =
     (self, Ok \<lparr>pr_produced_blocks =
         single_loop (pending_iter (pp_pending_blocks pp)) limit 0 (pp_parent_hash pp) [],
       pr_finalized_block = 0\<rparr>)"

lemma single_loop_inv:
  assumes "loop_inv start ks pb parent" and "sorted_wrt (<) (ks @ map key_of es)"
  shows "\<exists>n parent'. loop_inv start (ks @ take n (map key_of es)) (single_loop es limit c parent pb) parent' \<and>
    (es \<noteq> [] \<longrightarrow> 0 < n)"
  using assms
proof (induction es arbitrary: ks pb parent c)
  case Nil
  then show ?case by auto
next
  case (Cons e es)
  obtain s b i b2 where e: "e = (s, b, i, b2)" by (cases e)
  let ?p = "\<lparr>bp_hash = pl1_blockhash b, bp_parent_hash = parent, bp_number = s, bp_timestamp = pl1_timestamp b\<rparr>"
  have "k < (s, i)" if "k \<in> set ks" for k
    using Cons.prems(2) that by (simp add: e sorted_wrt_append)
  then have step: "loop_inv start (ks @ [(s, i)]) (produced_insert pb s i ?p) (Some (pl1_blockhash b))"
    using loop_inv_step [OF Cons.prems(1), of s i ?p] by simp
  have sorted: "sorted_wrt (<) ((ks @ [(s, i)]) @ map key_of es)"
    using Cons.prems(2) by (simp add: e)
  from Cons.IH [OF step sorted, of "c + 1"] obtain n parent' where
    "loop_inv start ((ks @ [(s, i)]) @ take n (map key_of es))
      (single_loop es limit (c + 1) (Some (pl1_blockhash b)) (produced_insert pb s i ?p)) parent'" by blast
  then have more: "loop_inv start (ks @ take (Suc n) (map key_of (e # es)))
      (single_loop es limit (c + 1) (Some (pl1_blockhash b)) (produced_insert pb s i ?p)) parent'"
    by (simp add: e)
  have stop: "loop_inv start (ks @ take 1 (map key_of (e # es))) (produced_insert pb s i ?p) (Some (pl1_blockhash b))"
    using step by (simp add: e)
  show ?case
  proof (cases "\<exists>l. limit = Some l \<and> l \<le> c + 1")
    case True
    then have "single_loop (e # es) limit c parent pb = produced_insert pb s i ?p"
      by (auto simp: e Let_def)
    then show ?thesis using stop by (metis zero_less_one)
  next
    case False
    then have "single_loop (e # es) limit c parent pb =
        single_loop es limit (c + 1) (Some (pl1_blockhash b)) (produced_insert pb s i ?p)"
      by (auto simp: e Let_def split: option.split)
    then show ?thesis using more by (metis zero_less_Suc)
  qed
qed

lemma iter_sorted: "pending_ok pb \<Longrightarrow> sorted_wrt (<) ([] @ map key_of (pending_iter pb))"
  using pending_keys_sorted by (simp add: key_of_iter)

lemma take_pos_ne: "0 < n \<Longrightarrow> xs \<noteq> [] \<Longrightarrow> take n xs \<noteq> []"
  by simp

lemma loop_inv_ne: "loop_inv start ks pb parent \<Longrightarrow> ks \<noteq> [] \<Longrightarrow> pb \<noteq> []"
  by (auto simp: loop_inv_def produced_keys_def)

interpretation single: block_producer single_produce_blocks "\<lambda>_. True"
proof unfold_locales
  fix st st' :: unit and pp limit r
  assume ok: "pending_ok (pp_pending_blocks pp)" and p: "single_produce_blocks st pp limit = (st', Ok r)"
  let ?ks = "pending_keys (pp_pending_blocks pp)"
  have r: "pr_produced_blocks r =
      single_loop (pending_iter (pp_pending_blocks pp)) limit 0 (pp_parent_hash pp) []"
    using p by (auto simp: single_produce_blocks_def)
  from single_loop_inv [OF loop_inv_start [of "pp_parent_hash pp"] iter_sorted [OF ok], where limit = limit and c = 0]
  obtain n parent' where
    inv: "loop_inv (pp_parent_hash pp) (take n ?ks) (pr_produced_blocks r) parent'" and
    n: "pending_iter (pp_pending_blocks pp) \<noteq> [] \<longrightarrow> 0 < n"
    unfolding r by (auto simp: key_of_iter)
  then show "\<exists>n start parent. loop_inv start (take n ?ks) (pr_produced_blocks r) parent \<and>
      (pp_parent_hash pp \<noteq> None \<longrightarrow> start = pp_parent_hash pp)"
    by blast
  show "pr_produced_blocks r \<noteq> []" if "?ks \<noteq> []"
    using loop_inv_ne [OF inv] n that by (auto simp: pending_keys_iter)
qed simp

section \<open>DummyBlockProducer\<close>

text \<open>
  The state is the counter of the next block; \<^verbatim>\<open>H256::random()\<close> is the field \<open>random_hash\<close>,
  by the number of the block it is drawn for.
\<close>

record dummy_producer =
  next_block :: u64
  random_hash :: "u64 \<Rightarrow> h256"

definition new_dummy :: "(u64 \<Rightarrow> h256) \<Rightarrow> dummy_producer" where
  "new_dummy rnd = \<lparr>next_block = 1, random_hash = rnd\<rparr>"

definition dummy_last_produced_block :: "dummy_producer \<Rightarrow> u64 res" where
  "dummy_last_produced_block d = Ok (next_block d - 1)"

fun dummy_loop ::
  "dummy_producer \<Rightarrow> (slot \<times> pending_l1_block \<times> nat \<times> pending_l2_block) list \<Rightarrow> nat option \<Rightarrow> h256 option
    \<Rightarrow> produced_blocks \<Rightarrow> dummy_producer \<times> produced_blocks" where
  "dummy_loop d [] limit parent_hash produced_blocks = (d, produced_blocks)"
| "dummy_loop d ((slot_nr, pending_l1_block, block_idx, _) # rest) limit parent_hash produced_blocks =
     (let block_number = next_block d;
          blockhash = random_hash d block_number;
          d' = d\<lparr>next_block := next_block d + 1\<rparr>;
          produced' = produced_insert produced_blocks slot_nr block_idx
            \<lparr>bp_hash = blockhash, bp_parent_hash = parent_hash, bp_number = block_number,
             bp_timestamp = pl1_timestamp pending_l1_block\<rparr>
      in case limit of
           Some l \<Rightarrow> if l \<le> produced_len produced' then (d', produced')
                     else dummy_loop d' rest limit (Some blockhash) produced'
         | None \<Rightarrow> dummy_loop d' rest limit (Some blockhash) produced')"

definition dummy_produce_blocks ::
  "dummy_producer \<Rightarrow> producer_params \<Rightarrow> nat option \<Rightarrow> dummy_producer \<times> production_result res" where
  "dummy_produce_blocks d pp limit =
     (case dummy_loop d (pending_iter (pp_pending_blocks pp)) limit (pp_parent_hash pp) [] of
        (d', produced) \<Rightarrow> (d', Ok \<lparr>pr_produced_blocks = produced, pr_finalized_block = 0\<rparr>))"

lemma dummy_loop_inv:
  assumes "loop_inv start ks pb parent" and "sorted_wrt (<) (ks @ map key_of es)"
  shows "\<exists>n parent'. loop_inv start (ks @ take n (map key_of es)) (snd (dummy_loop d es limit parent pb)) parent' \<and>
    (es \<noteq> [] \<longrightarrow> 0 < n)"
  using assms
proof (induction es arbitrary: ks pb parent d)
  case Nil
  then show ?case by auto
next
  case (Cons e es)
  obtain s b i b2 where e: "e = (s, b, i, b2)" by (cases e)
  let ?h = "random_hash d (next_block d)" and ?d = "d\<lparr>next_block := next_block d + 1\<rparr>"
  let ?p = "\<lparr>bp_hash = ?h, bp_parent_hash = parent, bp_number = next_block d, bp_timestamp = pl1_timestamp b\<rparr>"
  have "k < (s, i)" if "k \<in> set ks" for k
    using Cons.prems(2) that by (simp add: e sorted_wrt_append)
  then have step: "loop_inv start (ks @ [(s, i)]) (produced_insert pb s i ?p) (Some ?h)"
    using loop_inv_step [OF Cons.prems(1), of s i ?p] by simp
  have sorted: "sorted_wrt (<) ((ks @ [(s, i)]) @ map key_of es)"
    using Cons.prems(2) by (simp add: e)
  from Cons.IH [OF step sorted, of ?d] obtain n parent' where
    "loop_inv start ((ks @ [(s, i)]) @ take n (map key_of es))
      (snd (dummy_loop ?d es limit (Some ?h) (produced_insert pb s i ?p))) parent'" by blast
  then have more: "loop_inv start (ks @ take (Suc n) (map key_of (e # es)))
      (snd (dummy_loop ?d es limit (Some ?h) (produced_insert pb s i ?p))) parent'"
    by (simp add: e)
  have stop: "loop_inv start (ks @ take 1 (map key_of (e # es))) (produced_insert pb s i ?p) (Some ?h)"
    using step by (simp add: e)
  show ?case
  proof (cases "\<exists>l. limit = Some l \<and> l \<le> produced_len (produced_insert pb s i ?p)")
    case True
    then have "snd (dummy_loop d (e # es) limit parent pb) = produced_insert pb s i ?p"
      by (auto simp: e Let_def)
    then show ?thesis using stop by (metis zero_less_one)
  next
    case False
    then have "dummy_loop d (e # es) limit parent pb =
        dummy_loop ?d es limit (Some ?h) (produced_insert pb s i ?p)"
      by (auto simp: e Let_def split: option.split)
    then show ?thesis using more by (metis zero_less_Suc)
  qed
qed

interpretation dummy: block_producer dummy_produce_blocks "\<lambda>_. True"
proof unfold_locales
  fix st st' :: dummy_producer and pp limit r
  assume ok: "pending_ok (pp_pending_blocks pp)" and p: "dummy_produce_blocks st pp limit = (st', Ok r)"
  let ?ks = "pending_keys (pp_pending_blocks pp)"
  have r: "pr_produced_blocks r =
      snd (dummy_loop st (pending_iter (pp_pending_blocks pp)) limit (pp_parent_hash pp) [])"
    using p by (auto simp: dummy_produce_blocks_def split: prod.splits)
  from dummy_loop_inv [OF loop_inv_start [of "pp_parent_hash pp"] iter_sorted [OF ok], where d = st and limit = limit]
  obtain n parent' where
    inv: "loop_inv (pp_parent_hash pp) (take n ?ks) (pr_produced_blocks r) parent'" and
    n: "pending_iter (pp_pending_blocks pp) \<noteq> [] \<longrightarrow> 0 < n"
    unfolding r by (auto simp: key_of_iter)
  then show "\<exists>n start parent. loop_inv start (take n ?ks) (pr_produced_blocks r) parent \<and>
      (pp_parent_hash pp \<noteq> None \<longrightarrow> start = pp_parent_hash pp)"
    by blast
  show "pr_produced_blocks r \<noteq> []" if "?ks \<noteq> []"
    using loop_inv_ne [OF inv] n that by (auto simp: pending_keys_iter)
qed simp

section \<open>EngineAPIBlockProducer\<close>

datatype block_id = ByHash h256 | ByNumber u64 | FinalizedId | LatestId

record geth_block =
  gb_hash :: "h256 option"
  gb_parent_hash :: h256
  gb_number :: "u64 option"
  gb_timestamp :: u256

text \<open>
  The state counts the calls to the node; \<open>ea_block t b\<close> is its answer to the \<open>t\<close>-th one
  (\<open>None\<close> an error, \<open>Some None\<close> no such block).
\<close>

record engine_api =
  ea_geth :: geth
  ea_run :: engine_run
  ea_calls :: nat
  ea_block :: "nat \<Rightarrow> block_id \<Rightarrow> geth_block option option"
  ea_block_number :: "nat \<Rightarrow> u64 option"
  ea_rlp :: "transaction \<Rightarrow> rstr"

definition get_block :: "engine_api \<Rightarrow> block_id \<Rightarrow> engine_api \<times> geth_block option option" where
  "get_block ea b = (ea\<lparr>ea_calls := Suc (ea_calls ea)\<rparr>, ea_block ea (ea_calls ea) b)"

definition engine_last_produced_block :: "engine_api \<Rightarrow> engine_api \<times> u64 res" where
  "engine_last_produced_block ea =
     (ea\<lparr>ea_calls := Suc (ea_calls ea)\<rparr>, ok_or EthersProviderError (ea_block_number ea (ea_calls ea)))"

definition engine_get_block_params :: "engine_api \<Rightarrow> u64 \<Rightarrow> engine_api \<times> block_params res" where
  "engine_get_block_params ea block_number =
     (case get_block ea (ByNumber block_number) of
        (ea', None) \<Rightarrow> (ea', Err EthersProviderError)
      | (ea', Some None) \<Rightarrow> (ea', Err (Custom ''Block was not found''))
      | (ea', Some (Some b)) \<Rightarrow>
          (ea', case (gb_hash b, gb_number b) of
             (Some hash, Some number) \<Rightarrow>
               Ok \<lparr>bp_hash = hash, bp_parent_hash = Some (gb_parent_hash b), bp_number = number,
                   bp_timestamp = gb_timestamp b\<rparr>
           | _ \<Rightarrow> Err (Custom ''Failed to get block params'')))"

definition get_finalized_blockhash :: "engine_api \<Rightarrow> h256 option \<Rightarrow> engine_api \<times> h256 res" where
  "get_finalized_blockhash ea parent_hash =
     (if parent_hash \<noteq> None then
        (case get_block ea FinalizedId of
           (ea', Some (Some b)) \<Rightarrow> (ea', ok_or (Custom ''Failed to get finalized parent_blockhash'') (gb_hash b))
         | (ea', _) \<Rightarrow> (ea', Err (Custom ''Failed to get finalized block'')))
      else
        (case get_block ea LatestId of
           (ea', Some (Some b)) \<Rightarrow> (ea', ok_or (Custom ''Failed to get latest parent_blockhash'') (gb_hash b))
         | (ea', _) \<Rightarrow> (ea', Err (Custom ''Failed to get latest block''))))"

definition find_parent_block :: "engine_api \<Rightarrow> h256 option \<Rightarrow> engine_api \<times> geth_block res" where
  "find_parent_block ea parent_hash =
     (case parent_hash of
        Some h \<Rightarrow>
          (case get_block ea (ByHash h) of
             (ea', None) \<Rightarrow> (ea', Err (Custom ''produce_blocks: Failed to get block''))
           | (ea', Some None) \<Rightarrow> (ea', Panic ''Parent block was not found'')
           | (ea', Some (Some b)) \<Rightarrow> (ea', Ok b))
      | None \<Rightarrow>
          (case get_block ea LatestId of
             (ea', Some (Some b)) \<Rightarrow>
               (ea', case gb_number b of
                  Some n \<Rightarrow> if n \<noteq> 0 then Panic ''Unable to produce pending blocks with unknown parent''
                            else Ok b
                | None \<Rightarrow> Panic ''Block number is not set for latest block'')
           | (ea', _) \<Rightarrow> (ea', Err (Custom ''produce_blocks: Failed to get latest block''))))"

fun state_advance_txs ::
  "(transaction \<Rightarrow> rstr) \<Rightarrow> (transaction \<times> tx_result) list \<Rightarrow> state_advance_tx list res" where
  "state_advance_txs rlp [] = Ok []"
| "state_advance_txs rlp ((tx, r) # txs) =
     try_res (as_u64 (gas_price (res_gas_report r))) (\<lambda>price.
     try_res (as_u64 (gas_value (res_gas_report r))) (\<lambda>used.
     try_res (state_advance_txs rlp txs) (\<lambda>rest.
       Ok (\<lparr>sa_rlp = rlp tx, sa_gas_price = price, sa_gas_used = used\<rparr> # rest))))"

fun engine_loop ::
  "engine_api \<Rightarrow> (slot \<times> pending_l1_block \<times> nat \<times> pending_l2_block) list \<Rightarrow> nat option
    \<Rightarrow> h256 \<Rightarrow> eth_block_id option \<Rightarrow> h256 \<Rightarrow> produced_blocks \<Rightarrow> engine_api \<times> production_result res" where
  "engine_loop ea [] limit current_finalized next_finalized parent_hash produced_blocks =
     (ea, Ok \<lparr>pr_produced_blocks = produced_blocks, pr_finalized_block = current_finalized\<rparr>)"
| "engine_loop ea ((slot_nr, pending_l1_block, block_idx, pending_l2_block) # rest) limit
     current_finalized next_finalized parent_hash produced_blocks =
     (let finalize_new_block = (case next_finalized of Some n \<Rightarrow> (slot_nr, block_idx) \<le> n | None \<Rightarrow> False) in
      case state_advance_txs (ea_rlp ea) (map snd (pl2_transactions pending_l2_block)) of
        Err e \<Rightarrow> (ea, Err e)
      | Panic m \<Rightarrow> (ea, Panic m)
      | Ok txs \<Rightarrow>
          (case advance_rollup_state (ea_geth ea) (ea_run ea) current_finalized parent_hash
                  (pl1_timestamp pending_l1_block) txs (pl2_gas_recipient pending_l2_block) finalize_new_block of
             (run', Ok (block_number, block_hash)) \<Rightarrow>
               let ea' = ea\<lparr>ea_run := run'\<rparr>;
                   produced' = produced_insert produced_blocks slot_nr block_idx
                     \<lparr>bp_hash = block_hash, bp_parent_hash = Some parent_hash, bp_number = block_number,
                      bp_timestamp = pl1_timestamp pending_l1_block\<rparr>;
                   finalized' = (if finalize_new_block then block_hash else current_finalized)
               in if (case limit of Some l \<Rightarrow> l \<le> produced_len produced' | None \<Rightarrow> False) then
                    (ea', Ok \<lparr>pr_produced_blocks = produced', pr_finalized_block = finalized'\<rparr>)
                  else engine_loop ea' rest limit finalized' next_finalized block_hash produced'
           | (run', Err e) \<Rightarrow> (ea\<lparr>ea_run := run'\<rparr>, Err (Custom ''Failed to produce block in op-geth''))
           | (run', Panic m) \<Rightarrow> (ea\<lparr>ea_run := run'\<rparr>, Panic m)))"

definition engine_produce_blocks ::
  "engine_api \<Rightarrow> producer_params \<Rightarrow> nat option \<Rightarrow> engine_api \<times> production_result res" where
  "engine_produce_blocks ea pp limit =
     (case find_parent_block ea (pp_parent_hash pp) of
        (ea1, Err e) \<Rightarrow> (ea1, Err e)
      | (ea1, Panic m) \<Rightarrow> (ea1, Panic m)
      | (ea1, Ok parent_block) \<Rightarrow>
          (case (case gb_number parent_block of
                   None \<Rightarrow> (ea1, Panic ''Parent block has no number'')
                 | Some n \<Rightarrow>
                     if n \<noteq> 0 then get_finalized_blockhash ea1 (pp_parent_hash pp)
                     else (ea1, expect ''Parent block has no hash'' (gb_hash parent_block))) of
             (ea2, Err e) \<Rightarrow> (ea2, Err e)
           | (ea2, Panic m) \<Rightarrow> (ea2, Panic m)
           | (ea2, Ok finalized_blockhash) \<Rightarrow>
               (case gb_hash parent_block of
                  None \<Rightarrow> (ea2, Err (Custom ''Unable to read parent block''))
                | Some parent_blockhash \<Rightarrow>
                    (case (case pp_finalized_block pp of
                             Some (Produced h) \<Rightarrow> (h, None)
                           | Some (Pending block_id) \<Rightarrow> (finalized_blockhash, Some block_id)
                           | None \<Rightarrow> (finalized_blockhash, None)) of
                       (current_finalized, next_finalized) \<Rightarrow>
                         engine_loop ea2 (pending_iter (pp_pending_blocks pp)) limit current_finalized
                           next_finalized parent_blockhash []))))"

text \<open>A node that answers a look-up by hash with the block of that hash.\<close>

definition honest_node :: "engine_api \<Rightarrow> bool" where
  "honest_node ea \<longleftrightarrow>
     (\<forall>t h b. ea_block ea t (ByHash h) = Some (Some b) \<longrightarrow> gb_hash b = None \<or> gb_hash b = Some h)"

lemma engine_loop_env: "ea_block (fst (engine_loop ea es limit cf nf parent pb)) = ea_block ea"
proof (induction ea es limit cf nf parent pb rule: engine_loop.induct)
  case (2 ea s b i b2 rest limit cf nf parent pb)
  show ?case
    using 2 by (auto simp: Let_def split: res.split prod.split)
qed simp

lemma engine_env: "ea_block (fst (engine_produce_blocks ea pp limit)) = ea_block ea"
proof -
  have g: "ea_block (fst (get_block ea b)) = ea_block ea" for ea b by (simp add: get_block_def)
  have f: "ea_block (fst (find_parent_block ea p)) = ea_block ea" for ea p
    by (auto simp: find_parent_block_def get_block_def split: option.split)
  have h: "ea_block (fst (get_finalized_blockhash ea p)) = ea_block ea" for ea p
    by (auto simp: get_finalized_blockhash_def get_block_def split: option.split)
  show ?thesis
    using f [of ea "pp_parent_hash pp"] h
    by (auto simp: engine_produce_blocks_def engine_loop_env
        split: prod.splits res.splits option.splits finalized_block.splits if_splits)
      (metis fst_conv)+
qed

lemma engine_loop_inv:
  assumes "loop_inv start ks pb (Some parent)" and "sorted_wrt (<) (ks @ map key_of es)"
    and "engine_loop ea es limit cf nf parent pb = (ea', Ok r)"
  shows "\<exists>n parent'. loop_inv start (ks @ take n (map key_of es)) (pr_produced_blocks r) parent' \<and>
    (es \<noteq> [] \<longrightarrow> 0 < n)"
  using assms
proof (induction ea es limit cf nf parent pb arbitrary: ks rule: engine_loop.induct)
  case (1 ea limit cf nf parent pb)
  then show ?case by auto
next
  case (2 ea s b i b2 es limit cf nf parent pb)
  let ?fin = "case nf of Some n \<Rightarrow> (s, i) \<le> n | None \<Rightarrow> False"
  obtain txs run number hash where a: "state_advance_txs (ea_rlp ea) (map snd (pl2_transactions b2)) = Ok txs"
    "advance_rollup_state (ea_geth ea) (ea_run ea) cf parent (pl1_timestamp b) txs (pl2_gas_recipient b2) ?fin =
      (run, Ok (number, hash))"
    using "2.prems"(3) by (auto simp: Let_def split: res.splits prod.splits)
  let ?p = "\<lparr>bp_hash = hash, bp_parent_hash = Some parent, bp_number = number, bp_timestamp = pl1_timestamp b\<rparr>"
  let ?pb = "produced_insert pb s i ?p" and ?ea = "ea\<lparr>ea_run := run\<rparr>"
  have "k < (s, i)" if "k \<in> set ks" for k
    using "2.prems"(2) that by (simp add: sorted_wrt_append)
  then have step: "loop_inv start (ks @ [(s, i)]) ?pb (Some hash)"
    using loop_inv_step [OF "2.prems"(1), of s i ?p] by simp
  have stop: "loop_inv start (ks @ take 1 (map key_of ((s, b, i, b2) # es))) ?pb (Some hash)"
    using step by simp
  show ?case
  proof (cases "case limit of Some l \<Rightarrow> l \<le> produced_len ?pb | None \<Rightarrow> False")
    case True
    then have "pr_produced_blocks r = ?pb"
      using "2.prems"(3) a by (auto simp: Let_def split: option.splits)
    then show ?thesis using stop by (metis zero_less_one)
  next
    case False
    then have l: "engine_loop ?ea es limit (if ?fin then hash else cf) nf hash ?pb = (ea', Ok r)"
      using "2.prems"(3) a by (simp add: Let_def)
    have sorted: "sorted_wrt (<) ((ks @ [(s, i)]) @ map key_of es)"
      using "2.prems"(2) by simp
    from "2.IH" [OF refl a(1) a(2) [symmetric] refl refl refl refl refl False step sorted l] obtain n parent' where
      "loop_inv start ((ks @ [(s, i)]) @ take n (map key_of es)) (pr_produced_blocks r) parent'" by blast
    then have "loop_inv start (ks @ take (Suc n) (map key_of ((s, b, i, b2) # es))) (pr_produced_blocks r) parent'"
      by simp
    then show ?thesis by (metis zero_less_Suc)
  qed
qed

lemma engine_produce_parent:
  assumes "honest_node ea" and "engine_produce_blocks ea pp limit = (ea', Ok r)"
  shows "\<exists>ea2 parent_blockhash cf nf.
    engine_loop ea2 (pending_iter (pp_pending_blocks pp)) limit cf nf parent_blockhash [] = (ea', Ok r) \<and>
    (pp_parent_hash pp \<noteq> None \<longrightarrow> Some parent_blockhash = pp_parent_hash pp)"
proof -
  obtain ea1 parent_block where p: "find_parent_block ea (pp_parent_hash pp) = (ea1, Ok parent_block)"
    using assms(2) by (auto simp: engine_produce_blocks_def split: prod.splits res.splits)
  obtain parent_blockhash where b: "gb_hash parent_block = Some parent_blockhash"
    and "\<exists>ea2 cf nf. engine_loop ea2 (pending_iter (pp_pending_blocks pp)) limit cf nf parent_blockhash [] = (ea', Ok r)"
    using assms(2) p
    by (auto simp: engine_produce_blocks_def split: prod.splits res.splits option.splits if_splits)
  moreover have "pp_parent_hash pp \<noteq> None \<longrightarrow> Some parent_blockhash = pp_parent_hash pp"
    using p b assms(1)
    by (auto simp: find_parent_block_def get_block_def honest_node_def split: option.splits) force+
  ultimately show ?thesis by blast
qed

interpretation engine: block_producer engine_produce_blocks honest_node
proof unfold_locales
  fix st :: engine_api and pp limit
  assume "honest_node st"
  then show "honest_node (fst (engine_produce_blocks st pp limit))"
    by (simp add: honest_node_def engine_env)
next
  fix st st' :: engine_api and pp limit r
  assume g: "honest_node st" and ok: "pending_ok (pp_pending_blocks pp)"
    and p: "engine_produce_blocks st pp limit = (st', Ok r)"
  let ?ks = "pending_keys (pp_pending_blocks pp)"
  from engine_produce_parent [OF g p] obtain ea2 parent_blockhash cf nf where
    l: "engine_loop ea2 (pending_iter (pp_pending_blocks pp)) limit cf nf parent_blockhash [] = (st', Ok r)" and
    h: "pp_parent_hash pp \<noteq> None \<longrightarrow> Some parent_blockhash = pp_parent_hash pp" by blast
  from engine_loop_inv [OF loop_inv_start iter_sorted [OF ok] l] obtain n parent' where
    inv: "loop_inv (Some parent_blockhash) (take n ?ks) (pr_produced_blocks r) parent'" and
    n: "pending_iter (pp_pending_blocks pp) \<noteq> [] \<longrightarrow> 0 < n"
    by (auto simp: key_of_iter)
  then show "\<exists>n start parent. loop_inv start (take n ?ks) (pr_produced_blocks r) parent \<and>
      (pp_parent_hash pp \<noteq> None \<longrightarrow> start = pp_parent_hash pp)"
    using h by blast
  show "pr_produced_blocks r \<noteq> []" if "?ks \<noteq> []"
    using loop_inv_ne [OF inv] n that by (auto simp: pending_keys_iter)
qed

end
