(* ===== verification/Pg_Tables.thy ===== *)
theory Pg_Tables
  imports Block_Producers
begin

text \<open>
  The tables behind \<^verbatim>\<open>rome-evm-client/src/indexer/pg_storage\<close> and the statements and
  stored procedures (\<^verbatim>\<open>migrations\<close>) that the storages run on them.  A table is a map from
  its primary key; columns keep the numbers and texts that are bound to the statements.
  A statement that breaks a foreign key or cannot cast a value is an error, and a
  transaction that ends in an error leaves the tables as they were.  Keys and foreign keys are constraints of the
  database, not of the Rust code.  Slots and indices stay what they are in the code: the casts
  to \<^verbatim>\<open>i64\<close> and \<^verbatim>\<open>i32\<close> for the columns are injective and keep the order of
  slots below \<open>2 ^ 63\<close> and indices below \<open>2 ^ 31\<close>.
\<close>

section \<open>Tables\<close>

text \<open>The composite type \<^verbatim>\<open>BlockParams\<close> of the column \<^verbatim>\<open>eth_block.params\<close>.\<close>

record pg_params =
  pc_blockhash :: rstr
  pc_parent_hash :: "rstr option"
  pc_number :: nat
  pc_timestamp :: nat

record sol_slot_row =
  sr_parent_slot :: slot
  sr_status :: slot_status
  sr_blockhash :: "rstr option"
  sr_timestamp :: "timestamp option"

record eth_block_row =
  er_gas_used :: nat
  er_gas_recipient :: "rstr option"
  er_slot_timestamp :: "timestamp option"
  er_params :: "pg_params option"

record evm_tx_result_row =
  tr_tx_result :: rstr
  tr_receipt_params :: "rstr option"

record db =
  db_sol_slot :: "(slot, sol_slot_row) btree"
  db_sol_block :: "(slot, bytes) btree"
  db_evm_tx :: "(rstr, bytes) hmap"
  db_evm_tx_result :: "(slot \<times> rstr, evm_tx_result_row) hmap"
  db_eth_block :: "(eth_block_id, eth_block_row) btree"
  db_eth_block_txs :: "(slot \<times> nat \<times> rstr, nat) hmap"

record receipt_params =
  rc_blockhash :: h256
  rc_block_number :: u64
  rc_tx_index :: nat
  rc_block_gas_used :: u256
  rc_first_log_index :: u256

text \<open>
  What the storages use of other crates and of Postgres: the conversions of the rows, the
  recovery of a sender, RLP and JSON encodings, the hash, and the cast of a text to the
  composite type.
\<close>

record pg_lib =
  pl_rows :: row_lib
  cast_blockparams :: "rstr \<Rightarrow> pg_params option"
  pl_recover_from :: "transaction \<Rightarrow> address option"
  rlp_of_sender :: "address \<Rightarrow> u256 \<Rightarrow> bytes"
  pl_keccak :: "bytes \<Rightarrow> h256"
  tx_to_rlp :: "transaction \<Rightarrow> bytes"
  result_to_json :: "tx_result \<Rightarrow> rstr option"
  receipt_to_json :: "receipt_params \<Rightarrow> rstr option"
  receipt_from_json :: "rstr \<Rightarrow> receipt_params option"
  block_to_json :: "solana_block \<Rightarrow> bytes option"
  block_from_json :: "bytes \<Rightarrow> solana_block option"

section \<open>Connections and transactions\<close>

text \<open>
  \<^verbatim>\<open>self.pool.get()?\<close> may fail at any time: \<open>pg_up t\<close> says whether the \<open>t\<close>-th connection
  is given out.
\<close>

record pg =
  pg_db :: db
  pg_calls :: nat
  pg_up :: "nat \<Rightarrow> bool"

definition in_transaction :: "(db \<Rightarrow> (db \<times> 'a) res) \<Rightarrow> pg \<Rightarrow> pg \<times> 'a res" where
  "in_transaction f pg =
     (let pg' = pg\<lparr>pg_calls := Suc (pg_calls pg)\<rparr> in
      if pg_up pg (pg_calls pg) then
        (case f (pg_db pg) of
           Ok (db', x) \<Rightarrow> (pg'\<lparr>pg_db := db'\<rparr>, Ok x)
         | Err e \<Rightarrow> (pg', Err e)
         | Panic m \<Rightarrow> (pg', Panic m))
      else (pg', Err ConnectionPoolError))"

text \<open>A query that only reads.\<close>

definition reading :: "(db \<Rightarrow> 'a res) \<Rightarrow> pg \<Rightarrow> pg \<times> 'a res" where
  "reading f = in_transaction (\<lambda>db. try_res (f db) (\<lambda>x. Ok (db, x)))"

text \<open>The statements of a loop, in order.\<close>

fun run_all :: "('a \<Rightarrow> 'b \<Rightarrow> 'b res) \<Rightarrow> 'a list \<Rightarrow> 'b \<Rightarrow> 'b res" where
  "run_all f [] st = Ok st"
| "run_all f (x # xs) st = try_res (f x st) (run_all f xs)"

lemma run_all_append: "run_all f (xs @ ys) st = try_res (run_all f xs st) (run_all f ys)"
proof (induction xs arbitrary: st)
  case (Cons x xs)
  then have "run_all f (xs @ ys) = (\<lambda>s. try_res (run_all f xs s) (run_all f ys))" by blast
  then show ?case by (simp add: try_res_assoc)
qed simp

text \<open>A property every statement keeps holds after the loop.\<close>

lemma run_all_inv:
  assumes "run_all f xs st = Ok st'" and "P st" and "\<And>x s s'. x \<in> set xs \<Longrightarrow> f x s = Ok s' \<Longrightarrow> P s \<Longrightarrow> P s'"
  shows "P st'"
  using assms
proof (induction xs arbitrary: st)
  case (Cons x xs)
  then obtain s where s: "f x st = Ok s" "run_all f xs s = Ok st'" by (auto simp: res_elims)
  show ?case
    by (rule Cons.IH [OF s(2) Cons.prems(3) [OF _ s(1) Cons.prems(2)]]) (use Cons.prems(3) in auto)
qed auto

section \<open>Statements\<close>

text \<open>\<^verbatim>\<open>INSERT ... ON CONFLICT DO NOTHING\<close> of a row whose foreign keys are given by \<open>fk\<close>.\<close>

definition insert_new ::
  "('k \<Rightarrow> 'v \<Rightarrow> ('k \<times> 'v) list \<Rightarrow> ('k \<times> 'v) list) \<Rightarrow> 'k \<Rightarrow> 'v \<Rightarrow> bool \<Rightarrow> ('k \<times> 'v) list
    \<Rightarrow> ('k \<times> 'v) list res" where
  "insert_new ins k v fk table =
     (case map_of table k of
        Some _ \<Rightarrow> Ok table
      | None \<Rightarrow> if fk then Ok (ins k v table) else Err DieselError)"

definition has_slot :: "db \<Rightarrow> slot \<Rightarrow> bool" where
  "has_slot db slot_nr \<longleftrightarrow> map_of (db_sol_slot db) slot_nr \<noteq> None"

definition insert_eth_block :: "eth_block_id \<Rightarrow> eth_block_row \<Rightarrow> db \<Rightarrow> db res" where
  "insert_eth_block k row db =
     try_res (insert_new bt_insert k row (has_slot db (fst k)) (db_eth_block db)) (\<lambda>t.
       Ok (db\<lparr>db_eth_block := t\<rparr>))"

definition insert_eth_block_tx :: "slot \<Rightarrow> nat \<Rightarrow> rstr \<Rightarrow> nat \<Rightarrow> db \<Rightarrow> db res" where
  "insert_eth_block_tx slot_nr block_idx hash tx_idx db =
     try_res (insert_new hm_insert (slot_nr, block_idx, hash) tx_idx
         (map_of (db_eth_block db) (slot_nr, block_idx) \<noteq> None \<and>
          map_of (db_evm_tx_result db) (slot_nr, hash) \<noteq> None) (db_eth_block_txs db)) (\<lambda>t.
       Ok (db\<lparr>db_eth_block_txs := t\<rparr>))"

definition insert_evm_tx :: "rstr \<Rightarrow> bytes \<Rightarrow> db \<Rightarrow> db res" where
  "insert_evm_tx hash rlp db =
     try_res (insert_new hm_insert hash rlp True (db_evm_tx db)) (\<lambda>t. Ok (db\<lparr>db_evm_tx := t\<rparr>))"

definition insert_evm_tx_result :: "slot \<Rightarrow> rstr \<Rightarrow> rstr \<Rightarrow> db \<Rightarrow> db res" where
  "insert_evm_tx_result slot_nr hash json db =
     try_res (insert_new hm_insert (slot_nr, hash) \<lparr>tr_tx_result = json, tr_receipt_params = None\<rparr>
         (has_slot db slot_nr \<and> map_of (db_evm_tx db) hash \<noteq> None) (db_evm_tx_result db)) (\<lambda>t.
       Ok (db\<lparr>db_evm_tx_result := t\<rparr>))"

text \<open>\<^verbatim>\<open>UPDATE evm_tx_result SET receipt_params = ... WHERE slot_number = ... AND tx_hash = ...\<close>.\<close>

definition update_receipt_params :: "slot \<Rightarrow> rstr \<Rightarrow> rstr \<Rightarrow> db \<Rightarrow> db" where
  "update_receipt_params slot_nr hash json db =
     (case map_of (db_evm_tx_result db) (slot_nr, hash) of
        None \<Rightarrow> db
      | Some row \<Rightarrow> db\<lparr>db_evm_tx_result :=
          hm_insert (slot_nr, hash) (row\<lparr>tr_receipt_params := Some json\<rparr>) (db_evm_tx_result db)\<rparr>)"

text \<open>The procedure \<^verbatim>\<open>block_produced\<close>: it fills the parameters of a block that has none.\<close>

definition block_produced :: "pg_lib \<Rightarrow> eth_block_id \<Rightarrow> rstr \<Rightarrow> db \<Rightarrow> db res" where
  "block_produced lib k params_val db =
     (case map_of (db_eth_block db) k of
        None \<Rightarrow> Ok db
      | Some row \<Rightarrow>
          (case er_params row of
             Some _ \<Rightarrow> Ok db
           | None \<Rightarrow> try_res (ok_or DieselError (cast_blockparams lib params_val)) (\<lambda>p.
               Ok (db\<lparr>db_eth_block := bt_insert k (row\<lparr>er_params := Some p\<rparr>) (db_eth_block db)\<rparr>))))"

text \<open>The aggregates \<^verbatim>\<open>latest_eth_block\<close>, \<^verbatim>\<open>get_block_number\<close> and \<^verbatim>\<open>get_max_slot_produced\<close>.\<close>

fun max_of :: "'a::linorder list \<Rightarrow> 'a option" where
  "max_of [] = None"
| "max_of (x # xs) = (case max_of xs of None \<Rightarrow> Some x | Some m \<Rightarrow> Some (max x m))"

lemma max_of_None [simp]: "max_of xs = None \<longleftrightarrow> xs = []"
  by (cases xs) (auto split: option.split)

lemma max_of_Some: "max_of xs = Some m \<longleftrightarrow> m \<in> set xs \<and> (\<forall>x \<in> set xs. x \<le> m)"
proof (induction xs arbitrary: m)
  case (Cons x xs)
  show ?case
  proof (cases "max_of xs")
    case None
    then show ?thesis by auto
  next
    case (Some m')
    then have "m' \<in> set xs \<and> (\<forall>x \<in> set xs. x \<le> m')" using Cons.IH by blast
    then show ?thesis using Some by (auto simp: max_def intro: order.antisym)
  qed
qed simp

definition produced_rows :: "db \<Rightarrow> (eth_block_id \<times> pg_params) list" where
  "produced_rows db = List.map_filter (\<lambda>(k, row). map_option (Pair k) (er_params row)) (db_eth_block db)"

definition sql_latest_eth_block :: "db \<Rightarrow> nat option" where
  "sql_latest_eth_block db = max_of (map (pc_number \<circ> snd) (produced_rows db))"

definition sql_get_block_number :: "rstr \<Rightarrow> db \<Rightarrow> nat option" where
  "sql_get_block_number hash db =
     max_of (map (pc_number \<circ> snd) (filter (\<lambda>(k, p). pc_blockhash p = hash) (produced_rows db)))"

definition sql_get_max_slot_produced :: "db \<Rightarrow> slot option" where
  "sql_get_max_slot_produced db = max_of (map (fst \<circ> fst) (produced_rows db))"

text \<open>\<^verbatim>\<open>SELECT slot_number INTO result\<close> takes the first row there is.\<close>

definition sql_get_slot_for_eth_block :: "nat \<Rightarrow> db \<Rightarrow> slot option" where
  "sql_get_slot_for_eth_block number db =
     map_option (fst \<circ> fst) (List.find (\<lambda>(k, p). pc_number p = number) (produced_rows db))"

text \<open>
  \<^verbatim>\<open>DELETE FROM ... WHERE slot_number >= from_slot\<close>: a row that is still referred to cannot be deleted.
\<close>

definition delete_from_slot ::
  "slot \<Rightarrow> (slot \<times> 'k \<Rightarrow> bool) \<Rightarrow> ((slot \<times> 'k) \<times> 'v) list \<Rightarrow> ((slot \<times> 'k) \<times> 'v) list res" where
  "delete_from_slot from_slot referenced table =
     (if \<exists>(k, _) \<in> set table. from_slot \<le> fst k \<and> referenced k then Err DieselError
      else Ok (filter (\<lambda>((s, _), _). s < from_slot) table))"

text \<open>The procedure \<^verbatim>\<open>clean_from_slot\<close>.\<close>

definition sql_clean_from_slot :: "slot \<Rightarrow> db \<Rightarrow> db res" where
  "sql_clean_from_slot from_slot db =
     try_res (delete_from_slot from_slot (\<lambda>_. False) (db_eth_block_txs db)) (\<lambda>txs.
     try_res (delete_from_slot from_slot (\<lambda>(s, i). \<exists>((s', i', _), _) \<in> set txs. s' = s \<and> i' = i) (db_eth_block db)) (\<lambda>blocks.
     try_res (delete_from_slot from_slot (\<lambda>(s, hash). \<exists>((s', _, h), _) \<in> set txs. s' = s \<and> h = hash)
       (db_evm_tx_result db)) (\<lambda>results.
       Ok (db\<lparr>db_eth_block_txs := txs, db_eth_block := blocks, db_evm_tx_result := results\<rparr>))))"

text \<open>In this order of the statements nothing that is deleted is referred to.\<close>

lemma sql_clean_from_slot_eq:
  "sql_clean_from_slot from_slot db = Ok (
     db\<lparr>db_eth_block_txs := filter (\<lambda>((s, _), _). s < from_slot) (db_eth_block_txs db),
        db_eth_block := filter (\<lambda>((s, _), _). s < from_slot) (db_eth_block db),
        db_evm_tx_result := filter (\<lambda>((s, _), _). s < from_slot) (db_evm_tx_result db)\<rparr>)"
  by (fastforce simp: sql_clean_from_slot_def delete_from_slot_def)

section \<open>Pending blocks\<close>

text \<open>
  The recursive view \<^verbatim>\<open>pending_blocks_with_slot_statuses2\<close>: from the highest slot with an
  Ethereum block down along the parents.  \<open>visited\<close> are the slots already in the result,
  which \<^verbatim>\<open>UNION\<close> does not add again; the fuel is the number of slots.
\<close>

definition blocks_of_slot :: "db \<Rightarrow> slot \<Rightarrow> (nat \<times> eth_block_row) list" where
  "blocks_of_slot db slot_nr =
     List.map_filter (\<lambda>((s, i), row). if s = slot_nr then Some (i, row) else None) (db_eth_block db)"

definition slot_has_produced :: "db \<Rightarrow> slot \<Rightarrow> bool" where
  "slot_has_produced db slot_nr \<longleftrightarrow> (\<exists>(i, row) \<in> set (blocks_of_slot db slot_nr). er_params row \<noteq> None)"

type_synonym view_row = "slot \<times> sol_slot_row \<times> nat \<times> eth_block_row"

definition view_rows :: "slot \<Rightarrow> sol_slot_row \<Rightarrow> (nat \<times> eth_block_row) list \<Rightarrow> view_row list" where
  "view_rows slot_nr sr blocks = map (\<lambda>(i, row). (slot_nr, sr, i, row)) blocks"

fun view_parents :: "nat \<Rightarrow> db \<Rightarrow> slot list \<Rightarrow> slot \<Rightarrow> sol_slot_row \<Rightarrow> view_row list" where
  "view_parents 0 db visited slot_nr sr = []"
| "view_parents (Suc n) db visited slot_nr sr =
     (let parent = sr_parent_slot sr in
      case map_of (db_sol_slot db) parent of
        None \<Rightarrow> []
      | Some psr \<Rightarrow>
          if 0 < parent \<and> parent \<notin> set visited \<and> (sr_status sr \<noteq> Finalized \<or> \<not> slot_has_produced db slot_nr)
          then view_rows parent psr (blocks_of_slot db parent) @
            view_parents n db (parent # visited) parent psr
          else [])"

definition pending_view :: "db \<Rightarrow> view_row list" where
  "pending_view db =
     (case max_of (map (fst \<circ> fst) (db_eth_block db)) of
        None \<Rightarrow> []
      | Some slot_nr \<Rightarrow>
          (case map_of (db_sol_slot db) slot_nr of
             None \<Rightarrow> []
           | Some sr \<Rightarrow>
               view_rows slot_nr sr (filter (\<lambda>(i, row). er_params row = None) (blocks_of_slot db slot_nr)) @
               view_parents (length (db_sol_slot db)) db [slot_nr] slot_nr sr))"

text \<open>
  The view \<^verbatim>\<open>pending_transactions_with_slot_statuses2\<close> joins the transactions of the blocks;
  a slot without blockhash cannot be read into a row.
\<close>

definition tx_rows_of :: "db \<Rightarrow> view_row \<Rightarrow> pending_tx list res" where
  "tx_rows_of db v =
     (case v of (slot_nr, sr, i, row) \<Rightarrow>
       run_all (\<lambda>((s, j, hash), tx_idx) txs.
         if s = slot_nr \<and> j = i then
           (case (map_of (db_evm_tx db) hash, map_of (db_evm_tx_result db) (s, hash)) of
              (Some rlp, Some res) \<Rightarrow>
                try_res (ok_or DieselError (sr_blockhash sr)) (\<lambda>bh.
                  Ok (txs @ [\<lparr>pt_slot_number = slot_nr, pt_slot_status = sr_status sr, pt_slot_blockhash = bh,
                    pt_slot_timestamp = sr_timestamp sr, pt_slot_block_idx = i,
                    pt_gas_recipient = er_gas_recipient row,
                    pt_eth_blockhash = map_option pc_blockhash (er_params row), pt_tx_idx = tx_idx,
                    pt_rlp = rlp, pt_tx_result = tr_tx_result res\<rparr>]))
            | _ \<Rightarrow> Ok txs)
         else Ok txs) (db_eth_block_txs db) [])"

definition pending_transactions :: "db \<Rightarrow> pending_tx list res" where
  "pending_transactions db =
     run_all (\<lambda>v txs. try_res (tx_rows_of db v) (\<lambda>new. Ok (txs @ new))) (pending_view db) []"

end
