(* ===== verification/Transaction_Storage.thy ===== *)
theory Transaction_Storage
  imports Pg_Tables
begin

text \<open>
  \<^verbatim>\<open>rome-evm-client/src/indexer/pg_storage/transaction_storage.rs\<close>: the transactions and
  results of parsed slots, the receipt parameters of produced blocks, and the receipts and
  transactions made from them for the RPC.
\<close>

section \<open>Receipts\<close>

record transaction_receipt =
  tc_transaction_hash :: h256
  tc_transaction_index :: u64
  tc_transaction_type :: "u64 option"
  tc_block_hash :: "h256 option"
  tc_block_number :: "u64 option"
  tc_from :: address
  tc_to :: "address option"
  tc_gas_used :: "u256 option"
  tc_cumulative_gas_used :: u256
  tc_contract_address :: "address option"
  tc_logs :: "eth_log list"
  tc_status :: "u64 option"
  tc_effective_gas_price :: "u256 option"

text \<open>\<^verbatim>\<open>calc_contract_address\<close> of \<^verbatim>\<open>indexer/mod.rs\<close>: the low 20 bytes of a hash.\<close>

definition calc_contract_address :: "pg_lib \<Rightarrow> address \<Rightarrow> address option \<Rightarrow> u256 \<Rightarrow> address option" where
  "calc_contract_address lib sender recip nonce =
     (case recip of
        Some _ \<Rightarrow> None
      | None \<Rightarrow> Some (ucast (pl_keccak lib (rlp_of_sender lib sender nonce))))"

text \<open>
  The closure over the logs: it is called with the position of the log and increments
  \<open>transaction_log_index\<close> after each call.
\<close>

fun receipt_logs ::
  "transaction \<Rightarrow> receipt_params \<Rightarrow> nat \<Rightarrow> u256 \<Rightarrow> eth_log list \<Rightarrow> eth_log list res" where
  "receipt_logs tx rp log_index transaction_log_index [] = Ok []"
| "receipt_logs tx rp log_index transaction_log_index (log # logs) =
     try_res (expect ''Unable to increment log index''
         (checked_add (word_of_nat log_index) transaction_log_index)) (\<lambda>index.
     try_res (add_or_panic transaction_log_index 1) (\<lambda>next.
     try_res (receipt_logs tx rp (Suc log_index) next logs) (\<lambda>rest.
       Ok (log\<lparr>log_block_hash := Some (rc_blockhash rp), log_block_number := Some (rc_block_number rp),
             log_transaction_hash := Some (tx_hash tx),
             log_transaction_index := Some (word_of_nat (rc_tx_index rp)),
             log_log_index := Some index,
             log_transaction_log_index := Some transaction_log_index,
             log_removed := Some False\<rparr> # rest))))"

definition new_receipt :: "pg_lib \<Rightarrow> transaction \<Rightarrow> tx_result \<Rightarrow> receipt_params \<Rightarrow> transaction_receipt res" where
  "new_receipt lib tx r rp =
     try_res (expect ''This must never happen - block gas overflow!''
         (checked_add (rc_block_gas_used rp) (gas_value (res_gas_report r)))) (\<lambda>cumulative.
     try_res (receipt_logs tx rp 0 (rc_first_log_index rp) (res_logs r)) (\<lambda>logs.
       Ok \<lparr>tc_transaction_hash = tx_hash tx, tc_transaction_index = word_of_nat (rc_tx_index rp),
           tc_transaction_type = tx_transaction_type tx, tc_block_hash = Some (rc_blockhash rp),
           tc_block_number = Some (rc_block_number rp), tc_from = tx_from tx, tc_to = tx_to tx,
           tc_gas_used = Some (gas_value (res_gas_report r)), tc_cumulative_gas_used = cumulative,
           tc_contract_address = calc_contract_address lib (tx_from tx) (tx_to tx) (tx_nonce tx),
           tc_logs = logs, tc_status = Some (if code (res_exit_reason r) = 0 then 1 else 0),
           tc_effective_gas_price = Some (gas_price (res_gas_report r))\<rparr>))"

section \<open>Storing parsed transactions\<close>

definition store_tx :: "pg_lib \<Rightarrow> slot \<Rightarrow> transaction \<times> tx_result \<Rightarrow> db \<Rightarrow> db res" where
  "store_tx lib slot_nr e db = (case e of (tx, r) \<Rightarrow>
     let hash = hash_hex (tx_hash tx) in
     try_res (insert_evm_tx hash (tx_to_rlp lib tx) db) (\<lambda>db.
     try_res (ok_or SerdeJsonError (result_to_json lib r)) (\<lambda>json.
       insert_evm_tx_result slot_nr hash json db)))"

definition store_parsed_txs :: "pg_lib \<Rightarrow> (slot, block_parse_result) btree \<Rightarrow> db \<Rightarrow> db res" where
  "store_parsed_txs lib parse_result =
     run_all (\<lambda>(_, res). run_all (store_tx lib (slot_number res)) (result_transactions res)) parse_result"

definition tx_register_parse_results ::
  "pg_lib \<Rightarrow> pg \<Rightarrow> (slot, block_parse_result) btree \<Rightarrow> pg \<times> unit res" where
  "tx_register_parse_results lib pg parse_result =
     in_transaction (\<lambda>db. try_res (store_parsed_txs lib parse_result db) (\<lambda>db. Ok (db, ()))) pg"

section \<open>Reading transactions\<close>

record transaction_row =
  tw_slot_number :: slot
  tw_rlp :: bytes
  tw_tx_result :: rstr
  tw_receipt_params :: "rstr option"

text \<open>The procedure \<^verbatim>\<open>get_transaction\<close>: the results of the transaction, in no particular order.\<close>

definition transaction_rows :: "rstr \<Rightarrow> db \<Rightarrow> transaction_row list" where
  "transaction_rows hash db =
     (case map_of (db_evm_tx db) hash of
        None \<Rightarrow> []
      | Some rlp \<Rightarrow> List.map_filter (\<lambda>((slot_nr, h), row).
          if h = hash then Some \<lparr>tw_slot_number = slot_nr, tw_rlp = rlp, tw_tx_result = tr_tx_result row,
            tw_receipt_params = tr_receipt_params row\<rparr> else None) (db_evm_tx_result db))"

text \<open>
  \<^verbatim>\<open>tx.get_or_insert(decode(row)?)\<close>: the row is decoded even when there is a transaction
  already; then the sender is recovered.
\<close>

definition row_tx :: "pg_lib \<Rightarrow> transaction option \<Rightarrow> transaction_row \<Rightarrow> transaction res" where
  "row_tx lib tx row =
     try_res (ok_or (Custom ''Failed to decode transaction from rlp'')
       (tx_from_rlp (pl_rows lib) (tw_rlp row))) (\<lambda>decoded.
     let tx = (case tx of Some tx \<Rightarrow> tx | None \<Rightarrow> decoded) in
     try_res (ok_or SignatureError (pl_recover_from lib tx)) (\<lambda>sender.
       Ok (tx\<lparr>tx_from := sender\<rparr>)))"

fun receipt_loop ::
  "pg_lib \<Rightarrow> transaction option \<Rightarrow> (slot, transaction_receipt) btree \<Rightarrow> transaction_row list
    \<Rightarrow> (slot, transaction_receipt) btree res" where
  "receipt_loop lib tx results [] = Ok results"
| "receipt_loop lib tx results (row # rows) =
     try_res (row_tx lib tx row) (\<lambda>tx'.
       case tw_receipt_params row of
         None \<Rightarrow> receipt_loop lib (Some tx') results rows
       | Some json \<Rightarrow>
           try_res (ok_or SerdeJsonError (receipt_from_json lib json)) (\<lambda>rp.
           try_res (ok_or SerdeJsonError (result_from_json (pl_rows lib) (tw_tx_result row))) (\<lambda>r.
           try_res (new_receipt lib tx' r rp) (\<lambda>receipt.
             receipt_loop lib (Some tx') (bt_insert (tw_slot_number row) receipt results) rows))))"

definition pg_get_transaction_receipt :: "pg_lib \<Rightarrow> pg \<Rightarrow> h256 \<Rightarrow> pg \<times> transaction_receipt option res" where
  "pg_get_transaction_receipt lib pg hash =
     (case reading (\<lambda>db. Ok (transaction_rows (hash_hex hash) db)) pg of
        (pg', r) \<Rightarrow> (pg', try_res r (\<lambda>rows.
          try_res (receipt_loop lib None [] rows) (\<lambda>results. Ok (map_option snd (bt_last results))))))"

fun transaction_loop ::
  "pg_lib \<Rightarrow> transaction option \<Rightarrow> (slot, transaction) btree \<Rightarrow> transaction_row list
    \<Rightarrow> (slot, transaction) btree res" where
  "transaction_loop lib tx results [] = Ok results"
| "transaction_loop lib tx results (row # rows) =
     try_res (row_tx lib tx row) (\<lambda>tx'.
     try_res (case tw_receipt_params row of
         None \<Rightarrow> Ok tx'
       | Some json \<Rightarrow>
           try_res (ok_or SerdeJsonError (receipt_from_json lib json)) (\<lambda>rp.
             Ok (tx'\<lparr>tx_block_hash := Some (rc_blockhash rp), tx_block_number := Some (rc_block_number rp),
                   tx_transaction_index := Some (word_of_nat (rc_tx_index rp))\<rparr>))) (\<lambda>tx''.
       transaction_loop lib (Some tx'') (bt_insert (tw_slot_number row) tx'' results) rows))"

definition pg_get_transaction :: "pg_lib \<Rightarrow> pg \<Rightarrow> h256 \<Rightarrow> pg \<times> transaction option res" where
  "pg_get_transaction lib pg hash =
     (case reading (\<lambda>db. Ok (transaction_rows (hash_hex hash) db)) pg of
        (pg', r) \<Rightarrow> (pg', try_res r (\<lambda>rows.
          try_res (transaction_loop lib None [] rows) (\<lambda>results. Ok (map_option snd (bt_last results))))))"

section \<open>Produced blocks\<close>

text \<open>The loop over the transactions of a block, with the gas and the logs before each.\<close>

fun store_receipts ::
  "pg_lib \<Rightarrow> slot \<Rightarrow> block_params \<Rightarrow> u256 \<Rightarrow> u256 \<Rightarrow> (nat \<times> transaction \<times> tx_result) list \<Rightarrow> db \<Rightarrow> db res" where
  "store_receipts lib slot_nr params gas_before log_index [] db = Ok db"
| "store_receipts lib slot_nr params gas_before log_index ((tx_index, tx, r) # txs) db =
     try_res (add_or_panic gas_before (gas_value (res_gas_report r))) (\<lambda>gas'.
     try_res (add_or_panic log_index (u256_of_len (length (res_logs r)))) (\<lambda>index'.
     try_res (ok_or SerdeJsonError (receipt_to_json lib
       \<lparr>rc_blockhash = bp_hash params, rc_block_number = bp_number params, rc_tx_index = tx_index,
        rc_block_gas_used = gas_before, rc_first_log_index = log_index\<rparr>)) (\<lambda>json.
       store_receipts lib slot_nr params gas' index' txs
         (update_receipt_params slot_nr (hash_hex (tx_hash tx)) json db))))"

definition store_block_receipts ::
  "pg_lib \<Rightarrow> pending_blocks \<Rightarrow> eth_block_id \<times> block_params \<Rightarrow> db \<Rightarrow> db res" where
  "store_block_receipts lib pending e db = (case e of ((slot_nr, block_idx), params) \<Rightarrow>
     (case pending_get pending slot_nr block_idx of
        None \<Rightarrow> Ok db
      | Some b \<Rightarrow> store_receipts lib slot_nr params 0 0 (pl2_transactions b) db))"

definition tx_blocks_produced :: "pg_lib \<Rightarrow> pg \<Rightarrow> pending_blocks \<Rightarrow> produced_blocks \<Rightarrow> pg \<times> unit res" where
  "tx_blocks_produced lib pg pending produced =
     in_transaction (\<lambda>db. try_res (run_all (store_block_receipts lib pending) (produced_iter produced) db)
       (\<lambda>db. Ok (db, ()))) pg"

end
