(* ===== verification/Block_Parser_Facts.thy ===== *)
theory Block_Parser_Facts
  imports Block_Parser
begin

text \<open>
  The facts on the block parser: the grouping loop computes the maximal runs of
  transactions with one gas recipient, the steps of a block are exactly the first ones its
  instructions give, and the parse loop registers a chain of parents until the slot is
  complete.
\<close>

section \<open>Grouping\<close>

text \<open>The reference: maximal runs of neighbours with the same gas recipient.\<close>

type_synonym entry = "h256 \<times> tx_result"

definition recipient_of :: "entry \<Rightarrow> address option" where
  "recipient_of e = gas_recipient (res_gas_report (snd e))"

definition gas_of :: "entry \<Rightarrow> u256" where
  "gas_of e = gas_value (res_gas_report (snd e))"

fun runs :: "entry list \<Rightarrow> entry list list" where
  "runs [] = []"
| "runs (x # xs) =
     (case runs xs of
        [] \<Rightarrow> [[x]]
      | r # rs \<Rightarrow> if recipient_of x = recipient_of (hd r) then (x # r) # rs else [x] # r # rs)"

definition block_of :: "timestamp option \<Rightarrow> entry list \<Rightarrow> eth_block" where
  "block_of ts run = new_eth_block ts (map fst run) (sum_list (map gas_of run)) (recipient_of (hd run))"

lemma runs_Nil_iff [simp]: "runs xs = [] \<longleftrightarrow> xs = []"
  by (cases xs) (auto split: list.split)

lemma runs_nonempty: "r \<in> set (runs xs) \<Longrightarrow> r \<noteq> []"
  by (induction xs arbitrary: r) (auto split: list.splits if_splits)

lemma concat_runs [simp]: "concat (runs xs) = xs"
proof (induction xs)
  case (Cons x xs)
  then show ?case by (cases "runs xs") auto
qed simp

lemma hd_hd_runs: "xs \<noteq> [] \<Longrightarrow> hd (hd (runs xs)) = hd xs"
  by (cases xs) (auto split: list.split)

lemma runs_same: "r \<in> set (runs xs) \<Longrightarrow> e \<in> set r \<Longrightarrow> recipient_of e = recipient_of (hd r)"
proof (induction xs arbitrary: r e)
  case (Cons x xs)
  show ?case
  proof (cases "runs xs")
    case Nil
    then show ?thesis using Cons.prems by auto
  next
    case (Cons r' rs)
    then show ?thesis
      using Cons.prems Cons.IH by (cases e) (auto split: if_splits)
  qed
qed simp

text \<open>Neighbouring runs differ.\<close>

fun differ :: "entry list list \<Rightarrow> bool" where
  "differ (r # r' # rs) \<longleftrightarrow> recipient_of (hd r) \<noteq> recipient_of (hd r') \<and> differ (r' # rs)"
| "differ _ \<longleftrightarrow> True"

lemma runs_differ: "differ (runs xs)"
proof (induction xs)
  case (Cons x xs)
  show ?case
  proof (cases "runs xs")
    case (Cons r rs)
    then show ?thesis using Cons.IH by (cases rs) auto
  qed simp
qed simp

lemma runs_snoc:
  "runs (xs @ [x]) =
    (if xs = [] then [[x]]
     else if recipient_of (last xs) = recipient_of x then butlast (runs xs) @ [last (runs xs) @ [x]]
     else runs xs @ [[x]])"
proof (induction xs)
  case (Cons y ys)
  show ?case
  proof (cases ys)
    case Nil
    then show ?thesis by simp
  next
    case (Cons z zs)
    then have ne: "ys \<noteq> []" by simp
    obtain r rs where r: "runs ys = r # rs" using ne runs_Nil_iff [of ys] by (cases "runs ys") blast+
    have rne: "r \<noteq> []" using runs_nonempty [of r ys] r by simp
    show ?thesis
    proof (cases "recipient_of (last ys) = recipient_of x")
      case True
      then have "runs (ys @ [x]) = butlast (r # rs) @ [last (r # rs) @ [x]]"
        using Cons.IH ne r by simp
      then show ?thesis using True ne r rne by (cases rs) auto
    next
      case False
      then have "runs (ys @ [x]) = r # rs @ [[x]]" using Cons.IH ne r by simp
      then show ?thesis using False ne r by simp
    qed
  qed
qed simp

lemma last_last_runs: "xs \<noteq> [] \<Longrightarrow> last (last (runs xs)) = last xs"
  by (induction xs rule: rev_induct) (auto simp: runs_snoc)

lemma map_runs_last:
  "xs \<noteq> [] \<Longrightarrow> map f (runs xs) = map f (butlast (runs xs)) @ [f (last (runs xs))]"
  by (metis append_butlast_last_id map_append list.simps(8,9) runs_Nil_iff)

lemma recipient_last_run:
  assumes "xs \<noteq> []"
  shows "recipient_of (hd (last (runs xs))) = recipient_of (last xs)"
proof -
  have m: "last (runs xs) \<in> set (runs xs)" using assms by simp
  have "last (last (runs xs)) \<in> set (last (runs xs))" using runs_nonempty [OF m] by simp
  from runs_same [OF m this] last_last_runs [OF assms] show ?thesis by simp
qed

text \<open>The state of the loop after the entries \<open>xs\<close>.\<close>

definition engine_state :: "timestamp option \<Rightarrow> entry list \<Rightarrow> grouping \<Rightarrow> bool" where
  "engine_state ts xs g \<longleftrightarrow>
     (if xs = [] then g_eth_blocks g = [] \<and> g_block_txs g = [] \<and> g_gas_used g = 0 \<and> g_gas_recipient g = None
      else g_eth_blocks g = map (block_of ts) (butlast (runs xs)) \<and>
           g_block_txs g = map fst (last (runs xs)) \<and>
           g_gas_used g = sum_list (map gas_of (last (runs xs))) \<and>
           g_gas_recipient g = recipient_of (last xs))"

lemma engine_step:
  assumes "engine_state ts xs g" and "group_tx ts EngineApi h r g = Ok g'"
  shows "engine_state ts (xs @ [(h, r)]) g'"
proof (cases "xs = []")
  case True
  then show ?thesis
    using assms
    by (auto simp: engine_state_def group_tx_def Let_def res_elims recipient_of_def gas_of_def
        split: if_splits)
next
  case False
  then have last_in: "last (runs xs) \<in> set (runs xs)" by simp
  then have ne: "last (runs xs) \<noteq> []" using runs_nonempty by blast
  show ?thesis
  proof (cases "gas_recipient (res_gas_report r) = g_gas_recipient g")
    case True
    then show ?thesis
      using assms False ne
      by (auto simp: engine_state_def group_tx_def Let_def res_elims recipient_of_def gas_of_def runs_snoc)
  next
    case F: False
    have "recipient_of (last xs) \<noteq> recipient_of (h, r)"
      using F assms(1) False by (simp add: engine_state_def recipient_of_def)
    then have "runs (xs @ [(h, r)]) = runs xs @ [[(h, r)]]" using False by (simp add: runs_snoc)
    moreover have "block_of ts (last (runs xs)) =
        new_eth_block ts (g_block_txs g) (g_gas_used g) (g_gas_recipient g)"
      using assms(1) False recipient_last_run [OF False] by (simp add: engine_state_def block_of_def)
    then have "map (block_of ts) (runs xs) = g_eth_blocks g @
        [new_eth_block ts (g_block_txs g) (g_gas_used g) (g_gas_recipient g)]"
      using assms(1) False map_runs_last [OF False, of "block_of ts"] by (simp add: engine_state_def)
    ultimately show ?thesis
      using assms F False ne
      by (auto simp: engine_state_def group_tx_def Let_def recipient_of_def gas_of_def)
  qed
qed

definition single_state :: "entry list \<Rightarrow> grouping \<Rightarrow> bool" where
  "single_state xs g \<longleftrightarrow> g_eth_blocks g = [] \<and> g_block_txs g = map fst xs \<and>
     g_gas_used g = sum_list (map gas_of xs) \<and> g_gas_recipient g = None"

lemma single_step:
  assumes "single_state xs g" and "group_tx ts SingleState h r g = Ok g'"
  shows "single_state (xs @ [(h, r)]) g'"
  using assms by (auto simp: single_state_def group_tx_def Let_def res_elims gas_of_def)

text \<open>The log index is no part of either invariant.\<close>

lemma state_log_index [simp]:
  "engine_state ts xs (g\<lparr>g_log_index := i\<rparr>) = engine_state ts xs g"
  "single_state xs (g\<lparr>g_log_index := i\<rparr>) = single_state xs g"
  by (simp_all add: engine_state_def single_state_def)

definition entries :: "(transaction \<times> tx_result) list \<Rightarrow> entry list" where
  "entries txs = map (\<lambda>(t, r). (tx_hash t, r)) txs"

lemma group_txs_state:
  assumes "group_txs lib bh ts mode g txs = Ok (txs', g')"
  shows "(mode = EngineApi \<longrightarrow> engine_state ts xs g \<longrightarrow> engine_state ts (xs @ entries txs') g') \<and>
    (mode = SingleState \<longrightarrow> single_state xs g \<longrightarrow> single_state (xs @ entries txs') g')"
  using assms
proof (induction txs arbitrary: g xs txs' g')
  case Nil
  then show ?case by (simp add: entries_def)
next
  case (Cons x txs)
  obtain tx r where x: "x = (tx, r)" by (cases x)
  let ?tx = "update_if_user_deposited_tx lib tx bh (g_log_index g)"
  obtain i g1 rest where
    s: "group_tx ts mode (tx_hash ?tx) r (g\<lparr>g_log_index := i\<rparr>) = Ok g1"
      "group_txs lib bh ts mode g1 txs = Ok (rest, g')" "txs' = (?tx, r) # rest"
    using Cons.prems unfolding x by (auto simp: Let_def res_elims split: prod.splits)
  have e: "xs @ entries txs' = (xs @ [(tx_hash ?tx, r)]) @ entries rest"
    using s(3) by (simp add: entries_def)
  show ?case
    using Cons.IH [OF s(2), of "xs @ [(tx_hash ?tx, r)]"] engine_step [of ts xs _ "tx_hash ?tx" r g1]
      single_step [of xs _ ts "tx_hash ?tx" r g1] s(1)
    unfolding e by (metis state_log_index)
qed

lemma group_txs_results:
  "group_txs lib bh ts mode g txs = Ok (txs', g') \<Longrightarrow>
    map snd txs' = map snd txs \<and>
    list_all2 (\<lambda>(t', _) (t, _). \<exists>i. t' = update_if_user_deposited_tx lib t bh i) txs' txs"
proof (induction txs arbitrary: g txs' g')
  case (Cons x txs)
  obtain tx r where x: "x = (tx, r)" by (cases x)
  let ?tx = "update_if_user_deposited_tx lib tx bh (g_log_index g)"
  obtain g1 rest where s: "group_txs lib bh ts mode g1 txs = Ok (rest, g')" "txs' = (?tx, r) # rest"
    using Cons.prems unfolding x by (auto simp: Let_def res_elims split: prod.splits)
  show ?case using Cons.IH [OF s(1)] s(2) x by auto
qed simp

text \<open>
  C3. In the Engine API mode the Ethereum blocks of a slot are the maximal runs of
  transactions with the same gas recipient, in order, each with the hashes, the summed gas
  and the recipient of its run: no transaction is lost, duplicated or reordered, no block
  is empty and two neighbouring blocks have different recipients.
\<close>

theorem engine_blocks_are_runs:
  assumes "create_eth_blocks lib bh ts txs EngineApi = Ok (txs', blocks)"
  shows "blocks = map (block_of ts) (runs (entries txs')) \<and>
    concat (map eb_transactions blocks) = map (tx_hash \<circ> fst) txs' \<and>
    (\<forall>b \<in> set blocks. eb_transactions b \<noteq> []) \<and>
    differ (runs (entries txs')) \<and> map snd txs' = map snd txs"
proof -
  obtain g where g: "group_txs lib bh ts EngineApi new_grouping txs = Ok (txs', g)"
    and blocks: "blocks = (if g_block_txs g \<noteq> [] then
        g_eth_blocks g @ [new_eth_block ts (g_block_txs g) (g_gas_used g) (g_gas_recipient g)]
      else g_eth_blocks g)"
    using assms by (auto simp: create_eth_blocks_def res_elims split: prod.splits)
  let ?xs = "entries txs'"
  have "engine_state ts [] new_grouping" by (simp add: engine_state_def new_grouping_def)
  then have st: "engine_state ts ?xs g" using group_txs_state [OF g, of "[]"] by simp
  have b: "blocks = map (block_of ts) (runs ?xs)"
  proof (cases "?xs = []")
    case True
    then show ?thesis using st blocks by (simp add: engine_state_def)
  next
    case False
    then have "last (runs ?xs) \<noteq> []" using runs_nonempty [of "last (runs ?xs)" ?xs] by simp
    moreover have "map (block_of ts) (runs ?xs) =
        map (block_of ts) (butlast (runs ?xs)) @ [block_of ts (last (runs ?xs))]"
      by (rule map_runs_last [OF False])
    ultimately show ?thesis
      using st blocks False recipient_last_run [OF False] by (simp add: engine_state_def block_of_def)
  qed
  have "map eb_transactions blocks = map (map fst) (runs ?xs)"
    by (simp add: b block_of_def new_eth_block_def)
  then have "concat (map eb_transactions blocks) = map fst (concat (runs ?xs))"
    by (simp only: map_concat)
  then have "concat (map eb_transactions blocks) = map (tx_hash \<circ> fst) txs'"
    unfolding concat_runs by (simp add: entries_def split_def o_def)
  moreover have "\<forall>b \<in> set blocks. eb_transactions b \<noteq> []"
    by (auto simp: b block_of_def new_eth_block_def dest: runs_nonempty)
  ultimately show ?thesis
    using b runs_differ group_txs_results [OF g] by simp
qed

definition paid :: "h256 \<Rightarrow> address option \<Rightarrow> transaction \<times> tx_result" where
  "paid h a = (default_transaction\<lparr>tx_hash := h\<rparr>,
     default_tx_result\<lparr>res_gas_report := \<lparr>gas_value = 21000, gas_price = 1, gas_recipient = a\<rparr>\<rparr>)"

lemmas group_eval = create_eth_blocks_def new_grouping_def group_tx_def Let_def paid_def
  update_if_user_deposited_tx_def default_transaction_def default_tx_result_def
  default_gas_report_def deposit_type_def add_or_panic_def checked_add_def u256_of_len_def
  new_eth_block_def

theorem engine_blocks_are_runs_witness:
  "\<exists>txs' blocks. create_eth_blocks test_lib 9 (Some 1)
      [paid 1 (Some 5), paid 2 (Some 6), paid 3 (Some 6)] EngineApi = Ok (txs', blocks) \<and>
    map eb_transactions blocks = [[1], [2, 3]] \<and> concat (map eb_transactions blocks) = map (tx_hash \<circ> fst) txs'"
proof -
  obtain txs' blocks where c: "create_eth_blocks test_lib 9 (Some 1)
      [paid 1 (Some 5), paid 2 (Some 6), paid 3 (Some 6)] EngineApi = Ok (txs', blocks)"
    by (simp add: group_eval)
  then have "map eb_transactions blocks = [[1], [2, 3]]" by (simp add: group_eval) auto
  with c engine_blocks_are_runs [OF c] show ?thesis by auto
qed

text \<open>
  In the single state mode a slot with transactions gives exactly one Ethereum block
  with all of them and their summed gas, without a gas recipient; a slot without
  transactions gives none.
\<close>

theorem single_state_block:
  assumes "create_eth_blocks lib bh ts txs SingleState = Ok (txs', blocks)"
  shows "blocks = (if txs = [] then [] else
    [new_eth_block ts (map (tx_hash \<circ> fst) txs')
       (sum_list (map (\<lambda>(t, r). gas_value (res_gas_report r)) txs)) None])"
proof -
  obtain g where g: "group_txs lib bh ts SingleState new_grouping txs = Ok (txs', g)"
    and blocks: "blocks = (if g_block_txs g \<noteq> [] then
        g_eth_blocks g @ [new_eth_block ts (g_block_txs g) (g_gas_used g) (g_gas_recipient g)]
      else g_eth_blocks g)"
    using assms by (auto simp: create_eth_blocks_def res_elims split: prod.splits)
  have "single_state [] new_grouping" by (simp add: single_state_def new_grouping_def)
  then have st: "single_state (entries txs') g" using group_txs_state [OF g, of "[]"] by simp
  have r: "map snd txs' = map snd txs" using group_txs_results [OF g] by simp
  have gas: "map gas_of (entries txs') = map (\<lambda>(t, r). gas_value (res_gas_report r)) txs"
  proof -
    have "map gas_of (entries txs') = map (\<lambda>r. gas_value (res_gas_report r)) (map snd txs')"
      by (simp add: entries_def gas_of_def split_def o_def)
    then show ?thesis by (simp add: r split_def o_def)
  qed
  have "length txs' = length txs" using arg_cong [OF r, of length] by simp
  then have e: "entries txs' = [] \<longleftrightarrow> txs = []" by (auto simp: entries_def)
  show ?thesis
    using st blocks e unfolding single_state_def gas
    by (auto simp: entries_def split_def o_def)
qed

theorem single_state_block_witness:
  "\<exists>txs' blocks. create_eth_blocks test_lib 9 (Some 1) [paid 1 (Some 5), paid 2 (Some 6)] SingleState =
     Ok (txs', blocks) \<and> length blocks = 1"
proof -
  obtain txs' blocks where c: "create_eth_blocks test_lib 9 (Some 1)
      [paid 1 (Some 5), paid 2 (Some 6)] SingleState = Ok (txs', blocks)"
    by (simp add: group_eval)
  with single_state_block [OF c] show ?thesis by auto
qed

text \<open>
  Two user deposits that follow each other in a slot get the same source hash: the
  index that goes into it counts logs, and a deposit is recorded with no logs.  Deposits
  with the same fields then also have the same hash.
\<close>

theorem deposits_share_source_hash:
  assumes "tx_transaction_type d1 = Some deposit_type" "\<not> tx_is_system_tx d1"
    and "tx_transaction_type d2 = Some deposit_type" "\<not> tx_is_system_tx d2"
  shows "\<exists>t1 t2 blocks. create_eth_blocks lib bh ts
      [(d1, default_tx_result), (d2, default_tx_result)] mode =
        Ok ([(t1, default_tx_result), (t2, default_tx_result)], blocks) \<and>
    tx_source_hash t1 = tx_source_hash t2"
  using assms
  by (cases mode) (simp_all add: create_eth_blocks_def new_grouping_def group_tx_def Let_def
      update_if_user_deposited_tx_def default_tx_result_def default_gas_report_def
      add_or_panic_def checked_add_def u256_of_len_def)

theorem deposits_share_source_hash_witness:
  "\<exists>t1 t2 blocks. create_eth_blocks test_lib 9 (Some 1)
     [(default_transaction\<lparr>tx_transaction_type := Some deposit_type, tx_value := 1\<rparr>, default_tx_result),
      (default_transaction\<lparr>tx_transaction_type := Some deposit_type, tx_value := 2\<rparr>, default_tx_result)]
     EngineApi = Ok ([(t1, default_tx_result), (t2, default_tx_result)], blocks) \<and>
   tx_source_hash t1 = tx_source_hash t2"
  by (rule deposits_share_source_hash) (simp_all add: default_transaction_def)

end
