(* ===== verification/Block_Parser_Walk.thy ===== *)
theory Block_Parser_Walk
  imports Block_Parser_Facts
begin

text \<open>
  The facts on \<open>register_block\<close> and \<open>parse_block\<close> of
  \<^verbatim>\<open>rome-evm-client/src/indexer/parsers/block_parser.rs\<close>: the steps found in a block
  are, for each transaction hash and Solana transaction, the first one an instruction
  gives; parsing a slot registers the blocks of a chain of parents.
\<close>

section \<open>The steps of a block\<close>

text \<open>What an instruction says, as a function of the instruction alone.\<close>

definition rlp_step ::
  "parse_env \<Rightarrow> u64 \<Rightarrow> bytes \<Rightarrow> transaction_meta \<Rightarrow> (h256 \<times> parsed_tx_step) option" where
  "rlp_step env self_chain_id rlp m =
     (case decode_transaction_from_rlp (env_lib env) rlp of
        Ok tx \<Rightarrow> (case (tx_chain_id tx, parse_transaction_meta env m) of
            (Some c, Ok r) \<Rightarrow>
              if unat c = unat self_chain_id then Some (tx_hash tx, SmallTx tx r) else None
          | _ \<Rightarrow> None)
      | _ \<Rightarrow> None)"

definition big_step ::
  "parse_env \<Rightarrow> u64 \<Rightarrow> (h256 \<times> u64) option \<Rightarrow> transaction_meta \<Rightarrow> (h256 \<times> parsed_tx_step) option" where
  "big_step env self_chain_id args m =
     (case (args, parse_transaction_meta env m) of
        (Some (hash, chain), Ok r) \<Rightarrow>
          if chain = self_chain_id then Some (hash, BigTx r) else None
      | _ \<Rightarrow> None)"

definition transmit_step ::
  "u64 \<Rightarrow> (nat \<times> h256 \<times> u64 \<times> bytes) option \<Rightarrow> (h256 \<times> parsed_tx_step) option" where
  "transmit_step self_chain_id args =
     (case args of
        Some (offset, hash, chain, chunk) \<Rightarrow>
          if chain = self_chain_id then Some (hash, TransmitTx offset chunk) else None
      | None \<Rightarrow> None)"

definition deposit_step ::
  "parse_env \<Rightarrow> u64 \<Rightarrow> (u64 \<times> bytes) option \<Rightarrow> (h256 \<times> parsed_tx_step) option" where
  "deposit_step env self_chain_id args =
     (case args of
        Some (chain, rlp) \<Rightarrow>
          if chain = self_chain_id then
            (case decode_transaction_from_rlp (env_lib env) rlp of
               Ok tx \<Rightarrow> Some (tx_hash tx, SmallTx tx (Some default_tx_result))
             | _ \<Rightarrow> None)
          else None
      | None \<Rightarrow> None)"

definition instr_step ::
  "parse_env \<Rightarrow> u64 \<Rightarrow> compiled_instruction \<Rightarrow> transaction_meta \<Rightarrow> (h256 \<times> parsed_tx_step) option" where
  "instr_step env self_chain_id instr m =
     (case instr_data instr of
        [] \<Rightarrow> None
      | n # data \<Rightarrow>
          let api = env_api env in
          if n = DoTx api then
            Option.bind (split_fee api data) (\<lambda>(_, rlp). rlp_step env self_chain_id rlp m)
          else if n = TransmitTx_disc api then transmit_step self_chain_id (transmit_tx_args api data)
          else if n = DoTxHolder api then big_step env self_chain_id (do_tx_holder_args api data) m
          else if n = DoTxIterative api then
            Option.bind (do_tx_iterative_args api data) (\<lambda>rlp. rlp_step env self_chain_id rlp m)
          else if n = DoTxHolderIterative api then
            big_step env self_chain_id (do_tx_holder_iterative_args api data) m
          else if n = Deposit api then deposit_step env self_chain_id (deposit_args api data)
          else None)"

text \<open>The steps after a computation: those before, and the given one if it is the first.\<close>

definition records :: "parsed_txs \<Rightarrow> nat \<Rightarrow> (h256 \<times> parsed_tx_step) option \<Rightarrow> parsed_txs \<Rightarrow> bool" where
  "records txs i s txs' \<longleftrightarrow> parsed_txs_ok txs' \<and>
     (\<forall>h i'. step_at txs' h i' =
        (if step_at txs h i' = None \<and> i' = i \<and> map_option fst s = Some h then map_option snd s
         else step_at txs h i'))"

lemma records_none: "parsed_txs_ok txs \<Longrightarrow> records txs i None txs"
  by (simp add: records_def)

lemma records_insert: "parsed_txs_ok txs \<Longrightarrow> records txs i (Some (h, st)) (insert_step h i st txs)"
  by (auto simp: records_def parsed_txs_ok_insert_step step_at_insert_step)

lemma records_default:
  assumes "parsed_txs_ok txs"
  shows "records txs i None (kv_or_insert hm_insert h [] txs)"
proof -
  have "kv_all bt_ok txs \<longleftrightarrow> (\<forall>(h, steps) \<in> set txs. bt_ok steps)" for txs :: parsed_txs
    by (simp add: kv_all_def)
  then have ok: "parsed_txs_ok m \<longleftrightarrow> hm_ok m \<and> kv_all bt_ok m" for m
    by (simp add: parsed_txs_ok_def kv_all_def)
  then have "parsed_txs_ok (kv_or_insert hm_insert h [] txs)"
    using assms by (simp add: hm.ok_or_insert hm.kv_all_or_insert)
  then show ?thesis
    using assms by (auto simp: records_def step_at_def hm.lookup_or_insert)
qed

lemma add_step_records:
  assumes "parsed_txs_ok txs" and "\<not> is_panic (snd (add_step txs h i step r))"
  shows "records txs i (case r of Ok x \<Rightarrow> Some (h, step x) | _ \<Rightarrow> None) (fst (add_step txs h i step r))"
  using assms by (cases r) (simp_all add: add_step_def records_insert records_default)

lemma process_rlp_records:
  assumes "parsed_txs_ok txs" and "\<not> is_panic (snd (process_rlp_tx env cid txs i rlp m))"
  shows "records txs i (rlp_step env cid rlp m) (fst (process_rlp_tx env cid txs i rlp m))"
proof (cases "decode_transaction_from_rlp (env_lib env) rlp")
  case (Ok tx)
  show ?thesis
  proof (cases "tx_chain_id tx")
    case None
    then show ?thesis
      using assms(1) Ok by (simp add: process_rlp_tx_def rlp_step_def try_with_def records_none)
  next
    case (Some c)
    show ?thesis
    proof (cases "unat c < 2 ^ 64")
      case True
      have "unat (word_of_nat (unat c) :: u64) = unat c"
        using True unfolding unat_of_nat by simp
      then have eq: "(word_of_nat (unat c) = cid) = (unat c = unat cid)"
        by (metis word_unat_eq_iff)
      show ?thesis
      proof (cases "unat c = unat cid")
        case True
        then show ?thesis
          using assms Ok Some \<open>unat c < 2 ^ 64\<close> eq 
            add_step_records [of txs "tx_hash tx" i "SmallTx tx" "parse_transaction_meta env m"]
          by (cases "parse_transaction_meta env m")
            (auto simp: process_rlp_tx_def rlp_step_def try_with_def as_u64_def add_small_tx_def)
      next
        case False
        then show ?thesis
          using assms Ok Some \<open>unat c < 2 ^ 64\<close> eq
          by (simp add: process_rlp_tx_def rlp_step_def try_with_def as_u64_def records_none
              split: res.split)
      qed
    next
      case False
      then show ?thesis
        using assms Ok Some by (simp add: process_rlp_tx_def try_with_def as_u64_def)
    qed
  qed
qed (use assms in \<open>simp_all add: process_rlp_tx_def rlp_step_def try_with_def records_none\<close>)

lemma big_records:
  assumes "parsed_txs_ok txs"
    and "\<not> is_panic (snd (try_with txs (ok_or e args) (\<lambda>(hash, chain).
      if chain = cid then add_big_tx env txs i hash m else (txs, Ok ()))))"
  shows "records txs i (big_step env cid args m) (fst (try_with txs (ok_or e args) (\<lambda>(hash, chain).
      if chain = cid then add_big_tx env txs i hash m else (txs, Ok ()))))"
proof (cases args)
  case None
  then show ?thesis using assms(1) by (simp add: big_step_def try_with_def records_none)
next
  case (Some a)
  obtain hash chain where a: "a = (hash, chain)" by (cases a)
  show ?thesis
  proof (cases "chain = cid")
    case True
    then show ?thesis
      using assms Some a add_step_records [of txs hash i BigTx "parse_transaction_meta env m"]
      by (simp add: big_step_def try_with_def add_big_tx_def split: res.splits)
  next
    case False
    then show ?thesis
      using assms Some a by (simp add: big_step_def try_with_def records_none split: res.split)
  qed
qed

lemma dispatch_records:
  assumes ok: "parsed_txs_ok txs" and d: "instr_data instr = n # data"
    and p: "\<not> is_panic (snd (dispatch env cid txs i n data m))"
  shows "records txs i (instr_step env cid instr m) (fst (dispatch env cid txs i n data m))"
proof -
  note rlp = process_rlp_records [OF ok]
  have do_tx: "\<not> is_panic (snd (process_do_tx env cid txs i data m)) \<Longrightarrow>
      records txs i (Option.bind (split_fee (env_api env) data) (\<lambda>(_, rlp). rlp_step env cid rlp m))
        (fst (process_do_tx env cid txs i data m))"
    using rlp records_none [OF ok]
    by (cases "split_fee (env_api env) data") (simp_all add: process_do_tx_def try_with_def split: prod.splits)
  have iter: "\<not> is_panic (snd (process_do_tx_iterative env cid txs i data m)) \<Longrightarrow>
      records txs i (Option.bind (do_tx_iterative_args (env_api env) data) (\<lambda>rlp. rlp_step env cid rlp m))
        (fst (process_do_tx_iterative env cid txs i data m))"
    using rlp records_none [OF ok]
    by (cases "do_tx_iterative_args (env_api env) data") (simp_all add: process_do_tx_iterative_def try_with_def)
  have transmit: "records txs i (transmit_step cid (transmit_tx_args (env_api env) data))
      (fst (process_transmit_tx env cid txs i data))"
    using ok
    by (cases "transmit_tx_args (env_api env) data")
      (auto simp: process_transmit_tx_def transmit_step_def try_with_def records_none records_insert)
  have deposit: "records txs i (deposit_step env cid (deposit_args (env_api env) data))
      (fst (process_deposit_tx env cid txs i data))"
    using ok
    by (cases "deposit_args (env_api env) data")
      (auto simp: process_deposit_tx_def deposit_step_def try_with_def records_none records_insert
        split: res.split)
  have holder: "\<not> is_panic (snd (process_do_tx_holder env cid txs i data m)) \<Longrightarrow>
      records txs i (big_step env cid (do_tx_holder_args (env_api env) data) m)
        (fst (process_do_tx_holder env cid txs i data m))"
    unfolding process_do_tx_holder_def by (rule big_records [OF ok])
  have holder_iter: "\<not> is_panic (snd (process_do_tx_holder_iterative env cid txs i data m)) \<Longrightarrow>
      records txs i (big_step env cid (do_tx_holder_iterative_args (env_api env) data) m)
        (fst (process_do_tx_holder_iterative env cid txs i data m))"
    unfolding process_do_tx_holder_iterative_def by (rule big_records [OF ok])
  show ?thesis
    using p do_tx iter transmit deposit holder holder_iter records_none [OF ok]
    by (simp add: dispatch_def instr_step_def d Let_def split: if_splits)
qed

lemma process_instruction_records:
  assumes ok: "parsed_txs_ok txs" and p: "process_instruction env cid txs i instr m = Ok txs'"
  shows "records txs i (instr_step env cid instr m) txs'"
proof (cases "instr_data instr")
  case Nil
  then show ?thesis using p by (simp add: process_instruction_def)
next
  case (Cons n data)
  then show ?thesis
    using p dispatch_records [OF ok Cons, of env cid i m]
    by (auto simp: process_instruction_def split: prod.splits res.splits)
qed

text \<open>The steps of a whole block, in the order of its instructions.\<close>

definition steps_of_instructions ::
  "parse_env \<Rightarrow> block_parser \<Rightarrow> nat \<Rightarrow> versioned_transaction \<Rightarrow> transaction_meta
    \<Rightarrow> compiled_instruction list \<Rightarrow> (h256 \<times> nat \<times> parsed_tx_step) list" where
  "steps_of_instructions env bp i tx m instrs = concat (map (\<lambda>instr.
     if static_account_keys tx ! unat (program_id_index instr) = program_id bp then
       (case instr_step env (chain_id bp) instr m of Some (h, st) \<Rightarrow> [(h, i, st)] | None \<Rightarrow> [])
     else []) instrs)"

fun steps_of_txs ::
  "parse_env \<Rightarrow> block_parser \<Rightarrow> nat \<Rightarrow> encoded_transaction list \<Rightarrow> (h256 \<times> nat \<times> parsed_tx_step) list" where
  "steps_of_txs env bp i [] = []"
| "steps_of_txs env bp i (t # ts) =
     (case (decoded t, meta t) of
        (Some tx, Some m) \<Rightarrow> if meta_err m then [] else steps_of_instructions env bp i tx m (instructions tx)
      | _ \<Rightarrow> []) @ steps_of_txs env bp (Suc i) ts"

definition block_steps :: "parse_env \<Rightarrow> block_parser \<Rightarrow> solana_block \<Rightarrow> (h256 \<times> nat \<times> parsed_tx_step) list" where
  "block_steps env bp block = (case sol_transactions block of Some ts \<Rightarrow> steps_of_txs env bp 0 ts | None \<Rightarrow> [])"

definition records_all ::
  "parsed_txs \<Rightarrow> (h256 \<times> nat \<times> parsed_tx_step) list \<Rightarrow> parsed_txs \<Rightarrow> bool" where
  "records_all txs evs txs' \<longleftrightarrow> parsed_txs_ok txs' \<and>
     (\<forall>h i. step_at txs' h i =
        (case step_at txs h i of None \<Rightarrow> flat_lookup evs h i | Some st \<Rightarrow> Some st))"

lemma records_all_Nil: "parsed_txs_ok txs \<Longrightarrow> records_all txs [] txs"
  by (simp add: records_all_def flat_lookup_def split: option.split)

lemma records_all_trans:
  "records_all a xs b \<Longrightarrow> records_all b ys c \<Longrightarrow> records_all a (xs @ ys) c"
  unfolding records_all_def flat_lookup_append by (auto split: option.splits)

lemma records_all_one:
  "records txs i s txs' \<Longrightarrow>
    records_all txs (case s of Some (h, st) \<Rightarrow> [(h, i, st)] | None \<Rightarrow> []) txs'"
  by (auto simp: records_def records_all_def flat_lookup_def split: option.splits)

lemma parse_instructions_records:
  assumes "parsed_txs_ok txs"
    and "parse_instructions (program_id bp)
      (\<lambda>st instr. process_instruction env (chain_id bp) st i instr m) tx txs instrs = Ok txs'"
  shows "records_all txs (steps_of_instructions env bp i tx m instrs) txs'"
  using assms
proof (induction instrs arbitrary: txs)
  case Nil
  then show ?case by (simp add: steps_of_instructions_def records_all_Nil)
next
  case (Cons instr instrs)
  have steps: "steps_of_instructions env bp i tx m (instr # instrs) =
     (if static_account_keys tx ! unat (program_id_index instr) = program_id bp then
       (case instr_step env (chain_id bp) instr m of Some (h, st) \<Rightarrow> [(h, i, st)] | None \<Rightarrow> [])
      else []) @ steps_of_instructions env bp i tx m instrs"
    by (simp add: steps_of_instructions_def)
  show ?case
  proof (cases "static_account_keys tx ! unat (program_id_index instr) = program_id bp")
    case True
    then obtain txs1 where
      p: "process_instruction env (chain_id bp) txs i instr m = Ok txs1"
        "parse_instructions (program_id bp)
          (\<lambda>st instr. process_instruction env (chain_id bp) st i instr m) tx txs1 instrs = Ok txs'"
      using Cons.prems(2) by (auto simp: res_elims split: if_splits)
    note r = records_all_one [OF process_instruction_records [OF Cons.prems(1) p(1)]]
    then have "parsed_txs_ok txs1" by (simp add: records_all_def)
    from records_all_trans [OF r Cons.IH [OF this p(2)]] True show ?thesis
      unfolding steps by simp
  next
    case False
    then show ?thesis
      using Cons unfolding steps by (auto split: if_splits)
  qed
qed

lemma parse_transactions_records:
  assumes "parsed_txs_ok txs"
    and "parse_transactions_of (program_id bp) (process_instruction env (chain_id bp)) i txs ts = Ok txs'"
  shows "records_all txs (steps_of_txs env bp i ts) txs'"
  using assms
proof (induction ts arbitrary: i txs)
  case Nil
  then show ?case by (simp add: records_all_Nil)
next
  case (Cons t ts)
  show ?case
  proof (cases "\<exists>tx m. decoded t = Some tx \<and> meta t = Some m \<and> \<not> meta_err m")
    case True
    then obtain tx m where t: "decoded t = Some tx" "meta t = Some m" "\<not> meta_err m" by blast
    obtain txs1 where p: "parse_instructions (program_id bp)
        (\<lambda>st instr. process_instruction env (chain_id bp) st i instr m) tx txs (instructions tx) = Ok txs1"
      "parse_transactions_of (program_id bp) (process_instruction env (chain_id bp)) (Suc i) txs1 ts = Ok txs'"
      using Cons.prems(2) t by (auto simp: res_elims)
    note r = parse_instructions_records [OF Cons.prems(1) p(1)]
    then have "parsed_txs_ok txs1" by (simp add: records_all_def)
    from records_all_trans [OF r Cons.IH [OF this p(2)]] t show ?thesis by simp
  next
    case False
    then have e: "steps_of_txs env bp i (t # ts) = steps_of_txs env bp (Suc i) ts"
      by (auto split: option.split)
    have "parse_transactions_of (program_id bp) (process_instruction env (chain_id bp)) i txs (t # ts) =
        parse_transactions_of (program_id bp) (process_instruction env (chain_id bp)) (Suc i) txs ts"
      using False by (auto split: option.split)
    then show ?thesis using Cons.IH [OF Cons.prems(1)] Cons.prems(2) e by simp
  qed
qed

lemma parse_solana_block_records:
  assumes "parse_solana_block block (program_id bp) (process_instruction env (chain_id bp)) [] = Ok txs"
  shows "parsed_txs_ok txs" and "step_at txs h i = flat_lookup (block_steps env bp block) h i"
proof -
  have "records_all [] (block_steps env bp block) txs"
    using assms parse_transactions_records [of "[]" bp env 0 _ txs] records_all_Nil [of "[]"]
    by (auto simp: parse_solana_block_def block_steps_def split: option.splits)
  moreover have "step_at [] h i = None" by (simp add: step_at_def)
  ultimately show "parsed_txs_ok txs" and "step_at txs h i = flat_lookup (block_steps env bp block) h i"
    by (simp_all add: records_all_def)
qed

section \<open>Registering and walking back\<close>

text \<open>A chain of blocks, each the parent of the one before, and their registration.\<close>

fun parent_chain :: "(slot \<times> solana_block) list \<Rightarrow> bool" where
  "parent_chain ((s, b) # (s', b') # c) \<longleftrightarrow> s' = parent_slot b \<and> parent_chain ((s', b') # c)"
| "parent_chain _ \<longleftrightarrow> True"

fun register_chain ::
  "'p tx_parser_ops \<Rightarrow> parse_env \<Rightarrow> block_parser \<Rightarrow> (slot \<times> solana_block) list \<Rightarrow> 'p \<Rightarrow> 'p res" where
  "register_chain ops env bp [] p = Ok p"
| "register_chain ops env bp ((s, b) # c) p =
     try_res (register_block ops env bp s b p) (register_chain ops env bp c)"

text \<open>
  A block the storage gave: \<open>b\<close> is its answer for slot \<open>s\<close> to one of the ten calls from \<open>t\<close> on, after
  answers without a block; \<open>t'\<close> is the next call.
\<close>

definition block_loaded :: "block_source \<Rightarrow> nat \<Rightarrow> slot \<Rightarrow> solana_block \<Rightarrow> nat \<Rightarrow> bool" where
  "block_loaded st t s b t' \<longleftrightarrow>
     (\<exists>k<10. st (t + k) s = Ok (Some b) \<and> t' = Suc (t + k) \<and>
       (\<forall>j<k. \<not> is_panic (st (t + j) s) \<and> (\<forall>b. st (t + j) s \<noteq> Ok (Some b))))"

text \<open>The blocks after the first, each loaded for its slot, one after the other.\<close>

fun chain_loaded :: "block_source \<Rightarrow> nat \<Rightarrow> (slot \<times> solana_block) list \<Rightarrow> nat \<Rightarrow> bool" where
  "chain_loaded st t [] t' \<longleftrightarrow> t' = t"
| "chain_loaded st t ((s, b) # c) t' \<longleftrightarrow> (\<exists>t1. block_loaded st t s b t1 \<and> chain_loaded st t1 c t')"

lemma get_block_retry_loaded:
  assumes "get_block_retry st s t n = (t', Ok b)"
  shows "\<exists>k<n. st (t + k) s = Ok (Some b) \<and> t' = Suc (t + k) \<and>
    (\<forall>j<k. \<not> is_panic (st (t + j) s) \<and> (\<forall>b. st (t + j) s \<noteq> Ok (Some b)))"
  using assms
proof (induction n arbitrary: t)
  case (Suc n)
  show ?case
  proof (cases "\<exists>b. st t s = Ok (Some b)")
    case True
    then show ?thesis using Suc.prems by (intro exI [of _ 0]) auto
  next
    case False
    then have now: "\<not> is_panic (st t s)" and rest: "get_block_retry st s (Suc t) n = (t', Ok b)"
      using Suc.prems by (auto split: res.splits option.splits)
    from Suc.IH [OF rest] obtain k where k: "k < n" "st (Suc t + k) s = Ok (Some b)" "t' = Suc (Suc t + k)"
      "\<forall>j<k. \<not> is_panic (st (Suc t + j) s) \<and> (\<forall>b. st (Suc t + j) s \<noteq> Ok (Some b))" by blast
    have "\<not> is_panic (st (t + j) s) \<and> (\<forall>b. st (t + j) s \<noteq> Ok (Some b))" if "j < Suc k" for j
      using that now False k(4) by (cases j) auto
    then show ?thesis using k by (intro exI [of _ "Suc k"]) auto
  qed
qed simp

lemma get_block_loaded: "get_block_with_retries st s t = (t', Ok b) \<Longrightarrow> block_loaded st t s b t'"
  unfolding get_block_with_retries_def block_loaded_def by (rule get_block_retry_loaded)

lemma parse_loop_walk:
  assumes "parse_loop ops env bp st fs fb mb n t cs cb p = (p', t', Ok r)"
  shows "\<exists>chain. parent_chain ((cs, cb) # chain) \<and> chain_loaded st t chain t' \<and>
    (\<forall>k<length chain. \<exists>q. register_chain ops env bp (take (Suc k) ((cs, cb) # chain)) p = Ok q \<and>
      is_slot_complete ops q fs = Ok False) \<and>
    register_chain ops env bp ((cs, cb) # chain) p = Ok p' \<and>
    n + length chain \<le> max n (mb - 1) \<and> is_slot_complete ops p' fs = Ok True \<and>
    (\<exists>res. r = Some res \<and> new_block_parse_result ops env fs fb p' (parse_mode bp) (enable_deposit_slot bp) = Ok res)"
  using assms
proof (induction ops env bp st fs fb mb n t cs cb p rule: parse_loop.induct)
  case (1 ops env bp st fs fb mb n t cs cb p)
  note eq = "1.prems" [unfolded parse_loop.simps [of ops env bp st fs fb mb n t cs cb p]]
  obtain p1 where p1: "register_block ops env bp cs cb p = Ok p1"
    using eq by (auto split: res.splits)
  obtain complete where c: "is_slot_complete ops p1 fs = Ok complete"
    using eq p1 by (auto split: res.splits)
  show ?case
  proof (cases complete)
    case True
    then have "p' = p1" "t' = t" "try_res (new_block_parse_result ops env fs fb p1 (parse_mode bp)
        (enable_deposit_slot bp)) (\<lambda>r. Ok (Some r)) = Ok r"
      using eq p1 c by auto
    then show ?thesis using p1 c True by (intro exI [of _ "[]"]) (auto simp: res_elims)
  next
    case False
    have lt: "\<not> mb \<le> Suc n" using eq p1 c False by (auto split: if_splits)
    obtain b t1 where b: "get_block_with_retries st (parent_slot cb) t = (t1, Ok b)"
      using eq p1 c False lt by (auto split: prod.splits res.splits)
    have "parse_loop ops env bp st fs fb mb (Suc n) t1 (parent_slot cb) b p1 = (p', t', Ok r)"
      using eq p1 c False lt b by simp
    from "1.IH" [OF p1 c _ lt b [symmetric] refl this, OF False] obtain chain where
      chain: "parent_chain ((parent_slot cb, b) # chain)" "chain_loaded st t1 chain t'"
      "\<forall>k<length chain. \<exists>q. register_chain ops env bp (take (Suc k) ((parent_slot cb, b) # chain)) p1 = Ok q \<and>
        is_slot_complete ops q fs = Ok False"
      "register_chain ops env bp ((parent_slot cb, b) # chain) p1 = Ok p'"
      "Suc n + length chain \<le> max (Suc n) (mb - 1)" "is_slot_complete ops p' fs = Ok True"
      "\<exists>res. r = Some res \<and> new_block_parse_result ops env fs fb p' (parse_mode bp) (enable_deposit_slot bp) = Ok res"
      by blast
    have early: "\<exists>q. register_chain ops env bp (take (Suc k) ((cs, cb) # (parent_slot cb, b) # chain)) p = Ok q \<and>
        is_slot_complete ops q fs = Ok False" if "k < Suc (length chain)" for k
    proof (cases k)
      case (Suc j)
      then show ?thesis using that chain(3) p1 by auto
    qed (use p1 c False in simp)
    show ?thesis
      using p1 lt chain(1,2,4-) get_block_loaded [OF b] early
      by (intro exI [of _ "(parent_slot cb, b) # chain"]) auto
  qed
qed

context tx_parser_trait
begin

lemma commit_ok: "ok p \<Longrightarrow> parsed_txs_ok txs \<Longrightarrow> commit ops p s txs = Ok p' \<Longrightarrow> ok p'"
  using ok_register [of p txs s] by (auto simp: commit_def split: prod.splits res.splits)

lemma commit_closed:
  "ok p \<Longrightarrow> closed p \<Longrightarrow> parsed_txs_ok txs \<Longrightarrow> commit ops p s txs = Ok p' \<Longrightarrow> closed p'"
  using closed_register [of p txs s] by (auto simp: commit_def split: prod.splits res.splits)

lemma register_block_ok:
  assumes "ok p" and "register_block ops env bp s b p = Ok p'"
  shows "ok p'" and "closed p \<Longrightarrow> closed p'"
proof -
  obtain txs where t: "parse_solana_block b (program_id bp) (process_instruction env (chain_id bp)) [] = Ok txs"
    "commit ops p s txs = Ok p'"
    using assms(2) by (auto simp: register_block_def res_elims)
  from parse_solana_block_records(1) [OF t(1)] have "parsed_txs_ok txs" .
  then show "ok p'" and "closed p \<Longrightarrow> closed p'"
    using commit_ok commit_closed assms(1) t(2) by blast+
qed

lemma register_chain_ok:
  "ok p \<Longrightarrow> register_chain ops env bp c p = Ok p' \<Longrightarrow> ok p' \<and> (closed p \<longrightarrow> closed p')"
proof (induction c arbitrary: p)
  case (Cons x c)
  obtain s b where x: "x = (s, b)" by (cases x)
  obtain p1 where p1: "register_block ops env bp s b p = Ok p1" "register_chain ops env bp c p1 = Ok p'"
    using Cons.prems(2) x by (auto simp: res_elims)
  show ?case
    using register_block_ok [OF Cons.prems(1) p1(1)] Cons.IH [OF _ p1(2)] by blast
qed simp

lemma parsed_slot_complete:
  assumes "ok p" and "register_chain ops env bp c p = Ok p'" and "is_slot_complete ops p' s = Ok True"
  shows "\<not> is_panic (finalize_slot ops p' s)"
proof -
  have "ok p'" using register_chain_ok [OF assms(1,2)] by simp
  then show ?thesis using finalize_no_panic assms(3) by blast
qed

end

section \<open>Properties\<close>

text \<open>
  C13. Registering a block gives the parser, for each transaction hash and index of a
  Solana transaction, the first step an instruction of the EVM program in it describes,
  and no other: transactions that failed or do not decode, and instructions for another
  chain, give none.  A parser that knows the transactions of its results still does.
\<close>

theorem register_block_exact:
  assumes "parser_ok p" and "register_block (default_tx_parser_ops lib) env bp s block p = Ok p'"
  shows "parser_ok p' \<and> (parser_closed p \<longrightarrow> parser_closed p') \<and>
    (\<exists>txs. parsed_txs_ok txs \<and> (\<forall>h i. step_at txs h i = flat_lookup (block_steps env bp block) h i) \<and>
       fst (default_register_slot_transactions p s txs) = p' \<and>
       (snd (default_register_slot_transactions p s txs) = Ok () \<longrightarrow>
         (\<forall>h i. result_at p' s h i = map_option step_result (flat_lookup (block_steps env bp block) h i))))"
proof -
  obtain txs where t: "parse_solana_block block (program_id bp) (process_instruction env (chain_id bp)) [] = Ok txs"
    "commit (default_tx_parser_ops lib) p s txs = Ok p'"
    using assms(2) by (auto simp: register_block_def res_elims)
  note rec = parse_solana_block_records [OF t(1)]
  have reg: "fst (default_register_slot_transactions p s txs) = p'"
    using t(2) by (auto simp: commit_def default_tx_parser_ops_def split: prod.splits res.splits)
  have "result_at p' s h i = map_option step_result (flat_lookup (block_steps env bp block) h i)"
    if "snd (default_register_slot_transactions p s txs) = Ok ()" for h i
  proof -
    have "default_register_slot_transactions p s txs = (p', Ok ())"
      using that reg by (cases "default_register_slot_transactions p s txs") simp
    from result_at_register [OF assms(1) rec(1) this, of s h i] rec(2) show ?thesis by simp
  qed
  then show ?thesis
    using dtp.register_block_ok [OF assms] rec reg by blast
qed

definition test_api :: evm_api where
  "test_api = \<lparr>DoTx = 1, TransmitTx_disc = 2, DoTxHolder = 3, DoTxIterative = 4,
     DoTxHolderIterative = 5, Deposit = 6, split_fee = (\<lambda>d. Some (0, d)),
     deposit_args = (\<lambda>d. Some (7, d)), do_tx_iterative_args = Some, do_tx_holder_args = (\<lambda>d. Some (5, 7)),
     do_tx_holder_iterative_args = (\<lambda>d. Some (5, 7)), transmit_tx_args = (\<lambda>d. Some (0, 5, 7, d)),
     bs58_decode = (\<lambda>s. Some (replicate 32 0))\<rparr>"

definition test_parse_env :: parse_env where
  "test_parse_env = \<lparr>env_lib = test_lib, env_log = test_env, env_api = test_api\<rparr>"

definition test_block_parser :: block_parser where
  "test_block_parser = \<lparr>program_id = 9, chain_id = 7, parse_mode = EngineApi, enable_deposit_slot = None\<rparr>"

definition test_tx :: "bytes list \<Rightarrow> encoded_transaction" where
  "test_tx datas = \<lparr>decoded = Some \<lparr>signatures = [[1]], static_account_keys = [9],
       instructions = map (\<lambda>d. \<lparr>program_id_index = 0, instr_data = d\<rparr>) datas\<rparr>,
     meta = Some \<lparr>meta_err = False, log_messages = None\<rparr>\<rparr>"

definition test_block :: "encoded_transaction list \<Rightarrow> solana_block" where
  "test_block ts = \<lparr>previous_blockhash = [], blockhash = [], parent_slot = 4,
     sol_transactions = Some ts, block_time = Some 1\<rparr>"

lemmas block_eval = test_api_def test_parse_env_def test_block_parser_def test_tx_def test_block_def
  register_block_def parse_solana_block_def process_instruction_def dispatch_def
  process_transmit_tx_def try_with_def insert_step_def commit_def default_tx_parser_ops_def

theorem register_block_exact_witness:
  "\<exists>p'. register_block (default_tx_parser_ops test_lib) test_parse_env test_block_parser 5
      (test_block [test_tx [[2, 1, 1], [2, 8]]]) new_default_tx_parser = Ok p' \<and> parser_ok p' \<and>
    flat_lookup (block_steps test_parse_env test_block_parser (test_block [test_tx [[2, 1, 1], [2, 8]]])) 5 0 =
      Some (TransmitTx 0 [1, 1])"
proof -
  obtain p' where p': "register_block (default_tx_parser_ops test_lib) test_parse_env test_block_parser 5
      (test_block [test_tx [[2, 1, 1], [2, 8]]]) new_default_tx_parser = Ok p'"
    by (simp add: block_eval parser_eval Let_def)
  have "flat_lookup (block_steps test_parse_env test_block_parser (test_block [test_tx [[2, 1, 1], [2, 8]]])) 5 0 =
      Some (TransmitTx 0 [1, 1])"
    by (simp add: flat_lookup_def block_steps_def steps_of_instructions_def block_eval instr_step_def
        transmit_step_def Let_def)
  with register_block_exact [OF parser_ok_new p'] p' show ?thesis by auto
qed

text \<open>
  C14. Parsing a slot: when it returns a result, the blocks registered are the block the storage has for
  the slot itself and then its ancestors, each the block the storage gave when it was asked for
  the parent slot of the one before (an answer to one of ten calls), at most
  \<open>min max_blocks final_slot\<close> of them and one at least.  The slot is complete after the last of
  them, after none before, and the result is made from the parser of that moment.
\<close>

theorem parse_block_walks_back:
  assumes "parser_ok p"
    and "parse_block (default_tx_parser_ops lib) env bp st t fs mb p = (p', t', Ok (Some r))"
  shows "\<exists>fb chain. st t fs = Ok (Some fb) \<and> parent_chain ((fs, fb) # chain) \<and> chain_loaded st (Suc t) chain t' \<and>
    Suc (length chain) \<le> max 1 (min mb (unat fs)) \<and>
    (\<forall>k<length chain. \<exists>q. register_chain (default_tx_parser_ops lib) env bp (take (Suc k) ((fs, fb) # chain)) p = Ok q \<and>
      default_is_slot_complete q fs = Ok False) \<and>
    register_chain (default_tx_parser_ops lib) env bp ((fs, fb) # chain) p = Ok p' \<and> parser_ok p' \<and>
    default_is_slot_complete p' fs = Ok True \<and>
    new_block_parse_result (default_tx_parser_ops lib) env fs fb p' (parse_mode bp) (enable_deposit_slot bp) = Ok r"
proof -
  let ?ops = "default_tx_parser_ops lib"
  obtain fb where fb: "st t fs = Ok (Some fb)"
    using assms(2) by (auto simp: parse_block_def split: res.splits option.splits)
  have "parse_loop ?ops env bp st fs fb (min mb (unat fs)) 0 (Suc t) fs fb p = (p', t', Ok (Some r))"
    using assms(2) fb by (simp add: parse_block_def)
  from parse_loop_walk [OF this] obtain chain where c: "parent_chain ((fs, fb) # chain)"
    "chain_loaded st (Suc t) chain t'"
    "\<forall>k<length chain. \<exists>q. register_chain ?ops env bp (take (Suc k) ((fs, fb) # chain)) p = Ok q \<and>
      is_slot_complete ?ops q fs = Ok False"
    "register_chain ?ops env bp ((fs, fb) # chain) p = Ok p'"
    "length chain \<le> min mb (unat fs) - 1" "is_slot_complete ?ops p' fs = Ok True"
    "new_block_parse_result ?ops env fs fb p' (parse_mode bp) (enable_deposit_slot bp) = Ok r"
    by auto
  have complete: "is_slot_complete ?ops = default_is_slot_complete" by (simp add: default_tx_parser_ops_def)
  have "parser_ok p'" using dtp.register_chain_ok [OF assms(1) c(4)] by simp
  then show ?thesis using fb c(1,2,4-) c(3) [unfolded complete]
    by (intro exI [of _ fb] exI [of _ chain]) (auto simp: complete)
qed

definition test_source :: block_source where
  "test_source t s = (if s = 5 then Ok (Some (test_block [])) else Ok None)"

theorem parse_block_walks_back_witness:
  "\<exists>p' t' r. parse_block (default_tx_parser_ops test_lib) test_parse_env test_block_parser test_source 0 5 3
      new_default_tx_parser = (p', t', Ok (Some r)) \<and> parser_ok p' \<and> default_is_slot_complete p' 5 = Ok True"
proof -
  obtain p' t' r where w: "parse_block (default_tx_parser_ops test_lib) test_parse_env test_block_parser
      test_source 0 5 3 new_default_tx_parser = (p', t', Ok (Some r))"
    by (simp add: parse_block_def parse_loop.simps test_source_def block_eval parser_eval
        new_block_parse_result_def h256_from_slice_def u256_from_i64_def parse_transactions_def
        create_eth_blocks_def new_grouping_def)
  from parse_block_walks_back [OF parser_ok_new w] w show ?thesis by blast
qed

text \<open>
  A block with an instruction of the EVM program that has no data stops the indexer:
  the code warns about it, and then reads past the end of the data.
\<close>

theorem empty_instruction_panics:
  assumes "instr_data instr = []" and "program_id_index instr = 0" and "static_account_keys tx = program_id bp # keys"
    and "signatures tx \<noteq> []" and "instructions tx = instr # instrs"
  shows "is_panic (register_block ops env bp s
    (b\<lparr>sol_transactions := Some (\<lparr>decoded = Some tx, meta = Some \<lparr>meta_err = False, log_messages = l\<rparr>\<rparr> # ts)\<rparr>) p)"
  using assms by (simp add: register_block_def parse_solana_block_def process_instruction_def)

theorem empty_instruction_panics_witness:
  "is_panic (register_block (default_tx_parser_ops test_lib) test_parse_env test_block_parser 5
    ((test_block [])\<lparr>sol_transactions := Some [\<lparr>decoded = Some \<lparr>signatures = [[1]], static_account_keys = [9],
       instructions = [\<lparr>program_id_index = 0, instr_data = []\<rparr>]\<rparr>,
     meta = Some \<lparr>meta_err = False, log_messages = None\<rparr>\<rparr>]\<rparr>) new_default_tx_parser)"
  by (rule empty_instruction_panics) (simp_all add: test_block_parser_def)

end
