(* ===== verification/Rollup_Indexer.thy ===== *)
theory Rollup_Indexer
  imports Block_Parser_Walk Block_Producers
begin

text \<open>
  \<^verbatim>\<open>rome-evm-client/src/indexer/rollup_indexer.rs\<close>: the loop that parses new slots,
  stores what was parsed, has the pending Ethereum blocks produced, or restores blocks the
  producer already has, and at the start has lost blocks produced again.  The storages and
  the producer are the traits of the code: records of operations on a state of their own.
\<close>

definition MAX_PARSE_BEHIND :: slot where "MAX_PARSE_BEHIND = 64"
definition BATCH_SIZE :: nat where "BATCH_SIZE = 1024"
definition NUM_RETRIES :: nat where "NUM_RETRIES = 500"

section \<open>The traits\<close>

record 'w eth_storage =
  es_get_pending_blocks :: "'w \<Rightarrow> 'w \<times> producer_params option res"
  es_reproduce_blocks :: "'w \<Rightarrow> slot \<Rightarrow> slot \<Rightarrow> 'w \<times> reproduce_params option res"
  es_register_parse_results :: "'w \<Rightarrow> (slot, block_parse_result) btree \<Rightarrow> 'w \<times> unit res"
  es_latest_block :: "'w \<Rightarrow> 'w \<times> u64 option res"
  es_blocks_produced :: "'w \<Rightarrow> producer_params \<Rightarrow> produced_blocks \<Rightarrow> 'w \<times> unit res"
  es_get_max_slot_produced :: "'w \<Rightarrow> 'w \<times> slot option res"
  es_retain_from_slot :: "'w \<Rightarrow> slot \<Rightarrow> 'w \<times> unit res"
  es_clean_from_slot :: "'w \<Rightarrow> slot \<Rightarrow> 'w \<times> unit res"
  es_get_slot_for_eth_block :: "'w \<Rightarrow> u64 \<Rightarrow> 'w \<times> slot option res"

record 'w sol_storage =
  ss_get_last_slot :: "'w \<Rightarrow> 'w \<times> slot option res"
  ss_retain_from_slot :: "'w \<Rightarrow> slot \<Rightarrow> 'w \<times> unit res"
  ss_get_block :: block_source

record 'st producer =
  pr_last_produced_block :: "'st \<Rightarrow> 'st \<times> u64 res"
  pr_get_block_params :: "'st \<Rightarrow> u64 \<Rightarrow> 'st \<times> block_params res"
  pr_produce_blocks :: "'st \<Rightarrow> producer_params \<Rightarrow> nat option \<Rightarrow> 'st \<times> production_result res"

record ('w, 'st) rollup_indexer =
  ri_block_parser :: block_parser
  ri_env :: parse_env
  ri_sol :: "'w sol_storage"
  ri_eth :: "'w eth_storage"
  ri_producer :: "'st producer option"
  ri_max_slot_history :: "slot option"

text \<open>What changes: the storages, the producer, the parser and the number of block reads.\<close>

record ('w, 'st) indexer_state =
  is_world :: 'w
  is_producer :: 'st
  is_tx_parser :: default_tx_parser
  is_reads :: nat

definition on_world ::
  "('w \<Rightarrow> 'w \<times> 'a res) \<Rightarrow> ('w, 'st) indexer_state \<Rightarrow> ('w, 'st) indexer_state \<times> 'a res" where
  "on_world f s = (case f (is_world s) of (w, r) \<Rightarrow> (s\<lparr>is_world := w\<rparr>, r))"

definition on_producer ::
  "('st \<Rightarrow> 'st \<times> 'a res) \<Rightarrow> ('w, 'st) indexer_state \<Rightarrow> ('w, 'st) indexer_state \<times> 'a res" where
  "on_producer f s = (case f (is_producer s) of (p, r) \<Rightarrow> (s\<lparr>is_producer := p\<rparr>, r))"

section \<open>Reproducing blocks\<close>

text \<open>The check of the results: every expected block is there with the same parameters.\<close>

fun check_reproduced :: "produced_blocks \<Rightarrow> (eth_block_id \<times> block_params) list \<Rightarrow> unit res" where
  "check_reproduced produced [] = Ok ()"
| "check_reproduced produced (((slot_nr, block_idx), expected_params) # rest) =
     (case produced_get produced slot_nr block_idx of
        Some new_params \<Rightarrow>
          if expected_params \<noteq> new_params then Err (Custom ''Block reproduction failed'')
          else check_reproduced produced rest
      | None \<Rightarrow> Err (Custom ''reproduce_blocks: Block was not reproduced''))"

definition reproduce_blocks ::
  "('w, 'st) rollup_indexer \<Rightarrow> ('w, 'st) indexer_state \<Rightarrow> slot \<Rightarrow> slot \<Rightarrow> nat
    \<Rightarrow> ('w, 'st) indexer_state \<times> slot res" where
  "reproduce_blocks ri s from_slot max_slot batch_size =
     (case ri_producer ri of
        None \<Rightarrow> (s, Ok from_slot)
      | Some pr \<Rightarrow>
          try_with s (sub_or_panic max_slot from_slot) (\<lambda>left.
          let to_slot = from_slot + min left (word_of_nat batch_size) in
          and_then (on_world (\<lambda>w. es_reproduce_blocks (ri_eth ri) w from_slot to_slot) s) (\<lambda>s params.
            case params of
              None \<Rightarrow> (s, Ok to_slot)
            | Some rp \<Rightarrow>
                and_then (on_producer (\<lambda>p. pr_produce_blocks pr p (rp_producer_params rp) (Some batch_size)) s)
                  (\<lambda>s result.
                    try_with s (check_reproduced (pr_produced_blocks result) (produced_iter (rp_expected_results rp)))
                      (\<lambda>_. (s, Ok to_slot))))))"

text \<open>\<^verbatim>\<open>while current_slot < to_slot\<close>; the fuel counts the rounds.\<close>

fun reproduce_range ::
  "nat \<Rightarrow> ('w, 'st) rollup_indexer \<Rightarrow> ('w, 'st) indexer_state \<Rightarrow> slot \<Rightarrow> slot \<Rightarrow> nat
    \<Rightarrow> (('w, 'st) indexer_state \<times> unit res) option" where
  "reproduce_range 0 ri s current_slot to_slot batch_size = None"
| "reproduce_range (Suc n) ri s current_slot to_slot batch_size =
     (if current_slot < to_slot then
        (case reproduce_blocks ri s current_slot to_slot batch_size of
           (s', Ok next_slot) \<Rightarrow> reproduce_range n ri s' next_slot to_slot batch_size
         | (s', Err e) \<Rightarrow> Some (s', Err e)
         | (s', Panic m) \<Rightarrow> Some (s', Panic m))
      else Some (s, Ok ()))"

text \<open>
  The loop around it, until no produced slot is left; a storage error only makes it wait.
  Both loops draw on the same fuel.
\<close>

fun reproduce_loop ::
  "nat \<Rightarrow> ('w, 'st) rollup_indexer \<Rightarrow> ('w, 'st) indexer_state \<Rightarrow> slot \<Rightarrow> nat
    \<Rightarrow> (('w, 'st) indexer_state \<times> slot res) option" where
  "reproduce_loop 0 ri s from_slot batch_size = None"
| "reproduce_loop (Suc n) ri s from_slot batch_size =
     (case on_world (es_get_max_slot_produced (ri_eth ri)) s of
        (s1, Ok (Some to_slot)) \<Rightarrow>
          (case add_or_panic to_slot 1 of
             Ok to_slot1 \<Rightarrow>
               if from_slot < to_slot1 then
                 (case reproduce_range n ri s1 from_slot to_slot1 batch_size of
                    None \<Rightarrow> None
                  | Some (s2, Ok _) \<Rightarrow> reproduce_loop n ri s2 to_slot1 batch_size
                  | Some (s2, Err e) \<Rightarrow> Some (s2, Err e)
                  | Some (s2, Panic m) \<Rightarrow> Some (s2, Panic m))
               else Some (s1, Ok from_slot)
           | Err e \<Rightarrow> Some (s1, Err e)
           | Panic m \<Rightarrow> Some (s1, Panic m))
      | (s1, Ok None) \<Rightarrow> Some (s1, Ok from_slot)
      | (s1, Err e) \<Rightarrow> reproduce_loop n ri s1 from_slot batch_size
      | (s1, Panic m) \<Rightarrow> Some (s1, Panic m))"

definition reproduce_blocks_until_in_sync ::
  "nat \<Rightarrow> ('w, 'st) rollup_indexer \<Rightarrow> ('w, 'st) indexer_state \<Rightarrow> u64 \<Rightarrow> nat
    \<Rightarrow> (('w, 'st) indexer_state \<times> slot res) option" where
  "reproduce_blocks_until_in_sync n ri s last_known_block batch_size =
     (case add_or_panic last_known_block 1 of
        Panic m \<Rightarrow> Some (s, Panic m)
      | Err e \<Rightarrow> Some (s, Err e)
      | Ok next \<Rightarrow>
          (case on_world (\<lambda>w. es_get_slot_for_eth_block (ri_eth ri) w next) s of
             (s1, Ok (Some from_slot)) \<Rightarrow> reproduce_loop n ri s1 from_slot batch_size
           | (s1, Ok None) \<Rightarrow> Some (s1, Err (Custom ''Unable to find Solana slot for EthereumBlock''))
           | (s1, Err e) \<Rightarrow> Some (s1, Err e)
           | (s1, Panic m) \<Rightarrow> Some (s1, Panic m)))"

definition pre_run ::
  "nat \<Rightarrow> ('w, 'st) rollup_indexer \<Rightarrow> ('w, 'st) indexer_state \<Rightarrow> slot option
    \<Rightarrow> (('w, 'st) indexer_state \<times> slot res) option" where
  "pre_run n ri s start_slot =
     (case ri_producer ri of
        None \<Rightarrow> Some (s, Ok (case start_slot of Some x \<Rightarrow> x | None \<Rightarrow> 0))
      | Some pr \<Rightarrow>
          (case on_producer (pr_last_produced_block pr) s of
             (s1, Err e) \<Rightarrow> Some (s1, Err e)
           | (s1, Panic m) \<Rightarrow> Some (s1, Panic m)
           | (s1, Ok last_in_producer) \<Rightarrow>
               (case on_world (es_latest_block (ri_eth ri)) s1 of
                  (s2, Err e) \<Rightarrow> Some (s2, Err e)
                | (s2, Panic m) \<Rightarrow> Some (s2, Panic m)
                | (s2, Ok (Some last_in_storage)) \<Rightarrow>
                    if last_in_producer < last_in_storage then
                      reproduce_blocks_until_in_sync n ri s2 last_in_producer BATCH_SIZE
                    else Some (and_then (on_world (\<lambda>w. es_get_slot_for_eth_block (ri_eth ri) w last_in_storage) s2)
                      (\<lambda>s3 x. (s3, ok_or (Custom ''Slot not found for EthBlock'') x)))
                | (s2, Ok None) \<Rightarrow>
                    Some (and_then (on_world (\<lambda>w. es_get_slot_for_eth_block (ri_eth ri) w last_in_producer) s2)
                      (\<lambda>s3 x. (s3, case x of
                         Some slot_nr \<Rightarrow> Ok slot_nr
                       | None \<Rightarrow> ok_or (Custom ''start_slot is not set'') start_slot))))))"

section \<open>Parsing and producing\<close>

fun parse_slots ::
  "('w, 'st) rollup_indexer \<Rightarrow> ('w, 'st) indexer_state \<Rightarrow> (slot, block_parse_result) btree \<Rightarrow> slot list
    \<Rightarrow> ('w, 'st) indexer_state \<times> (slot, block_parse_result) btree res" where
  "parse_slots ri s results [] = (s, Ok results)"
| "parse_slots ri s results (slot_nr # slots) =
     (case parse_block (default_tx_parser_ops (env_lib (ri_env ri))) (ri_env ri) (ri_block_parser ri)
         (ss_get_block (ri_sol ri)) (is_reads s) slot_nr (unat MAX_PARSE_BEHIND) (is_tx_parser s) of
        (p', t', r) \<Rightarrow>
          and_then (s\<lparr>is_tx_parser := p', is_reads := t'\<rparr>, r) (\<lambda>s res.
            case res of
              Some parse_result \<Rightarrow> parse_slots ri s (bt_insert slot_nr parse_result results) slots
            | None \<Rightarrow> parse_slots ri s results slots))"

text \<open>The slots of the range \<^verbatim>\<open>from_slot..to_slot\<close>.\<close>

definition slot_range :: "slot \<Rightarrow> slot \<Rightarrow> slot list" where
  "slot_range from_slot to_slot = map word_of_nat [unat from_slot ..< unat to_slot]"

definition parse_blocks_batch ::
  "('w, 'st) rollup_indexer \<Rightarrow> ('w, 'st) indexer_state \<Rightarrow> slot \<Rightarrow> slot \<Rightarrow> nat
    \<Rightarrow> ('w, 'st) indexer_state \<times> (slot \<times> (slot, block_parse_result) btree) res" where
  "parse_blocks_batch ri s from_slot max_slot batch_size =
     try_with s (sub_or_panic max_slot from_slot) (\<lambda>left.
     let to_slot = from_slot + min left (word_of_nat batch_size) in
     and_then (parse_slots ri s [] (slot_range from_slot to_slot)) (\<lambda>s results. (s, Ok (to_slot, results))))"

text \<open>\<^verbatim>\<open>retain_storages\<close> never fails: errors are logged.\<close>

definition retain_storages ::
  "('w, 'st) rollup_indexer \<Rightarrow> ('w, 'st) indexer_state \<Rightarrow> slot \<Rightarrow> ('w, 'st) indexer_state" where
  "retain_storages ri s before_slot =
     (case ri_max_slot_history ri of
        None \<Rightarrow> s
      | Some max_slot_history \<Rightarrow>
          let keep_slots = max MAX_PARSE_BEHIND max_slot_history in
          if keep_slots < before_slot then
            let from_slot = before_slot - keep_slots in
            (case on_world (\<lambda>w. ss_retain_from_slot (ri_sol ri) w from_slot) s of
               (s1, Ok _) \<Rightarrow>
                 fst (on_world (\<lambda>w. es_retain_from_slot (ri_eth ri) w from_slot)
                   (s1\<lparr>is_tx_parser := default_retain_from_slot (is_tx_parser s1) from_slot\<rparr>))
             | (s1, _) \<Rightarrow> s1)
          else s)"

text \<open>
  The loop of \<^verbatim>\<open>restore_or_produce_blocks\<close>: blocks are produced and stored until the
  producer has nothing more to produce.
\<close>

fun produce_loop ::
  "nat \<Rightarrow> ('w eth_storage) \<Rightarrow> ('st \<Rightarrow> producer_params \<Rightarrow> nat option \<Rightarrow> 'st \<times> production_result res)
    \<Rightarrow> 'w \<Rightarrow> 'st \<Rightarrow> producer_params \<Rightarrow> nat \<Rightarrow> ('w \<times> 'st \<times> unit res) option" where
  "produce_loop 0 es produce w st pp batch_size = None"
| "produce_loop (Suc n) es produce w st pp batch_size =
     (case produce st pp (Some batch_size) of
        (st1, Err e) \<Rightarrow> Some (w, st1, Err e)
      | (st1, Panic m) \<Rightarrow> Some (w, st1, Panic m)
      | (st1, Ok result) \<Rightarrow>
          (case last_key_value (pr_produced_blocks result) of
             None \<Rightarrow> Some (w, st1, Ok ())
           | Some (last_slot, last_idx, last_params) \<Rightarrow>
               (case es_blocks_produced es w pp (pr_produced_blocks result) of
                  (w1, Err e) \<Rightarrow> Some (w1, st1, Err e)
                | (w1, Panic m) \<Rightarrow> Some (w1, st1, Panic m)
                | (w1, Ok _) \<Rightarrow> produce_loop n es produce w1 st1
                    (pp\<lparr>pp_parent_hash := Some (bp_hash last_params),
                        pp_pending_blocks := retain_after (pp_pending_blocks pp) last_slot last_idx\<rparr>)
                    batch_size)))"

text \<open>\<^verbatim>\<open>get_block_params\<close>: an attempt, then the retries that are left are counted down.\<close>

fun get_block_params_loop ::
  "('st \<Rightarrow> u64 \<Rightarrow> 'st \<times> block_params res) \<Rightarrow> 'st \<Rightarrow> u64 \<Rightarrow> nat \<Rightarrow> 'st \<times> block_params res" where
  "get_block_params_loop get st number 0 =
     (case get st number of
        (st', Ok p) \<Rightarrow> (st', Ok p)
      | (st', Panic m) \<Rightarrow> (st', Panic m)
      | (st', Err e) \<Rightarrow> (st', Panic ''attempt to subtract with overflow''))"
| "get_block_params_loop get st number (Suc n) =
     (case get st number of
        (st', Ok p) \<Rightarrow> (st', Ok p)
      | (st', Panic m) \<Rightarrow> (st', Panic m)
      | (st', Err e) \<Rightarrow>
          if 0 < n then get_block_params_loop get st' number n
          else (st', Err (Custom ''Failed to load previously produced block'')))"

text \<open>
  \<^verbatim>\<open>join_all\<close> of the requests for all numbers; the map is keyed by the number the
  producer answers with.
\<close>

fun get_blocks_params ::
  "('st \<Rightarrow> u64 \<Rightarrow> 'st \<times> block_params res) \<Rightarrow> 'st \<Rightarrow> nat \<Rightarrow> u64 list \<Rightarrow> (u64, block_params) btree
    \<Rightarrow> 'st \<times> (u64, block_params) btree res" where
  "get_blocks_params get st num_retries [] results = (st, Ok results)"
| "get_blocks_params get st num_retries (number # numbers) results =
     and_then (get_block_params_loop get st number num_retries) (\<lambda>st params.
       get_blocks_params get st num_retries numbers (bt_insert (bp_number params) params results))"

text \<open>The loop of \<^verbatim>\<open>restore_blocks\<close>: pending keys meet the producer's blocks in order.\<close>

fun restore_loop ::
  "eth_block_id list \<Rightarrow> (u64, block_params) btree \<Rightarrow> h256 option \<Rightarrow> produced_blocks \<Rightarrow> produced_blocks res" where
  "restore_loop [] params parent_hash produced = Ok produced"
| "restore_loop ((slot_nr, block_idx) # keys) params parent_hash produced =
     (case params of
        [] \<Rightarrow> Ok produced
      | (_, p) # params' \<Rightarrow>
          if parent_hash \<noteq> bp_parent_hash p then
            Err (Custom ''Ethereum block expected to have different parent_hash'')
          else restore_loop keys params' (Some (bp_hash p)) (produced_insert produced slot_nr block_idx p))"

definition restore_blocks ::
  "'w eth_storage \<Rightarrow> 'st producer \<Rightarrow> 'w \<Rightarrow> 'st \<Rightarrow> u64 \<Rightarrow> u64 \<Rightarrow> producer_params \<Rightarrow> nat
    \<Rightarrow> 'w \<times> 'st \<times> unit res" where
  "restore_blocks es pr w st from_block to_block pp num_retries =
     (case get_blocks_params (pr_get_block_params pr) st num_retries
         (map word_of_nat [unat from_block ..< Suc (unat to_block)]) [] of
        (st1, Ok params) \<Rightarrow>
          (case restore_loop (pending_keys (pp_pending_blocks pp)) params (pp_parent_hash pp) [] of
             Ok produced \<Rightarrow> (case es_blocks_produced es w pp produced of (w1, r) \<Rightarrow> (w1, st1, r))
           | Err e \<Rightarrow> (w, st1, Err e)
           | Panic m \<Rightarrow> (w, st1, Panic m))
      | (st1, Err e) \<Rightarrow> (w, st1, Err e)
      | (st1, Panic m) \<Rightarrow> (w, st1, Panic m))"

text \<open>The fuel is that of the produce loop.\<close>

definition restore_or_produce_blocks ::
  "nat \<Rightarrow> ('w, 'st) rollup_indexer \<Rightarrow> ('w, 'st) indexer_state \<Rightarrow> nat
    \<Rightarrow> (('w, 'st) indexer_state \<times> unit res) option" where
  "restore_or_produce_blocks n ri s batch_size =
     (case ri_producer ri of
        None \<Rightarrow> Some (s, Ok ())
      | Some pr \<Rightarrow>
          (case on_world (es_get_pending_blocks (ri_eth ri)) s of
             (s1, Err e) \<Rightarrow> Some (s1, Err e)
           | (s1, Panic m) \<Rightarrow> Some (s1, Panic m)
           | (s1, Ok None) \<Rightarrow> Some (s1, Ok ())
           | (s1, Ok (Some pp)) \<Rightarrow>
               (case and_then (on_world (es_latest_block (ri_eth ri)) s1) (\<lambda>s2 latest.
                  and_then (on_producer (pr_last_produced_block pr) s2) (\<lambda>s3 last_in_producer.
                  try_with s3 (add_or_panic (case latest of Some b \<Rightarrow> b | None \<Rightarrow> 0) 1) (\<lambda>next.
                    (s3, Ok (next, last_in_producer))))) of
                  (s3, Err e) \<Rightarrow> Some (s3, Err e)
                | (s3, Panic m) \<Rightarrow> Some (s3, Panic m)
                | (s3, Ok (next, last_in_producer)) \<Rightarrow>
                    if next < last_in_producer then
                      (case restore_blocks (ri_eth ri) pr (is_world s3) (is_producer s3) next last_in_producer
                          pp NUM_RETRIES of
                         (w, st, r) \<Rightarrow> Some (s3\<lparr>is_world := w, is_producer := st\<rparr>, r))
                    else
                      map_option (\<lambda>(w, st, r). (s3\<lparr>is_world := w, is_producer := st\<rparr>, r))
                        (produce_loop n (ri_eth ri) (pr_produce_blocks pr) (is_world s3) (is_producer s3)
                          pp batch_size))))"

text \<open>\<^verbatim>\<open>while current_slot < to_slot\<close> of \<^verbatim>\<open>restore_or_produce_until_in_sync\<close>.\<close>

fun sync_loop ::
  "nat \<Rightarrow> ('w, 'st) rollup_indexer \<Rightarrow> ('w, 'st) indexer_state \<Rightarrow> slot \<Rightarrow> slot \<Rightarrow> nat
    \<Rightarrow> (('w, 'st) indexer_state \<times> unit res) option" where
  "sync_loop 0 ri s current_slot to_slot batch_size = None"
| "sync_loop (Suc n) ri s current_slot to_slot batch_size =
     (if current_slot < to_slot then
        (case parse_blocks_batch ri s current_slot to_slot batch_size of
           (s1, Err e) \<Rightarrow> Some (s1, Err e)
         | (s1, Panic m) \<Rightarrow> Some (s1, Panic m)
         | (s1, Ok (new_current_slot, results)) \<Rightarrow>
             (case on_world (\<lambda>w. es_register_parse_results (ri_eth ri) w results) s1 of
                (s2, Err e) \<Rightarrow> Some (s2, Err e)
              | (s2, Panic m) \<Rightarrow> Some (s2, Panic m)
              | (s2, Ok _) \<Rightarrow>
                  (case restore_or_produce_blocks n ri s2 batch_size of
                     None \<Rightarrow> None
                   | Some (s3, Err e) \<Rightarrow> Some (s3, Err e)
                   | Some (s3, Panic m) \<Rightarrow> Some (s3, Panic m)
                   | Some (s3, Ok _) \<Rightarrow>
                       sync_loop n ri (retain_storages ri s3 current_slot) new_current_slot to_slot batch_size)))
      else Some (s, Ok ()))"

definition restore_or_produce_until_in_sync ::
  "nat \<Rightarrow> ('w, 'st) rollup_indexer \<Rightarrow> ('w, 'st) indexer_state \<Rightarrow> slot \<Rightarrow> nat
    \<Rightarrow> (('w, 'st) indexer_state \<times> slot res) option" where
  "restore_or_produce_until_in_sync n ri s from_slot batch_size =
     (case on_world (ss_get_last_slot (ri_sol ri)) s of
        (s1, Ok (Some to_slot)) \<Rightarrow>
          if from_slot < to_slot then
            map_option (\<lambda>(s2, r). (s2, try_res r (\<lambda>_. Ok to_slot)))
              (sync_loop n ri s1 from_slot to_slot batch_size)
          else Some (s1, Ok from_slot)
      | (s1, Ok None) \<Rightarrow> Some (s1, Ok from_slot)
      | (s1, Err e) \<Rightarrow> Some (s1, Ok from_slot)
      | (s1, Panic m) \<Rightarrow> Some (s1, Panic m))"

text \<open>
  \<^verbatim>\<open>run\<close>: one round for each \<^verbatim>\<open>try_recv\<close> of the channel of reorganizations; the
  result is the slot it goes on from, or nothing when the channel was closed.
\<close>

datatype reorg_event = ReorgSlot slot | ChannelEmpty | ChannelDisconnected

fun run ::
  "nat \<Rightarrow> ('w, 'st) rollup_indexer \<Rightarrow> ('w, 'st) indexer_state \<Rightarrow> slot \<Rightarrow> reorg_event list
    \<Rightarrow> (('w, 'st) indexer_state \<times> slot option res) option" where
  "run n ri s from_slot [] = Some (s, Ok (Some from_slot))"
| "run n ri s from_slot (ev # evs) =
     (case (case ev of
              ReorgSlot reorg_slot \<Rightarrow>
                Some (and_then (on_world (\<lambda>w. es_clean_from_slot (ri_eth ri) w reorg_slot) s)
                  (\<lambda>s _. (s, Ok (Some reorg_slot))))
            | ChannelEmpty \<Rightarrow>
                map_option (\<lambda>(s, r). (s, try_res r (\<lambda>x. Ok (Some x))))
                  (restore_or_produce_until_in_sync n ri s from_slot BATCH_SIZE)
            | ChannelDisconnected \<Rightarrow> Some (s, Ok None)) of
        None \<Rightarrow> None
      | Some (s', Ok (Some next_slot)) \<Rightarrow> run n ri s' next_slot evs
      | Some (s', r) \<Rightarrow> Some (s', r))"

end
