(* ===== verification/Pg_Storage.thy ===== *)
theory Pg_Storage
  imports Transaction_Storage Rollup_Indexer
begin

text \<open>
  \<^verbatim>\<open>rome-evm-client/src/indexer/pg_storage/ethereum_block_storage.rs\<close> and
  \<^verbatim>\<open>solana_block_storage.rs\<close>: the two storages of the indexer on the tables of
  \<open>Pg_Tables\<close>, with the blocks of the RPC of \<^verbatim>\<open>indexer/ethereum_block_storage.rs\<close>.
\<close>

section \<open>Storing parsed blocks\<close>

definition to_pg_literal :: "block_params \<Rightarrow> rstr" where
  "to_pg_literal p = str ''('' @ hash_hex (bp_hash p) @ str '','' @
     (case bp_parent_hash p of Some ph \<Rightarrow> hash_hex ph | None \<Rightarrow> str ''NULL'') @ str '','' @
     decimal (unat (bp_number p)) @ str '','' @ decimal (unat (bp_timestamp p)) @ str '')''"

definition store_rollup_header :: "slot \<Rightarrow> nat \<Rightarrow> eth_block \<Rightarrow> db \<Rightarrow> db res" where
  "store_rollup_header slot_nr block_idx b =
     insert_eth_block (slot_nr, block_idx)
       \<lparr>er_gas_used = unat (block_gas_used b), er_gas_recipient = map_option address_hex (eb_gas_recipient b),
        er_slot_timestamp = slot_timestamp b, er_params = None\<rparr>"

text \<open>
  \<^verbatim>\<open>bs58::decode\<close> is given the bytes of the hash, as if they were the characters of a
  base58 text.
\<close>

definition raw_bs58 :: "pg_lib \<Rightarrow> string \<Rightarrow> h256 \<Rightarrow> h256 res" where
  "raw_bs58 lib m h =
     try_res (expect m (row_bs58_decode (pl_rows lib) (map unat (u256_be h)))) h256_from_slice"

definition store_single_state_header ::
  "pg_lib \<Rightarrow> slot \<Rightarrow> nat \<Rightarrow> eth_block \<Rightarrow> block_parse_result \<Rightarrow> db \<Rightarrow> db res" where
  "store_single_state_header lib slot_nr block_idx b res db =
     try_res (raw_bs58 lib ''Failed to decode solana blockhash'' (solana_blockhash res)) (\<lambda>h.
     try_res (raw_bs58 lib ''Failed to decode solana parent blockhash'' (parent_solana_blockhash res)) (\<lambda>ph.
     try_res (case result_timestamp res of None \<Rightarrow> Ok 0 | Some t \<Rightarrow> u256_from_i64 t) (\<lambda>ts.
     try_res (ok_or DieselError (cast_blockparams lib (to_pg_literal
       \<lparr>bp_hash = h, bp_parent_hash = Some ph, bp_number = slot_number res, bp_timestamp = ts\<rparr>))) (\<lambda>params.
       insert_eth_block (slot_nr, block_idx)
         \<lparr>er_gas_used = unat (block_gas_used b), er_gas_recipient = map_option address_hex (eb_gas_recipient b),
          er_slot_timestamp = slot_timestamp b, er_params = Some params\<rparr> db))))"

definition store_txs :: "slot \<Rightarrow> nat \<Rightarrow> eth_block \<Rightarrow> db \<Rightarrow> db res" where
  "store_txs slot_nr block_idx b =
     run_all (\<lambda>(tx_idx, hash). insert_eth_block_tx slot_nr block_idx (hash_hex hash) tx_idx)
       (List.enumerate 0 (eb_transactions b))"

definition store_eth_blocks :: "(slot, block_parse_result) btree \<Rightarrow> db \<Rightarrow> db res" where
  "store_eth_blocks =
     run_all (\<lambda>(slot_nr, res). run_all (\<lambda>(block_idx, b) db.
       try_res (store_rollup_header slot_nr block_idx b db) (store_txs slot_nr block_idx b))
       (List.enumerate 0 (eth_blocks res)))"

definition pg_register_parse_results ::
  "pg_lib \<Rightarrow> pg \<Rightarrow> (slot, block_parse_result) btree \<Rightarrow> pg \<times> unit res" where
  "pg_register_parse_results lib pg parse_results =
     (if parse_results = [] then (pg, Ok ())
      else and_then (tx_register_parse_results lib pg parse_results) (\<lambda>pg _.
        in_transaction (\<lambda>db. try_res (store_eth_blocks parse_results db) (\<lambda>db. Ok (db, ()))) pg))"

section \<open>Pending blocks\<close>

text \<open>The three maps the loop of \<^verbatim>\<open>get_pending_blocks\<close> fills.\<close>

record pending_scan =
  sc_finalized :: "(eth_block_id, h256 option) btree"
  sc_produced :: "(eth_block_id, h256) btree"
  sc_pending :: pending_blocks

definition scan_hash :: "row_lib \<Rightarrow> rstr \<Rightarrow> h256 res" where
  "scan_hash lib v = expect ''DB data corrupted: Failed to decode blockhash'' (h256_from_str lib v)"

definition scan_tx :: "row_lib \<Rightarrow> pending_tx \<Rightarrow> pending_scan \<Rightarrow> pending_scan res" where
  "scan_tx lib tx sc =
     (let block_id = (pt_slot_number tx, pt_slot_block_idx tx) in
      try_res (if pt_slot_status tx = Finalized \<and> map_of (sc_finalized sc) block_id = None then
           try_res (case pt_eth_blockhash tx of
               None \<Rightarrow> Ok None
             | Some v \<Rightarrow> try_res (scan_hash lib v) (\<lambda>h. Ok (Some h))) (\<lambda>h.
             Ok (sc\<lparr>sc_finalized := bt_insert block_id h (sc_finalized sc)\<rparr>))
         else Ok sc) (\<lambda>sc.
      case pt_eth_blockhash tx of
        Some v \<Rightarrow>
          if map_of (sc_produced sc) block_id = None then
            try_res (scan_hash lib v) (\<lambda>h. Ok (sc\<lparr>sc_produced := bt_insert block_id h (sc_produced sc)\<rparr>))
          else Ok sc
      | None \<Rightarrow>
          (case append_pending_tx lib (sc_pending sc) tx of
             (pending, r) \<Rightarrow> try_res r (\<lambda>_. Ok (sc\<lparr>sc_pending := pending\<rparr>)))))"

definition scan_pending :: "row_lib \<Rightarrow> pending_tx list \<Rightarrow> pending_scan res" where
  "scan_pending lib txs = run_all (scan_tx lib) txs \<lparr>sc_finalized = [], sc_produced = [], sc_pending = []\<rparr>"

definition params_of_scan :: "pending_scan \<Rightarrow> producer_params option" where
  "params_of_scan sc =
     (if pending_is_empty (sc_pending sc) then None
      else Some \<lparr>pp_parent_hash = map_option snd (bt_last (sc_produced sc)),
        pp_finalized_block = map_option (\<lambda>(k, h). case h of Some h \<Rightarrow> Produced h | None \<Rightarrow> Pending k)
          (bt_last (sc_finalized sc)),
        pp_pending_blocks = sc_pending sc\<rparr>)"

definition pg_get_pending_blocks :: "pg_lib \<Rightarrow> pg \<Rightarrow> pg \<times> producer_params option res" where
  "pg_get_pending_blocks lib pg =
     (case reading pending_transactions pg of
        (pg', r) \<Rightarrow> (pg', try_res r (\<lambda>txs.
          try_res (scan_pending (pl_rows lib) txs) (\<lambda>sc. Ok (params_of_scan sc)))))"

section \<open>Reproducing blocks\<close>

text \<open>The function \<^verbatim>\<open>reproduce_blocks2\<close> of the database.\<close>

definition reproduced_rows :: "slot \<Rightarrow> slot \<Rightarrow> db \<Rightarrow> reproduced_block_row list" where
  "reproduced_rows from_slot to_slot db =
     concat (map (\<lambda>((slot_nr, i), p).
       case (map_of (db_sol_slot db) slot_nr, map_of (db_eth_block db) (slot_nr, i)) of
         (Some sr, Some row) \<Rightarrow>
           List.map_filter (\<lambda>((s, j, hash), tx_idx).
             if s = slot_nr \<and> j = i then
               (case (map_of (db_evm_tx db) hash, map_of (db_evm_tx_result db) (s, hash)) of
                  (Some rlp, Some res) \<Rightarrow>
                    Some \<lparr>rb_slot_number = slot_nr, rb_slot_timestamp = sr_timestamp sr, rb_slot_block_idx = i,
                      rb_gas_recipient = er_gas_recipient row, rb_blockhash = pc_blockhash p,
                      rb_parent_hash = pc_parent_hash p, rb_block_number = pc_number p, rb_tx_idx = tx_idx,
                      rb_rlp = rlp, rb_tx_result = tr_tx_result res\<rparr>
                | _ \<Rightarrow> None)
             else None) (db_eth_block_txs db)
       | _ \<Rightarrow> [])
       (filter (\<lambda>((slot_nr, i), p). from_slot \<le> slot_nr \<and> slot_nr < to_slot) (produced_rows db)))"

definition reproduce_row ::
  "row_lib \<Rightarrow> reproduced_block_row \<Rightarrow> pending_blocks \<times> produced_blocks \<Rightarrow> (pending_blocks \<times> produced_blocks) res" where
  "reproduce_row lib row m = (case m of (pending, expected) \<Rightarrow>
     (case append_reproduced_block_row lib pending row of
        (pending', r) \<Rightarrow> try_res r (\<lambda>_. try_res (append_from_row lib expected row) (\<lambda>expected'.
          Ok (pending', expected')))))"

definition reproduce_params_of_rows :: "row_lib \<Rightarrow> reproduced_block_row list \<Rightarrow> reproduce_params option res" where
  "reproduce_params_of_rows lib rows =
     try_res (run_all (reproduce_row lib) rows ([], [])) (\<lambda>(pending, expected).
       Ok (if pending_is_empty pending then None
           else Some \<lparr>rp_producer_params = \<lparr>
               pp_parent_hash = Option.bind (produced_first expected) bp_parent_hash,
               pp_finalized_block = None, pp_pending_blocks = pending\<rparr>,
             rp_expected_results = expected\<rparr>))"

definition pg_reproduce_blocks :: "pg_lib \<Rightarrow> pg \<Rightarrow> slot \<Rightarrow> slot \<Rightarrow> pg \<times> reproduce_params option res" where
  "pg_reproduce_blocks lib pg from_slot to_slot =
     (case reading (\<lambda>db. Ok (reproduced_rows from_slot to_slot db)) pg of
        (pg', r) \<Rightarrow> (pg', try_res r (reproduce_params_of_rows (pl_rows lib))))"

section \<open>Produced blocks\<close>

definition store_produced ::
  "pg_lib \<Rightarrow> pending_blocks \<Rightarrow> eth_block_id \<times> block_params \<Rightarrow> db \<Rightarrow> db res" where
  "store_produced lib pending e db = (case e of ((slot_nr, block_idx), params) \<Rightarrow>
     if pending_contains pending slot_nr block_idx
     then block_produced lib (slot_nr, block_idx) (to_pg_literal params) db else Ok db)"

definition pg_blocks_produced :: "pg_lib \<Rightarrow> pg \<Rightarrow> producer_params \<Rightarrow> produced_blocks \<Rightarrow> pg \<times> unit res" where
  "pg_blocks_produced lib pg pp produced =
     and_then (in_transaction (\<lambda>db.
       try_res (run_all (store_produced lib (pp_pending_blocks pp)) (produced_iter produced) db)
         (\<lambda>db. Ok (db, ()))) pg) (\<lambda>pg _. tx_blocks_produced lib pg (pp_pending_blocks pp) produced)"

text \<open>\<^verbatim>\<open>v.into()\<close> from a \<^verbatim>\<open>BIGINT\<close> to a \<^verbatim>\<open>U64\<close>.\<close>

definition pg_latest_block :: "pg \<Rightarrow> pg \<times> u64 option res" where
  "pg_latest_block = reading (\<lambda>db. Ok (map_option word_of_nat (sql_latest_eth_block db)))"

definition pg_get_block_number :: "pg \<Rightarrow> h256 \<Rightarrow> pg \<times> u64 option res" where
  "pg_get_block_number pg hash =
     reading (\<lambda>db. Ok (map_option word_of_nat (sql_get_block_number (hash_hex hash) db))) pg"

definition pg_get_max_slot_produced :: "pg \<Rightarrow> pg \<times> slot option res" where
  "pg_get_max_slot_produced = reading (\<lambda>db. Ok (sql_get_max_slot_produced db))"

definition pg_get_slot_for_eth_block :: "pg \<Rightarrow> u64 \<Rightarrow> pg \<times> slot option res" where
  "pg_get_slot_for_eth_block pg block_number =
     reading (\<lambda>db. Ok (sql_get_slot_for_eth_block (unat block_number) db)) pg"

definition pg_clean_from_slot :: "pg \<Rightarrow> slot \<Rightarrow> pg \<times> unit res" where
  "pg_clean_from_slot pg from_slot = in_transaction (\<lambda>db. try_res (sql_clean_from_slot from_slot db) (\<lambda>db. Ok (db, ()))) pg"

definition pg_eth_retain_from_slot :: "pg \<Rightarrow> slot \<Rightarrow> pg \<times> unit res" where
  "pg_eth_retain_from_slot pg from_slot = (pg, Ok ())"

definition pg_eth_storage :: "pg_lib \<Rightarrow> pg eth_storage" where
  "pg_eth_storage lib = \<lparr>
     es_get_pending_blocks = pg_get_pending_blocks lib,
     es_reproduce_blocks = pg_reproduce_blocks lib,
     es_register_parse_results = pg_register_parse_results lib,
     es_latest_block = pg_latest_block,
     es_blocks_produced = pg_blocks_produced lib,
     es_get_max_slot_produced = pg_get_max_slot_produced,
     es_retain_from_slot = pg_eth_retain_from_slot,
     es_clean_from_slot = pg_clean_from_slot,
     es_get_slot_for_eth_block = pg_get_slot_for_eth_block\<rparr>"

section \<open>Blocks of the RPC\<close>

text \<open>\<^verbatim>\<open>Block<B>\<close>, without the fields that \<^verbatim>\<open>BlockType::base\<close> always gives the same value.\<close>

record 'b rpc_block =
  rk_hash :: "h256 option"
  rk_parent_hash :: h256
  rk_transactions_root :: h256
  rk_receipts_root :: h256
  rk_number :: "u64 option"
  rk_gas_limit :: u256
  rk_gas_used :: u256
  rk_timestamp :: u256
  rk_transactions :: "'b list"

datatype block_type = BlockWithTransactions "transaction rpc_block" | BlockWithHashes "h256 rpc_block"

definition block_base ::
  "h256 option \<Rightarrow> h256 \<Rightarrow> h256 \<Rightarrow> u64 option \<Rightarrow> u256 \<Rightarrow> u256 \<Rightarrow> 'b rpc_block" where
  "block_base hash parent tx_root number gas_used ts =
     \<lparr>rk_hash = hash, rk_parent_hash = parent, rk_transactions_root = tx_root, rk_receipts_root = tx_root,
      rk_number = number, rk_gas_limit = 48000000000000, rk_gas_used = gas_used, rk_timestamp = ts,
      rk_transactions = []\<rparr>"

definition genesis :: "u256 \<Rightarrow> bool \<Rightarrow> block_type" where
  "genesis ts full_transactions =
     (if full_transactions then BlockWithTransactions (block_base (Some 0) 0 0 (Some 0) 0 ts)
      else BlockWithHashes (block_base (Some 0) 0 0 (Some 0) 0 ts))"

definition EMPTY_ROOT :: h256 where
  "EMPTY_ROOT = 0x56e81f171bcc55a6ff8345e692c0f86e5b48e01b996cadc001622fb5e363b421"

definition get_block_base :: "eth_block \<Rightarrow> 'b rpc_block" where
  "get_block_base b =
     block_base (map_option bp_hash (eb_block_params b))
       (case Option.bind (eb_block_params b) bp_parent_hash of Some h \<Rightarrow> h | None \<Rightarrow> 0)
       (if eb_transactions b = [] then EMPTY_ROOT else 1)
       (map_option bp_number (eb_block_params b)) (block_gas_used b)
       (case eb_block_params b of Some p \<Rightarrow> bp_timestamp p | None \<Rightarrow> 0)"

definition from_block_header_row :: "row_lib \<Rightarrow> eth_block_row \<Rightarrow> pg_params \<Rightarrow> eth_block res" where
  "from_block_header_row lib row p =
     try_res (expect ''DB data corrupted: Failed to parse block_gas_used''
       (if er_gas_used row < 2 ^ 256 then Some (word_of_nat (er_gas_used row)) else None)) (\<lambda>gas_used.
     try_res (case er_gas_recipient row of None \<Rightarrow> Ok None
       | Some v \<Rightarrow> try_res (expect ''DB data corrupted: Failed to parse gas_recipient'' (address_from_str lib v))
           (\<lambda>a. Ok (Some a))) (\<lambda>recip.
     try_res (expect ''DB data corrupted: Failed to parse blockhash'' (h256_from_str lib (pc_blockhash p))) (\<lambda>h.
     try_res (case pc_parent_hash p of None \<Rightarrow> Ok None
       | Some v \<Rightarrow> try_res (expect ''DB data corrupted: Failed to parse parent_hash'' (h256_from_str lib v))
           (\<lambda>ph. Ok (Some ph))) (\<lambda>ph.
     try_res (expect ''DB data corrupted: slot timestamp is not set'' (er_slot_timestamp row)) (\<lambda>t.
     try_res (u256_from_i64 t) (\<lambda>ts.
       Ok \<lparr>block_gas_used = gas_used, eb_transactions = [], eb_gas_recipient = recip,
           slot_timestamp = er_slot_timestamp row,
           eb_block_params = Some \<lparr>bp_hash = h, bp_parent_hash = ph, bp_number = word_of_nat (pc_number p),
             bp_timestamp = ts\<rparr>\<rparr>))))))"

text \<open>The functions \<^verbatim>\<open>get_block_header2\<close>, \<^verbatim>\<open>get_block_transactions\<close> and \<^verbatim>\<open>get_block_transaction_hashes\<close>.\<close>

definition header_rows :: "nat \<Rightarrow> db \<Rightarrow> (eth_block_row \<times> pg_params) list" where
  "header_rows number db =
     List.map_filter (\<lambda>(k, row). case er_params row of
       Some p \<Rightarrow> if pc_number p = number then Some (row, p) else None | None \<Rightarrow> None) (db_eth_block db)"

definition block_tx_keys :: "nat \<Rightarrow> db \<Rightarrow> (slot \<times> rstr) list" where
  "block_tx_keys number db =
     map fst (sort_key snd (concat (map (\<lambda>((slot_nr, i), p).
       if pc_number p = number then
         List.map_filter (\<lambda>((s, j, hash), tx_idx).
           if s = slot_nr \<and> j = i then Some ((s, hash), tx_idx) else None) (db_eth_block_txs db)
       else []) (produced_rows db))))"

definition block_transaction :: "pg_lib \<Rightarrow> db \<Rightarrow> slot \<times> rstr \<Rightarrow> transaction list \<Rightarrow> transaction list res" where
  "block_transaction lib db k txs =
     (case (map_of (db_evm_tx_result db) k, map_of (db_evm_tx db) (snd k)) of
        (Some res, Some rlp) \<Rightarrow>
          try_res (ok_or (Custom ''Failed to decode transaction from rlp'') (tx_from_rlp (pl_rows lib) rlp)) (\<lambda>tx.
          case tr_receipt_params res of
            None \<Rightarrow> Ok (txs @ [tx])
          | Some json \<Rightarrow>
              try_res (ok_or SerdeJsonError (receipt_from_json lib json)) (\<lambda>rp.
                Ok (txs @ [tx\<lparr>tx_block_hash := Some (rc_blockhash rp), tx_block_number := Some (rc_block_number rp),
                  tx_transaction_index := Some (word_of_nat (rc_tx_index rp))\<rparr>])))
      | _ \<Rightarrow> Ok txs)"

definition pg_get_block_by_number :: "pg_lib \<Rightarrow> pg \<Rightarrow> u64 \<Rightarrow> bool \<Rightarrow> pg \<times> block_type option res" where
  "pg_get_block_by_number lib pg number full_transactions =
     and_then (reading (\<lambda>db. Ok (header_rows (unat number) db)) pg) (\<lambda>pg rows.
       case rows of
         [] \<Rightarrow> (pg, Ok None)
       | [(row, p)] \<Rightarrow>
           try_with pg (from_block_header_row (pl_rows lib) row p) (\<lambda>header.
             if full_transactions then
               and_then (reading (\<lambda>db. run_all (block_transaction lib db) (block_tx_keys (unat number) db) []) pg)
                 (\<lambda>pg txs. (pg, Ok (Some (BlockWithTransactions
                   ((get_block_base header)\<lparr>rk_transactions := txs\<rparr>)))))
             else
               and_then (reading (\<lambda>db. run_all (\<lambda>(s, hash) hs.
                   try_res (expect ''DB data corrupted: Failed to parse tx hash''
                     (h256_from_str (pl_rows lib) hash)) (\<lambda>h. Ok (hs @ [h]))) (block_tx_keys (unat number) db) []) pg)
                 (\<lambda>pg hs. (pg, Ok (Some (BlockWithHashes ((get_block_base header)\<lparr>rk_transactions := hs\<rparr>))))))
       | _ \<Rightarrow> (pg, Err (Custom ''More than one block with number'')))"

section \<open>Solana blocks\<close>

text \<open>The argument types of a procedure call must be those it was declared with.\<close>

datatype sql_type = SqlBigInt | SqlBytea | SqlText | SqlSlotStatus

definition set_block_with_status2_sig :: "sql_type list" where
  "set_block_with_status2_sig = [SqlBigInt, SqlBigInt, SqlBytea, SqlSlotStatus, SqlText, SqlBigInt]"

definition update_finalized_block2_sig :: "sql_type list" where
  "update_finalized_block2_sig = [SqlBigInt, SqlBigInt, SqlBytea, SqlText, SqlBigInt]"

definition call_procedure :: "sql_type list \<Rightarrow> sql_type list \<Rightarrow> 'a res \<Rightarrow> 'a res" where
  "call_procedure declared bound body = (if bound = declared then body else Err DieselError)"

definition set_block_with_status2 ::
  "slot \<Rightarrow> slot \<Rightarrow> bytes \<Rightarrow> slot_status \<Rightarrow> rstr \<Rightarrow> timestamp \<Rightarrow> db \<Rightarrow> db res" where
  "set_block_with_status2 slot_nr parent block status bh t db =
     try_res (insert_new bt_insert slot_nr \<lparr>sr_parent_slot = parent, sr_status = status,
         sr_blockhash = Some bh, sr_timestamp = Some t\<rparr> True (db_sol_slot db)) (\<lambda>slots.
     try_res (insert_new bt_insert slot_nr block True (db_sol_block db)) (\<lambda>blocks.
       Ok (db\<lparr>db_sol_slot := slots, db_sol_block := blocks\<rparr>)))"

definition store_sol_block :: "pg_lib \<Rightarrow> slot \<Rightarrow> slot \<times> solana_block \<Rightarrow> db \<Rightarrow> db res" where
  "store_sol_block lib finalized_slot e db = (case e of (slot_nr, block) \<Rightarrow>
     try_res (expect ''assertion failed: block.block_time.is_some()'' (block_time block)) (\<lambda>t.
     try_res (ok_or SerdeJsonError (block_to_json lib block)) (\<lambda>json.
       call_procedure set_block_with_status2_sig [SqlBigInt, SqlBigInt, SqlBytea, SqlSlotStatus, SqlText, SqlBigInt]
         (set_block_with_status2 slot_nr (parent_slot block) json
            (if slot_nr \<le> finalized_slot then Finalized else Confirmed) (blockhash block) t db))))"

definition pg_store_blocks :: "pg_lib \<Rightarrow> pg \<Rightarrow> (slot, solana_block) btree \<Rightarrow> slot \<Rightarrow> pg \<times> unit res" where
  "pg_store_blocks lib pg blocks finalized_slot =
     in_transaction (\<lambda>db. try_res (run_all (store_sol_block lib finalized_slot) blocks db) (\<lambda>db. Ok (db, ()))) pg"

text \<open>
  \<^verbatim>\<open>INSERT ... ON CONFLICT (target) DO UPDATE\<close>.  Postgres refuses the statement when it has no target; the
  procedure gives none, so it would fail even if it was called with arguments of the right types.
\<close>

definition insert_or_update :: "string option \<Rightarrow> 'k::linorder \<Rightarrow> 'v \<Rightarrow> ('k, 'v) btree \<Rightarrow> ('k, 'v) btree res" where
  "insert_or_update target k v table = (if target = None then Err DieselError else Ok (bt_insert k v table))"

definition update_finalized_block2 :: "slot \<Rightarrow> slot \<Rightarrow> bytes \<Rightarrow> rstr \<Rightarrow> timestamp \<Rightarrow> db \<Rightarrow> db res" where
  "update_finalized_block2 slot_nr parent block bh t db =
     try_res (insert_or_update None slot_nr \<lparr>sr_parent_slot = parent, sr_status = Finalized,
       sr_blockhash = Some bh, sr_timestamp = Some t\<rparr> (db_sol_slot db)) (\<lambda>slots.
     try_res (insert_or_update None slot_nr block (db_sol_block db)) (\<lambda>blocks.
       Ok (db\<lparr>db_sol_slot := slots, db_sol_block := blocks\<rparr>)))"

text \<open>The last value bound is the previous blockhash, for a column of timestamps.\<close>

definition finalize_sol_block :: "pg_lib \<Rightarrow> slot \<times> solana_block \<Rightarrow> db \<Rightarrow> db res" where
  "finalize_sol_block lib e db = (case e of (slot_nr, block) \<Rightarrow>
     try_res (ok_or SerdeJsonError (block_to_json lib block)) (\<lambda>json.
       call_procedure update_finalized_block2_sig [SqlBigInt, SqlBigInt, SqlBytea, SqlText, SqlText]
         (update_finalized_block2 slot_nr (parent_slot block) json (blockhash block) 0 db)))"

definition pg_update_finalized_blocks :: "pg_lib \<Rightarrow> pg \<Rightarrow> (slot, solana_block) btree \<Rightarrow> pg \<times> unit res" where
  "pg_update_finalized_blocks lib pg blocks =
     in_transaction (\<lambda>db. try_res (run_all (finalize_sol_block lib) blocks db) (\<lambda>db. Ok (db, ()))) pg"

definition read_sol_block :: "pg_lib \<Rightarrow> bytes \<Rightarrow> solana_block res" where
  "read_sol_block lib json = ok_or SerdeJsonError (block_from_json lib json)"

definition pg_get_block :: "pg_lib \<Rightarrow> pg \<Rightarrow> slot \<Rightarrow> pg \<times> solana_block option res" where
  "pg_get_block lib pg slot_nr =
     reading (\<lambda>db. case map_of (db_sol_block db) slot_nr of
       None \<Rightarrow> Ok None
     | Some json \<Rightarrow> try_res (read_sol_block lib json) (\<lambda>b. Ok (Some b))) pg"

definition pg_get_last_slot :: "pg \<Rightarrow> pg \<times> slot option res" where
  "pg_get_last_slot = reading (\<lambda>db. Ok (max_of (map fst (db_sol_block db))))"

definition pg_sol_retain_from_slot :: "pg \<Rightarrow> slot \<Rightarrow> pg \<times> unit res" where
  "pg_sol_retain_from_slot pg from_slot = (pg, Ok ())"

text \<open>
  The recursive query of \<^verbatim>\<open>set_finalized_slot\<close>: the slots of the fork that ends with the
  given one, down to the first finalized or missing slot.  \<open>visited\<close> and the fuel are as in
  \<open>view_parents\<close>.
\<close>

fun fork_slots :: "nat \<Rightarrow> (slot, sol_slot_row) btree \<Rightarrow> slot list \<Rightarrow> slot \<Rightarrow> slot list" where
  "fork_slots 0 slots visited slot_nr = []"
| "fork_slots (Suc n) slots visited slot_nr =
     (case map_of slots slot_nr of
        None \<Rightarrow> []
      | Some sr \<Rightarrow>
          if sr_status sr \<noteq> Finalized \<and> slot_nr \<notin> set visited
          then slot_nr # fork_slots n slots (slot_nr # visited) (sr_parent_slot sr) else [])"

definition sql_set_finalized_slot :: "slot \<Rightarrow> db \<Rightarrow> db \<times> (slot \<times> bytes) list" where
  "sql_set_finalized_slot slot_nr db =
     (let rows = List.map_filter (\<lambda>s. map_option (Pair s) (map_of (db_sol_block db) s))
                   (fork_slots (Suc (length (db_sol_slot db))) (db_sol_slot db) [] slot_nr)
      in (db\<lparr>db_sol_slot := map (\<lambda>(s, sr). (s, if s \<in> set (map fst rows) then sr\<lparr>sr_status := Finalized\<rparr> else sr))
            (db_sol_slot db)\<rparr>, rows))"

definition pg_set_finalized_slot :: "pg_lib \<Rightarrow> pg \<Rightarrow> slot \<Rightarrow> pg \<times> (slot, solana_block) btree res" where
  "pg_set_finalized_slot lib pg slot_nr =
     and_then (in_transaction (\<lambda>db. Ok (sql_set_finalized_slot slot_nr db)) pg) (\<lambda>pg rows.
       (pg, run_all (\<lambda>(s, json) result. try_res (read_sol_block lib json) (\<lambda>b. Ok (bt_insert s b result))) rows []))"

end
