(* ===== verification/Production.thy ===== *)
theory Production
  imports Rollup_Indexer
begin

text \<open>
  The loop of \<^verbatim>\<open>rollup_indexer.rs\<close> that has all pending blocks produced and stored, over
  any producer and any storage that keep their contracts.  The storage's contract is the
  locale \<open>produced_store\<close>; the loop is proved once, in the locale \<open>production\<close> that joins
  the two, with its termination.
\<close>

lemma try_with_eq_Ok [res_elims]:
  "try_with s r k = (s', Ok y) \<longleftrightarrow> (\<exists>x. r = Ok x \<and> k x = (s', Ok y))"
  by (cases r) (auto simp: try_with_def)

section \<open>The storage of produced blocks\<close>

text \<open>
  \<open>params_at w k\<close> is what the storage has for a block: nothing at all, a block without
  parameters, or the parameters as \<open>stored_as\<close> writes them.
\<close>

locale produced_store =
  fixes es :: "'w eth_storage"
    and params_at :: "'w \<Rightarrow> eth_block_id \<Rightarrow> 'c option option"
    and stored_as :: "block_params \<Rightarrow> 'c option"
    and store_ok :: "'w \<Rightarrow> bool"
  assumes keeps_ok: "store_ok w \<Longrightarrow> store_ok (fst (es_blocks_produced es w pp produced))"
    and stores: "store_ok w \<Longrightarrow> pending_ok (pp_pending_blocks pp) \<Longrightarrow> produced_ok produced \<Longrightarrow>
      set (produced_keys produced) \<subseteq> set (pending_keys (pp_pending_blocks pp)) \<Longrightarrow>
      es_blocks_produced es w pp produced = (w', Ok ()) \<Longrightarrow>
      params_at w' k =
        (if params_at w k = Some None \<and> k \<in> set (produced_keys produced)
         then Some (stored_as (the (map_of (produced_iter produced) k))) else params_at w k)"
begin

lemma stores_all:
  assumes "store_ok w" and "pending_ok (pp_pending_blocks pp)" and "produced_ok produced" and "distinct (produced_keys produced)"
    and "set (produced_keys produced) \<subseteq> set (pending_keys (pp_pending_blocks pp))"
    and "es_blocks_produced es w pp produced = (w', Ok ())"
    and "\<And>k. k \<in> set (produced_keys produced) \<Longrightarrow> params_at w k = Some None"
  shows "list_all2 (\<lambda>k p. params_at w' k = Some (stored_as p)) (produced_keys produced) (map snd (produced_iter produced))"
proof -
  have d: "distinct (map fst (produced_iter produced))" using assms(4) by (simp add: produced_keys_iter)
  have "params_at w' k = Some (stored_as p)" if "(k, p) \<in> set (produced_iter produced)" for k p
  proof -
    have k: "k \<in> set (produced_keys produced)" using that by (force simp: produced_keys_iter)
    show ?thesis
      using stores [OF assms(1,2,3,5,6), of k] assms(7) [OF k] k map_of_is_SomeI [OF d that] by simp
  qed
  then show ?thesis
    by (auto simp: produced_keys_iter list_all2_map1 list_all2_map2 intro!: list.rel_refl_strong)
qed

lemma stores_frame:
  assumes "store_ok w" and "pending_ok (pp_pending_blocks pp)" and "produced_ok produced"
    and "set (produced_keys produced) \<subseteq> set (pending_keys (pp_pending_blocks pp))"
    and "es_blocks_produced es w pp produced = (w', Ok ())" and "k \<notin> set (produced_keys produced)"
  shows "params_at w' k = params_at w k"
  using stores [OF assms(1-5), of k] assms(6) by simp

end

section \<open>The last produced block\<close>

lemma produced_keys_sorted: "produced_ok pb \<Longrightarrow> sorted_wrt (<) (produced_keys pb)"
  unfolding produced_keys_def
  using nested_sorted [of pb "\<lambda>bs. bs"] by (auto simp: produced_ok_def kv_all_def)

lemma produced_keys_distinct: "produced_ok pb \<Longrightarrow> distinct (produced_keys pb)"
  using produced_keys_sorted strict_sorted_iff by blast

lemma last_key_value_iter:
  assumes "produced_ok pb"
  shows "last_key_value pb =
    (if produced_iter pb = [] then None else (case last (produced_iter pb) of ((s, i), p) \<Rightarrow> Some (s, i, p)))"
proof (cases pb rule: rev_cases)
  case (snoc ps e)
  obtain s bs where e: "e = (s, bs)" by (cases e)
  have "bs \<noteq> []" using assms snoc e by (auto simp: produced_ok_def kv_all_def)
  then obtain bs' i p where bs: "bs = bs' @ [(i, p)]" by (metis rev_exhaust surj_pair)
  show ?thesis
    by (simp add: snoc e bs last_key_value_def bt_last_eq produced_iter_def)
qed (simp add: last_key_value_def bt_last_eq produced_iter_def)

text \<open>What is later than the last of the first keys are the other keys.\<close>

lemma filter_after_take:
  assumes "sorted_wrt (<) (ks :: eth_block_id list)" and "take n ks \<noteq> []"
  shows "filter (\<lambda>k. last (take n ks) < k) ks = drop n ks"
proof -
  have s: "sorted_wrt (<) (take n ks @ drop n ks)" using assms(1) by simp
  obtain xs x where x: "take n ks = xs @ [x]" using assms(2) by (metis rev_exhaust)
  have "filter (\<lambda>k. x < k) (take n ks) = []"
    using s unfolding x by (auto simp: filter_empty_conv sorted_wrt_append dest: less_asym)
  moreover have "filter (\<lambda>k. x < k) (drop n ks) = drop n ks"
    using s unfolding x by (auto simp: sorted_wrt_append intro!: filter_True)
  ultimately have "filter (\<lambda>k. x < k) (take n ks @ drop n ks) = drop n ks" by (simp only: filter_append append_Nil)
  then show ?thesis unfolding append_take_drop_id by (simp add: x)
qed

section \<open>The loop\<close>

locale production = block_producer produce good + produced_store es params_at stored_as store_ok
  for produce :: "'st \<Rightarrow> producer_params \<Rightarrow> nat option \<Rightarrow> 'st \<times> production_result res"
    and good :: "'st \<Rightarrow> bool"
    and es :: "'w eth_storage"
    and params_at :: "'w \<Rightarrow> eth_block_id \<Rightarrow> 'c option option"
    and stored_as :: "block_params \<Rightarrow> 'c option"
    and store_ok :: "'w \<Rightarrow> bool"
begin

text \<open>One round: what is produced is a prefix, what is left is the rest.\<close>

lemma round:
  assumes "good st" and "pending_ok (pp_pending_blocks pp)" and "produce st pp limit = (st1, Ok r)"
    and "last_key_value (pr_produced_blocks r) = Some (s, i, p)"
  obtains n start where
    "0 < n" "n \<le> length (pending_keys (pp_pending_blocks pp))"
    "produced_ok (pr_produced_blocks r)"
    "produced_keys (pr_produced_blocks r) = take n (pending_keys (pp_pending_blocks pp))"
    "chained start (produced_chain (pr_produced_blocks r))"
    "chain_end start (produced_chain (pr_produced_blocks r)) = Some (bp_hash p)"
    "pp_parent_hash pp \<noteq> None \<Longrightarrow> start = pp_parent_hash pp"
    "pending_ok (retain_after (pp_pending_blocks pp) s i)"
    "pending_keys (retain_after (pp_pending_blocks pp) s i) = drop n (pending_keys (pp_pending_blocks pp))"
proof -
  let ?ks = "pending_keys (pp_pending_blocks pp)" and ?pb = "pr_produced_blocks r"
  obtain m start parent where inv: "loop_inv start (take m ?ks) ?pb parent"
    and h: "pp_parent_hash pp \<noteq> None \<Longrightarrow> start = pp_parent_hash pp"
    using produces [OF assms(1-3)] by blast
  have ok: "produced_ok ?pb" and keys: "produced_keys ?pb = take m ?ks"
    and chain: "chained start (produced_chain ?pb)"
    using inv by (auto simp: loop_inv_def)
  have ne: "produced_iter ?pb \<noteq> []" and last: "last (produced_iter ?pb) = ((s, i), p)"
    using assms(4) by (auto simp: last_key_value_iter [OF ok] split: if_splits prod.splits)
  have tne: "take m ?ks \<noteq> []" by (metis keys map_is_Nil_conv ne produced_keys_iter)
  have lastk: "last (take m ?ks) = (s, i)"
    using keys ne last by (metis fst_conv last_map produced_keys_iter)
  have "chain_end start (produced_chain ?pb) = Some (bp_hash p)"
  proof -
    have "produced_chain ?pb = map snd (butlast (produced_iter ?pb)) @ [p]"
      using ne last by (metis append_butlast_last_id list.simps(8,9) map_append produced_chain_def snd_conv)
    then show ?thesis by simp
  qed
  moreover have "filter (\<lambda>k. (s, i) < k) ?ks = drop m ?ks"
    using filter_after_take [OF pending_keys_sorted [OF assms(2)] tne] by (simp add: lastk)
  ultimately show ?thesis
    using that [of "min m (length ?ks)" start] tne ok keys chain h retain_after_keys [OF assms(2), of s i]
    by (auto simp: min_def)
qed

text \<open>The loop ends: every round produces at least one block.\<close>

lemma produce_loop_terminates:
  assumes "good st" and "pending_ok (pp_pending_blocks pp)" and "length (pending_keys (pp_pending_blocks pp)) < n"
  shows "produce_loop n es produce w st pp b \<noteq> None"
  using assms
proof (induction n arbitrary: w st pp)
  case (Suc n)
  show ?case
  proof (cases "produce st pp (Some b)")
    case (Pair st1 x)
    show ?thesis
    proof (cases x)
      case (Ok r)
      show ?thesis
      proof (cases "last_key_value (pr_produced_blocks r)")
        case (Some e)
        obtain s i p where e: "e = (s, i, p)" by (cases e)
        have pr: "produce st pp (Some b) = (st1, Ok r)" and l: "last_key_value (pr_produced_blocks r) = Some (s, i, p)"
          using Pair Ok Some e by simp_all
        obtain m where m: "0 < m" "m \<le> length (pending_keys (pp_pending_blocks pp))"
          "pending_ok (retain_after (pp_pending_blocks pp) s i)"
          "pending_keys (retain_after (pp_pending_blocks pp) s i) = drop m (pending_keys (pp_pending_blocks pp))"
          using round [OF Suc.prems(1,2) pr l] by blast
        have g: "good st1" using good_produce [OF Suc.prems(1), of pp "Some b"] pr by simp
        have "produce_loop n es produce w' st1 (pp\<lparr>pp_parent_hash := Some (bp_hash p),
            pp_pending_blocks := retain_after (pp_pending_blocks pp) s i\<rparr>) b \<noteq> None" for w'
          by (rule Suc.IH [OF g]) (use m Suc.prems(3) in auto)
        then show ?thesis using pr l by (auto split: res.split prod.split)
      qed (use Pair Ok in auto)
    qed (use Pair in auto)
  qed
qed simp

text \<open>When it returns, every pending block has its parameters, and they form a chain.\<close>

lemma produce_loop_stores:
  assumes "good st" and "store_ok w" and "pending_ok (pp_pending_blocks pp)"
    and "\<And>k. k \<in> set (pending_keys (pp_pending_blocks pp)) \<Longrightarrow> params_at w k = Some None"
    and "produce_loop n es produce w st pp b = Some (w', st', Ok ())"
  shows "\<exists>ps start. list_all2 (\<lambda>k p. params_at w' k = Some (stored_as p)) (pending_keys (pp_pending_blocks pp)) ps \<and>
    chained start ps \<and> (pp_parent_hash pp \<noteq> None \<longrightarrow> start = pp_parent_hash pp) \<and>
    (\<forall>k. k \<notin> set (pending_keys (pp_pending_blocks pp)) \<longrightarrow> params_at w' k = params_at w k)"
  using assms
proof (induction n arbitrary: w st pp)
  case (Suc n)
  let ?ks = "pending_keys (pp_pending_blocks pp)"
  obtain st1 r where pr: "produce st pp (Some b) = (st1, Ok r)"
    using Suc.prems(5) by (auto split: prod.splits res.splits)
  show ?case
  proof (cases "last_key_value (pr_produced_blocks r)")
    case None
    have "produced_ok (pr_produced_blocks r)" by (rule produced_prefix(2) [OF Suc.prems(1,3) pr])
    then have "?ks = []"
      using None progress [OF Suc.prems(1,3) pr] last_key_value_None by blast
    then show ?thesis using Suc.prems(5) pr None by (auto intro: exI [of _ "pp_parent_hash pp"])
  next
    case (Some e)
    obtain s i p where e: "e = (s, i, p)" by (cases e)
    have l: "last_key_value (pr_produced_blocks r) = Some (s, i, p)" using Some e by simp
    let ?pp = "pp\<lparr>pp_parent_hash := Some (bp_hash p), pp_pending_blocks := retain_after (pp_pending_blocks pp) s i\<rparr>"
    let ?pb = "pr_produced_blocks r"
    obtain w1 where st: "es_blocks_produced es w pp ?pb = (w1, Ok ())"
      and loop: "produce_loop n es produce w1 st1 ?pp b = Some (w', st', Ok ())"
      using Suc.prems(5) pr l by (auto split: prod.splits res.splits)
    obtain m start where m: "produced_ok ?pb" "produced_keys ?pb = take m ?ks"
      "chained start (produced_chain ?pb)" "chain_end start (produced_chain ?pb) = Some (bp_hash p)"
      "pp_parent_hash pp \<noteq> None \<Longrightarrow> start = pp_parent_hash pp"
      "pending_ok (retain_after (pp_pending_blocks pp) s i)"
      "pending_keys (retain_after (pp_pending_blocks pp) s i) = drop m ?ks"
      using round [OF Suc.prems(1,3) pr l] by blast
    have d: "distinct ?ks" using pending_keys_sorted [OF Suc.prems(3)] by (simp add: strict_sorted_iff)
    have sub: "set (produced_keys ?pb) \<subseteq> set ?ks" using m(2) by (simp add: set_take_subset)
    have disj: "set (take m ?ks) \<inter> set (drop m ?ks) = {}" using d by (simp add: set_take_disj_set_drop_if_distinct)
    have good1: "good st1" using good_produce [OF Suc.prems(1), of pp "Some b"] pr by simp
    have ok1: "store_ok w1" using keeps_ok [OF Suc.prems(2), of pp ?pb] st by simp
    have unproduced: "params_at w1 k = Some None" if "k \<in> set (pending_keys (pp_pending_blocks ?pp))" for k
    proof -
      have k: "k \<in> set ?ks" "k \<notin> set (produced_keys ?pb)"
        using that m(2,7) disj by (auto dest: in_set_dropD)
      show ?thesis using stores_frame [OF Suc.prems(2,3) m(1) sub st k(2)] Suc.prems(4) [OF k(1)] by simp
    qed
    have pok: "pending_ok (pp_pending_blocks ?pp)" using m(6) by simp
    from Suc.IH [OF good1 ok1 pok unproduced loop] obtain ps where ps:
      "list_all2 (\<lambda>k p. params_at w' k = Some (stored_as p)) (drop m ?ks) ps"
      "chained (Some (bp_hash p)) ps"
      "\<And>k. k \<notin> set (drop m ?ks) \<Longrightarrow> params_at w' k = params_at w1 k"
      by (auto simp: m(7))
    have "list_all2 (\<lambda>k p. params_at w1 k = Some (stored_as p)) (take m ?ks) (produced_chain ?pb)"
      using stores_all [OF Suc.prems(2,3) m(1) _ sub st] Suc.prems(4) sub m(2) d
      by (auto simp: produced_chain_def)
    then have "list_all2 (\<lambda>k p. params_at w' k = Some (stored_as p)) (take m ?ks) (produced_chain ?pb)"
      by (rule list.rel_mono_strong) (use ps(3) disj in \<open>auto simp: disjoint_iff\<close>)
    from list_all2_appendI [OF this ps(1)] have
      "list_all2 (\<lambda>k p. params_at w' k = Some (stored_as p)) ?ks (produced_chain ?pb @ ps)" by simp
    moreover have "chained start (produced_chain ?pb @ ps)" using m(3,4) ps(2) by (simp add: chained_append)
    moreover have "params_at w' k = params_at w k" if "k \<notin> set ?ks" for k
    proof -
      have "k \<notin> set (drop m ?ks)" using that by (auto dest: in_set_dropD)
      moreover have "k \<notin> set (produced_keys ?pb)" using that sub by auto
      ultimately show ?thesis using ps(3) stores_frame [OF Suc.prems(2,3) m(1) sub st] by metis
    qed
    ultimately show ?thesis using m(5) by blast
  qed
qed simp

end

end
