(* ===== verification/Pg_Facts.thy ===== *)
theory Pg_Facts
  imports Pg_Storage Production
begin

text \<open>
  What the Postgres storage promises the indexer: it is the \<open>produced_store\<close> of the
  production loop, the blocks it hands out as pending have no parameters yet, and what was
  produced is stored with its chain of parents.
\<close>

section \<open>Parameters of a block\<close>

definition params_of :: "db \<Rightarrow> eth_block_id \<Rightarrow> pg_params option option" where
  "params_of db k = map_option er_params (map_of (db_eth_block db) k)"

definition pg_params_at :: "pg \<Rightarrow> eth_block_id \<Rightarrow> pg_params option option" where
  "pg_params_at pg = params_of (pg_db pg)"

definition pg_stored_as :: "pg_lib \<Rightarrow> block_params \<Rightarrow> pg_params option" where
  "pg_stored_as lib p = cast_blockparams lib (to_pg_literal p)"

definition pg_ok :: "pg \<Rightarrow> bool" where
  "pg_ok pg \<longleftrightarrow> bt_ok (db_eth_block (pg_db pg))"

lemma block_produced_eff:
  assumes "block_produced lib k v db = Ok db'" and "bt_ok (db_eth_block db)"
  shows "bt_ok (db_eth_block db') \<and> params_of db' =
    (if params_of db k = Some None then (params_of db)(k \<mapsto> cast_blockparams lib v) else params_of db)"
  using assms
  by (auto simp: block_produced_def params_of_def fun_eq_iff lookup_bt_insert bt_ok_insert res_elims
      split: option.splits)

lemma pending_contains_iff:
  assumes "pending_ok pb"
  shows "pending_contains pb s i \<longleftrightarrow> (s, i) \<in> set (pending_keys pb)"
proof (cases "map_of pb s")
  case None
  then have "(s, b) \<notin> set pb" for b by (force simp: map_of_eq_None_iff)
  then show ?thesis using None by (auto simp: pending_contains_def pending_keys_def)
next
  case (Some b)
  have d: "distinct (map fst pb)" using assms by (simp add: pending_ok_def bt_ok_distinct)
  have "b' = b" if "(s, b') \<in> set pb" for b'
    using map_of_is_SomeI [OF d that] Some by simp
  moreover have "(s, b) \<in> set pb" using Some by (rule map_of_SomeD)
  moreover have "(s, i) \<in> set (pending_keys pb) \<longleftrightarrow> (\<exists>b'. (s, b') \<in> set pb \<and> i \<in> fst ` set (l2_blocks b'))"
    unfolding pending_keys_def by force
  ultimately have "(s, i) \<in> set (pending_keys pb) \<longleftrightarrow> i \<in> fst ` set (l2_blocks b)" by blast
  then show ?thesis using Some by (auto simp: pending_contains_def map_of_eq_None_iff)
qed

lemma store_produced_pair:
  "store_produced lib pending (k, p) db =
    (if pending_contains pending (fst k) (snd k) then block_produced lib k (to_pg_literal p) db else Ok db)"
  by (cases k) (simp add: store_produced_def)

lemma run_store_produced:
  assumes "run_all (store_produced lib pending) xs db = Ok db'" and "bt_ok (db_eth_block db)"
    and "distinct (map fst xs)" and "\<And>k. k \<in> fst ` set xs \<Longrightarrow> pending_contains pending (fst k) (snd k)"
  shows "bt_ok (db_eth_block db') \<and>
    params_of db' k = (if params_of db k = Some None \<and> k \<in> fst ` set xs
      then Some (pg_stored_as lib (the (map_of xs k))) else params_of db k)"
  using assms
proof (induction xs arbitrary: db)
  case (Cons x xs)
  obtain k1 p where x: "x = (k1, p)" by (cases x)
  have c: "pending_contains pending (fst k1) (snd k1)" using Cons.prems(4) [of k1] by (simp add: x)
  obtain db1 where b: "block_produced lib k1 (to_pg_literal p) db = Ok db1"
    and run: "run_all (store_produced lib pending) xs db1 = Ok db'"
    using Cons.prems(1) c by (auto simp: x store_produced_pair res_elims)
  note e = block_produced_eff [OF b Cons.prems(2)]
  have "bt_ok (db_eth_block db') \<and>
    params_of db' k = (if params_of db1 k = Some None \<and> k \<in> fst ` set xs
      then Some (pg_stored_as lib (the (map_of xs k))) else params_of db1 k)"
    by (rule Cons.IH [OF run]) (use e Cons.prems in \<open>auto simp: x\<close>)
  then show ?case
    using e Cons.prems(3) by (auto simp: x pg_stored_as_def)
qed simp

text \<open>The receipts do not touch the blocks.\<close>

lemma update_receipt_params_blocks [simp]:
  "db_eth_block (update_receipt_params s hash json db) = db_eth_block db"
  by (simp add: update_receipt_params_def split: option.split)

lemma store_receipts_blocks:
  "store_receipts lib s params gas i txs db = Ok db' \<Longrightarrow> db_eth_block db' = db_eth_block db"
  by (induction lib s params gas i txs db rule: store_receipts.induct)
    (auto simp: res_elims)

lemma store_block_receipts_blocks:
  "store_block_receipts lib pending e db = Ok db' \<Longrightarrow> db_eth_block db' = db_eth_block db"
  by (auto simp: store_block_receipts_def split: prod.splits option.splits dest: store_receipts_blocks)

lemma tx_blocks_produced_blocks:
  "db_eth_block (pg_db (fst (tx_blocks_produced lib pg pending produced))) = db_eth_block (pg_db pg)"
proof -
  have "db_eth_block db' = db_eth_block db"
    if "run_all (store_block_receipts lib pending) xs db = Ok db'" for xs db db'
    using that by (rule run_all_inv [where P = "\<lambda>d. db_eth_block d = db_eth_block db"])
      (auto dest: store_block_receipts_blocks)
  then show ?thesis
    by (auto simp: tx_blocks_produced_def in_transaction_def Let_def res_elims split: res.split)
qed

lemma in_transaction_Ok:
  "in_transaction f pg = (pg', Ok x) \<longleftrightarrow>
    pg_up pg (pg_calls pg) \<and> (\<exists>db'. f (pg_db pg) = Ok (db', x) \<and>
      pg' = pg\<lparr>pg_calls := Suc (pg_calls pg), pg_db := db'\<rparr>)"
  by (auto simp: in_transaction_def Let_def split: res.split if_splits)

lemma in_transaction_keeps:
  assumes "\<And>db' x. f (pg_db pg) = Ok (db', x) \<Longrightarrow> P db'" and "P (pg_db pg)"
  shows "P (pg_db (fst (in_transaction f pg)))"
  using assms by (auto simp: in_transaction_def Let_def split: res.split)

lemma run_store_produced_ok:
  assumes "run_all (store_produced lib pending) xs db = Ok db'" and "bt_ok (db_eth_block db)"
  shows "bt_ok (db_eth_block db')"
  using assms
  by (rule run_all_inv [where P = "\<lambda>d. bt_ok (db_eth_block d)"])
    (auto simp: store_produced_def split: prod.splits if_splits dest: block_produced_eff)

interpretation pg: produced_store "pg_eth_storage lib" pg_params_at "pg_stored_as lib" pg_ok for lib
proof unfold_locales
  fix w :: pg and pp :: producer_params and produced
  assume ok: "pg_ok w"
  let ?f = "\<lambda>db. try_res (run_all (store_produced lib (pp_pending_blocks pp)) (produced_iter produced) db)
    (\<lambda>db. Ok (db, ()))"
  have "bt_ok (db_eth_block (pg_db (fst (in_transaction ?f w))))"
    by (rule in_transaction_keeps [where P = "\<lambda>d. bt_ok (db_eth_block d)"])
      (use ok in \<open>auto simp: pg_ok_def res_elims intro: run_store_produced_ok\<close>)
  then show "pg_ok (fst (es_blocks_produced (pg_eth_storage lib) w pp produced))"
    by (auto simp: pg_eth_storage_def pg_blocks_produced_def pg_ok_def and_then_def tx_blocks_produced_blocks
        split: prod.split res.split)
next
  fix w w' :: pg and pp :: producer_params and produced k
  assume ok: "pg_ok w" and pend: "pending_ok (pp_pending_blocks pp)" and prod: "produced_ok produced"
    and sub: "set (produced_keys produced) \<subseteq> set (pending_keys (pp_pending_blocks pp))"
    and run: "es_blocks_produced (pg_eth_storage lib) w pp produced = (w', Ok ())"
  obtain w1 db1 where db1: "run_all (store_produced lib (pp_pending_blocks pp)) (produced_iter produced) (pg_db w) = Ok db1"
    and w1: "w1 = w\<lparr>pg_calls := Suc (pg_calls w), pg_db := db1\<rparr>" and w': "tx_blocks_produced lib w1 (pp_pending_blocks pp) produced = (w', Ok ())"
    using run by (fastforce simp: pg_eth_storage_def pg_blocks_produced_def res_elims in_transaction_Ok)
  have d: "distinct (map fst (produced_iter produced))"
    using produced_keys_distinct [OF prod] by (simp add: produced_keys_iter)
  have c: "pending_contains (pp_pending_blocks pp) (fst k) (snd k)" if "k \<in> fst ` set (produced_iter produced)" for k
    using that sub pending_contains_iff [OF pend, of "fst k" "snd k"] by (auto simp: produced_keys_iter)
  have "params_of db1 k = (if params_of (pg_db w) k = Some None \<and> k \<in> fst ` set (produced_iter produced)
      then Some (pg_stored_as lib (the (map_of (produced_iter produced) k))) else params_of (pg_db w) k)"
    using run_store_produced [OF db1 _ d c] ok by (auto simp: pg_ok_def)
  moreover have "params_of (pg_db w') k = params_of db1 k"
    using tx_blocks_produced_blocks [of lib w1 "pp_pending_blocks pp" produced] w' w1 by (simp add: params_of_def)
  ultimately show "pg_params_at w' k =
      (if pg_params_at w k = Some None \<and> k \<in> set (produced_keys produced)
       then Some (pg_stored_as lib (the (map_of (produced_iter produced) k))) else pg_params_at w k)"
    by (simp add: pg_params_at_def produced_keys_iter)
qed

interpretation engine_pg: production engine_produce_blocks honest_node "pg_eth_storage lib" pg_params_at
  "pg_stored_as lib" pg_ok for lib ..

interpretation single_pg: production single_produce_blocks "\<lambda>_. True" "pg_eth_storage lib" pg_params_at
  "pg_stored_as lib" pg_ok for lib ..

end
