(* ===== verification/Pg_Pending.thy ===== *)
theory Pg_Pending
  imports Pg_Facts
begin

text \<open>
  The blocks that \<open>pg_get_pending_blocks\<close> hands out, and the production loop on them: they
  are rows of the table without parameters, so the loop ends and fills in all of them.
  Also: what \<^verbatim>\<open>restore_blocks\<close> stores when the producer is ahead of the storage.
\<close>

section \<open>Rows of the view\<close>

lemma set_map_filter: "set (List.map_filter f xs) = {y. \<exists>x \<in> set xs. f x = Some y}"
  by (force simp: List.map_filter_def)

lemma blocks_of_slot_iff: "(i, row) \<in> set (blocks_of_slot db s) \<longleftrightarrow> ((s, i), row) \<in> set (db_eth_block db)"
  unfolding blocks_of_slot_def set_map_filter
  by (auto split: prod.splits if_splits intro!: bexI [of _ "((s, i), row)"])

lemma view_parents_rows:
  "(s, sr, i, row) \<in> set (view_parents n db visited s0 sr0) \<Longrightarrow> ((s, i), row) \<in> set (db_eth_block db)"
proof (induction n arbitrary: visited s0 sr0)
  case (Suc n)
  then show ?case
    by (auto simp: Let_def view_rows_def blocks_of_slot_iff split: option.splits if_splits)
qed simp

lemma pending_view_rows:
  "(s, sr, i, row) \<in> set (pending_view db) \<Longrightarrow> ((s, i), row) \<in> set (db_eth_block db)"
  by (auto simp: pending_view_def view_rows_def blocks_of_slot_iff dest: view_parents_rows split: option.splits)

definition row_of_table :: "db \<Rightarrow> pending_tx \<Rightarrow> bool" where
  "row_of_table db tx \<longleftrightarrow> (\<exists>row. ((pt_slot_number tx, pt_slot_block_idx tx), row) \<in> set (db_eth_block db) \<and>
     pt_eth_blockhash tx = map_option pc_blockhash (er_params row))"

lemma tx_rows_of_table:
  assumes "tx_rows_of db (s, sr, i, row) = Ok txs" and "((s, i), row) \<in> set (db_eth_block db)"
  shows "list_all (row_of_table db) txs"
  using assms(1) unfolding tx_rows_of_def split
  by (rule run_all_inv [where P = "list_all (row_of_table db)"])
    (use assms(2) in \<open>auto simp: row_of_table_def res_elims split: prod.splits if_splits option.splits\<close>)

lemma pending_transactions_table:
  assumes "pending_transactions db = Ok txs"
  shows "list_all (row_of_table db) txs"
  using assms unfolding pending_transactions_def
  by (rule run_all_inv [where P = "list_all (row_of_table db)"])
    (auto simp: res_elims dest!: pending_view_rows dest: tx_rows_of_table)

section \<open>The scan\<close>

lemma pending_ok_insert:
  assumes "pending_ok pb" and "bt_ok (l2_blocks b)"
  shows "pending_ok (bt_insert s b pb)"
  using assms by (simp add: pending_ok_def bt_ok_insert bt.kv_all_ins l1_ok_def)

lemma pending_contains_insert:
  assumes "pending_ok pb"
  shows "pending_contains (bt_insert s b pb) s' i' \<longleftrightarrow>
    (if s' = s then map_of (l2_blocks b) i' \<noteq> None else pending_contains pb s' i')"
  using assms by (simp add: pending_contains_def pending_ok_def lookup_bt_insert)

lemma bt_insert_ne: "bt_insert k v m \<noteq> []"
  by (cases "(k, v, m)" rule: bt_insert.cases) auto

text \<open>What \<open>append_tx\<close> does to the keys, for a new slot block that comes without blocks.\<close>

lemma append_tx_keys:
  assumes "append_tx lib pb s l1 i recip tx_idx rlp res m = (pb', Ok ())" and "pending_ok pb"
    and "\<And>b. l1 = Ok b \<Longrightarrow> l2_blocks b = []"
  shows "pending_ok pb' \<and> pb' \<noteq> [] \<and> set (pending_keys pb') \<subseteq> insert (s, i) (set (pending_keys pb))"
proof -
  let ?l1 = "case map_of pb s of Some b \<Rightarrow> Ok b | None \<Rightarrow> l1"
  obtain b1 b2 where b1: "?l1 = Ok b1"
    and pb': "pb' = bt_insert s (b1\<lparr>l2_blocks := bt_insert i b2 (l2_blocks b1)\<rparr>) pb"
    using assms(1) unfolding append_tx_def
    by (auto simp: Let_def try_with_def split: res.splits option.splits)
  have ok1: "bt_ok (l2_blocks b1)"
    using b1 assms(2,3) by (auto simp: pending_ok_def l1_ok_def dest!: kv_all_lookup split: option.splits)
  have old: "pending_contains pb s j" if "map_of (l2_blocks b1) j \<noteq> None" for j
    using b1 that assms(3) by (auto simp: pending_contains_def split: option.splits)
  have ok': "pending_ok pb'"
    unfolding pb' by (rule pending_ok_insert [OF assms(2)]) (simp add: ok1 bt_ok_insert)
  moreover have "k \<in> insert (s, i) (set (pending_keys pb))" if "k \<in> set (pending_keys pb')" for k
  proof -
    obtain s' j where k: "k = (s', j)" by (cases k)
    have "pending_contains pb' s' j" using that pending_contains_iff [OF ok'] by (simp add: k)
    then have "(s', j) = (s, i) \<or> pending_contains pb s' j"
      unfolding pb' pending_contains_insert [OF assms(2)]
      using old by (auto simp: lookup_bt_insert [OF ok1] split: if_splits)
    then show ?thesis using pending_contains_iff [OF assms(2)] by (auto simp: k)
  qed
  moreover have "pb' \<noteq> []" unfolding pb' by (rule bt_insert_ne)
  ultimately show ?thesis by blast
qed

lemma append_pending_keys:
  assumes "append_pending_tx lib pb tx = (pb', Ok ())" and "pending_ok pb"
  shows "pending_ok pb' \<and>
    set (pending_keys pb') \<subseteq> insert (pt_slot_number tx, pt_slot_block_idx tx) (set (pending_keys pb))"
proof -
  have "l2_blocks b = []" if "l1_from_pending_tx lib tx = Ok b" for b
    using that by (auto simp: l1_from_pending_tx_def res_elims)
  from append_tx_keys [OF assms(1) [unfolded append_pending_tx_def] assms(2) this] show ?thesis by simp
qed

lemma scan_pending_keys:
  assumes "scan_pending lib txs = Ok sc"
  shows "pending_ok (sc_pending sc) \<and>
    set (pending_keys (sc_pending sc)) \<subseteq>
      {(pt_slot_number tx, pt_slot_block_idx tx) | tx. tx \<in> set txs \<and> pt_eth_blockhash tx = None}"
    (is "?P sc")
  using assms unfolding scan_pending_def
proof (rule run_all_inv [where P = ?P])
  show "?P \<lparr>sc_finalized = [], sc_produced = [], sc_pending = []\<rparr>"
    by (simp add: pending_ok_def pending_keys_def)
next
  fix tx st st'
  assume tx: "tx \<in> set txs" and step: "scan_tx lib tx st = Ok st'" and P: "?P st"
  have "sc_pending st' = sc_pending st \<or>
    pt_eth_blockhash tx = None \<and> append_pending_tx lib (sc_pending st) tx = (sc_pending st', Ok ())"
    using step by (auto simp: scan_tx_def Let_def res_elims split: if_splits option.splits prod.splits)
  then show "?P st'"
  proof
    assume a: "pt_eth_blockhash tx = None \<and> append_pending_tx lib (sc_pending st) tx = (sc_pending st', Ok ())"
    show ?thesis using append_pending_keys [OF conjunct2 [OF a]] P a tx by blast
  qed (use P in simp)
qed

lemma reading_Ok:
  "reading f pg = (pg', Ok x) \<longleftrightarrow>
    pg_up pg (pg_calls pg) \<and> f (pg_db pg) = Ok x \<and> pg' = pg\<lparr>pg_calls := Suc (pg_calls pg)\<rparr>"
  by (auto simp: reading_def in_transaction_Ok res_elims)

section \<open>A concrete database\<close>

text \<open>One slot with one block, which has one transaction and is not produced.\<close>

definition test_row_lib :: row_lib where
  "test_row_lib = \<lparr>row_bs58_decode = (\<lambda>_. Some (replicate 32 0)), h256_from_str = (\<lambda>_. Some 0),
     address_from_str = (\<lambda>_. Some 0), tx_from_rlp = (\<lambda>_. Some default_transaction),
     result_from_json = (\<lambda>_. Some default_tx_result)\<rparr>"

definition test_pg_lib :: pg_lib where
  "test_pg_lib = \<lparr>pl_rows = test_row_lib,
     cast_blockparams = (\<lambda>v. Some \<lparr>pc_blockhash = v, pc_parent_hash = None, pc_number = 7, pc_timestamp = 0\<rparr>),
     pl_recover_from = (\<lambda>_. None), rlp_of_sender = (\<lambda>_ _. []), pl_keccak = (\<lambda>_. 0), tx_to_rlp = (\<lambda>_. []),
     result_to_json = (\<lambda>_. Some []), receipt_to_json = (\<lambda>_. Some []), receipt_from_json = (\<lambda>_. None),
     block_to_json = (\<lambda>_. Some []), block_from_json = (\<lambda>_. None)\<rparr>"

definition test_db :: db where
  "test_db = \<lparr>db_sol_slot = [(5, \<lparr>sr_parent_slot = 4, sr_status = Confirmed, sr_blockhash = Some [], sr_timestamp = Some 1\<rparr>)],
     db_sol_block = [], db_evm_tx = [([], [])],
     db_evm_tx_result = [((5, []), \<lparr>tr_tx_result = [], tr_receipt_params = None\<rparr>)],
     db_eth_block = [((5, 0), \<lparr>er_gas_used = 0, er_gas_recipient = None, er_slot_timestamp = Some 1, er_params = None\<rparr>)],
     db_eth_block_txs = [((5, 0, []), 0)]\<rparr>"

definition test_pg :: pg where
  "test_pg = \<lparr>pg_db = test_db, pg_calls = 0, pg_up = (\<lambda>_. True)\<rparr>"

definition test_engine :: engine_api where
  "test_engine = \<lparr>ea_geth = test_geth [] [], ea_run = (0, []), ea_calls = 0, ea_block = (\<lambda>_ _. None),
     ea_block_number = (\<lambda>_. None), ea_rlp = (\<lambda>_. [])\<rparr>"

definition test_params :: producer_params where
  "test_params = \<lparr>pp_parent_hash = None, pp_finalized_block = None,
     pp_pending_blocks = [(5, \<lparr>pl1_blockhash = 0, pl1_timestamp = 1, l2_blocks =
       [(0, \<lparr>pl2_transactions = [(0, default_transaction, default_tx_result)], pl2_gas_recipient = None\<rparr>)]\<rparr>)]\<rparr>"

lemma pg_ok_test: "pg_ok test_pg"
  by (simp add: pg_ok_def test_pg_def test_db_def)

lemma test_transactions:
  "pending_transactions test_db = Ok [\<lparr>pt_slot_number = 5, pt_slot_status = Confirmed, pt_slot_blockhash = [],
     pt_slot_timestamp = Some 1, pt_slot_block_idx = 0, pt_gas_recipient = None, pt_eth_blockhash = None,
     pt_tx_idx = 0, pt_rlp = [], pt_tx_result = []\<rparr>]"
  by (simp add: pending_transactions_def pending_view_def test_db_def view_rows_def blocks_of_slot_def
      List.map_filter_def tx_rows_of_def Let_def)

lemma zero_hash: "h256_from_slice (replicate 32 0) = Ok 0"
  by (simp add: h256_from_slice_def u256_of_be_def of_be_bytes_def numeral_eq_Suc)

lemma one_timestamp: "u256_from_i64 1 = Ok 1"
  by (simp add: u256_from_i64_def)

lemma test_pending_blocks:
  "pg_get_pending_blocks test_pg_lib test_pg = (test_pg\<lparr>pg_calls := 1\<rparr>, Ok (Some test_params))"
proof -
  have r: "reading pending_transactions test_pg = (test_pg\<lparr>pg_calls := 1\<rparr>, pending_transactions test_db)"
    by (simp add: reading_def in_transaction_def test_pg_def test_transactions Let_def)
  show ?thesis
    unfolding pg_get_pending_blocks_def r test_transactions
    by (simp add: scan_pending_def scan_tx_def append_pending_tx_def append_tx_def l1_from_pending_tx_def
        l2_with_gas_recipient_def test_pg_lib_def test_row_lib_def zero_hash one_timestamp try_with_def Let_def
        params_of_scan_def pending_is_empty_def test_params_def bt_last_def)
qed

lemma honest_test: "honest_node test_engine"
  by (simp add: honest_node_def test_engine_def)

section \<open>Pending blocks are not produced\<close>

text \<open>
  C23. The blocks the storage hands out as pending are blocks of the table that have no
  parameters yet: none of them was produced before, and none is made up.
\<close>

theorem pending_are_unproduced:
  assumes "pg_ok pg" and "pg_get_pending_blocks lib pg = (pg', Ok (Some pp))"
  shows "pending_ok (pp_pending_blocks pp) \<and> pg_db pg' = pg_db pg \<and>
    (\<forall>k \<in> set (pending_keys (pp_pending_blocks pp)). pg_params_at pg k = Some None)"
proof -
  obtain txs sc where txs: "pending_transactions (pg_db pg) = Ok txs" and sc: "scan_pending (pl_rows lib) txs = Ok sc"
    and pp: "params_of_scan sc = Some pp" and db: "pg_db pg' = pg_db pg"
    using assms(2) by (auto simp: pg_get_pending_blocks_def reading_Ok res_elims split: prod.splits)
  have sc_pp: "sc_pending sc = pp_pending_blocks pp" using pp by (auto simp: params_of_scan_def split: if_splits)
  have "pg_params_at pg k = Some None" if k: "k \<in> set (pending_keys (pp_pending_blocks pp))" for k
  proof -
    obtain tx where tx: "tx \<in> set txs" "pt_eth_blockhash tx = None" "k = (pt_slot_number tx, pt_slot_block_idx tx)"
      using k subsetD [OF conjunct2 [OF scan_pending_keys [OF sc]], of k] by (auto simp: sc_pp)
    moreover have "row_of_table (pg_db pg) tx"
      using pending_transactions_table [OF txs] tx(1) by (auto simp: list_all_iff)
    ultimately obtain row where "(k, row) \<in> set (db_eth_block (pg_db pg))" "er_params row = None"
      by (auto simp: row_of_table_def)
    moreover have "distinct (map fst (db_eth_block (pg_db pg)))" using assms(1) by (simp add: pg_ok_def bt_ok_distinct)
    ultimately show ?thesis by (simp add: pg_params_at_def params_of_def map_of_is_SomeI)
  qed
  then show ?thesis using scan_pending_keys [OF sc] sc_pp db by simp
qed


theorem pending_are_unproduced_witness:
  "pg_params_at test_pg (5, 0) = Some None"
  using pending_are_unproduced [OF pg_ok_test test_pending_blocks] by (simp add: test_params_def pending_keys_def)

section \<open>Producing them\<close>

lemma pending_count:
  assumes "pg_ok pg" and "pg_get_pending_blocks lib pg = (pg', Ok (Some pp))"
  shows "length (pending_keys (pp_pending_blocks pp)) \<le> length (db_eth_block (pg_db pg))"
proof -
  note u = pending_are_unproduced [OF assms]
  have "k \<in> fst ` set (db_eth_block (pg_db pg))" if "k \<in> set (pending_keys (pp_pending_blocks pp))" for k
  proof -
    have "map_of (db_eth_block (pg_db pg)) k \<noteq> None" using u that by (force simp: pg_params_at_def params_of_def)
    then show ?thesis by (simp add: map_of_eq_None_iff)
  qed
  then have "set (pending_keys (pp_pending_blocks pp)) \<subseteq> set (map fst (db_eth_block (pg_db pg)))" by auto
  then have "card (set (pending_keys (pp_pending_blocks pp))) \<le> card (set (map fst (db_eth_block (pg_db pg))))"
    by (intro card_mono) auto
  moreover have "distinct (pending_keys (pp_pending_blocks pp))"
    using u pending_keys_sorted by (auto simp: strict_sorted_iff)
  moreover have "card (set (map fst (db_eth_block (pg_db pg)))) \<le> length (db_eth_block (pg_db pg))"
    by (metis card_length length_map)
  ultimately show ?thesis by (simp add: distinct_card)
qed

lemma pg_get_pending_ok:
  assumes "pg_ok pg" and "pg_get_pending_blocks lib pg = (pg1, Ok (Some pp))"
  shows "pg_ok pg1" and "pending_ok (pp_pending_blocks pp)" and "pg_params_at pg1 = pg_params_at pg"
    and "\<And>k. k \<in> set (pending_keys (pp_pending_blocks pp)) \<Longrightarrow> pg_params_at pg1 k = Some None"
  using pending_are_unproduced [OF assms] assms(1) by (auto simp: pg_ok_def pg_params_at_def)

text \<open>
  C17. Production with the Engine API and the database: given as many rounds as the table
  has blocks, and one more, the loop over the pending blocks ends; and when it ends
  without an error every pending block has the parameters of a chain that starts at the
  parent hash, and no other block was touched.
\<close>

theorem pending_blocks_get_produced:
  assumes "pg_ok pg" and "honest_node ea"
    and "pg_get_pending_blocks lib pg = (pg1, Ok (Some pp))" and "length (db_eth_block (pg_db pg)) < n"
  shows "\<exists>pg2 ea2 r. produce_loop n (pg_eth_storage lib) engine_produce_blocks pg1 ea pp b = Some (pg2, ea2, r) \<and>
    (r = Ok () \<longrightarrow>
      (\<exists>ps start. list_all2 (\<lambda>k p. pg_params_at pg2 k = Some (pg_stored_as lib p))
          (pending_keys (pp_pending_blocks pp)) ps \<and> chained start ps \<and>
          (pp_parent_hash pp \<noteq> None \<longrightarrow> start = pp_parent_hash pp)) \<and>
      (\<forall>k. k \<notin> set (pending_keys (pp_pending_blocks pp)) \<longrightarrow> pg_params_at pg2 k = pg_params_at pg k))"
proof -
  note ok = pg_get_pending_ok [OF assms(1,3)]
  have "length (pending_keys (pp_pending_blocks pp)) < n"
    using pending_count [OF assms(1,3)] assms(4) by simp
  from engine_pg.produce_loop_terminates [OF assms(2) ok(2) this] obtain pg2 ea2 r where
    run: "produce_loop n (pg_eth_storage lib) engine_produce_blocks pg1 ea pp b = Some (pg2, ea2, r)"
    by (metis not_Some_eq prod_cases3)
  have "\<exists>ps start. list_all2 (\<lambda>k p. pg_params_at pg2 k = Some (pg_stored_as lib p))
      (pending_keys (pp_pending_blocks pp)) ps \<and> chained start ps \<and>
      (pp_parent_hash pp \<noteq> None \<longrightarrow> start = pp_parent_hash pp) \<and>
      (\<forall>k. k \<notin> set (pending_keys (pp_pending_blocks pp)) \<longrightarrow> pg_params_at pg2 k = pg_params_at pg1 k)"
    if "r = Ok ()"
    by (rule engine_pg.produce_loop_stores [OF assms(2) ok(1,2,4)]) (use run that in auto)
  then show ?thesis using run ok(3) by fastforce
qed

theorem pending_blocks_get_produced_witness:
  "\<exists>pg2 ea2 r. produce_loop 2 (pg_eth_storage test_pg_lib) engine_produce_blocks
    (test_pg\<lparr>pg_calls := 1\<rparr>) test_engine test_params 8 = Some (pg2, ea2, r)"
proof -
  have "length (db_eth_block (pg_db test_pg)) < 2" by (simp add: test_pg_def test_db_def)
  from pending_blocks_get_produced [OF pg_ok_test honest_test test_pending_blocks this, of 8]
  show ?thesis by blast
qed

section \<open>Restoring blocks\<close>

lemma restore_loop_inv:
  assumes "loop_inv start ks pb parent" and "sorted_wrt (<) (ks @ keys)"
    and "restore_loop keys params parent pb = Ok produced"
  shows "\<exists>parent'. loop_inv start (ks @ take (length params) keys) produced parent' \<and>
    produced_chain produced = produced_chain pb @ map snd (take (length keys) params)"
  using assms
proof (induction keys params parent pb arbitrary: ks rule: restore_loop.induct)
  case (2 s i keys params parent pb)
  show ?case
  proof (cases params)
    case (Cons e params')
    obtain num p where e: "e = (num, p)" by (cases e)
    have p: "bp_parent_hash p = parent" and run: "restore_loop keys params' (Some (bp_hash p)) (produced_insert pb s i p) = Ok produced"
      using "2.prems"(3) by (auto simp: Cons e split: if_splits)
    have lt: "k < (s, i)" if "k \<in> set ks" for k using "2.prems"(2) that by (simp add: sorted_wrt_append)
    have step: "loop_inv start (ks @ [(s, i)]) (produced_insert pb s i p) (Some (bp_hash p))"
      by (rule loop_inv_step [OF "2.prems"(1) lt p])
    have sorted: "sorted_wrt (<) ((ks @ [(s, i)]) @ keys)" using "2.prems"(2) by simp
    have chain: "produced_chain (produced_insert pb s i p) = produced_chain pb @ [p]"
      using "2.prems"(1) lt produced_insert_append(2) [of pb s i p] by (simp add: loop_inv_def produced_chain_def)
    have "\<not> parent \<noteq> bp_parent_hash p" using p by simp
    from "2.IH" [OF Cons e [symmetric] this step sorted run] obtain parent' where
      "loop_inv start ((ks @ [(s, i)]) @ take (length params') keys) produced parent'"
      "produced_chain produced = produced_chain (produced_insert pb s i p) @ map snd (take (length keys) params')"
      by auto
    then show ?thesis using chain by (auto simp: Cons e)
  qed (use 2 in \<open>auto simp: loop_inv_def\<close>)
qed auto

text \<open>
  When the producer is ahead of the storage, the blocks it already has are given to the
  first pending blocks in the order of their numbers, and only if they form a chain that
  starts at the parent hash; no other block is touched.
\<close>

theorem restored_blocks_stored:
  assumes "pg_ok pg" and "pg_get_pending_blocks lib pg = (pg1, Ok (Some pp))"
    and "restore_blocks (pg_eth_storage lib) pr pg1 st from_block to_block pp num_retries = (pg2, st2, Ok ())"
  shows "\<exists>ps. list_all2 (\<lambda>k p. pg_params_at pg2 k = Some (pg_stored_as lib p))
      (take (length ps) (pending_keys (pp_pending_blocks pp))) ps \<and> chained (pp_parent_hash pp) ps \<and>
    (\<forall>k. k \<notin> set (take (length ps) (pending_keys (pp_pending_blocks pp))) \<longrightarrow>
      pg_params_at pg2 k = pg_params_at pg k)"
proof -
  note ok = pg_get_pending_ok [OF assms(1,2)]
  let ?ks = "pending_keys (pp_pending_blocks pp)"
  obtain params produced where r: "restore_loop ?ks params (pp_parent_hash pp) [] = Ok produced"
    and s: "es_blocks_produced (pg_eth_storage lib) pg1 pp produced = (pg2, Ok ())"
    using assms(3) by (auto simp: restore_blocks_def split: prod.splits res.splits)
  obtain parent' where inv: "loop_inv (pp_parent_hash pp) (take (length params) ?ks) produced parent'"
    using restore_loop_inv [OF loop_inv_start _ r] pending_keys_sorted [OF ok(2)] by auto
  then have prod: "produced_ok produced" and keys: "produced_keys produced = take (length params) ?ks"
    and chain: "chained (pp_parent_hash pp) (produced_chain produced)"
    by (auto simp: loop_inv_def)
  have len: "take (length (produced_chain produced)) ?ks = produced_keys produced"
  proof -
    have "length (produced_chain produced) = length (produced_keys produced)"
      by (simp add: produced_chain_def produced_keys_iter)
    then show ?thesis by (simp add: keys min_def)
  qed
  have sub: "set (produced_keys produced) \<subseteq> set ?ks" by (simp add: keys set_take_subset)
  have "list_all2 (\<lambda>k p. pg_params_at pg2 k = Some (pg_stored_as lib p)) (produced_keys produced) (produced_chain produced)"
    unfolding produced_chain_def
    by (rule pg.stores_all [OF ok(1,2) prod produced_keys_distinct [OF prod] sub s])
      (use ok(4) sub in blast)
  moreover have "pg_params_at pg2 k = pg_params_at pg k" if "k \<notin> set (produced_keys produced)" for k
    using pg.stores_frame [OF ok(1,2) prod sub s that] ok(3) by simp
  ultimately show ?thesis using chain len by (intro exI [of _ "produced_chain produced"]) auto
qed

text \<open>A producer that has block 1, without a parent.\<close>

definition test_block_params :: "u64 \<Rightarrow> block_params" where
  "test_block_params n = \<lparr>bp_hash = 9, bp_parent_hash = None, bp_number = n, bp_timestamp = 1\<rparr>"

definition test_producer :: "unit producer" where
  "test_producer = \<lparr>pr_last_produced_block = (\<lambda>st. (st, Ok 1)),
     pr_get_block_params = (\<lambda>st n. (st, Ok (test_block_params n))),
     pr_produce_blocks = (\<lambda>st pp limit. (st, Err InternalError))\<rparr>"

lemma test_restore:
  "\<exists>pg2. restore_blocks (pg_eth_storage test_pg_lib) test_producer (test_pg\<lparr>pg_calls := 1\<rparr>) () 1 1 test_params 500 =
    (pg2, (), Ok ())"
proof -
  have p: "get_blocks_params (pr_get_block_params test_producer) () 500 (map word_of_nat [unat (1 :: u64) ..< Suc (unat (1 :: u64))]) [] =
      ((), Ok [(1, test_block_params 1)])"
    by (simp add: test_producer_def numeral_eq_Suc test_block_params_def)
  have r: "restore_loop (pending_keys (pp_pending_blocks test_params)) [(1, test_block_params 1)]
      (pp_parent_hash test_params) [] = Ok [(5, [(0, test_block_params 1)])]"
    by (simp add: test_params_def pending_keys_def test_block_params_def produced_insert_def kv_modify_def)
  have "\<exists>pg2. es_blocks_produced (pg_eth_storage test_pg_lib) (test_pg\<lparr>pg_calls := 1\<rparr>) test_params
      [(5, [(0, test_block_params 1)])] = (pg2, Ok ())"
    by (simp add: pg_eth_storage_def pg_blocks_produced_def in_transaction_def test_pg_def produced_iter_def
        store_produced_def test_params_def pending_contains_def block_produced_def test_db_def test_pg_lib_def
        tx_blocks_produced_def store_block_receipts_def pending_get_def add_or_panic_def checked_add_def
        default_tx_result_def default_gas_report_def u256_of_len_def Let_def)
  then show ?thesis using p r by (auto simp: restore_blocks_def)
qed

theorem restored_blocks_stored_witness:
  "\<exists>pg2 ps. restore_blocks (pg_eth_storage test_pg_lib) test_producer (test_pg\<lparr>pg_calls := 1\<rparr>) () 1 1 test_params 500 =
      (pg2, (), Ok ()) \<and> chained None ps"
proof -
  obtain pg2 where r: "restore_blocks (pg_eth_storage test_pg_lib) test_producer (test_pg\<lparr>pg_calls := 1\<rparr>) () 1 1 test_params 500 =
      (pg2, (), Ok ())" using test_restore by blast
  from restored_blocks_stored [OF pg_ok_test test_pending_blocks r] r show ?thesis
    by (auto simp: test_params_def)
qed

end
