(* ===== verification/Pg_Reproduce.thy ===== *)
theory Pg_Reproduce
  imports Pg_Pending
begin

text \<open>
  Reproduction of lost blocks from the database, and the text that block parameters are
  stored as.  Shown here: the expected blocks are keyed by their number instead of their
  index in the slot, so reproduction does not succeed; parameters are read back as they
  were written, except those of a block without parent.
\<close>

declare decimal.simps [simp del]

section \<open>Reproduction\<close>

lemma append_row_keys:
  assumes "append_reproduced_block_row lib pb row = (pb', Ok ())" and "pending_ok pb"
  shows "pending_ok pb' \<and> pb' \<noteq> [] \<and>
    set (pending_keys pb') \<subseteq> insert (rb_slot_number row, rb_slot_block_idx row) (set (pending_keys pb))"
  by (rule append_tx_keys [OF assms(1) [unfolded append_reproduced_block_row_def] assms(2)])
    (auto simp: l1_from_row_def res_elims)

text \<open>The expected blocks: no slot is empty, and every key is a slot and block number of a row.\<close>

definition expected_of :: "reproduced_block_row set \<Rightarrow> produced_blocks \<Rightarrow> bool" where
  "expected_of rows pb \<longleftrightarrow> (\<forall>(s, bs) \<in> set pb. bs \<noteq> [] \<and>
     (\<forall>n \<in> fst ` set bs. \<exists>row \<in> rows. rb_slot_number row = s \<and> rb_block_number row = n))"

lemma expected_ofD:
  assumes "expected_of rows pb" and "(s, bs) \<in> set pb"
  shows "bs \<noteq> []" and "n \<in> fst ` set bs \<Longrightarrow> \<exists>row \<in> rows. rb_slot_number row = s \<and> rb_block_number row = n"
  using assms unfolding expected_of_def by (blast, blast)

lemma append_from_row_expected:
  assumes "append_from_row lib pb row = Ok pb'" and "expected_of rows pb" and "row \<in> rows"
  shows "expected_of rows pb' \<and> pb' \<noteq> []"
proof -
  let ?s = "rb_slot_number row" and ?n = "rb_block_number row"
  let ?bs = "case map_of pb ?s of None \<Rightarrow> [] | Some bs \<Rightarrow> bs"
  obtain bs where pb': "pb' = bt_insert ?s bs pb" and bs: "bs \<noteq> []" "fst ` set bs \<subseteq> insert ?n (fst ` set ?bs)"
  proof (cases "map_of ?bs ?n")
    case None
    have "\<exists>p. pb' = bt_insert ?s (bt_insert ?n p ?bs) pb"
      using assms(1) unfolding append_from_row_def Let_def None by (auto simp: res_elims)
    then obtain p where "pb' = bt_insert ?s (bt_insert ?n p ?bs) pb" ..
    moreover have "bt_insert ?n p ?bs \<noteq> []" by (rule bt_insert_ne)
    ultimately show ?thesis using that by (simp add: keys_bt_insert)
  next
    case (Some p)
    then have "pb' = bt_insert ?s ?bs pb" using assms(1) by (simp add: append_from_row_def)
    moreover have "?bs \<noteq> []" using Some by (auto split: option.splits)
    ultimately show ?thesis using that by blast
  qed
  have old: "\<exists>row' \<in> rows. rb_slot_number row' = ?s \<and> rb_block_number row' = n" if "n \<in> fst ` set ?bs" for n
  proof (cases "map_of pb ?s")
    case (Some bs)
    then have "(?s, bs) \<in> set pb" by (rule map_of_SomeD)
    from expected_ofD(2) [OF assms(2) this, of n] show ?thesis using that by (simp only: Some option.case)
  qed (use that in simp)
  have "expected_of rows pb'"
  proof -
    have "bs' \<noteq> [] \<and> (\<forall>n \<in> fst ` set bs'. \<exists>row \<in> rows. rb_slot_number row = s \<and> rb_block_number row = n)"
      if "(s, bs') \<in> set pb'" for s bs'
    proof -
      have "(s, bs') = (?s, bs) \<or> (s, bs') \<in> set pb" using subsetD [OF set_bt_insert that [unfolded pb']] by auto
      then show ?thesis
      proof
        assume e: "(s, bs') = (?s, bs)"
        have "\<exists>row \<in> rows. rb_slot_number row = ?s \<and> rb_block_number row = n" if "n \<in> fst ` set bs" for n
        proof (cases "n = ?n")
          case True
          then show ?thesis using assms(3) by metis
        next
          case False
          then show ?thesis using old [of n] subsetD [OF bs(2) that] by simp
        qed
        then show ?thesis using e bs(1) by simp
      next
        assume "(s, bs') \<in> set pb"
        then show ?thesis using expected_ofD [OF assms(2)] by blast
      qed
    qed
    then show ?thesis by (auto simp: expected_of_def)
  qed
  moreover have "pb' \<noteq> []" unfolding pb' by (rule bt_insert_ne)
  ultimately show ?thesis by blast
qed

lemma reproduce_rows_keys:
  assumes "run_all (reproduce_row lib) rows ([], []) = Ok (pending, expected)" and "rows \<noteq> []"
  shows "pending_ok pending \<and> pending \<noteq> [] \<and> expected \<noteq> [] \<and> expected_of (set rows) expected \<and>
    set (pending_keys pending) \<subseteq> {(rb_slot_number row, rb_slot_block_idx row) | row. row \<in> set rows}"
proof -
  let ?keys = "{(rb_slot_number row, rb_slot_block_idx row) | row. row \<in> set rows}"
  let ?P = "\<lambda>(pending, expected). pending_ok pending \<and> expected_of (set rows) expected \<and>
    set (pending_keys pending) \<subseteq> ?keys"
  let ?Q = "\<lambda>(pending, expected). pending \<noteq> [] \<and> expected \<noteq> [] \<and> ?P (pending, expected)"
  have step: "?Q st'" if row: "row \<in> set rows" and r: "reproduce_row lib row st = Ok st'" and P: "?P st" for row st st'
  proof -
    obtain pb ex where st: "st = (pb, ex)" by (cases st)
    obtain pb' ex' where st': "st' = (pb', ex')" by (cases st')
    have a: "append_reproduced_block_row lib pb row = (pb', Ok ())" and b: "append_from_row lib ex row = Ok ex'"
      using r by (auto simp: reproduce_row_def st st' res_elims split: prod.splits)
    show ?thesis
      using append_row_keys [OF a] append_from_row_expected [OF b _ row] P row by (auto simp: st st')
  qed
  obtain row rest where rows: "rows = row # rest" using assms(2) by (cases rows) auto
  obtain st where first: "reproduce_row lib row ([], []) = Ok st"
    and run: "run_all (reproduce_row lib) rest st = Ok (pending, expected)"
    using assms(1) by (auto simp: rows res_elims)
  have start: "?Q st"
    by (rule step [OF _ first]) (auto simp: rows pending_ok_def pending_keys_def expected_of_def)
  have "?Q (pending, expected)"
    using run start
  proof (rule run_all_inv [where P = ?Q])
    fix row' s s' assume r: "row' \<in> set rest" "reproduce_row lib row' s = Ok s'" "?Q s"
    have "row' \<in> set rows" using r(1) by (simp add: rows)
    then show "?Q s'" by (rule step [OF _ r(2)]) (use r(3) in \<open>auto split: prod.splits\<close>)
  qed
  then show ?thesis by simp
qed

lemma check_reproduced_Ok:
  "check_reproduced pb xs = Ok () \<Longrightarrow> (k, p) \<in> set xs \<Longrightarrow> produced_get pb (fst k) (snd k) = Some p"
  by (induction pb xs rule: check_reproduced.induct) (auto split: option.splits if_splits)

lemma produced_get_key: "produced_get pb s i = Some p \<Longrightarrow> (s, i) \<in> set (produced_keys pb)"
  by (force simp: produced_get_def produced_keys_def bind_eq_Some_conv dest!: map_of_SomeD)

text \<open>
  Reproduction with the Engine API does not succeed: the expected results are keyed by
  the number of the block where the producer's are keyed by the index in the slot.  If
  among the rows of a slot no number is also an index, a batch with at least one row ends
  in an error (or a panic), although the producer may have made the very same blocks.
\<close>

theorem reproduction_fails:
  assumes "ri_producer ri = Some pr" and "pr_produce_blocks pr = engine_produce_blocks"
    and "ri_eth ri = pg_eth_storage lib" and "honest_node (is_producer s)"
    and "to_slot = from_slot + min (max_slot - from_slot) (word_of_nat batch_size)"
    and "reproduced_rows from_slot to_slot (pg_db (is_world s)) \<noteq> []"
    and "\<And>row row'. row \<in> set (reproduced_rows from_slot to_slot (pg_db (is_world s))) \<Longrightarrow>
      row' \<in> set (reproduced_rows from_slot to_slot (pg_db (is_world s))) \<Longrightarrow>
      rb_slot_number row = rb_slot_number row' \<Longrightarrow> rb_block_number row \<noteq> rb_slot_block_idx row'"
  shows "snd (reproduce_blocks ri s from_slot max_slot batch_size) \<noteq> Ok next_slot"
proof
  let ?rows = "reproduced_rows from_slot to_slot (pg_db (is_world s))"
  assume "snd (reproduce_blocks ri s from_slot max_slot batch_size) = Ok next_slot"
  then obtain s' where run: "reproduce_blocks ri s from_slot max_slot batch_size = (s', Ok next_slot)"
    by (metis prod.collapse)
  have "\<exists>s1 params. on_world (\<lambda>w. pg_reproduce_blocks lib w from_slot to_slot) s = (s1, Ok params)"
    using run by (auto simp: reproduce_blocks_def assms(1,3,5) pg_eth_storage_def Let_def res_elims)
  then obtain s1 params where w: "on_world (\<lambda>w. pg_reproduce_blocks lib w from_slot to_slot) s = (s1, Ok params)"
    by blast
  have params: "reproduce_params_of_rows (pl_rows lib) ?rows = Ok params" and s1: "is_producer s1 = is_producer s"
    using w by (auto simp: on_world_def pg_reproduce_blocks_def reading_def in_transaction_def Let_def
        split: prod.splits if_splits)
  obtain pending expected where rows: "run_all (reproduce_row (pl_rows lib)) ?rows ([], []) = Ok (pending, expected)"
    using params by (auto simp: reproduce_params_of_rows_def res_elims)
  note k = reproduce_rows_keys [OF rows assms(6)]
  then obtain rp where rp: "params = Some rp" "pp_pending_blocks (rp_producer_params rp) = pending"
      "rp_expected_results rp = expected"
    using params rows by (auto simp: reproduce_params_of_rows_def pending_is_empty_def)
  obtain ea r where prod: "engine_produce_blocks (is_producer s1) (rp_producer_params rp) (Some batch_size) = (ea, Ok r)"
    and check: "check_reproduced (pr_produced_blocks r) (produced_iter expected) = Ok ()"
    using run w rp assms(1-3,5)
    by (auto simp: reproduce_blocks_def pg_eth_storage_def Let_def res_elims on_producer_def split: prod.splits)
  obtain m where keys: "produced_keys (pr_produced_blocks r) = take m (pending_keys pending)"
    using engine.produced_prefix(1) [OF _ _ prod] assms(4) s1 k rp(2) by auto
  obtain slot_nr bs where e: "(slot_nr, bs) \<in> set expected" using k by (cases expected) auto
  then obtain n p where n: "(n, p) \<in> set bs" using k by (cases bs) (auto simp: expected_of_def)
  obtain row where row: "row \<in> set ?rows" "rb_slot_number row = slot_nr" "rb_block_number row = n"
    using k e n by (force simp: expected_of_def)
  have "((slot_nr, n), p) \<in> set (produced_iter expected)" using e n by (force simp: produced_iter_def)
  from check_reproduced_Ok [OF check this] have "(slot_nr, n) \<in> set (take m (pending_keys pending))"
    using produced_get_key keys by fastforce
  then have "(slot_nr, n) \<in> set (pending_keys pending)" by (rule in_set_takeD)
  then obtain row' where "row' \<in> set ?rows" "rb_slot_number row' = slot_nr" "rb_slot_block_idx row' = n"
    using k by blast
  then show False using assms(7) [OF row(1)] row(2,3) by metis
qed

text \<open>The same database after block 7 was produced, and an indexer on it.\<close>

definition test_produced_pg :: pg where
  "test_produced_pg = test_pg\<lparr>pg_db := test_db\<lparr>db_eth_block :=
     [((5, 0), \<lparr>er_gas_used = 0, er_gas_recipient = None, er_slot_timestamp = Some 1,
        er_params = Some \<lparr>pc_blockhash = [], pc_parent_hash = None, pc_number = 7, pc_timestamp = 1\<rparr>\<rparr>)]\<rparr>\<rparr>"

definition test_engine_producer :: "engine_api producer" where
  "test_engine_producer = \<lparr>pr_last_produced_block = engine_last_produced_block,
     pr_get_block_params = engine_get_block_params, pr_produce_blocks = engine_produce_blocks\<rparr>"

definition test_indexer :: "(pg, engine_api) rollup_indexer" where
  "test_indexer = \<lparr>ri_block_parser = test_block_parser, ri_env = test_parse_env,
     ri_sol = \<lparr>ss_get_last_slot = pg_get_last_slot, ss_retain_from_slot = pg_sol_retain_from_slot,
       ss_get_block = (\<lambda>_ _. Ok None)\<rparr>,
     ri_eth = pg_eth_storage test_pg_lib, ri_producer = Some test_engine_producer, ri_max_slot_history = None\<rparr>"

definition test_indexer_state :: "(pg, engine_api) indexer_state" where
  "test_indexer_state = \<lparr>is_world = test_produced_pg, is_producer = test_engine,
     is_tx_parser = new_default_tx_parser, is_reads = 0\<rparr>"

lemma test_reproduced_rows:
  "reproduced_rows 5 6 (pg_db test_produced_pg) =
    [\<lparr>rb_slot_number = 5, rb_slot_timestamp = Some 1, rb_slot_block_idx = 0, rb_gas_recipient = None,
      rb_blockhash = [], rb_parent_hash = None, rb_block_number = 7, rb_tx_idx = 0, rb_rlp = [], rb_tx_result = []\<rparr>]"
  by (simp add: reproduced_rows_def produced_rows_def test_produced_pg_def test_pg_def test_db_def List.map_filter_def)

theorem reproduction_fails_witness:
  "snd (reproduce_blocks test_indexer test_indexer_state 5 6 8) \<noteq> Ok 6"
  by (rule reproduction_fails [where to_slot = 6 and lib = test_pg_lib and pr = test_engine_producer])
    (simp_all add: test_indexer_def test_indexer_state_def test_engine_producer_def honest_test test_reproduced_rows)

section \<open>The text of block parameters\<close>

text \<open>
  What Postgres documents of the text of a composite value: the fields stand between the
  parentheses, separated by commas, an empty field is \<^verbatim>\<open>NULL\<close> and any other unquoted text is
  that text; numbers are read as numbers.  It is used within what the columns hold: texts of at most 66
  characters (\<^verbatim>\<open>VARCHAR(66)\<close>), a number of the block below \<open>2 ^ 63\<close> (\<^verbatim>\<open>BIGINT\<close>) and a timestamp below
  \<open>2 ^ 256\<close> (\<^verbatim>\<open>NUMERIC\<close>).
\<close>

definition plain :: "rstr \<Rightarrow> bool" where
  "plain s \<longleftrightarrow> (\<forall>c \<in> set s. c \<notin> {34, 40, 41, 44, 92} \<and> \<not> is_whitespace c)"

definition cast_law :: "pg_lib \<Rightarrow> bool" where
  "cast_law lib \<longleftrightarrow> (\<forall>h p n t. plain h \<and> plain p \<and> h \<noteq> [] \<and> length h \<le> 66 \<and> length p \<le> 66 \<and> n < 2 ^ 63 \<and> t < 2 ^ 256 \<longrightarrow>
     cast_blockparams lib (str ''('' @ h @ str '','' @ p @ str '','' @ decimal n @ str '','' @ decimal t @ str '')'') =
       Some \<lparr>pc_blockhash = h, pc_parent_hash = (if p = [] then None else Some p), pc_number = n, pc_timestamp = t\<rparr>)"

definition hash_text_law :: "row_lib \<Rightarrow> bool" where
  "hash_text_law lib \<longleftrightarrow> (\<forall>h. h256_from_str lib (hash_hex h) = Some h)"

lemma hex_digit_cases: "d < 16 \<Longrightarrow> hex_digit d \<in> {48..57} \<union> {97..102}"
  by (auto simp: hex_digit_def)

lemma plain_hex_digit: "c \<in> {48..57} \<union> {97..102} \<Longrightarrow> c \<notin> {34, 40, 41, 44, 92} \<and> \<not> is_whitespace c"
  by (auto simp: is_whitespace_def)

lemma plain_hash_hex: "plain (hash_hex h)"
proof -
  have "c \<in> {48..57} \<union> {97..102}" if "c \<in> set (hex_encode bs)" for c bs
  proof -
    have "\<exists>b \<in> set bs. c \<in> {hex_digit (unat b div 16), hex_digit (unat b mod 16)}"
      using that by (simp add: hex_encode_def)
    then obtain b :: u8 where "c = hex_digit (unat b div 16) \<or> c = hex_digit (unat b mod 16)" by auto
    moreover have "unat b div 16 < 16" using unat_bound [of b] by (simp add: less_mult_imp_div_less)
    ultimately show ?thesis using hex_digit_cases by (metis mod_less_divisor zero_less_numeral)
  qed
  then have "c \<notin> {34, 40, 41, 44, 92} \<and> \<not> is_whitespace c" if "c \<in> set (hex_encode bs)" for c bs
    using that plain_hex_digit by blast
  then show ?thesis by (auto simp: plain_def hash_hex_def str_def is_whitespace_def)
qed

lemma hash_hex_ne: "hash_hex h \<noteq> []"
  by (simp add: hash_hex_def str_def)

lemma length_hex_encode: "length (hex_encode bs) = 2 * length bs"
  by (induction bs) (auto simp: hex_encode_def)

lemma length_hash_hex: "length (hash_hex h) = 66"
  by (simp add: hash_hex_def str_def length_hex_encode)

lemma stored_params:
  assumes "cast_law lib" and "unat (bp_number p) < 2 ^ 63"
  shows "pg_stored_as lib p = Some \<lparr>pc_blockhash = hash_hex (bp_hash p),
    pc_parent_hash = Some (case bp_parent_hash p of Some ph \<Rightarrow> hash_hex ph | None \<Rightarrow> str ''NULL''),
    pc_number = unat (bp_number p), pc_timestamp = unat (bp_timestamp p)\<rparr>"
proof -
  have "plain (str ''NULL'')" "str ''NULL'' \<noteq> []" "length (str ''NULL'') \<le> 66"
    by (simp_all add: plain_def str_def is_whitespace_def)
  then show ?thesis
    using assms plain_hash_hex hash_hex_ne unat_bound [of "bp_timestamp p"]
    by (auto simp: pg_stored_as_def to_pg_literal_def cast_law_def length_hash_hex split: option.split)
qed

text \<open>Functions that have these laws: the reading of hexadecimal and decimal digits and of the fields.\<close>

fun hex_value :: "nat \<Rightarrow> rstr \<Rightarrow> nat" where
  "hex_value acc [] = acc"
| "hex_value acc (c # cs) = hex_value (16 * acc + (if c < 58 then c - 48 else c - 87)) cs"

definition read_hash :: "rstr \<Rightarrow> h256 option" where
  "read_hash s = (if length s = 66 \<and> take 2 s = [48, 120] then Some (word_of_nat (hex_value 0 (drop 2 s))) else None)"

fun dec_value :: "nat \<Rightarrow> rstr \<Rightarrow> nat" where
  "dec_value acc [] = acc"
| "dec_value acc (c # cs) = dec_value (10 * acc + (c - 48)) cs"

fun fields :: "rstr \<Rightarrow> rstr list" where
  "fields [] = [[]]"
| "fields (c # cs) = (if c = 44 then [] # fields cs else (case fields cs of f # fs \<Rightarrow> (c # f) # fs | [] \<Rightarrow> [[c]]))"

definition read_params :: "rstr \<Rightarrow> pg_params option" where
  "read_params s = (case fields (butlast (tl s)) of
     [h, p, n, t] \<Rightarrow> Some \<lparr>pc_blockhash = h, pc_parent_hash = (if p = [] then None else Some p),
       pc_number = dec_value 0 n, pc_timestamp = dec_value 0 t\<rparr>
   | _ \<Rightarrow> None)"

lemma fields_ne: "fields s \<noteq> []"
  by (induction s) (auto split: list.split)

lemma fields_plain: "44 \<notin> set f \<Longrightarrow> fields f = [f]"
  by (induction f) auto

lemma fields_comma: "44 \<notin> set f \<Longrightarrow> fields (f @ 44 # s) = f # fields s"
  by (induction f) auto

lemma dec_value_snoc: "dec_value acc (s @ [c]) = 10 * dec_value acc s + (c - 48)"
  by (induction acc s rule: dec_value.induct) auto

lemma dec_value_decimal: "dec_value 0 (decimal n) = n"
proof (induction n rule: decimal.induct)
  case (1 n)
  show ?case
  proof (cases "n < 10")
    case False
    then show ?thesis using 1 by (subst decimal.simps) (simp add: dec_value_snoc)
  qed (simp add: decimal.simps)
qed

lemma decimal_digits: "c \<in> set (decimal n) \<Longrightarrow> 48 \<le> c \<and> c < 58"
proof (induction n rule: decimal.induct)
  case (1 n)
  have "decimal n = (if n < 10 then [48 + n] else decimal (n div 10) @ [48 + n mod 10])" by (rule decimal.simps)
  then show ?case using 1 by (auto split: if_splits)
qed

lemma hex_value_byte: "hex_value acc (hex_encode (b # bs)) = hex_value (256 * acc + unat b) (hex_encode bs)"
proof -
  have "unat b div 16 < 16" using unat_bound [of b] by (simp add: less_mult_imp_div_less)
  then have "(if hex_digit d < 58 then hex_digit d - 48 else hex_digit d - 87) = d" if "d = unat b div 16 \<or> d = unat b mod 16" for d
    using that by (auto simp: hex_digit_def)
  then show ?thesis by (simp add: hex_encode_def algebra_simps)
qed

lemma of_le_bytes_append: "of_le_bytes (xs @ ys) = of_le_bytes xs + 256 ^ length xs * of_le_bytes ys"
  by (induction xs) (auto simp: algebra_simps)

lemma hex_value_encode: "hex_value acc (hex_encode bs) = acc * 256 ^ length bs + of_be_bytes bs"
proof (induction bs arbitrary: acc)
  case (Cons b bs)
  show ?case
    unfolding hex_value_byte Cons by (simp add: of_be_bytes_def of_le_bytes_append algebra_simps)
qed (simp add: hex_encode_def of_be_bytes_def)

lemma read_hash_hex: "read_hash (hash_hex h) = Some h"
proof -
  have x: "str ''0x'' = [48, 120]" by (simp add: str_def)
  have "hex_value 0 (hex_encode (u256_be h)) = of_be_bytes (u256_be h)" by (simp add: hex_value_encode)
  then have "word_of_nat (hex_value 0 (hex_encode (u256_be h))) = u256_of_be (u256_be h)" by (simp add: u256_of_be_def)
  then show ?thesis by (simp add: read_hash_def hash_hex_def x length_hex_encode)
qed

definition test_text_lib :: pg_lib where
  "test_text_lib = test_pg_lib\<lparr>pl_rows := test_row_lib\<lparr>h256_from_str := read_hash\<rparr>, cast_blockparams := read_params\<rparr>"

lemma cast_law_test: "cast_law test_text_lib"
proof -
  have "read_params (str ''('' @ h @ str '','' @ p @ str '','' @ decimal n @ str '','' @ decimal t @ str '')'') =
      Some \<lparr>pc_blockhash = h, pc_parent_hash = (if p = [] then None else Some p), pc_number = n, pc_timestamp = t\<rparr>"
    if "plain h" "plain p" for h p n t
  proof -
    have c: "44 \<notin> set h" "44 \<notin> set p" using that unfolding plain_def by blast+
    have d: "44 \<notin> set (decimal m)" for m using decimal_digits [of 44 m] by auto
    have s: "str ''('' @ h @ str '','' @ p @ str '','' @ decimal n @ str '','' @ decimal t @ str '')'' =
        40 # (h @ 44 # p @ 44 # decimal n @ 44 # decimal t) @ [41]" by (simp add: str_def)
    show ?thesis
      unfolding s read_params_def list.sel butlast_snoc
      by (simp add: fields_comma [OF c(1)] fields_comma [OF c(2)] fields_comma [OF d] fields_plain [OF d]
          dec_value_decimal)
  qed
  then show ?thesis by (simp add: cast_law_def test_text_lib_def)
qed

lemma hash_text_law_test: "hash_text_law (pl_rows test_text_lib)"
  by (simp add: hash_text_law_def test_text_lib_def read_hash_hex)

text \<open>The row of a block after its parameters are stored, and what is read from it.\<close>

lemma produced_rows_key:
  assumes "bt_ok (db_eth_block db)" and "(k, c) \<in> set (produced_rows db)"
  shows "\<exists>row. map_of (db_eth_block db) k = Some row \<and> er_params row = Some c"
proof -
  obtain row where row: "(k, row) \<in> set (db_eth_block db)" "er_params row = Some c"
    using assms(2) by (auto simp: produced_rows_def List.map_filter_def)
  with map_of_is_SomeI [OF bt_ok_distinct [OF assms(1)] row(1)] show ?thesis by blast
qed

lemma reproduced_row_params:
  assumes "r \<in> set (reproduced_rows from_slot to_slot db)" and "bt_ok (db_eth_block db)"
  shows "\<exists>row c sr. map_of (db_eth_block db) (rb_slot_number r, rb_slot_block_idx r) = Some row \<and> er_params row = Some c \<and>
    map_of (db_sol_slot db) (rb_slot_number r) = Some sr \<and> rb_slot_timestamp r = sr_timestamp sr \<and>
    rb_blockhash r = pc_blockhash c \<and> rb_parent_hash r = pc_parent_hash c \<and> rb_block_number r = pc_number c"
proof -
  have "\<exists>c. ((rb_slot_number r, rb_slot_block_idx r), c) \<in> set (produced_rows db) \<and>
    (\<exists>sr. map_of (db_sol_slot db) (rb_slot_number r) = Some sr \<and> rb_slot_timestamp r = sr_timestamp sr) \<and>
    rb_blockhash r = pc_blockhash c \<and> rb_parent_hash r = pc_parent_hash c \<and> rb_block_number r = pc_number c"
    using assms(1) by (force simp: reproduced_rows_def List.map_filter_def split: option.splits if_splits)
  then show ?thesis using produced_rows_key [OF assms(2)] by fast
qed

lemma header_rows_of:
  "map_of (db_eth_block db) k = Some row \<Longrightarrow> er_params row = Some c \<Longrightarrow> (row, c) \<in> set (header_rows (pc_number c) db)"
  by (force simp: header_rows_def List.map_filter_def dest: map_of_SomeD)

text \<open>
  C25. Round trip of block parameters through the database, for a block with a parent.  Storing them
  for a block that has none changes only the row of that block.  The RPC then finds this row by the number of the
  block and reads from it the hash, the parent and the number as they were written; so does every row that
  reproduction gets for the block.  The timestamp does not come back: it is written in the
  literal, but what is read is the timestamp of the Solana slot, from the row of the block for the RPC and from
  that of the slot for reproduction.
\<close>

theorem block_params_round_trip:
  assumes "cast_law lib" and "hash_text_law (pl_rows lib)" and "unat (bp_number p) < 2 ^ 63"
    and "bp_parent_hash p = Some ph" and "bt_ok (db_eth_block db)"
    and "map_of (db_eth_block db) k = Some row" and "er_params row = None" and "er_slot_timestamp row = Some t"
    and "u256_from_i64 t = Ok ts" and "er_gas_used row < 2 ^ 256"
    and "\<And>v. er_gas_recipient row = Some v \<Longrightarrow> address_from_str (pl_rows lib) v \<noteq> None"
  shows "\<exists>db' c. block_produced lib k (to_pg_literal p) db = Ok db' \<and>
    (\<forall>k'. map_of (db_eth_block db') k' =
      (if k' = k then Some (row\<lparr>er_params := Some c\<rparr>) else map_of (db_eth_block db) k')) \<and>
    (row\<lparr>er_params := Some c\<rparr>, c) \<in> set (header_rows (unat (bp_number p)) db') \<and>
    (\<exists>b. from_block_header_row (pl_rows lib) (row\<lparr>er_params := Some c\<rparr>) c = Ok b \<and>
      eb_block_params b = Some (p\<lparr>bp_timestamp := ts\<rparr>)) \<and>
    (\<forall>r \<in> set (reproduced_rows from_slot to_slot db'). (rb_slot_number r, rb_slot_block_idx r) = k \<longrightarrow>
      (\<exists>sr. map_of (db_sol_slot db) (fst k) = Some sr \<and> (\<forall>t' ts'. sr_timestamp sr = Some t' \<longrightarrow> u256_from_i64 t' = Ok ts' \<longrightarrow>
        params_from_row (pl_rows lib) r = Ok (p\<lparr>bp_timestamp := ts'\<rparr>))))"
proof -
  define c where "c = \<lparr>pc_blockhash = hash_hex (bp_hash p), pc_parent_hash = Some (hash_hex ph),
    pc_number = unat (bp_number p), pc_timestamp = unat (bp_timestamp p)\<rparr>"
  have cast: "cast_blockparams lib (to_pg_literal p) = Some c"
    using stored_params [OF assms(1,3)] assms(4) by (simp add: pg_stored_as_def c_def)
  let ?row = "row\<lparr>er_params := Some c\<rparr>"
  let ?db = "db\<lparr>db_eth_block := bt_insert k ?row (db_eth_block db)\<rparr>"
  have run: "block_produced lib k (to_pg_literal p) db = Ok ?db"
    using assms(6,7) cast by (simp add: block_produced_def)
  have ok: "bt_ok (db_eth_block ?db)" using assms(5) by (simp add: bt_ok_insert)
  have rows: "map_of (db_eth_block ?db) k' = (if k' = k then Some ?row else map_of (db_eth_block db) k')" for k'
    using assms(5) by (simp add: lookup_bt_insert)
  have "(?row, c) \<in> set (header_rows (pc_number c) ?db)" by (rule header_rows_of [where k = k]) (simp_all only: rows, simp_all)
  then have header: "(?row, c) \<in> set (header_rows (unat (bp_number p)) ?db)" by (simp add: c_def)
  have hash: "h256_from_str (pl_rows lib) (hash_hex h) = Some h" for h using assms(2) by (simp add: hash_text_law_def)
  have number: "(word_of_nat (unat (bp_number p)) :: u64) = bp_number p" by simp
  obtain a where recip: "(case er_gas_recipient row of None \<Rightarrow> Ok None
      | Some v \<Rightarrow> try_res (expect ''DB data corrupted: Failed to parse gas_recipient'' (address_from_str (pl_rows lib) v))
          (\<lambda>a. Ok (Some a))) = Ok a"
    using assms(11) by (cases "er_gas_recipient row") fastforce+
  have read: "\<exists>b. from_block_header_row (pl_rows lib) ?row c = Ok b \<and> eb_block_params b = Some (p\<lparr>bp_timestamp := ts\<rparr>)"
    using recip assms(4,8,9,10) by (simp add: from_block_header_row_def c_def hash)
  have "\<exists>sr. map_of (db_sol_slot db) (fst k) = Some sr \<and> (\<forall>t' ts'. sr_timestamp sr = Some t' \<longrightarrow> u256_from_i64 t' = Ok ts' \<longrightarrow>
        params_from_row (pl_rows lib) r = Ok (p\<lparr>bp_timestamp := ts'\<rparr>))"
    if r: "r \<in> set (reproduced_rows from_slot to_slot ?db)" and k: "(rb_slot_number r, rb_slot_block_idx r) = k" for r
  proof -
    obtain row' c' sr where read': "map_of (db_eth_block ?db) k = Some row'" "er_params row' = Some c'"
        "map_of (db_sol_slot ?db) (fst k) = Some sr" "rb_slot_timestamp r = sr_timestamp sr"
        "rb_blockhash r = pc_blockhash c'" "rb_parent_hash r = pc_parent_hash c'" "rb_block_number r = pc_number c'"
      using reproduced_row_params [OF r ok] k by fastforce
    have "c' = c" using read'(1,2) rows [of k] by auto
    then show ?thesis using read' assms(4) by (auto simp: params_from_row_def c_def hash)
  qed
  with run rows header read show ?thesis by blast
qed

theorem block_params_round_trip_witness:
  "\<exists>db' c b. block_produced test_text_lib (5, 0) (to_pg_literal \<lparr>bp_hash = 3, bp_parent_hash = Some 2, bp_number = 7, bp_timestamp = 9\<rparr>)
      test_db = Ok db' \<and>
    from_block_header_row (pl_rows test_text_lib)
      \<lparr>er_gas_used = 0, er_gas_recipient = None, er_slot_timestamp = Some 1, er_params = Some c\<rparr> c = Ok b \<and>
    eb_block_params b = Some \<lparr>bp_hash = 3, bp_parent_hash = Some 2, bp_number = 7, bp_timestamp = 1\<rparr>"
proof -
  let ?row = "\<lparr>er_gas_used = 0, er_gas_recipient = None, er_slot_timestamp = Some 1, er_params = None\<rparr>"
  have "bt_ok (db_eth_block test_db)" "map_of (db_eth_block test_db) (5, 0) = Some ?row"
    by (simp_all add: test_db_def bt_ok_def)
  from block_params_round_trip [OF cast_law_test hash_text_law_test _ _ this _ _ one_timestamp,
      of "\<lparr>bp_hash = 3, bp_parent_hash = Some 2, bp_number = 7, bp_timestamp = 9\<rparr>" 2 0 0]
  show ?thesis by simp blast
qed

text \<open>
  A block without a parent is written with the text \<^verbatim>\<open>NULL\<close> as its parent, which is not
  the null value: reading the block again, for reproduction or for the RPC, panics.
\<close>

theorem missing_parent_unreadable:
  assumes "cast_law lib" and "hash_text_law (pl_rows lib)" and "unat (bp_number p) < 2 ^ 63"
    and "bp_parent_hash p = None" and "h256_from_str (pl_rows lib) (str ''NULL'') = None"
    and "er_gas_used block < 2 ^ 256" and "er_gas_recipient block = None"
  shows "\<exists>c. pg_stored_as lib p = Some c \<and>
    (\<forall>row. rb_blockhash row = pc_blockhash c \<and> rb_parent_hash row = pc_parent_hash c \<longrightarrow>
      params_from_row (pl_rows lib) row = Panic ''DB data corrupted: Failed to decode parent hash'') \<and>
    from_block_header_row (pl_rows lib) block c = Panic ''DB data corrupted: Failed to parse parent_hash''"
  using assms(2-) stored_params [OF assms(1,3)]
  by (simp add: params_from_row_def from_block_header_row_def hash_text_law_def)

theorem missing_parent_unreadable_witness:
  "\<exists>c. from_block_header_row (pl_rows test_text_lib)
      \<lparr>er_gas_used = 0, er_gas_recipient = None, er_slot_timestamp = Some 1, er_params = None\<rparr> c =
    Panic ''DB data corrupted: Failed to parse parent_hash''"
proof -
  have "h256_from_str (pl_rows test_text_lib) (str ''NULL'') = None"
    by (simp add: test_text_lib_def read_hash_def str_def)
  from missing_parent_unreadable [OF cast_law_test hash_text_law_test _ _ this,
      of "\<lparr>bp_hash = 3, bp_parent_hash = None, bp_number = 7, bp_timestamp = 1\<rparr>"
         "\<lparr>er_gas_used = 0, er_gas_recipient = None, er_slot_timestamp = Some 1, er_params = None\<rparr>"]
  show ?thesis by auto
qed

end
