(* ===== verification/Receipts.thy ===== *)
theory Receipts
  imports Pg_Reproduce
begin

text \<open>
  The receipts of produced blocks: what is stored for the transactions of a block, and what
  the RPC makes of it.
\<close>

section \<open>Receipt parameters\<close>

lemma hash_hex_inject [simp]: "hash_hex a = hash_hex b \<longleftrightarrow> a = b"
  by (metis option.inject read_hash_hex)

definition receipt_at :: "db \<Rightarrow> slot \<Rightarrow> h256 \<Rightarrow> rstr option" where
  "receipt_at db s h = Option.bind (map_of (db_evm_tx_result db) (s, hash_hex h)) tr_receipt_params"

definition has_result :: "db \<Rightarrow> slot \<Rightarrow> h256 \<Rightarrow> bool" where
  "has_result db s h \<longleftrightarrow> map_of (db_evm_tx_result db) (s, hash_hex h) \<noteq> None"

lemma receipt_at_update:
  "receipt_at (update_receipt_params s (hash_hex h) json db) s h' =
    (if h' = h \<and> has_result db s h then Some json else receipt_at db s h')"
  "has_result (update_receipt_params s (hash_hex h) json db) s h' \<longleftrightarrow> has_result db s h'"
  by (auto simp: receipt_at_def has_result_def update_receipt_params_def lookup_hm_insert split: option.split)

definition gas_spent :: "nat \<times> transaction \<times> tx_result \<Rightarrow> nat" where
  "gas_spent e = (case e of (_, _, r) \<Rightarrow> unat (gas_value (res_gas_report r)))"

definition logs_emitted :: "nat \<times> transaction \<times> tx_result \<Rightarrow> nat" where
  "logs_emitted e = (case e of (_, _, r) \<Rightarrow> length (res_logs r))"

definition hash_of :: "nat \<times> transaction \<times> tx_result \<Rightarrow> h256" where
  "hash_of e = (case e of (_, tx, _) \<Rightarrow> tx_hash tx)"

lemma store_receipts_frame:
  "store_receipts lib s params gas index txs db = Ok db' \<Longrightarrow> h \<notin> hash_of ` set txs \<Longrightarrow>
    receipt_at db' s h = receipt_at db s h"
  by (induction lib s params gas index txs db rule: store_receipts.induct)
    (auto simp: res_elims receipt_at_update hash_of_def)

lemma store_receipts_sums:
  assumes "store_receipts lib s params gas index txs db = Ok db'"
    and "distinct (map hash_of txs)" and "\<And>e. e \<in> set txs \<Longrightarrow> has_result db s (hash_of e)"
    and "\<And>e. e \<in> set txs \<Longrightarrow> logs_emitted e < 2 ^ 256" and "i < length txs"
  shows "\<exists>rp json. receipt_to_json lib rp = Some json \<and> receipt_at db' s (hash_of (txs ! i)) = Some json \<and>
    rc_blockhash rp = bp_hash params \<and> rc_block_number rp = bp_number params \<and>
    rc_tx_index rp = fst (txs ! i) \<and>
    unat (rc_block_gas_used rp) = unat gas + sum_list (map gas_spent (take i txs)) \<and>
    unat (rc_first_log_index rp) = unat index + sum_list (map logs_emitted (take i txs))"
  using assms
proof (induction txs arbitrary: gas index db i)
  case (Cons e txs)
  obtain n tx r where e: "e = (n, tx, r)" by (cases e)
  let ?rp = "\<lparr>rc_blockhash = bp_hash params, rc_block_number = bp_number params, rc_tx_index = n,
    rc_block_gas_used = gas, rc_first_log_index = index\<rparr>"
  obtain gas' index' json where gas': "add_or_panic gas (gas_value (res_gas_report r)) = Ok gas'"
    and index': "add_or_panic index (u256_of_len (length (res_logs r))) = Ok index'"
    and json: "receipt_to_json lib ?rp = Some json"
    and run: "store_receipts lib s params gas' index' txs (update_receipt_params s (hash_hex (tx_hash tx)) json db) = Ok db'"
    using Cons.prems(1) by (auto simp: e res_elims)
  have hash: "hash_of e = tx_hash tx" by (simp add: hash_of_def e)
  show ?case
  proof (cases i)
    case 0
    have "hash_of e \<notin> hash_of ` set txs" using Cons.prems(2) by simp
    from store_receipts_frame [OF run this] Cons.prems(3) [of e]
    have "receipt_at db' s (hash_of e) = Some json" by (simp add: hash receipt_at_update)
    with json show ?thesis
      by (intro exI [of _ ?rp] exI [of _ json]) (simp add: 0 e)
  next
    case (Suc j)
    have gas: "unat gas' = unat gas + gas_spent e" using unat_add_or_panic [OF gas'] by (simp add: gas_spent_def e)
    have index: "unat index' = unat index + logs_emitted e"
      using unat_add_or_panic [OF index'] Cons.prems(4) [of e]
      by (simp add: logs_emitted_def u256_of_len_def unat_of_nat e)
    have "distinct (map hash_of txs)" using Cons.prems(2) by simp
    moreover have "has_result (update_receipt_params s (hash_hex (tx_hash tx)) json db) s (hash_of e')"
      if "e' \<in> set txs" for e' using Cons.prems(3) [of e'] that by (simp add: receipt_at_update)
    moreover have "logs_emitted e' < 2 ^ 256" if "e' \<in> set txs" for e' using Cons.prems(4) [of e'] that by simp
    moreover have "j < length txs" using Cons.prems(5) Suc by simp
    ultimately show ?thesis
      using Cons.IH [OF run, of j] by (simp only: Suc gas index nth_Cons_Suc take_Suc_Cons list.map sum_list.Cons add.assoc)
  qed
qed simp

text \<open>
  C24. What is stored for the transactions of a produced block: for each, the block's hash
  and number, its index, the gas of all transactions before it in the block, and the
  number of logs of these.
\<close>

theorem receipt_params_exact:
  assumes "store_receipts lib s params 0 0 txs db = Ok db'"
    and "distinct (map hash_of txs)" and "\<And>e. e \<in> set txs \<Longrightarrow> has_result db s (hash_of e)"
    and "\<And>e. e \<in> set txs \<Longrightarrow> logs_emitted e < 2 ^ 256" and "i < length txs"
  shows "\<exists>rp json. receipt_to_json lib rp = Some json \<and> receipt_at db' s (hash_of (txs ! i)) = Some json \<and>
    rc_blockhash rp = bp_hash params \<and> rc_block_number rp = bp_number params \<and> rc_tx_index rp = fst (txs ! i) \<and>
    unat (rc_block_gas_used rp) = sum_list (map gas_spent (take i txs)) \<and>
    unat (rc_first_log_index rp) = sum_list (map logs_emitted (take i txs))"
  using store_receipts_sums [OF assms] by simp

definition test_result :: "eth_log list \<Rightarrow> u256 \<Rightarrow> tx_result" where
  "test_result logs gas = default_tx_result\<lparr>res_logs := logs,
     res_gas_report := default_gas_report\<lparr>gas_value := gas\<rparr>\<rparr>"

lemma test_result_sel [simp]:
  "res_logs (test_result logs gas) = logs" "gas_value (res_gas_report (test_result logs gas)) = gas"
  by (simp_all add: test_result_def)

definition test_txs :: "(nat \<times> transaction \<times> tx_result) list" where
  "test_txs = [(0, default_transaction, test_result [default_log, default_log] 10),
     (1, default_transaction\<lparr>tx_hash := 1\<rparr>, test_result [default_log] 5)]"

definition test_results_db :: db where
  "test_results_db = test_db\<lparr>db_evm_tx_result :=
     [((5, hash_hex 0), \<lparr>tr_tx_result = [], tr_receipt_params = None\<rparr>),
      ((5, hash_hex 1), \<lparr>tr_tx_result = [], tr_receipt_params = None\<rparr>)]\<rparr>"

lemma test_sums:
  "add_or_panic (0::u256) 10 = Ok 10" "add_or_panic (10::u256) 5 = Ok 15"
  "add_or_panic (0::u256) (u256_of_len (Suc (Suc 0))) = Ok 2" "add_or_panic (2::u256) (u256_of_len (Suc 0)) = Ok 3"
  by (simp_all add: add_or_panic_def checked_add_def u256_of_len_def)

lemma test_receipt_json: "receipt_to_json test_pg_lib rp = Some []"
  by (simp add: test_pg_lib_def)

lemma test_store_receipts:
  "\<exists>db'. store_receipts test_pg_lib 5 (test_block_params 7) 0 0 test_txs test_results_db = Ok db'"
  unfolding test_txs_def by (simp add: test_sums test_receipt_json)

theorem receipt_params_exact_witness:
  "\<exists>db' rp json. store_receipts test_pg_lib 5 (test_block_params 7) 0 0 test_txs test_results_db = Ok db' \<and>
    receipt_at db' 5 1 = Some json \<and> receipt_to_json test_pg_lib rp = Some json \<and>
    unat (rc_block_gas_used rp) = 10 \<and> unat (rc_first_log_index rp) = 2"
proof -
  obtain db' where run: "store_receipts test_pg_lib 5 (test_block_params 7) 0 0 test_txs test_results_db = Ok db'"
    using test_store_receipts by blast
  have "distinct (map hash_of test_txs)" by (simp add: test_txs_def hash_of_def default_transaction_def)
  moreover have "has_result test_results_db 5 (hash_of e)" "logs_emitted e < 2 ^ 256" if "e \<in> set test_txs" for e
    using that by (auto simp: test_txs_def hash_of_def has_result_def test_results_db_def default_transaction_def
        logs_emitted_def)
  moreover have "Suc 0 < length test_txs" by (simp add: test_txs_def)
  ultimately obtain rp json where rp: "receipt_to_json test_pg_lib rp = Some json"
    "receipt_at db' 5 (hash_of (test_txs ! Suc 0)) = Some json"
    "unat (rc_block_gas_used rp) = sum_list (map gas_spent (take (Suc 0) test_txs))"
    "unat (rc_first_log_index rp) = sum_list (map logs_emitted (take (Suc 0) test_txs))"
    using receipt_params_exact [OF run, of "Suc 0"] by blast
  have "hash_of (test_txs ! Suc 0) = 1" "sum_list (map gas_spent (take (Suc 0) test_txs)) = 10"
    "sum_list (map logs_emitted (take (Suc 0) test_txs)) = 2"
    by (simp_all add: test_txs_def gas_spent_def logs_emitted_def hash_of_def)
  with rp run show ?thesis by metis
qed

section \<open>Receipts\<close>

lemma receipt_logs_index:
  assumes "receipt_logs tx rp k index logs = Ok out" and "j < length logs"
  shows "log_log_index (out ! j) = Some (word_of_nat (k + j) + (index + word_of_nat j)) \<and>
    log_transaction_log_index (out ! j) = Some (index + word_of_nat j)"
  using assms
proof (induction logs arbitrary: k index out j)
  case (Cons log logs)
  obtain x ix out' where x: "checked_add (word_of_nat k) index = Some x"
    and n: "add_or_panic index 1 = Ok ix" and rest: "receipt_logs tx rp (Suc k) ix logs = Ok out'"
    and out: "log_log_index (out ! 0) = Some x" "log_transaction_log_index (out ! 0) = Some index"
      "out = (out ! 0) # out'"
    using Cons.prems(1) by (auto simp: res_elims)
  show ?case
  proof (cases j)
    case 0
    then show ?thesis using x out by (simp add: checked_add_Some)
  next
    case (Suc i)
    have "out ! j = out' ! i" by (subst out(3)) (simp add: Suc)
    moreover have "ix = index + 1" using n by (simp add: add_or_panic_Ok)
    moreover have "i < length logs" using Cons.prems(2) Suc by simp
    ultimately show ?thesis using Cons.IH [OF rest, of i] by (simp add: Suc add.commute add.left_commute)
  qed
qed simp

lemma length_receipt_logs: "receipt_logs tx rp k index logs = Ok out \<Longrightarrow> length out = length logs"
  by (induction tx rp k index logs arbitrary: out rule: receipt_logs.induct) (auto simp: res_elims)

text \<open>
  In a receipt the index of a log in the block is counted twice: it is the position in
  the transaction added to an index that is itself incremented for every log.  The cumulative
  gas is that of the block up to and including the transaction, but the \<open>j\<close>-th log gets the
  index \<open>first + 2 j\<close>, so that the second log of a transaction with two logs has the index of the
  first log of the transaction that follows.
\<close>

theorem receipt_log_indices:
  assumes "new_receipt lib tx r rp = Ok rc" and "j < length (res_logs r)"
  shows "log_log_index (tc_logs rc ! j) = Some (rc_first_log_index rp + 2 * word_of_nat j) \<and>
    unat (tc_cumulative_gas_used rc) = unat (rc_block_gas_used rp) + unat (gas_value (res_gas_report r))"
proof -
  obtain gas logs where "checked_add (rc_block_gas_used rp) (gas_value (res_gas_report r)) = Some gas"
    and "receipt_logs tx rp 0 (rc_first_log_index rp) (res_logs r) = Ok logs"
    and "tc_cumulative_gas_used rc = gas" and "tc_logs rc = logs"
    using assms(1) by (auto simp: new_receipt_def res_elims)
  then show ?thesis
    using receipt_logs_index [of tx rp 0 "rc_first_log_index rp" "res_logs r" logs j] assms(2) unat_checked_add
    by (simp add: algebra_simps)
qed

definition test_receipt_params :: "nat \<Rightarrow> u256 \<Rightarrow> receipt_params" where
  "test_receipt_params n first = \<lparr>rc_blockhash = 9, rc_block_number = 7, rc_tx_index = n,
     rc_block_gas_used = 0, rc_first_log_index = first\<rparr>"

lemma test_new_receipt:
  "\<exists>rc. new_receipt test_pg_lib default_transaction (test_result [default_log, default_log] 10)
     (test_receipt_params 0 0) = Ok rc"
  "\<exists>rc. new_receipt test_pg_lib default_transaction (test_result [default_log] 5) (test_receipt_params 1 2) = Ok rc"
  by (simp_all add: new_receipt_def add_or_panic_def checked_add_def test_receipt_params_def)

theorem receipt_log_indices_witness:
  "\<exists>rc1 rc2. new_receipt test_pg_lib default_transaction (test_result [default_log, default_log] 10)
      (test_receipt_params 0 0) = Ok rc1 \<and>
    new_receipt test_pg_lib default_transaction (test_result [default_log] 5) (test_receipt_params 1 2) = Ok rc2 \<and>
    log_log_index (tc_logs rc1 ! 1) = log_log_index (tc_logs rc2 ! 0)"
proof -
  obtain rc1 rc2 where
    r: "new_receipt test_pg_lib default_transaction (test_result [default_log, default_log] 10) (test_receipt_params 0 0) = Ok rc1"
      "new_receipt test_pg_lib default_transaction (test_result [default_log] 5) (test_receipt_params 1 2) = Ok rc2"
    using test_new_receipt by blast
  have "log_log_index (tc_logs rc1 ! 1) = Some 2"
    using receipt_log_indices [OF r(1), of 1] by (simp add: test_receipt_params_def)
  moreover have "log_log_index (tc_logs rc2 ! 0) = Some 2"
    using receipt_log_indices [OF r(2), of 0] by (simp add: test_receipt_params_def)
  ultimately show ?thesis using r by simp
qed

text \<open>
  The receipt of a deposit cannot be read: the storage recovers the sender of every
  transaction from its signature, and a deposit has none.  (The parser makes an exception for
  deposits when it decodes them.)
\<close>

theorem deposit_receipt_unavailable:
  assumes "transaction_rows (hash_hex hash) (pg_db pg) = row # rows" and "pg_up pg (pg_calls pg)"
    and "tx_from_rlp (pl_rows lib) (tw_rlp row) = Some tx" and "tx_transaction_type tx = Some deposit_type"
    and "\<And>t. tx_transaction_type t = Some deposit_type \<Longrightarrow> pl_recover_from lib t = None"
  shows "snd (pg_get_transaction_receipt lib pg hash) = Err SignatureError \<and>
    snd (pg_get_transaction lib pg hash) = Err SignatureError"
  using assms
  by (simp add: pg_get_transaction_receipt_def pg_get_transaction_def reading_def in_transaction_def Let_def row_tx_def)

definition test_deposit_pg :: pg where
  "test_deposit_pg = test_pg\<lparr>pg_db := test_results_db\<lparr>db_evm_tx := [(hash_hex 0, [])]\<rparr>\<rparr>"

definition test_deposit_lib :: pg_lib where
  "test_deposit_lib = test_pg_lib\<lparr>pl_rows := test_row_lib\<lparr>tx_from_rlp :=
     (\<lambda>_. Some (default_transaction\<lparr>tx_transaction_type := Some deposit_type\<rparr>))\<rparr>\<rparr>"

theorem deposit_receipt_unavailable_witness:
  "snd (pg_get_transaction_receipt test_deposit_lib test_deposit_pg 0) = Err SignatureError"
proof -
  have "\<exists>row rows. transaction_rows (hash_hex 0) (pg_db test_deposit_pg) = row # rows"
    by (simp add: transaction_rows_def test_deposit_pg_def test_pg_def test_results_db_def List.map_filter_def)
  then obtain row rows where r: "transaction_rows (hash_hex 0) (pg_db test_deposit_pg) = row # rows" by blast
  show ?thesis
    using deposit_receipt_unavailable [OF r, of test_deposit_lib
        "default_transaction\<lparr>tx_transaction_type := Some deposit_type\<rparr>"]
    by (simp add: test_deposit_pg_def test_pg_def test_deposit_lib_def test_pg_lib_def)
qed

end
