(* ===== verification/Holders.thy ===== *)
theory Holders
  imports Rome_Prelude
begin

unbundle bit_operations_syntax

text \<open>
  \<^verbatim>\<open>rome-utils/src/holder\<close>: holder indices shared by tasks through the 64 bits of one
  atomic integer.  A task is between two atomic operations of \<^verbatim>\<open>Holder::try_new\<close> or of
  \<^verbatim>\<open>drop\<close>; every atomic operation is one step, and the steps of the tasks interleave in
  any way.
\<close>

section \<open>Holders\<close>

text \<open>
  \<open>Trying b i\<close>: in the loop of \<^verbatim>\<open>try_new\<close> at index \<open>i\<close> with the local copy \<open>b\<close>;
  \<open>Held i\<close>: owns the holder; \<open>Dropping i c\<close>: in the loop of \<^verbatim>\<open>drop\<close>, having loaded \<open>c\<close>.
\<close>

datatype holder_phase = Trying u64 nat | Held nat | Dropping nat u64

record holders =
  bitset :: u64
  tasks :: "nat \<rightharpoonup> holder_phase"

definition holder_mask :: "nat \<Rightarrow> u64" where
  "holder_mask index = push_bit index 1"

text \<open>\<^verbatim>\<open>compare_exchange\<close>: the new value and \<open>Ok\<close>, or \<open>Err\<close> of the current one.\<close>

definition compare_exchange :: "u64 \<Rightarrow> u64 \<Rightarrow> u64 \<Rightarrow> u64 \<times> bool" where
  "compare_exchange current expected new = (if current = expected then (new, True) else (current, False))"

text \<open>
  One iteration of the \<^verbatim>\<open>for\<close> loop of \<^verbatim>\<open>try_new\<close> on the shared value: what becomes of it
  and of the task.  \<open>None\<close> is the end of the loop: no holder.
\<close>

definition try_iteration :: "u64 \<Rightarrow> u64 \<Rightarrow> nat \<Rightarrow> u64 \<times> holder_phase option" where
  "try_iteration shared b index =
     (if 64 \<le> index then (shared, None)
      else if b AND holder_mask index = 0 then
        (case compare_exchange shared b (b OR holder_mask index) of
           (shared', True) \<Rightarrow> (shared', Some (Held index))
         | (shared', False) \<Rightarrow> (shared', Some (Trying shared' (Suc index))))
      else (shared, Some (Trying b (Suc index))))"

text \<open>
  One iteration of the loop of \<^verbatim>\<open>drop\<close> after the load; \<^verbatim>\<open>compare_exchange_weak\<close> may
  fail for no reason (\<open>spurious\<close>), and then the value is loaded again.
\<close>

definition drop_iteration :: "bool \<Rightarrow> u64 \<Rightarrow> nat \<Rightarrow> u64 \<Rightarrow> u64 \<times> holder_phase option" where
  "drop_iteration spurious shared index current =
     (if current AND holder_mask index = 0 then (shared, None)
      else if spurious then (shared, Some (Dropping index shared))
      else (case compare_exchange shared current (current AND NOT (holder_mask index)) of
              (shared', True) \<Rightarrow> (shared', None)
            | (shared', False) \<Rightarrow> (shared', Some (Dropping index shared'))))"

definition run_task :: "nat \<Rightarrow> u64 \<times> holder_phase option \<Rightarrow> holders \<Rightarrow> holders" where
  "run_task t r h = (case r of (shared, phase) \<Rightarrow> h\<lparr>bitset := shared, tasks := (tasks h)(t := phase)\<rparr>)"

inductive holder_step :: "holders \<Rightarrow> holders \<Rightarrow> bool" where
  holder_load: "tasks h t = None \<Longrightarrow> holder_step h (run_task t (bitset h, Some (Trying (bitset h) 0)) h)"
| holder_try: "tasks h t = Some (Trying b index) \<Longrightarrow> holder_step h (run_task t (try_iteration (bitset h) b index) h)"
| holder_drop_load: "tasks h t = Some (Held index) \<Longrightarrow>
    holder_step h (run_task t (bitset h, Some (Dropping index (bitset h))) h)"
| holder_drop: "tasks h t = Some (Dropping index c) \<Longrightarrow>
    holder_step h (run_task t (drop_iteration spurious (bitset h) index c) h)"

inductive holder_run :: "holders \<Rightarrow> holders \<Rightarrow> bool" where
  holder_run_refl: "holder_run h h"
| holder_run_step: "holder_step h h' \<Longrightarrow> holder_run h' h'' \<Longrightarrow> holder_run h h''"

text \<open>\<^verbatim>\<open>HolderFactory::new\<close>.\<close>

definition new_holder_factory :: holders where
  "new_holder_factory = \<lparr>bitset = 0, tasks = Map.empty\<rparr>"

definition available_holders :: "u64 \<Rightarrow> u8" where
  "available_holders b = fold (\<lambda>i acc. acc + ucast (drop_bit i b AND 1)) [0..<64] 0"

section \<open>Invariant\<close>

text \<open>The index a task owns, from the exchange that set its bit to the one that clears it.\<close>

fun owned :: "holder_phase option \<Rightarrow> nat option" where
  "owned (Some (Held i)) = Some i"
| "owned (Some (Dropping i c)) = Some i"
| "owned _ = None"

definition holders_inv :: "holders \<Rightarrow> bool" where
  "holders_inv h \<longleftrightarrow>
     (\<forall>t i. owned (tasks h t) = Some i \<longrightarrow> i < 64) \<and>
     (\<forall>t t' i. owned (tasks h t) = Some i \<longrightarrow> owned (tasks h t') = Some i \<longrightarrow> t = t') \<and>
     (\<forall>i < 64. bit (bitset h) i \<longleftrightarrow> (\<exists>t. owned (tasks h t) = Some i)) \<and>
     (\<forall>t i c. tasks h t = Some (Dropping i c) \<longrightarrow> bit c i)"

lemma bit_mask [simp]: "bit (holder_mask i) j \<longleftrightarrow> i = j \<and> j < 64"
  by (auto simp: holder_mask_def bit_exp_iff possible_bit_def)

lemma and_mask: "i < 64 \<Longrightarrow> b AND holder_mask i = 0 \<longleftrightarrow> \<not> bit b i" for b :: u64
proof
  assume i: "i < 64" and z: "b AND holder_mask i = 0"
  have "\<not> bit (b AND holder_mask i) i" by (simp add: z)
  then show "\<not> bit b i" using i by (simp add: bit_and_iff)
qed (rule bit_eqI, auto simp: bit_and_iff)

lemma bit_add_index: "i < 64 \<Longrightarrow> j < 64 \<Longrightarrow> bit (b OR holder_mask i) j \<longleftrightarrow> bit b j \<or> j = i" for b :: u64
  by (auto simp: bit_or_iff)

lemma bit_remove_index: "i < 64 \<Longrightarrow> j < 64 \<Longrightarrow> bit (b AND NOT (holder_mask i)) j \<longleftrightarrow> bit b j \<and> j \<noteq> i" for b :: u64
  by (auto simp: bit_and_iff bit_not_iff)

text \<open>What a task may do to the shared value and to what it owns.\<close>

lemma holders_inv_keep:
  assumes "holders_inv h" and "owned phase = owned (tasks h t)" and "\<And>i c. phase = Some (Dropping i c) \<Longrightarrow> bit c i"
  shows "holders_inv (run_task t (bitset h, phase) h)"
proof -
  have "owned (((tasks h)(t := phase)) t') = owned (tasks h t')" for t' using assms(2) by simp
  then show ?thesis using assms(1,3) by (auto simp: holders_inv_def run_task_def split: if_splits)
qed

lemma holders_inv_take:
  assumes "holders_inv h" and "owned (tasks h t) = None" and "i < 64" and "\<not> bit (bitset h) i"
  shows "holders_inv (run_task t (bitset h OR holder_mask i, Some (Held i)) h)"
proof -
  have free: "owned (tasks h t') \<noteq> Some i" for t' using assms(1,3,4) by (auto simp: holders_inv_def)
  have "owned (((tasks h)(t := Some (Held i))) t') = (if t' = t then Some i else owned (tasks h t'))" for t' by simp
  then show ?thesis using assms free
    by (auto simp: holders_inv_def run_task_def bit_add_index split: if_splits) (metis option.distinct(1))
qed

lemma holders_inv_release:
  assumes "holders_inv h" and "owned (tasks h t) = Some i"
  shows "holders_inv (run_task t (bitset h AND NOT (holder_mask i), None) h)"
proof -
  have i: "i < 64" using assms by (auto simp: holders_inv_def)
  have "owned (((tasks h)(t := None)) t') = (if t' = t then None else owned (tasks h t'))" for t' by simp
  then show ?thesis using assms i
    by (auto simp: holders_inv_def run_task_def bit_remove_index split: if_splits) (metis option.inject)+
qed

lemma holders_inv_step: "holder_step h h' \<Longrightarrow> holders_inv h \<Longrightarrow> holders_inv h'"
proof (induction rule: holder_step.induct)
  case (holder_load h t)
  then show ?case by (intro holders_inv_keep) auto
next
  case (holder_try h t b index)
  show ?case
  proof (cases "index < 64 \<and> \<not> bit b index \<and> bitset h = b")
    case True
    then show ?thesis
      using holders_inv_take [of h t index] holder_try
      by (simp add: try_iteration_def and_mask compare_exchange_def)
  next
    case False
    then have "try_iteration (bitset h) b index = (bitset h,
      if 64 \<le> index then None else Some (Trying (if bit b index then b else bitset h) (Suc index)))"
      by (auto simp: try_iteration_def and_mask compare_exchange_def)
    then show ?thesis using holder_try by (auto intro!: holders_inv_keep)
  qed
next
  case (holder_drop_load h t index)
  then have "index < 64" "bit (bitset h) index"
    by (auto simp: holders_inv_def) (metis owned.simps(1))+
  then show ?case using holder_drop_load by (intro holders_inv_keep) auto
next
  case (holder_drop h t index c spurious)
  then have i: "index < 64" "bit c index" "bit (bitset h) index"
    by (auto simp: holders_inv_def) (metis owned.simps(2))+
  show ?case
  proof (cases "\<not> spurious \<and> bitset h = c")
    case True
    then show ?thesis
      using holders_inv_release [of h t index] holder_drop i
      by (simp add: drop_iteration_def and_mask compare_exchange_def)
  next
    case False
    then have "drop_iteration spurious (bitset h) index c = (bitset h, Some (Dropping index (bitset h)))"
      using i by (auto simp: drop_iteration_def and_mask compare_exchange_def)
    then show ?thesis using holder_drop i by (auto intro!: holders_inv_keep)
  qed
qed

lemma holders_inv_run: "holder_run h h' \<Longrightarrow> holders_inv h \<Longrightarrow> holders_inv h'"
  by (induction rule: holder_run.induct) (auto intro: holders_inv_step)

lemma holders_inv_new: "holders_inv new_holder_factory"
  by (simp add: holders_inv_def new_holder_factory_def)

text \<open>
  C7. However the atomic operations of the tasks interleave, no two tasks ever own the same
  holder, and the bits set are exactly those of the holders owned.
\<close>

theorem holders_exclusive:
  assumes "holder_run new_holder_factory h"
  shows "(\<forall>t t' i. owned (tasks h t) = Some i \<and> owned (tasks h t') = Some i \<longrightarrow> t = t') \<and>
    {i. i < 64 \<and> bit (bitset h) i} = {i. \<exists>t. owned (tasks h t) = Some i}"
  using holders_inv_run [OF assms holders_inv_new] by (auto simp: holders_inv_def)

definition test_holders :: holders where
  "test_holders = \<lparr>bitset = 3, tasks = [0 \<mapsto> Held 0, 1 \<mapsto> Held 1]\<rparr>"

lemma test_two_holders: "holder_run new_holder_factory test_holders"
proof -
  let ?h1 = "\<lparr>bitset = 0, tasks = [0 \<mapsto> Trying 0 0]\<rparr>"
  let ?h2 = "\<lparr>bitset = 0, tasks = [0 \<mapsto> Trying 0 0, 1 \<mapsto> Trying 0 0]\<rparr>"
  let ?h3 = "\<lparr>bitset = 1, tasks = [0 \<mapsto> Held 0, 1 \<mapsto> Trying 0 0]\<rparr>"
  let ?h4 = "\<lparr>bitset = 1, tasks = [0 \<mapsto> Held 0, 1 \<mapsto> Trying 1 1]\<rparr>"
  let ?h5 = "\<lparr>bitset = 3, tasks = [0 \<mapsto> Held 0, 1 \<mapsto> Held 1]\<rparr>"
  have "holder_step new_holder_factory ?h1"
    using holder_load [of new_holder_factory 0] by (simp add: new_holder_factory_def run_task_def)
  moreover have "holder_step ?h1 ?h2"
    using holder_load [of ?h1 1] by (simp add: run_task_def)
  moreover have "holder_step ?h2 ?h3"
    using holder_try [of ?h2 0 0 0]
    by (simp add: run_task_def try_iteration_def holder_mask_def compare_exchange_def fun_upd_twist)
  moreover have "holder_step ?h3 ?h4"
    using holder_try [of ?h3 1 0 0]
    by (simp add: run_task_def try_iteration_def holder_mask_def compare_exchange_def)
  moreover have "holder_step ?h4 ?h5"
    using holder_try [of ?h4 1 1 1]
    by (simp add: run_task_def try_iteration_def holder_mask_def compare_exchange_def)
  ultimately show ?thesis unfolding test_holders_def by (meson holder_run_step holder_run_refl)
qed

theorem holders_exclusive_witness:
  "{i. i < 64 \<and> bit (bitset test_holders) i} = {i. \<exists>t. owned (tasks test_holders t) = Some i}"
  using holders_exclusive [OF test_two_holders] by (rule conjunct2)

section \<open>The number of holders\<close>

lemma low_bit: "drop_bit i b AND 1 = (of_bool (bit b i) :: u64)"
  unfolding and_one_eq mod_2_eq_odd bit_iff_odd_drop_bit by (rule refl)

lemma fold_bits:
  "fold (\<lambda>i acc. acc + ucast (drop_bit i b AND 1)) xs (word_of_nat n :: u8) =
    word_of_nat (n + length (filter (bit b) xs))" for b :: u64
proof (induction xs arbitrary: n)
  case (Cons x xs)
  have "word_of_nat n + ucast (drop_bit x b AND 1) = (word_of_nat (if bit b x then Suc n else n) :: u8)"
    by (cases "bit b x") (simp_all only: low_bit of_bool_eq if_True if_False unsigned_1 unsigned_0 of_nat_Suc add.commute add_0)
  then show ?case using Cons [of "if bit b x then Suc n else n"] by (simp split: if_splits)
qed simp

text \<open>
  \<^verbatim>\<open>available_holders\<close>, which is documented as the number of available holders, is the
  number of holders in use.
\<close>

theorem available_holders_counts_used:
  assumes "holder_run new_holder_factory h"
  shows "unat (available_holders (bitset h)) = card {i. \<exists>t. owned (tasks h t) = Some i}"
proof -
  have "card {i. \<exists>t. owned (tasks h t) = Some i} = card {i. i < 64 \<and> bit (bitset h) i}"
    using holders_inv_run [OF assms holders_inv_new] by (intro arg_cong [where f = card]) (auto simp: holders_inv_def)
  also have "{i. i < 64 \<and> bit (bitset h) i} = set (filter (bit (bitset h)) [0..<64])" by auto
  also have "card \<dots> = length (filter (bit (bitset h)) [0..<64])" by (intro distinct_card) simp
  finally have card: "card {i. \<exists>t. owned (tasks h t) = Some i} = length (filter (bit (bitset h)) [0..<64])" .
  have "length (filter (bit (bitset h)) [0..<64]) \<le> 64" using length_filter_le [of "bit (bitset h)" "[0..<64]"] by simp
  then have "length (filter (bit (bitset h)) [0..<64]) < 2 ^ LENGTH(8)" by simp
  then show ?thesis
    using fold_bits [of "bitset h" "[0..<64]" 0] card by (simp add: available_holders_def unat_of_nat)
qed

theorem available_holders_counts_used_witness:
  "unat (available_holders (bitset test_holders)) = card {i. \<exists>t. owned (tasks test_holders t) = Some i}"
  by (rule available_holders_counts_used [OF test_two_holders])

end
