(* ===== verification/Resources.thy ===== *)
theory Resources
  imports Rome_Prelude "HOL-Library.Multiset"
begin

text \<open>
  \<^verbatim>\<open>rome-evm-client/src/resources.rs\<close>: the pool of payers and holder accounts.  A
  \<^verbatim>\<open>ResourceFactory\<close> is a vector behind a mutex that every transaction under construction
  pops a \<^verbatim>\<open>Resource\<close> from; dropping the resource pushes the item back.  A key pair is
  its public key.
\<close>

section \<open>Payers\<close>

type_synonym keypair = "256 word"

datatype resource_type = FeeRecipients "address list" | Holders u64

record payer_config =
  cfg_payer_keypair :: string
  cfg_fee_recipients :: "address list option"
  cfg_number_holders :: "u64 option"

record payer =
  pay_keypair :: keypair
  pay_resource_type :: resource_type

text \<open>
  \<^verbatim>\<open>Payer::from_config\<close>; \<open>read\<close> is the reading of a key file.  \<^verbatim>\<open>anyhow\<close> errors are
  \<open>Custom\<close> here.
\<close>

definition payer_from_config :: "(string \<Rightarrow> keypair option) \<Rightarrow> payer_config \<Rightarrow> payer res" where
  "payer_from_config read cfg =
     try_res (ok_or (Custom ''key file'') (read (cfg_payer_keypair cfg))) (\<lambda>key.
       if cfg_number_holders cfg = None \<and> cfg_fee_recipients cfg = None \<or>
          cfg_number_holders cfg \<noteq> None \<and> cfg_fee_recipients cfg \<noteq> None
       then Err (Custom ''Failed to parse payers from config: fee_recipients or holders expected'')
       else try_res (case cfg_fee_recipients cfg of
           Some accs \<Rightarrow> Ok (FeeRecipients accs)
         | None \<Rightarrow> try_res (expect ''unwrap'' (cfg_number_holders cfg)) (\<lambda>n. Ok (Holders n))) (\<lambda>t.
           Ok \<lparr>pay_keypair = key, pay_resource_type = t\<rparr>))"

fun payers_from_config_list :: "(string \<Rightarrow> keypair option) \<Rightarrow> payer_config list \<Rightarrow> payer list res" where
  "payers_from_config_list read [] = Ok []"
| "payers_from_config_list read (cfg # cfgs) =
     try_res (payer_from_config read cfg) (\<lambda>p.
     try_res (payers_from_config_list read cfgs) (\<lambda>ps. Ok (p # ps)))"

section \<open>Items\<close>

record resource_item =
  it_payer_keypair :: keypair
  it_holder :: u64
  it_fee_recipient :: "address option"

definition items_from_payer :: "payer \<Rightarrow> resource_item list" where
  "items_from_payer p =
     (case pay_resource_type p of
        FeeRecipients fee \<Rightarrow>
          map (\<lambda>(ix, recip). \<lparr>it_payer_keypair = pay_keypair p, it_holder = word_of_nat ix,
            it_fee_recipient = Some recip\<rparr>) (List.enumerate 0 fee)
      | Holders number \<Rightarrow>
          map (\<lambda>h. \<lparr>it_payer_keypair = pay_keypair p, it_holder = word_of_nat h, it_fee_recipient = None\<rparr>)
            [0..<unat number])"

text \<open>The vector of the factory; its end is where items are popped and pushed.\<close>

definition factory_from_payers :: "payer list \<Rightarrow> resource_item list" where
  "factory_from_payers payers = rev (concat (map items_from_payer payers))"

text \<open>One round of the loop of \<^verbatim>\<open>get\<close>: \<open>None\<close> when there is nothing to pop.\<close>

definition factory_pop :: "resource_item list \<Rightarrow> (resource_item list \<times> resource_item) option" where
  "factory_pop items = (if items = [] then None else Some (butlast items, last items))"

definition factory_push :: "resource_item list \<Rightarrow> resource_item \<Rightarrow> resource_item list" where
  "factory_push items item = items @ [item]"

definition resource_holder :: "resource_item \<Rightarrow> bytes" where
  "resource_holder r = u64_le (it_holder r)"

definition resource_fee_recipient :: "resource_item \<Rightarrow> bytes" where
  "resource_fee_recipient r =
     (case it_fee_recipient r of None \<Rightarrow> [0] | Some a \<Rightarrow> 1 # address_be a)"

section \<open>Tasks that share a factory\<close>

text \<open>
  Tasks get and drop resources in any order.  \<open>pool_live\<close> are the resources not yet dropped,
  each with a number of its own; \<open>Wait\<close> is a round of \<^verbatim>\<open>get\<close> that finds nothing and
  yields.
\<close>

record pool =
  pool_free :: "resource_item list"
  pool_live :: "nat \<rightharpoonup> resource_item"

datatype pool_event = Get nat resource_item | Wait nat | Release nat

inductive pool_step :: "pool \<Rightarrow> pool_event \<Rightarrow> pool \<Rightarrow> bool" where
  pool_get: "factory_pop (pool_free p) = Some (items, item) \<Longrightarrow> pool_live p r = None \<Longrightarrow>
    pool_step p (Get r item) (p\<lparr>pool_free := items, pool_live := (pool_live p)(r \<mapsto> item)\<rparr>)"
| pool_wait: "factory_pop (pool_free p) = None \<Longrightarrow> pool_step p (Wait r) p"
| pool_release: "pool_live p r = Some item \<Longrightarrow>
    pool_step p (Release r) (p\<lparr>pool_free := factory_push (pool_free p) item, pool_live := (pool_live p)(r := None)\<rparr>)"

inductive_cases pool_getE: "pool_step p (Get r item) p'"
inductive_cases pool_releaseE: "pool_step p (Release r) p'"

inductive pool_run :: "pool \<Rightarrow> pool_event list \<Rightarrow> pool \<Rightarrow> bool" where
  pool_run_refl: "pool_run p [] p"
| pool_run_step: "pool_step p e p' \<Longrightarrow> pool_run p' es p'' \<Longrightarrow> pool_run p (e # es) p''"

definition new_pool :: "payer list \<Rightarrow> pool" where
  "new_pool payers = \<lparr>pool_free = factory_from_payers payers, pool_live = Map.empty\<rparr>"

section \<open>Invariant\<close>

text \<open>Every item is free or held by one live resource.\<close>

definition pool_inv :: "resource_item list \<Rightarrow> pool \<Rightarrow> bool" where
  "pool_inv items p \<longleftrightarrow> finite (dom (pool_live p)) \<and>
     mset (pool_free p) + image_mset (\<lambda>r. the (pool_live p r)) (mset_set (dom (pool_live p))) = mset items"

lemma factory_pop_Some: "factory_pop items = Some (items', item) \<longleftrightarrow> items = items' @ [item]"
  by (cases items rule: rev_cases) (auto simp: factory_pop_def)

lemma image_mset_upd:
  assumes "finite (dom m)" and "m r = None"
  shows "image_mset (\<lambda>r'. the ((m(r \<mapsto> x)) r')) (mset_set (dom (m(r \<mapsto> x)))) =
    add_mset x (image_mset (\<lambda>r. the (m r)) (mset_set (dom m)))"
proof -
  have r: "r \<notin> dom m" using assms(2) by auto
  have "image_mset (\<lambda>r'. the ((m(r \<mapsto> x)) r')) (mset_set (dom m)) = image_mset (\<lambda>r. the (m r)) (mset_set (dom m))"
    by (rule image_mset_cong) (use r assms(1) in auto)
  then show ?thesis using r assms(1) by simp
qed

lemma pool_inv_step: "pool_step p e p' \<Longrightarrow> pool_inv items p \<Longrightarrow> pool_inv items p'"
proof (induction rule: pool_step.induct)
  case (pool_get p items' item r)
  then show ?case
    using image_mset_upd [of "pool_live p" r item] by (simp add: pool_inv_def factory_pop_Some)
next
  case (pool_release p r item)
  let ?m = "(pool_live p)(r := None)"
  have m: "pool_live p = ?m(r \<mapsto> item)" "?m r = None" using pool_release.hyps by auto
  have "finite (dom ?m)" using pool_release.prems by (simp add: pool_inv_def)
  from image_mset_upd [OF this m(2), of item, folded m(1)] pool_release.prems this
  show ?case by (simp add: pool_inv_def factory_push_def del: fun_upd_apply dom_fun_upd)
qed simp

lemma pool_inv_run: "pool_run p es p' \<Longrightarrow> pool_inv items p \<Longrightarrow> pool_inv items p'"
  by (induction rule: pool_run.induct) (auto intro: pool_inv_step)

lemma pool_inv_new: "pool_inv (factory_from_payers payers) (new_pool payers)"
  by (simp add: pool_inv_def new_pool_def)

lemma pool_inv_distinct:
  assumes "pool_inv items p" and "distinct items"
    and "pool_live p r1 = Some i1" and "pool_live p r2 = Some i2" and "r1 \<noteq> r2"
  shows "i1 \<noteq> i2"
proof
  assume eq: "i1 = i2"
  let ?m = "pool_live p"
  have fin: "finite (dom ?m)" using assms(1) by (simp add: pool_inv_def)
  have "{r1, r2} \<subseteq> dom ?m" using assms(3,4) by auto
  then have "mset_set {r1, r2} \<subseteq># mset_set (dom ?m)" using fin by (simp add: subset_imp_msubset_mset_set)
  then have "image_mset (\<lambda>r. the (?m r)) (mset_set {r1, r2}) \<subseteq># image_mset (\<lambda>r. the (?m r)) (mset_set (dom ?m))"
    by (rule image_mset_subseteq_mono)
  also have "\<dots> \<subseteq># mset items" using assms(1) by (metis pool_inv_def mset_subset_eq_add_right)
  finally have sub: "{#i1, i1#} \<subseteq># mset items" using assms(3,4,5) eq by simp
  have "count {#i1, i1#} i1 \<le> count (mset items) i1" using sub by (rule mset_subset_eq_count)
  moreover have "count (mset items) i1 \<le> 1" using assms(2) by (simp add: distinct_count_atmost_1)
  ultimately show False by simp
qed

text \<open>The items of payers with different keys differ in the key or the holder.\<close>

definition item_key :: "resource_item \<Rightarrow> keypair \<times> u64" where
  "item_key i = (it_payer_keypair i, it_holder i)"

definition payer_fits :: "payer \<Rightarrow> bool" where
  "payer_fits p = (case pay_resource_type p of FeeRecipients fee \<Rightarrow> length fee < 2 ^ 64 | Holders _ \<Rightarrow> True)"

lemma word_of_nat_inj_on: "inj_on (word_of_nat :: nat \<Rightarrow> u64) {0..<n}" if "n \<le> 2 ^ 64"
proof (rule inj_onI)
  fix x y assume xy: "x \<in> {0..<n}" "y \<in> {0..<n}" and eq: "(word_of_nat x :: u64) = word_of_nat y"
  have "x < 2 ^ 64" "y < 2 ^ 64" using xy that by auto
  then show "x = y" using arg_cong [OF eq, of unat] by (simp add: unat_of_nat)
qed

lemma item_keys_payer:
  "payer_fits p \<Longrightarrow> map item_key (items_from_payer p) =
    map (\<lambda>h. (pay_keypair p, word_of_nat h)) [0..<length (items_from_payer p)]"
  by (cases "pay_resource_type p")
    (auto simp: items_from_payer_def item_key_def List.enumerate_eq_zip intro!: nth_equalityI)

lemma length_items_payer: "payer_fits p \<Longrightarrow> length (items_from_payer p) \<le> 2 ^ 64"
  using unat_bound [where 'a = 64]
  by (auto simp: items_from_payer_def payer_fits_def less_imp_le split: resource_type.split)

lemma distinct_items_payer: "payer_fits p \<Longrightarrow> distinct (map item_key (items_from_payer p))"
  unfolding item_keys_payer distinct_map
  using word_of_nat_inj_on [OF length_items_payer] by (auto simp: inj_on_def)

lemma items_payer_key: "i \<in> set (items_from_payer p) \<Longrightarrow> it_payer_keypair i = pay_keypair p"
  by (auto simp: items_from_payer_def split: resource_type.splits)

lemma distinct_factory:
  "distinct (map pay_keypair payers) \<Longrightarrow> list_all payer_fits payers \<Longrightarrow>
    distinct (map item_key (factory_from_payers payers))"
proof (induction payers)
  case (Cons p payers)
  have ne: "item_key i \<noteq> item_key j" if ij: "i \<in> set (items_from_payer p)" "j \<in> set (factory_from_payers payers)" for i j
  proof -
    obtain p' where "p' \<in> set payers" "j \<in> set (items_from_payer p')"
      using ij(2) by (auto simp: factory_from_payers_def)
    then show ?thesis using Cons.prems(1) items_payer_key [OF ij(1)] items_payer_key [of j p']
      by (auto simp: item_key_def)
  qed
  have "distinct (map item_key (factory_from_payers payers))" using Cons by simp
  moreover have "distinct (map item_key (items_from_payer p))" using Cons.prems(2) distinct_items_payer by simp
  moreover have "factory_from_payers (p # payers) = factory_from_payers payers @ rev (items_from_payer p)"
    by (simp add: factory_from_payers_def)
  ultimately show ?case using ne by (auto simp: rev_map [symmetric])
qed (simp add: factory_from_payers_def)

text \<open>What the live resources hold, with repetitions.\<close>

definition held_items :: "pool \<Rightarrow> resource_item multiset" where
  "held_items p = image_mset (\<lambda>r. the (pool_live p r)) (mset_set (dom (pool_live p)))"

lemma pool_inv_key:
  assumes "pool_inv items p" and "distinct (map item_key items)"
    and live: "pool_live p r1 = Some i1" "pool_live p r2 = Some i2" "r1 \<noteq> r2"
  shows "item_key i1 \<noteq> item_key i2"
proof -
  have "i1 \<noteq> i2" using pool_inv_distinct [OF assms(1) _ live] assms(2) by (simp add: distinct_map)
  moreover have "i \<in> set items" if "pool_live p r = Some i" for r i
  proof -
    have "i \<in># image_mset (\<lambda>r. the (pool_live p r)) (mset_set (dom (pool_live p)))"
      using assms(1) that by (force simp: pool_inv_def)
    then show ?thesis using assms(1) by (metis pool_inv_def set_mset_mset union_iff)
  qed
  ultimately show ?thesis using assms(2) live by (meson distinct_map inj_on_def)
qed

text \<open>
  C8. Whatever tasks do, the items that are free and those that live resources hold are together exactly
  the items made of the payers, each as often and with its payer, holder and fee recipient as at the start.
  So none is lost, doubled or changed.  \<^verbatim>\<open>get\<close> only waits when all of them are held.  If
  no two payers have the same key, and none has \<open>2 ^ 64\<close> fee recipients, two resources in use
  at the same time never have the same payer and holder account.
\<close>

theorem resources_exclusive:
  assumes "pool_run (new_pool payers) es p"
  shows "mset (pool_free p) + held_items p = mset (concat (map items_from_payer payers)) \<and>
    (factory_pop (pool_free p) = None \<longleftrightarrow> held_items p = mset (concat (map items_from_payer payers))) \<and>
    (distinct (map pay_keypair payers) \<longrightarrow> list_all payer_fits payers \<longrightarrow>
      (\<forall>r1 r2 i1 i2. pool_live p r1 = Some i1 \<longrightarrow> pool_live p r2 = Some i2 \<longrightarrow> r1 \<noteq> r2 \<longrightarrow>
        item_key i1 \<noteq> item_key i2))"
proof -
  note inv = pool_inv_run [OF assms pool_inv_new]
  have "mset (factory_from_payers payers) = mset (concat (map items_from_payer payers))"
    by (simp add: factory_from_payers_def)
  with inv have all: "mset (pool_free p) + held_items p = mset (concat (map items_from_payer payers))"
    by (simp add: pool_inv_def held_items_def)
  then have "factory_pop (pool_free p) = None \<longleftrightarrow> held_items p = mset (concat (map items_from_payer payers))"
    by (auto simp: factory_pop_def)
  with all show ?thesis using pool_inv_key [OF inv distinct_factory] by blast
qed

definition test_payers :: "payer list" where
  "test_payers = [\<lparr>pay_keypair = 7, pay_resource_type = Holders 2\<rparr>, \<lparr>pay_keypair = 8, pay_resource_type = FeeRecipients [5]\<rparr>]"

lemma test_factory:
  "factory_from_payers test_payers =
    [\<lparr>it_payer_keypair = 8, it_holder = 0, it_fee_recipient = Some 5\<rparr>,
     \<lparr>it_payer_keypair = 7, it_holder = 1, it_fee_recipient = None\<rparr>,
     \<lparr>it_payer_keypair = 7, it_holder = 0, it_fee_recipient = None\<rparr>]"
  by (simp add: factory_from_payers_def test_payers_def items_from_payer_def upt_conv_Cons)

theorem resources_exclusive_witness:
  "\<exists>p. pool_run (new_pool test_payers)
    [Get 0 \<lparr>it_payer_keypair = 7, it_holder = 0, it_fee_recipient = None\<rparr>,
     Get 1 \<lparr>it_payer_keypair = 7, it_holder = 1, it_fee_recipient = None\<rparr>, Release 0] p \<and>
    mset (pool_free p) + held_items p = mset (concat (map items_from_payer test_payers)) \<and>
    (\<forall>r1 r2 i1 i2. pool_live p r1 = Some i1 \<longrightarrow> pool_live p r2 = Some i2 \<longrightarrow> r1 \<noteq> r2 \<longrightarrow> item_key i1 \<noteq> item_key i2)"
proof -
  have "\<exists>p. pool_run (new_pool test_payers)
    [Get 0 \<lparr>it_payer_keypair = 7, it_holder = 0, it_fee_recipient = None\<rparr>,
     Get 1 \<lparr>it_payer_keypair = 7, it_holder = 1, it_fee_recipient = None\<rparr>, Release 0] p"
    unfolding new_pool_def test_factory
    by (rule exI, rule pool_run_step, rule pool_get, simp add: factory_pop_def, simp, simp,
        rule pool_run_step, rule pool_get, simp add: factory_pop_def, simp, simp,
        rule pool_run_step, rule pool_release, simp, rule pool_run_refl)
  then obtain p where run: "pool_run (new_pool test_payers)
    [Get 0 \<lparr>it_payer_keypair = 7, it_holder = 0, it_fee_recipient = None\<rparr>,
     Get 1 \<lparr>it_payer_keypair = 7, it_holder = 1, it_fee_recipient = None\<rparr>, Release 0] p" by blast
  have "distinct (map pay_keypair test_payers)" "list_all payer_fits test_payers"
    by (simp_all add: test_payers_def payer_fits_def)
  then show ?thesis using resources_exclusive [OF run] run by blast
qed

end
