(* ===== verification/Ix_Batches.thy ===== *)
theory Ix_Batches
  imports Resources Log_Parser
begin

text \<open>
  \<^verbatim>\<open>rome-solana/src/batch\<close>: the batches of instructions that become one Solana
  transaction, the steps an \<^verbatim>\<open>AdvanceTx\<close> hands to the tower, and, with \<^verbatim>\<open>util.rs\<close> of
  \<^verbatim>\<open>rome-evm-client\<close>, the emulation the instructions are built from.
\<close>

section \<open>Instructions\<close>

record account_meta =
  am_pubkey :: "256 word"
  am_is_signer :: bool
  am_is_writable :: bool

record instruction =
  ix_program_id :: "256 word"
  ix_accounts :: "account_meta list"
  ix_data :: bytes

type_synonym ix_batch = "instruction list"

record alt_table =
  alt_key :: "256 word"
  alt_addresses :: "256 word list"

datatype tx_version = Legacy | V0 "alt_table list"

text \<open>A Solana transaction is what it was composed from.\<close>

record sol_tx =
  st_payer :: keypair
  st_signers :: "keypair list"
  st_ixs :: ix_batch
  st_blockhash :: h256
  st_version :: tx_version

text \<open>
  What the Solana crates decide: the two instructions of the compute budget, whether a
  versioned message compiles, and whether the signers are those a message needs
  (\<^verbatim>\<open>Transaction::new\<close> panics otherwise).
\<close>

record sol_lib =
  compute_unit_limit :: "nat \<Rightarrow> instruction"
  heap_frame :: "nat \<Rightarrow> instruction"
  v0_compiles :: "sol_tx \<Rightarrow> bool"
  signers_match :: "sol_tx \<Rightarrow> bool"

definition new_owned :: "instruction list \<Rightarrow> ix_batch" where
  "new_owned ixs = ixs"

definition new_composible_owned :: "sol_lib \<Rightarrow> instruction \<Rightarrow> ix_batch" where
  "new_composible_owned lib ix = [compute_unit_limit lib 1400000, heap_frame lib (256 * 1024), ix]"

definition new_composible_batches_owned :: "sol_lib \<Rightarrow> instruction list \<Rightarrow> ix_batch list" where
  "new_composible_batches_owned lib ixs = map (new_composible_owned lib) ixs"

definition batch_push :: "ix_batch \<Rightarrow> instruction list \<Rightarrow> ix_batch" where
  "batch_push b ixs = b @ ixs"

definition sign_legacy :: "sol_lib \<Rightarrow> sol_tx \<Rightarrow> sol_tx res" where
  "sign_legacy lib tx =
     (if signers_match lib tx then Ok tx else Panic ''Transaction::new failed with error'')"

definition compose_legacy_solana_tx :: "sol_lib \<Rightarrow> ix_batch \<Rightarrow> keypair \<Rightarrow> h256 \<Rightarrow> sol_tx res" where
  "compose_legacy_solana_tx lib b payer bh =
     sign_legacy lib \<lparr>st_payer = payer, st_signers = [payer], st_ixs = b, st_blockhash = bh, st_version = Legacy\<rparr>"

definition compose_v0_solana_tx ::
  "sol_lib \<Rightarrow> ix_batch \<Rightarrow> keypair \<Rightarrow> h256 \<Rightarrow> alt_table list \<Rightarrow> sol_tx res" where
  "compose_v0_solana_tx lib b payer bh alt =
     (let tx = \<lparr>st_payer = payer, st_signers = [payer], st_ixs = b, st_blockhash = bh, st_version = V0 alt\<rparr> in
      if v0_compiles lib tx \<and> signers_match lib tx then Ok tx else Err SignerError)"

definition compose_legacy_solana_tx_with_signers ::
  "sol_lib \<Rightarrow> ix_batch \<Rightarrow> keypair \<Rightarrow> keypair list \<Rightarrow> h256 \<Rightarrow> sol_tx res" where
  "compose_legacy_solana_tx_with_signers lib b payer signers bh =
     sign_legacy lib \<lparr>st_payer = payer, st_signers = payer # signers, st_ixs = b, st_blockhash = bh,
       st_version = Legacy\<rparr>"

section \<open>Execution steps\<close>

datatype ix_exec_step =
    Single ix_batch tx_version
  | SingleWithSigners ix_batch "keypair list"
  | Parallel "ix_batch list" tx_version
  | ParallelUnchecked "ix_batch list" tx_version
  | ConfirmationIterativeTx bool
  | WaitNextSlot u64
  | End

section \<open>Emulation\<close>

datatype emulation_exit =
  Succeed | Revert | ErrorExit string | FatalExit string | StepLimitReached

record emulation_vm =
  vm_exit_reason :: emulation_exit
  vm_iteration_count :: u64
  vm_return_value :: "bytes option"

text \<open>The accounts with the flag \<^verbatim>\<open>account.writable\<close>, in the order of the map.\<close>

record emulation =
  em_accounts :: "(256 word \<times> bool) list"
  em_is_atomic :: bool
  em_vm :: "emulation_vm option"
  em_lock_overrides :: bytes
  em_gas :: u64

definition MAX_ALLOWED_ACCOUNTS :: nat where "MAX_ALLOWED_ACCOUNTS = 62"

definition check_exit_reason :: "log_env \<Rightarrow> emulation \<Rightarrow> unit res" where
  "check_exit_reason env em =
     (case em_vm em of
        None \<Rightarrow> Ok ()
      | Some vm \<Rightarrow>
          (case vm_exit_reason vm of
             Succeed \<Rightarrow> Ok ()
           | Revert \<Rightarrow>
               Err (EmulationRevert
                 (case Option.bind (vm_return_value vm) (decode_revert env) of
                    Some a \<Rightarrow> str ''execution reverted: '' @ a | None \<Rightarrow> str ''execution reverted'')
                 (case vm_return_value vm of Some a \<Rightarrow> str ''0x'' @ hex_encode a | None \<Rightarrow> str ''0x''))
           | ErrorExit e \<Rightarrow> Err (EmulationError e)
           | FatalExit e \<Rightarrow> Err (EmulationError e)
           | StepLimitReached \<Rightarrow> Err (EmulationError ''StepLimitReached'')))"

definition check_accounts_len :: "emulation \<Rightarrow> unit res" where
  "check_accounts_len em =
     (if MAX_ALLOWED_ACCOUNTS < length (em_accounts em) then Err (TooManyAccounts (length (em_accounts em)))
      else Ok ())"

section \<open>The node\<close>

text \<open>
  Everything a transaction asks from outside: the emulator, the RPC node and the random
  number generator.  An answer may depend on the number of the call, so that nothing is
  assumed of what happens between two calls; \<open>nd_sent\<close> are the transactions sent, in
  the order of the calls.
\<close>

record node =
  nd_calls :: nat
  nd_emulate :: "nat \<Rightarrow> 256 word \<Rightarrow> bytes \<Rightarrow> keypair \<Rightarrow> emulation res"
  nd_confirm_tx_iterative :: "nat \<Rightarrow> 256 word \<Rightarrow> u64 \<Rightarrow> h256 \<Rightarrow> keypair \<Rightarrow> u64 \<Rightarrow> u64 \<Rightarrow> bool res"
  nd_get_alt :: "nat \<Rightarrow> 256 word \<Rightarrow> bytes \<Rightarrow> keypair \<Rightarrow> 256 word option res"
  nd_get_account :: "nat \<Rightarrow> 256 word \<Rightarrow> bytes res"
  nd_get_slot :: "nat \<Rightarrow> u64 res"
  nd_get_latest_blockhash :: "nat \<Rightarrow> h256 res"
  nd_send :: "nat \<Rightarrow> sol_tx \<Rightarrow> bytes res"
  nd_random :: "nat \<Rightarrow> u64"
  nd_sent :: "sol_tx list"

definition ask :: "(nat \<Rightarrow> 'a) \<Rightarrow> node \<Rightarrow> node \<times> 'a" where
  "ask f nd = (nd\<lparr>nd_calls := Suc (nd_calls nd)\<rparr>, f (nd_calls nd))"

lemma ask_node [simp]: "fst (ask f nd) = nd\<lparr>nd_calls := Suc (nd_calls nd)\<rparr>"
  by (simp add: ask_def)

section \<open>The transaction builder\<close>

text \<open>\<^verbatim>\<open>TxBuilder\<close> of \<^verbatim>\<open>tx/builder.rs\<close>, without the node and the resources.\<close>

record tx_builder =
  tb_chain_id :: u64
  tb_program_id :: "256 word"

text \<open>
  The constants and parsers of the \<^verbatim>\<open>emulator\<close> and \<^verbatim>\<open>rome_evm\<close> crates that the
  transactions use; \<open>alt_of_data\<close> reads the state of an address lookup table: the addresses
  and the slot of the last extension.  The last four are \<^verbatim>\<open>bincode\<close>, the encoders and
  \<^verbatim>\<open>json!\<close>.
\<close>

datatype tx_encoding = Base58 | Base64 | OtherEncoding string

record tx_env =
  te_sol :: sol_lib
  te_log :: log_env
  ins_DoTx :: u8
  ins_TransmitTx :: u8
  ins_DoTxHolder :: u8
  ins_DoTxIterative :: u8
  ins_DoTxHolderIterative :: u8
  ins_AltAlloc :: u8
  ins_AltDealloc :: u8
  te_keccak :: "bytes \<Rightarrow> h256"
  alt_of_data :: "bytes \<Rightarrow> (256 word list \<times> u64) option"
  te_serialize :: "sol_tx \<Rightarrow> bytes option"
  te_base58 :: "bytes \<Rightarrow> string"
  te_base64 :: "bytes \<Rightarrow> string"
  te_params_json :: "string \<Rightarrow> tx_encoding \<Rightarrow> string"

definition emulate :: "tx_env \<Rightarrow> tx_builder \<Rightarrow> bytes \<Rightarrow> keypair \<Rightarrow> node \<Rightarrow> node \<times> emulation res" where
  "emulate env tb data payer nd =
     (case ask (\<lambda>t. nd_emulate nd t (tb_program_id tb) data payer) nd of
        (nd', r) \<Rightarrow> (nd', try_res r (\<lambda>em.
          try_res (check_exit_reason (te_log env) em) (\<lambda>_.
          try_res (check_accounts_len em) (\<lambda>_. Ok em)))))"

definition build_ix :: "tx_builder \<Rightarrow> emulation \<Rightarrow> bytes \<Rightarrow> instruction" where
  "build_ix tb em data =
     \<lparr>ix_program_id = tb_program_id tb,
      ix_accounts = map (\<lambda>(key, writable). \<lparr>am_pubkey = key, am_is_signer = False, am_is_writable = writable\<rparr>)
        (em_accounts em),
      ix_data = data\<rparr>"

definition confirm_tx_iterative ::
  "tx_builder \<Rightarrow> u64 \<Rightarrow> h256 \<Rightarrow> keypair \<Rightarrow> u64 \<Rightarrow> node \<Rightarrow> node \<times> bool res" where
  "confirm_tx_iterative tb holder hash payer session nd =
     ask (\<lambda>t. nd_confirm_tx_iterative nd t (tb_program_id tb) holder hash payer (tb_chain_id tb) session) nd"

lemma emulate_Ok: "emulate env tb data payer nd = (nd', Ok em) \<Longrightarrow>
    nd' = nd\<lparr>nd_calls := Suc (nd_calls nd)\<rparr> \<and> length (em_accounts em) \<le> MAX_ALLOWED_ACCOUNTS"
  by (auto simp: emulate_def ask_def res_elims check_accounts_len_def split: if_splits)

lemma ix_data_build_ix [simp]: "ix_data (build_ix tb em data) = data"
  by (simp add: build_ix_def)

section \<open>AdvanceTx\<close>

text \<open>
  The trait \<^verbatim>\<open>AdvanceTx\<close> and what the tower needs of it: each step that is not the end brings it nearer,
  and it sends nothing itself.
\<close>

definition asks_only :: "node \<Rightarrow> node \<Rightarrow> bool" where
  "asks_only nd nd' \<longleftrightarrow> nd' = nd\<lparr>nd_calls := nd_calls nd'\<rparr> \<and> nd_calls nd \<le> nd_calls nd'"

lemma asks_only_refl [simp]: "asks_only nd nd"
  by (simp add: asks_only_def)

lemma asks_only_trans: "asks_only nd nd' \<Longrightarrow> asks_only nd' nd'' \<Longrightarrow> asks_only nd nd''"
  unfolding asks_only_def by (cases nd; cases nd'; cases nd'') auto

lemma asks_only_ask [simp]: "asks_only nd (nd\<lparr>nd_calls := Suc (nd_calls nd)\<rparr>)"
  by (simp add: asks_only_def)

locale advance_tx =
  fixes advance :: "node \<Rightarrow> 't \<Rightarrow> node \<times> 't \<times> ix_exec_step res"
    and remaining :: "'t \<Rightarrow> nat"
  assumes progress: "advance nd t = (nd', t', Ok step) \<Longrightarrow> step \<noteq> End \<Longrightarrow> remaining t' < remaining t"
    and stays: "advance nd t = (nd', t', Ok End) \<Longrightarrow> remaining t' \<le> remaining t"
    and only_asks: "advance nd t = (nd', t', r) \<Longrightarrow> asks_only nd nd'"

text \<open>
  The steps a transaction goes through until its end, when no call fails; the node may
  answer anything in between.
\<close>

inductive runs :: "(node \<Rightarrow> 't \<Rightarrow> node \<times> 't \<times> ix_exec_step res) \<Rightarrow> 't \<Rightarrow> ix_exec_step list \<Rightarrow> bool"
  for advance where
  runs_end: "advance nd t = (nd', t', Ok End) \<Longrightarrow> runs advance t []"
| runs_step: "advance nd t = (nd', t', Ok s) \<Longrightarrow> s \<noteq> End \<Longrightarrow> runs advance t' ss \<Longrightarrow> runs advance t (s # ss)"

inductive_cases runs_NilE: "runs advance t []"
inductive_cases runs_ConsE: "runs advance t (s # ss)"

text \<open>Calls of the node only ask.\<close>

lemma asks_only_askI: "ask f nd = (nd', r) \<Longrightarrow> asks_only nd nd'"
  by (auto simp: ask_def)

lemma emulate_asks: "emulate env tb data payer nd = (nd', r) \<Longrightarrow> asks_only nd nd'"
  by (auto simp: emulate_def ask_def)

lemma confirm_asks: "confirm_tx_iterative tb holder hash payer session nd = (nd', r) \<Longrightarrow> asks_only nd nd'"
  by (auto simp: confirm_tx_iterative_def ask_def)

lemma and_then_asks:
  assumes "and_then m k = (nd', r)" and "asks_only nd (fst m)"
    and "\<And>nd1 x nd2 r. k nd1 x = (nd2, r) \<Longrightarrow> asks_only nd1 nd2"
  shows "asks_only nd nd'"
  using assms by (cases m; cases "snd m") (auto simp: and_then_def intro: asks_only_trans)

end
