(* ===== verification/Evm_Txs.thy ===== *)
theory Evm_Txs
  imports Ix_Batches Chunks
begin

text \<open>
  The transactions of \<^verbatim>\<open>rome-evm-client/src/tx\<close> that run an EVM transaction:
  \<^verbatim>\<open>atomic.rs\<close>, \<^verbatim>\<open>iterative.rs\<close>, \<^verbatim>\<open>transmit_tx.rs\<close>, \<^verbatim>\<open>atomic_holder.rs\<close> and
  \<^verbatim>\<open>iterative_holder.rs\<close>.  Each is a state machine whose \<^verbatim>\<open>advance\<close> returns the next
  step; it asks the node and changes its own state.
\<close>

section \<open>The number of iterations\<close>

text \<open>
  \<^verbatim>\<open>(vm.iteration_count as f64 * 1.2) as u64\<close>.  An \<^verbatim>\<open>f64\<close> here is a natural number times
  \<open>2 ^ -52\<close>: \<open>round53\<close> rounds such a number to 53 significant bits, half to even, and
  5404319552844595 is 1.2.
\<close>

fun bit_length :: "nat \<Rightarrow> nat" where
  "bit_length n = (if n = 0 then 0 else Suc (bit_length (n div 2)))"

declare bit_length.simps [simp del]

definition round_shift :: "nat \<Rightarrow> nat \<Rightarrow> nat" where
  "round_shift k p =
     (let q = p div 2 ^ k; r = p mod 2 ^ k in
      if k = 0 \<or> 2 * r < 2 ^ k \<or> 2 * r = 2 ^ k \<and> even q then q else Suc q) * 2 ^ k"

definition round53 :: "nat \<Rightarrow> nat" where
  "round53 p = round_shift (bit_length p - 53) p"

definition MULTIPLE_ITERATIONS :: nat where "MULTIPLE_ITERATIONS = 5404319552844595"

definition scaled_iterations :: "u64 \<Rightarrow> nat" where
  "scaled_iterations n =
     min (round53 (round53 (unat n) * MULTIPLE_ITERATIONS) div 2 ^ 52) (2 ^ 64 - 1)"

section \<open>Atomic transactions\<close>

datatype exec_steps = Execute | Finished

record atomic_tx =
  at_builder :: tx_builder
  at_rlp :: bytes
  at_ix :: "ix_batch option"
  at_emulation :: "emulation option"
  at_step :: exec_steps
  at_resource :: resource_item

definition new_atomic_tx :: "tx_builder \<Rightarrow> bytes \<Rightarrow> resource_item \<Rightarrow> atomic_tx" where
  "new_atomic_tx tb rlp r = \<lparr>at_builder = tb, at_rlp = rlp, at_ix = None, at_emulation = None,
     at_step = Execute, at_resource = r\<rparr>"

definition atomic_tx_data :: "tx_env \<Rightarrow> atomic_tx \<Rightarrow> bytes" where
  "atomic_tx_data env tx = ins_DoTx env # resource_fee_recipient (at_resource tx) @ at_rlp tx"

definition atomic_ix :: "tx_env \<Rightarrow> node \<Rightarrow> atomic_tx \<Rightarrow> node \<times> atomic_tx \<times> unit res" where
  "atomic_ix env nd tx =
     (let data = atomic_tx_data env tx in
      case emulate env (at_builder tx) data (it_payer_keypair (at_resource tx)) nd of
        (nd', Ok em) \<Rightarrow>
          (nd', tx\<lparr>at_emulation := Some em,
             at_ix := Some (new_composible_owned (te_sol env) (build_ix (at_builder tx) em data))\<rparr>, Ok ())
      | (nd', Err e) \<Rightarrow> (nd', tx, Err e)
      | (nd', Panic m) \<Rightarrow> (nd', tx, Panic m))"

definition atomic_advance :: "tx_env \<Rightarrow> node \<Rightarrow> atomic_tx \<Rightarrow> node \<times> atomic_tx \<times> ix_exec_step res" where
  "atomic_advance env nd tx =
     (case at_step tx of
        Execute \<Rightarrow>
          (case (if at_ix tx = None then atomic_ix env nd tx else (nd, tx, Ok ())) of
             (nd', tx', Ok _) \<Rightarrow>
               (case at_ix tx' of
                  Some ix \<Rightarrow> (nd', tx'\<lparr>at_ix := None, at_step := Finished\<rparr>, Ok (Single ix Legacy))
                | None \<Rightarrow> (nd', tx', Panic ''unwrap''))
           | (nd', tx', Err e) \<Rightarrow> (nd', tx', Err e)
           | (nd', tx', Panic m) \<Rightarrow> (nd', tx', Panic m))
      | Finished \<Rightarrow> (nd, tx, Ok End))"

text \<open>The macro \<^verbatim>\<open>advance_with_version\<close>: a single transaction gets the version.\<close>

definition single_with_version :: "tx_version \<Rightarrow> ix_exec_step res \<Rightarrow> ix_exec_step res" where
  "single_with_version v r = (case r of Ok (Single ix _) \<Rightarrow> Ok (Single ix v) | _ \<Rightarrow> r)"

section \<open>Iterative transactions\<close>

datatype iter_steps = ItExecute | ItConfirm | ItComplete

record iterative_tx =
  ie_builder :: tx_builder
  ie_rlp :: bytes
  ie_resource :: resource_item
  ie_ixs :: "ix_batch list option"
  ie_step :: iter_steps
  ie_hash :: h256
  ie_session :: u64

definition new_iterative_tx :: "tx_env \<Rightarrow> tx_builder \<Rightarrow> resource_item \<Rightarrow> bytes \<Rightarrow> node \<Rightarrow> node \<times> iterative_tx res" where
  "new_iterative_tx env tb r rlp nd =
     (case ask (nd_random nd) nd of
        (nd', session) \<Rightarrow> (nd', Ok \<lparr>ie_builder = tb, ie_rlp = rlp, ie_resource = r, ie_ixs = None,
          ie_step = ItExecute, ie_hash = te_keccak env rlp, ie_session = session\<rparr>))"

definition iterative_emulation_data :: "tx_env \<Rightarrow> iterative_tx \<Rightarrow> bytes" where
  "iterative_emulation_data env tx =
     ins_DoTxIterative env # u64_le (ie_session tx) @ resource_holder (ie_resource tx) @
       resource_fee_recipient (ie_resource tx) @ ie_rlp tx"

definition iterative_tx_data :: "tx_env \<Rightarrow> iterative_tx \<Rightarrow> emulation \<Rightarrow> nat \<Rightarrow> bytes" where
  "iterative_tx_data env tx em unique =
     ins_DoTxIterative env # u64_le (word_of_nat unique) @ u64_le (ie_session tx) @
       resource_holder (ie_resource tx) @ resource_fee_recipient (ie_resource tx) @
       le_bytes 8 (length (em_lock_overrides em)) @ em_lock_overrides em @ ie_rlp tx"

definition iterative_ixs :: "tx_env \<Rightarrow> node \<Rightarrow> iterative_tx \<Rightarrow> node \<times> iterative_tx \<times> unit res" where
  "iterative_ixs env nd tx =
     (case emulate env (ie_builder tx) (iterative_emulation_data env tx) (it_payer_keypair (ie_resource tx)) nd of
        (nd', Ok em) \<Rightarrow>
          (case em_vm em of
             None \<Rightarrow> (nd', tx, Panic ''vm expected'')
           | Some vm \<Rightarrow>
               (nd', tx\<lparr>ie_ixs := Some (new_composible_batches_owned (te_sol env)
                  (map (\<lambda>unique. build_ix (ie_builder tx) em (iterative_tx_data env tx em unique))
                    [0..<scaled_iterations (vm_iteration_count vm)]))\<rparr>, Ok ()))
      | (nd', Err e) \<Rightarrow> (nd', tx, Err e)
      | (nd', Panic m) \<Rightarrow> (nd', tx, Panic m))"

definition iterative_advance ::
  "tx_env \<Rightarrow> node \<Rightarrow> iterative_tx \<Rightarrow> node \<times> iterative_tx \<times> ix_exec_step res" where
  "iterative_advance env nd tx =
     (case ie_step tx of
        ItExecute \<Rightarrow>
          (case (if ie_ixs tx = None then iterative_ixs env nd tx else (nd, tx, Ok ())) of
             (nd', tx', Ok _) \<Rightarrow>
               (case ie_ixs tx' of
                  Some ixs \<Rightarrow> (nd', tx'\<lparr>ie_step := ItConfirm, ie_ixs := None\<rparr>, Ok (ParallelUnchecked ixs Legacy))
                | None \<Rightarrow> (nd', tx', Panic ''unwrap''))
           | (nd', tx', Err e) \<Rightarrow> (nd', tx', Err e)
           | (nd', tx', Panic m) \<Rightarrow> (nd', tx', Panic m))
      | ItConfirm \<Rightarrow>
          (case confirm_tx_iterative (ie_builder tx) (it_holder (ie_resource tx)) (ie_hash tx)
               (it_payer_keypair (ie_resource tx)) (ie_session tx) nd of
             (nd', r) \<Rightarrow> (nd', tx\<lparr>ie_step := ItComplete\<rparr>,
               try_res r (\<lambda>confirm. Ok (ConfirmationIterativeTx confirm))))
      | ItComplete \<Rightarrow> (nd, tx, Ok End))"

text \<open>The macro \<^verbatim>\<open>advance_with_version_it\<close>.\<close>

definition unchecked_with_version :: "tx_version \<Rightarrow> ix_exec_step res \<Rightarrow> ix_exec_step res" where
  "unchecked_with_version v r =
     (case r of Ok (ParallelUnchecked ixs _) \<Rightarrow> Ok (ParallelUnchecked ixs v) | _ \<Rightarrow> r)"

section \<open>Transmitting\<close>

definition TRANSMIT_TX_SIZE :: nat where "TRANSMIT_TX_SIZE = 800"

text \<open>\<^verbatim>\<open>MAX_PERMITTED_DATA_INCREASE\<close> of the Solana program crate is 10240.\<close>

definition MAX_PERMITTED_DATA_INCREASE :: nat where "MAX_PERMITTED_DATA_INCREASE = 10240"

datatype transmit_steps = TrInit | TrExecute "ix_batch list list" | TrComplete

record transmit_tx =
  tt_builder :: tx_builder
  tt_rlp :: bytes
  tt_hash :: h256
  tt_resource :: resource_item
  tt_step :: transmit_steps

definition new_transmit_tx :: "tx_builder \<Rightarrow> resource_item \<Rightarrow> bytes \<Rightarrow> h256 \<Rightarrow> transmit_tx" where
  "new_transmit_tx tb r rlp hash =
     \<lparr>tt_builder = tb, tt_rlp = rlp, tt_hash = hash, tt_resource = r, tt_step = TrInit\<rparr>"

definition transmit_tx_data :: "tx_env \<Rightarrow> transmit_tx \<Rightarrow> nat \<Rightarrow> bytes \<Rightarrow> bytes" where
  "transmit_tx_data env tx offset bin =
     ins_TransmitTx env # resource_holder (tt_resource tx) @ le_bytes 8 offset @ u256_be (tt_hash tx) @
       u64_le (tb_chain_id (tt_builder tx)) @ bin"

definition transmit_ixs :: "tx_env \<Rightarrow> node \<Rightarrow> transmit_tx \<Rightarrow> node \<times> ix_batch list res" where
  "transmit_ixs env nd tx =
     (case emulate env (tt_builder tx) (transmit_tx_data env tx 0 (tt_rlp tx)) (it_payer_keypair (tt_resource tx)) nd of
        (nd', r) \<Rightarrow> (nd', try_res r (\<lambda>em.
          try_res (into_chunks (tt_rlp tx) TRANSMIT_TX_SIZE) (\<lambda>chunks.
            Ok (map (\<lambda>(offset, chunk). new_owned [build_ix (tt_builder tx) em (transmit_tx_data env tx offset chunk)])
              (with_offsets 0 chunks))))))"

text \<open>
  \<^verbatim>\<open>advance\<close> calls itself after \<open>Init\<close> and when no batch is left; the batches are popped
  from the end of the reversed vector.
\<close>

definition transmit_pop :: "ix_batch list list \<Rightarrow> transmit_tx \<Rightarrow> transmit_tx \<times> ix_exec_step" where
  "transmit_pop batches tx =
     (if batches = [] then (tx\<lparr>tt_step := TrComplete\<rparr>, End)
      else (tx\<lparr>tt_step := TrExecute (butlast batches)\<rparr>, Parallel (last batches) Legacy))"

definition transmit_advance :: "tx_env \<Rightarrow> node \<Rightarrow> transmit_tx \<Rightarrow> node \<times> transmit_tx \<times> ix_exec_step res" where
  "transmit_advance env nd tx =
     (case tt_step tx of
        TrInit \<Rightarrow>
          (case transmit_ixs env nd tx of
             (nd', Ok ixs) \<Rightarrow>
               (case into_chunks ixs (MAX_PERMITTED_DATA_INCREASE div TRANSMIT_TX_SIZE) of
                  Ok batches \<Rightarrow> (case transmit_pop (rev batches) tx of (tx', s) \<Rightarrow> (nd', tx', Ok s))
                | Err e \<Rightarrow> (nd', tx, Err e)
                | Panic m \<Rightarrow> (nd', tx, Panic m))
           | (nd', Err e) \<Rightarrow> (nd', tx, Err e)
           | (nd', Panic m) \<Rightarrow> (nd', tx, Panic m))
      | TrExecute batches \<Rightarrow> (case transmit_pop batches tx of (tx', s) \<Rightarrow> (nd, tx', Ok s))
      | TrComplete \<Rightarrow> (nd, tx, Ok End))"

section \<open>Transactions in a holder\<close>

datatype holder_steps = HTransmit | HExecute | HConfirm | HEnd

record atomic_tx_holder =
  ah_step :: holder_steps
  ah_transmit :: transmit_tx

definition new_atomic_tx_holder :: "transmit_tx \<Rightarrow> bool \<Rightarrow> atomic_tx_holder" where
  "new_atomic_tx_holder tt use_alt = \<lparr>ah_step = (if use_alt then HExecute else HTransmit), ah_transmit = tt\<rparr>"

definition atomic_holder_data :: "tx_env \<Rightarrow> transmit_tx \<Rightarrow> bytes" where
  "atomic_holder_data env tt =
     ins_DoTxHolder env # resource_holder (tt_resource tt) @ u256_be (tt_hash tt) @
       u64_le (tb_chain_id (tt_builder tt)) @ resource_fee_recipient (tt_resource tt)"

definition atomic_holder_ixs :: "tx_env \<Rightarrow> node \<Rightarrow> transmit_tx \<Rightarrow> node \<times> ix_batch res" where
  "atomic_holder_ixs env nd tt =
     (let data = atomic_holder_data env tt in
      case emulate env (tt_builder tt) data (it_payer_keypair (tt_resource tt)) nd of
        (nd', r) \<Rightarrow> (nd', try_res r (\<lambda>em. Ok (new_composible_owned (te_sol env) (build_ix (tt_builder tt) em data)))))"

definition atomic_holder_execute ::
  "tx_env \<Rightarrow> node \<Rightarrow> atomic_tx_holder \<Rightarrow> node \<times> atomic_tx_holder \<times> ix_exec_step res" where
  "atomic_holder_execute env nd tx =
     (case atomic_holder_ixs env nd (ah_transmit tx) of
        (nd', r) \<Rightarrow> (nd', tx\<lparr>ah_step := HEnd\<rparr>, try_res r (\<lambda>ix. Ok (Single ix Legacy))))"

definition atomic_holder_advance ::
  "tx_env \<Rightarrow> node \<Rightarrow> atomic_tx_holder \<Rightarrow> node \<times> atomic_tx_holder \<times> ix_exec_step res" where
  "atomic_holder_advance env nd tx =
     (case ah_step tx of
        HTransmit \<Rightarrow>
          (case transmit_advance env nd (ah_transmit tx) of
             (nd', tt, r) \<Rightarrow>
               (if r = Ok End then atomic_holder_execute env nd' (tx\<lparr>ah_transmit := tt, ah_step := HExecute\<rparr>)
                else (nd', tx\<lparr>ah_transmit := tt\<rparr>, r)))
      | HExecute \<Rightarrow> atomic_holder_execute env nd tx
      | _ \<Rightarrow> (nd, tx, Ok End))"

record iterative_tx_holder =
  ih_transmit :: transmit_tx
  ih_step :: holder_steps
  ih_session :: u64

definition new_iterative_tx_holder :: "transmit_tx \<Rightarrow> bool \<Rightarrow> node \<Rightarrow> node \<times> iterative_tx_holder" where
  "new_iterative_tx_holder tt use_alt nd =
     (case ask (nd_random nd) nd of
        (nd', session) \<Rightarrow> (nd', \<lparr>ih_transmit = tt, ih_step = (if use_alt then HExecute else HTransmit),
          ih_session = session\<rparr>))"

definition iterative_holder_tail :: "iterative_tx_holder \<Rightarrow> bytes" where
  "iterative_holder_tail tx =
     u64_le (ih_session tx) @ resource_holder (tt_resource (ih_transmit tx)) @ u256_be (tt_hash (ih_transmit tx)) @
       u64_le (tb_chain_id (tt_builder (ih_transmit tx))) @ resource_fee_recipient (tt_resource (ih_transmit tx))"

definition iterative_holder_emulation_data :: "tx_env \<Rightarrow> iterative_tx_holder \<Rightarrow> bytes" where
  "iterative_holder_emulation_data env tx = ins_DoTxHolderIterative env # iterative_holder_tail tx"

definition iterative_holder_data :: "tx_env \<Rightarrow> iterative_tx_holder \<Rightarrow> emulation \<Rightarrow> nat \<Rightarrow> bytes" where
  "iterative_holder_data env tx em unique =
     ins_DoTxHolderIterative env # u64_le (word_of_nat unique) @ iterative_holder_tail tx @ em_lock_overrides em"

definition iterative_holder_ixs :: "tx_env \<Rightarrow> node \<Rightarrow> iterative_tx_holder \<Rightarrow> node \<times> ix_batch list res" where
  "iterative_holder_ixs env nd tx =
     (let tb = tt_builder (ih_transmit tx) in
      case emulate env tb (iterative_holder_emulation_data env tx)
          (it_payer_keypair (tt_resource (ih_transmit tx))) nd of
        (nd', r) \<Rightarrow> (nd', try_res r (\<lambda>em.
          try_res (expect ''vm expected'' (em_vm em)) (\<lambda>vm.
            Ok (new_composible_batches_owned (te_sol env)
              (map (\<lambda>unique. build_ix tb em (iterative_holder_data env tx em unique))
                [0..<scaled_iterations (vm_iteration_count vm)]))))))"

definition iterative_holder_execute ::
  "tx_env \<Rightarrow> node \<Rightarrow> iterative_tx_holder \<Rightarrow> node \<times> iterative_tx_holder \<times> ix_exec_step res" where
  "iterative_holder_execute env nd tx =
     (case iterative_holder_ixs env nd tx of
        (nd', r) \<Rightarrow> (nd', tx\<lparr>ih_step := HConfirm\<rparr>, try_res r (\<lambda>ixs. Ok (ParallelUnchecked ixs Legacy))))"

definition iterative_holder_advance ::
  "tx_env \<Rightarrow> node \<Rightarrow> iterative_tx_holder \<Rightarrow> node \<times> iterative_tx_holder \<times> ix_exec_step res" where
  "iterative_holder_advance env nd tx =
     (case ih_step tx of
        HTransmit \<Rightarrow>
          (case transmit_advance env nd (ih_transmit tx) of
             (nd', tt, r) \<Rightarrow>
               (if r = Ok End then iterative_holder_execute env nd' (tx\<lparr>ih_transmit := tt, ih_step := HExecute\<rparr>)
                else (nd', tx\<lparr>ih_transmit := tt\<rparr>, r)))
      | HExecute \<Rightarrow> iterative_holder_execute env nd tx
      | HConfirm \<Rightarrow>
          (case confirm_tx_iterative (tt_builder (ih_transmit tx)) (it_holder (tt_resource (ih_transmit tx)))
               (tt_hash (ih_transmit tx)) (it_payer_keypair (tt_resource (ih_transmit tx))) (ih_session tx) nd of
             (nd', r) \<Rightarrow> (nd', tx\<lparr>ih_step := HEnd\<rparr>,
               case r of Ok confirm \<Rightarrow> Ok (ConfirmationIterativeTx confirm)
               | Err e \<Rightarrow> Ok (ConfirmationIterativeTx False)
               | Panic m \<Rightarrow> Panic m))
      | HEnd \<Rightarrow> (nd, tx, Ok End))"

section \<open>Each comes to its end\<close>

fun atomic_remaining :: "atomic_tx \<Rightarrow> nat" where
  "atomic_remaining tx = (case at_step tx of Execute \<Rightarrow> 1 | Finished \<Rightarrow> 0)"

lemma atomic_ix_asks: "atomic_ix env nd tx = (nd', tx', r) \<Longrightarrow> asks_only nd nd'"
  by (auto simp: atomic_ix_def Let_def split: prod.splits res.splits dest: emulate_asks)

interpretation atomic: advance_tx "atomic_advance env" atomic_remaining for env
  by unfold_locales
    (auto simp: atomic_advance_def split: exec_steps.splits if_splits prod.splits res.splits option.splits
      dest: atomic_ix_asks)

fun iterative_remaining :: "iterative_tx \<Rightarrow> nat" where
  "iterative_remaining tx = (case ie_step tx of ItExecute \<Rightarrow> 2 | ItConfirm \<Rightarrow> 1 | ItComplete \<Rightarrow> 0)"

lemma iterative_ixs_asks: "iterative_ixs env nd tx = (nd', tx', r) \<Longrightarrow> asks_only nd nd'"
  by (auto simp: iterative_ixs_def split: prod.splits res.splits option.splits dest: emulate_asks)

interpretation iterative: advance_tx "iterative_advance env" iterative_remaining for env
  by unfold_locales
    (auto simp: iterative_advance_def res_elims split: iter_steps.splits if_splits prod.splits res.splits option.splits
      dest: iterative_ixs_asks confirm_asks)

lemma length_chunks_le: "0 < n \<Longrightarrow> length (chunks_loop n xs) \<le> length xs"
proof (induction n xs rule: chunks_loop.induct)
  case (1 n xs)
  show ?case
  proof (cases "xs = []")
    case False
    then have "length (chunks_loop n (drop n xs)) \<le> length (drop n xs)" using "1.IH" "1.prems" by simp
    moreover have "length (drop n xs) < length xs" using False "1.prems" by simp
    ultimately have "length (chunks_loop n (drop n xs)) < length xs" by (rule le_less_trans)
    then show ?thesis using False "1.prems" by (simp add: chunks_loop_step)
  qed simp
qed

lemma length_with_offsets [simp]: "length (with_offsets off cs) = length cs"
  by (induction cs arbitrary: off) auto

fun transmit_remaining :: "transmit_tx \<Rightarrow> nat" where
  "transmit_remaining tx =
     (case tt_step tx of TrInit \<Rightarrow> Suc (length (tt_rlp tx)) | TrExecute batches \<Rightarrow> length batches | TrComplete \<Rightarrow> 0)"

lemma transmit_ixs_asks: "transmit_ixs env nd tx = (nd', r) \<Longrightarrow> asks_only nd nd'"
  by (auto simp: transmit_ixs_def split: prod.splits dest: emulate_asks)

lemma transmit_ixs_length: "transmit_ixs env nd tx = (nd', Ok ixs) \<Longrightarrow> length ixs \<le> length (tt_rlp tx)"
  by (auto simp: transmit_ixs_def res_elims into_chunks_def TRANSMIT_TX_SIZE_def intro!: length_chunks_le
      split: prod.splits if_splits)

lemma transmit_init_length:
  assumes "transmit_ixs env nd tx = (nd', Ok ixs)" and "into_chunks ixs n = Ok batches"
  shows "length batches \<le> length (tt_rlp tx)"
  using assms(2) length_chunks_le [of n ixs] transmit_ixs_length [OF assms(1)]
  by (auto simp: into_chunks_def split: if_splits)

interpretation transmit: advance_tx "transmit_advance env" transmit_remaining for env
proof
  fix nd t nd' t' r
  assume "transmit_advance env nd t = (nd', t', r)"
  then show "asks_only nd nd'"
    by (auto simp: transmit_advance_def split: transmit_steps.splits prod.splits res.splits dest: transmit_ixs_asks)
next
  fix nd t nd' t' step
  assume "transmit_advance env nd t = (nd', t', Ok step)" and "step \<noteq> End"
  then show "transmit_remaining t' < transmit_remaining t"
    using transmit_init_length
    by (auto simp: transmit_advance_def transmit_pop_def less_Suc_eq_le
        split: transmit_steps.splits prod.splits res.splits if_splits) (meson diff_le_self le_trans)
next
  fix nd t nd' t'
  assume "transmit_advance env nd t = (nd', t', Ok End)"
  then show "transmit_remaining t' \<le> transmit_remaining t"
    by (auto simp: transmit_advance_def transmit_pop_def
        split: transmit_steps.splits prod.splits res.splits if_splits)
qed

declare transmit_remaining.simps [simp del]

fun holder_remaining :: "holder_steps \<Rightarrow> transmit_tx \<Rightarrow> nat" where
  "holder_remaining step tt =
     (case step of HTransmit \<Rightarrow> 3 + transmit_remaining tt | HExecute \<Rightarrow> 2 | HConfirm \<Rightarrow> 1 | HEnd \<Rightarrow> 0)"

fun atomic_holder_remaining :: "atomic_tx_holder \<Rightarrow> nat" where
  "atomic_holder_remaining tx = holder_remaining (ah_step tx) (ah_transmit tx)"

lemma atomic_holder_ixs_asks: "atomic_holder_ixs env nd tt = (nd', r) \<Longrightarrow> asks_only nd nd'"
  by (auto simp: atomic_holder_ixs_def Let_def split: prod.splits dest: emulate_asks)

lemma atomic_holder_execute_facts:
  assumes "atomic_holder_execute env nd tx = (nd', tx', r)"
  shows "asks_only nd nd'" "ah_step tx' = HEnd" "r \<noteq> Ok End"
  using assms by (auto simp: atomic_holder_execute_def res_elims split: prod.splits dest: atomic_holder_ixs_asks)

interpretation atomic_holder: advance_tx "atomic_holder_advance env" atomic_holder_remaining for env
proof
  fix nd t nd' t' r
  assume "atomic_holder_advance env nd t = (nd', t', r)"
  then show "asks_only nd nd'"
    by (auto simp: atomic_holder_advance_def split: holder_steps.splits prod.splits if_splits
        dest: transmit.only_asks atomic_holder_execute_facts(1) intro: asks_only_trans)
next
  fix nd t nd' t' step
  assume "atomic_holder_advance env nd t = (nd', t', Ok step)" and "step \<noteq> End"
  then show "atomic_holder_remaining t' < atomic_holder_remaining t"
    by (auto simp: atomic_holder_advance_def split: holder_steps.splits prod.splits if_splits
        dest: transmit.progress atomic_holder_execute_facts(2))
next
  fix nd t nd' t'
  assume "atomic_holder_advance env nd t = (nd', t', Ok End)"
  then show "atomic_holder_remaining t' \<le> atomic_holder_remaining t"
    by (auto simp: atomic_holder_advance_def split: holder_steps.splits prod.splits if_splits
        dest: atomic_holder_execute_facts(2,3))
qed

fun iterative_holder_remaining :: "iterative_tx_holder \<Rightarrow> nat" where
  "iterative_holder_remaining tx = holder_remaining (ih_step tx) (ih_transmit tx)"

lemma iterative_holder_ixs_asks: "iterative_holder_ixs env nd tx = (nd', r) \<Longrightarrow> asks_only nd nd'"
  by (auto simp: iterative_holder_ixs_def Let_def split: prod.splits dest: emulate_asks)

lemma iterative_holder_execute_facts:
  assumes "iterative_holder_execute env nd tx = (nd', tx', r)"
  shows "asks_only nd nd'" "ih_step tx' = HConfirm" "r \<noteq> Ok End"
  using assms by (auto simp: iterative_holder_execute_def res_elims split: prod.splits dest: iterative_holder_ixs_asks)

interpretation iterative_holder: advance_tx "iterative_holder_advance env" iterative_holder_remaining for env
proof
  fix nd t nd' t' r
  assume "iterative_holder_advance env nd t = (nd', t', r)"
  then show "asks_only nd nd'"
    by (auto simp: iterative_holder_advance_def split: holder_steps.splits prod.splits if_splits
        dest: transmit.only_asks iterative_holder_execute_facts(1) confirm_asks intro: asks_only_trans)
next
  fix nd t nd' t' step
  assume "iterative_holder_advance env nd t = (nd', t', Ok step)" and "step \<noteq> End"
  then show "iterative_holder_remaining t' < iterative_holder_remaining t"
    by (auto simp: iterative_holder_advance_def split: holder_steps.splits prod.splits if_splits
        dest: transmit.progress iterative_holder_execute_facts(2))
next
  fix nd t nd' t'
  assume "iterative_holder_advance env nd t = (nd', t', Ok End)"
  then show "iterative_holder_remaining t' \<le> iterative_holder_remaining t"
    by (auto simp: iterative_holder_advance_def split: holder_steps.splits prod.splits if_splits res.splits
        dest: iterative_holder_execute_facts(2,3))
qed

end
