(* ===== verification/Alt_Txs.thy ===== *)
theory Alt_Txs
  imports Evm_Txs
begin

text \<open>
  The transactions of \<^verbatim>\<open>rome-evm-client/src/tx\<close> around those of \<open>Evm_Txs\<close>: the address
  lookup table (\<^verbatim>\<open>alt.rs\<close>), its composition with a transaction (\<^verbatim>\<open>alt_composed.rs\<close>,
  \<^verbatim>\<open>alt_composed_holder.rs\<close>), and the atomic batches of \<^verbatim>\<open>atomic_svm.rs\<close>,
  \<^verbatim>\<open>cross_rollup_atomic.rs\<close> and \<^verbatim>\<open>cross_chain_atomic.rs\<close>.
\<close>

section \<open>Address lookup tables\<close>

definition ALT_CHUNK_SIZE :: nat where "ALT_CHUNK_SIZE = 24"
definition RECENT_SLOT_OFFSET :: u64 where "RECENT_SLOT_OFFSET = 5"

datatype alt_steps = AltExecute | AltWaitNextSlot | AltEnd

record alt_tx =
  al_builder :: tx_builder
  al_resource :: resource_item
  al_session :: u64
  al_keys :: "256 word list option"
  al_recent_slot :: u64
  al_step :: alt_steps
  al_raw_account :: "(256 word \<times> bytes) option"

definition new_alt_tx ::
  "tx_builder \<Rightarrow> resource_item \<Rightarrow> 256 word list \<Rightarrow> node \<Rightarrow> node \<times> alt_tx res" where
  "new_alt_tx tb r keys nd =
     and_then (ask (nd_get_slot nd) nd) (\<lambda>nd slot_nr.
     and_then (nd, sub_or_panic slot_nr RECENT_SLOT_OFFSET) (\<lambda>nd recent_slot.
       case ask (nd_random nd) nd of (nd', session) \<Rightarrow>
         (nd', Ok \<lparr>al_builder = tb, al_resource = r, al_session = session, al_keys = Some keys,
            al_recent_slot = recent_slot, al_step = AltExecute, al_raw_account = None\<rparr>)))"

definition alt_alloc_data :: "tx_env \<Rightarrow> alt_tx \<Rightarrow> 256 word list \<Rightarrow> bytes list res" where
  "alt_alloc_data env tx keys =
     try_res (into_chunks keys ALT_CHUNK_SIZE) (\<lambda>chunks.
       let data = ins_AltAlloc env # resource_holder (al_resource tx) @ u64_le (tb_chain_id (al_builder tx)) @
         u64_le (al_session tx) @ u64_le (al_recent_slot tx) @ le_bytes 8 (length keys)
       in Ok (map (\<lambda>chunk. data @ concat (map u256_be chunk)) chunks))"

definition alt_dealloc_data :: "tx_env \<Rightarrow> alt_tx \<Rightarrow> bytes" where
  "alt_dealloc_data env tx =
     ins_AltDealloc env # resource_holder (al_resource tx) @ u64_le (tb_chain_id (al_builder tx)) @
       u64_le (al_session tx)"

text \<open>The keys are taken out of the transaction whatever happens then.\<close>

definition alt_ixs_alloc :: "tx_env \<Rightarrow> node \<Rightarrow> alt_tx \<Rightarrow> node \<times> ix_batch list res" where
  "alt_ixs_alloc env nd tx =
     and_then (nd, try_res (expect ''accounts expected'' (al_keys tx)) (alt_alloc_data env tx)) (\<lambda>nd data_vec.
     and_then (nd, if data_vec = [] then Panic ''unwrap'' else Ok (last data_vec)) (\<lambda>nd data.
     and_then (emulate env (al_builder tx) data (it_payer_keypair (al_resource tx)) nd) (\<lambda>nd em.
       (nd, Ok (map (\<lambda>x. new_owned [build_ix (al_builder tx) em x]) data_vec)))))"

definition alt_ix_dealloc :: "tx_env \<Rightarrow> node \<Rightarrow> alt_tx \<Rightarrow> node \<times> ix_batch res" where
  "alt_ix_dealloc env nd tx =
     (let data = alt_dealloc_data env tx in
      and_then (emulate env (al_builder tx) data (it_payer_keypair (al_resource tx)) nd) (\<lambda>nd em.
        (nd, Ok (new_composible_owned (te_sol env) (build_ix (al_builder tx) em data)))))"

definition get_alt_raw_account :: "node \<Rightarrow> alt_tx \<Rightarrow> node \<times> (256 word \<times> bytes) res" where
  "get_alt_raw_account nd tx =
     (let data = resource_holder (al_resource tx) @ u64_le (tb_chain_id (al_builder tx)) in
      and_then (ask (\<lambda>t. nd_get_alt nd t (tb_program_id (al_builder tx)) data (it_payer_keypair (al_resource tx))) nd)
        (\<lambda>nd k.
      and_then (nd, ok_or AddressLookupTableNotFound k) (\<lambda>nd key.
      and_then (ask (\<lambda>t. nd_get_account nd t key) nd) (\<lambda>nd acc. (nd, Ok (key, acc))))))"

definition alt_account :: "tx_env \<Rightarrow> 256 word \<Rightarrow> bytes \<Rightarrow> alt_table res" where
  "alt_account env key acc =
     try_res (ok_or InstructionError (alt_of_data env acc)) (\<lambda>(addresses, _).
       Ok \<lparr>alt_key = key, alt_addresses = addresses\<rparr>)"

definition alt_account_of :: "tx_env \<Rightarrow> alt_tx \<Rightarrow> alt_table res" where
  "alt_account_of env tx =
     try_res (expect ''alt_account expected'' (al_raw_account tx)) (\<lambda>(key, acc). alt_account env key acc)"

definition last_extended_slot :: "tx_env \<Rightarrow> alt_tx \<Rightarrow> u64 res" where
  "last_extended_slot env tx =
     try_res (expect ''alt_account expected'' (al_raw_account tx)) (\<lambda>(_, acc).
     try_res (ok_or InstructionError (alt_of_data env acc)) (\<lambda>(_, slot_nr). Ok slot_nr))"

definition alt_advance :: "tx_env \<Rightarrow> node \<Rightarrow> alt_tx \<Rightarrow> node \<times> alt_tx \<times> ix_exec_step res" where
  "alt_advance env nd tx =
     (case al_step tx of
        AltExecute \<Rightarrow>
          (case alt_ix_dealloc env nd tx of
             (nd1, Ok dealloc) \<Rightarrow>
               (case alt_ixs_alloc env nd1 tx of
                  (nd2, Ok alloc) \<Rightarrow>
                    (nd2, tx\<lparr>al_keys := None, al_step := AltWaitNextSlot\<rparr>, Ok (Parallel (dealloc # alloc) Legacy))
                | (nd2, Err e) \<Rightarrow> (nd2, tx\<lparr>al_keys := None\<rparr>, Err e)
                | (nd2, Panic m) \<Rightarrow> (nd2, tx\<lparr>al_keys := None\<rparr>, Panic m))
           | (nd1, Err e) \<Rightarrow> (nd1, tx, Err e)
           | (nd1, Panic m) \<Rightarrow> (nd1, tx, Panic m))
      | AltWaitNextSlot \<Rightarrow>
          (case get_alt_raw_account nd tx of
             (nd1, Ok acc) \<Rightarrow>
               (let tx' = tx\<lparr>al_step := AltEnd, al_raw_account := Some acc\<rparr> in
                (nd1, tx', try_res (last_extended_slot env tx') (\<lambda>slot_nr. Ok (WaitNextSlot slot_nr))))
           | (nd1, Err e) \<Rightarrow> (nd1, tx\<lparr>al_step := AltEnd\<rparr>, Err e)
           | (nd1, Panic m) \<Rightarrow> (nd1, tx\<lparr>al_step := AltEnd\<rparr>, Panic m))
      | AltEnd \<Rightarrow> (nd, tx, Ok End))"

section \<open>The transactions a builder puts in a box\<close>

datatype iterable =
  AtomicI atomic_tx | IterativeI iterative_tx | AtomicHolderI atomic_tx_holder | IterativeHolderI iterative_tx_holder

definition map_tx :: "('a \<Rightarrow> 'b) \<Rightarrow> node \<times> 'a \<times> ix_exec_step res \<Rightarrow> node \<times> 'b \<times> ix_exec_step res" where
  "map_tx f m = (case m of (nd, t, r) \<Rightarrow> (nd, f t, r))"

fun iterable_advance :: "tx_env \<Rightarrow> node \<Rightarrow> iterable \<Rightarrow> node \<times> iterable \<times> ix_exec_step res" where
  "iterable_advance env nd (AtomicI t) = map_tx AtomicI (atomic_advance env nd t)"
| "iterable_advance env nd (IterativeI t) = map_tx IterativeI (iterative_advance env nd t)"
| "iterable_advance env nd (AtomicHolderI t) = map_tx AtomicHolderI (atomic_holder_advance env nd t)"
| "iterable_advance env nd (IterativeHolderI t) = map_tx IterativeHolderI (iterative_holder_advance env nd t)"

text \<open>\<^verbatim>\<open>advance_with_version\<close>: one macro for the atomic, another for the iterative ones.\<close>

definition versioned :: "tx_version \<Rightarrow> iterable \<Rightarrow> ix_exec_step res \<Rightarrow> ix_exec_step res" where
  "versioned v t = (case t of
     AtomicI _ \<Rightarrow> single_with_version v | AtomicHolderI _ \<Rightarrow> single_with_version v
   | IterativeI _ \<Rightarrow> unchecked_with_version v | IterativeHolderI _ \<Rightarrow> unchecked_with_version v)"

definition iterable_advance_with_version ::
  "tx_env \<Rightarrow> tx_version \<Rightarrow> node \<Rightarrow> iterable \<Rightarrow> node \<times> iterable \<times> ix_exec_step res" where
  "iterable_advance_with_version env v nd t =
     (case iterable_advance env nd t of (nd', t', r) \<Rightarrow> (nd', t', versioned v t r))"

fun iterable_payer :: "iterable \<Rightarrow> keypair" where
  "iterable_payer (AtomicI t) = it_payer_keypair (at_resource t)"
| "iterable_payer (IterativeI t) = it_payer_keypair (ie_resource t)"
| "iterable_payer (AtomicHolderI t) = it_payer_keypair (tt_resource (ah_transmit t))"
| "iterable_payer (IterativeHolderI t) = it_payer_keypair (tt_resource (ih_transmit t))"

section \<open>Composition with an address lookup table\<close>

datatype composed_steps = AltFirst | Composed tx_version

record alt_composed =
  ac_alt :: alt_tx
  ac_iterable :: iterable
  ac_step :: composed_steps

definition new_alt_composed :: "alt_tx \<Rightarrow> iterable \<Rightarrow> alt_composed" where
  "new_alt_composed alt t = \<lparr>ac_alt = alt, ac_iterable = t, ac_step = AltFirst\<rparr>"

definition alt_composed_execute ::
  "tx_env \<Rightarrow> tx_version \<Rightarrow> node \<Rightarrow> alt_composed \<Rightarrow> node \<times> alt_composed \<times> ix_exec_step res" where
  "alt_composed_execute env v nd tx =
     map_tx (\<lambda>t. tx\<lparr>ac_iterable := t\<rparr>) (iterable_advance_with_version env v nd (ac_iterable tx))"

definition alt_composed_advance ::
  "tx_env \<Rightarrow> node \<Rightarrow> alt_composed \<Rightarrow> node \<times> alt_composed \<times> ix_exec_step res" where
  "alt_composed_advance env nd tx =
     (case ac_step tx of
        AltFirst \<Rightarrow>
          (case alt_advance env nd (ac_alt tx) of
             (nd', alt, r) \<Rightarrow>
               (let tx' = tx\<lparr>ac_alt := alt\<rparr> in
                if r = Ok End then
                  (case alt_account_of env alt of
                     Ok acc \<Rightarrow> alt_composed_execute env (V0 [acc]) nd' (tx'\<lparr>ac_step := Composed (V0 [acc])\<rparr>)
                   | Err e \<Rightarrow> (nd', tx', Err e)
                   | Panic m \<Rightarrow> (nd', tx', Panic m))
                else (nd', tx', r)))
      | Composed v \<Rightarrow> alt_composed_execute env v nd tx)"

record alt_composed_holder =
  ch_alt :: alt_tx
  ch_transmit :: transmit_tx
  ch_iterable :: iterable
  ch_step :: composed_steps

definition new_alt_composed_holder :: "alt_tx \<Rightarrow> transmit_tx \<Rightarrow> iterable \<Rightarrow> alt_composed_holder" where
  "new_alt_composed_holder alt tt t = \<lparr>ch_alt = alt, ch_transmit = tt, ch_iterable = t, ch_step = AltFirst\<rparr>"

definition join_parallel :: "ix_exec_step \<Rightarrow> ix_exec_step \<Rightarrow> ix_exec_step res" where
  "join_parallel alt_ix transmit_ix =
     (case transmit_ix of
        Parallel batch1 _ \<Rightarrow>
          (case alt_ix of
             Parallel batch2 v \<Rightarrow> Ok (Parallel (batch2 @ batch1) v)
           | End \<Rightarrow> Ok transmit_ix
           | WaitNextSlot _ \<Rightarrow> Ok transmit_ix
           | _ \<Rightarrow> Panic ''unreachable'')
      | End \<Rightarrow> Ok alt_ix
      | _ \<Rightarrow> Panic ''unreachable'')"

definition holder_composed_execute ::
  "tx_env \<Rightarrow> tx_version \<Rightarrow> node \<Rightarrow> alt_composed_holder \<Rightarrow> node \<times> alt_composed_holder \<times> ix_exec_step res" where
  "holder_composed_execute env v nd tx =
     map_tx (\<lambda>t. tx\<lparr>ch_iterable := t\<rparr>) (iterable_advance_with_version env v nd (ch_iterable tx))"

definition alt_composed_holder_advance ::
  "tx_env \<Rightarrow> node \<Rightarrow> alt_composed_holder \<Rightarrow> node \<times> alt_composed_holder \<times> ix_exec_step res" where
  "alt_composed_holder_advance env nd tx =
     (case ch_step tx of
        AltFirst \<Rightarrow>
          (case alt_advance env nd (ch_alt tx) of
             (nd1, alt, Ok alt_ix) \<Rightarrow>
               (case transmit_advance env nd1 (ch_transmit tx) of
                  (nd2, tt, Ok transmit_ix) \<Rightarrow>
                    (let tx' = tx\<lparr>ch_alt := alt, ch_transmit := tt\<rparr> in
                     case join_parallel alt_ix transmit_ix of
                       Ok ix \<Rightarrow>
                         if ix = End then
                           (case alt_account_of env alt of
                              Ok acc \<Rightarrow> holder_composed_execute env (V0 [acc]) nd2 (tx'\<lparr>ch_step := Composed (V0 [acc])\<rparr>)
                            | Err e \<Rightarrow> (nd2, tx', Err e)
                            | Panic m \<Rightarrow> (nd2, tx', Panic m))
                         else (nd2, tx', Ok ix)
                     | Err e \<Rightarrow> (nd2, tx', Err e)
                     | Panic m \<Rightarrow> (nd2, tx', Panic m))
                | (nd2, tt, Err e) \<Rightarrow> (nd2, tx\<lparr>ch_alt := alt, ch_transmit := tt\<rparr>, Err e)
                | (nd2, tt, Panic m) \<Rightarrow> (nd2, tx\<lparr>ch_alt := alt, ch_transmit := tt\<rparr>, Panic m))
           | (nd1, alt, Err e) \<Rightarrow> (nd1, tx\<lparr>ch_alt := alt\<rparr>, Err e)
           | (nd1, alt, Panic m) \<Rightarrow> (nd1, tx\<lparr>ch_alt := alt\<rparr>, Panic m))
      | Composed v \<Rightarrow> holder_composed_execute env v nd tx)"

section \<open>Atomic batches\<close>

record atomic_svm =
  as_atomic :: atomic_tx
  as_alts :: "alt_table list option"
  as_step :: exec_steps

fun load_alts :: "tx_env \<Rightarrow> 256 word list \<Rightarrow> node \<Rightarrow> node \<times> alt_table list res" where
  "load_alts env [] nd = (nd, Ok [])"
| "load_alts env (key # keys) nd =
     and_then (ask (\<lambda>t. nd_get_account nd t key) nd) (\<lambda>nd acc.
     and_then (nd, alt_account env key acc) (\<lambda>nd a.
     and_then (load_alts env keys nd) (\<lambda>nd rest. (nd, Ok (a # rest)))))"

definition new_atomic_svm ::
  "tx_env \<Rightarrow> node \<Rightarrow> atomic_tx \<Rightarrow> instruction list \<Rightarrow> 256 word list option \<Rightarrow> node \<times> atomic_svm res" where
  "new_atomic_svm env nd tx svm alt_keys =
     (case atomic_ix env nd tx of
        (nd1, tx', Ok _) \<Rightarrow>
          (case at_ix tx' of
             None \<Rightarrow> (nd1, Panic ''unwrap'')
           | Some ix \<Rightarrow>
               (let tx'' = tx'\<lparr>at_ix := Some (batch_push ix svm)\<rparr> in
                case alt_keys of
                  None \<Rightarrow> (nd1, Ok \<lparr>as_atomic = tx'', as_alts = None, as_step = Execute\<rparr>)
                | Some keys \<Rightarrow> and_then (load_alts env keys nd1) (\<lambda>nd alts.
                    (nd, Ok \<lparr>as_atomic = tx'', as_alts = Some alts, as_step = Execute\<rparr>))))
      | (nd1, tx', Err e) \<Rightarrow> (nd1, Err e)
      | (nd1, tx', Panic m) \<Rightarrow> (nd1, Panic m))"

definition atomic_svm_advance :: "tx_env \<Rightarrow> node \<Rightarrow> atomic_svm \<Rightarrow> node \<times> atomic_svm \<times> ix_exec_step res" where
  "atomic_svm_advance env nd tx =
     (case as_step tx of
        Execute \<Rightarrow>
          (case atomic_advance env nd (as_atomic tx) of
             (nd', t, r) \<Rightarrow>
               (nd', tx\<lparr>as_atomic := t, as_alts := None, as_step := Finished\<rparr>,
                case as_alts tx of Some alt \<Rightarrow> single_with_version (V0 alt) r | None \<Rightarrow> r))
      | Finished \<Rightarrow> (nd, tx, Ok End))"

record cross_tx =
  cr_instructions :: ix_batch
  cr_complete :: bool
  cr_payer :: keypair
  cr_signers :: "keypair list"

definition new_cross_tx :: "ix_batch \<Rightarrow> keypair \<Rightarrow> keypair list \<Rightarrow> cross_tx" where
  "new_cross_tx ixs payer signers =
     \<lparr>cr_instructions = ixs, cr_complete = False, cr_payer = payer, cr_signers = signers\<rparr>"

definition cross_rollup_advance :: "node \<Rightarrow> cross_tx \<Rightarrow> node \<times> cross_tx \<times> ix_exec_step res" where
  "cross_rollup_advance nd tx =
     (if cr_complete tx then (nd, tx, Ok End)
      else (nd, tx\<lparr>cr_complete := True\<rparr>, Ok (Single (cr_instructions tx) Legacy)))"

definition cross_chain_advance :: "node \<Rightarrow> cross_tx \<Rightarrow> node \<times> cross_tx \<times> ix_exec_step res" where
  "cross_chain_advance nd tx =
     (if cr_complete tx then (nd, tx, Ok End)
      else (nd, tx\<lparr>cr_complete := True\<rparr>, Ok (SingleWithSigners (cr_instructions tx) (cr_signers tx))))"

text \<open>The boxes a user of the SDK gets.\<close>

datatype rome_tx =
  Plain iterable | WithAlt alt_composed | WithAltAndHolder alt_composed_holder | Svm atomic_svm
| CrossRollup cross_tx | CrossChain cross_tx

fun rome_tx_advance :: "tx_env \<Rightarrow> node \<Rightarrow> rome_tx \<Rightarrow> node \<times> rome_tx \<times> ix_exec_step res" where
  "rome_tx_advance env nd (Plain t) = map_tx Plain (iterable_advance env nd t)"
| "rome_tx_advance env nd (WithAlt t) = map_tx WithAlt (alt_composed_advance env nd t)"
| "rome_tx_advance env nd (WithAltAndHolder t) = map_tx WithAltAndHolder (alt_composed_holder_advance env nd t)"
| "rome_tx_advance env nd (Svm t) = map_tx Svm (atomic_svm_advance env nd t)"
| "rome_tx_advance env nd (CrossRollup t) = map_tx CrossRollup (cross_rollup_advance nd t)"
| "rome_tx_advance env nd (CrossChain t) = map_tx CrossChain (cross_chain_advance nd t)"

fun rome_tx_payer :: "rome_tx \<Rightarrow> keypair" where
  "rome_tx_payer (Plain t) = iterable_payer t"
| "rome_tx_payer (WithAlt t) = iterable_payer (ac_iterable t)"
| "rome_tx_payer (WithAltAndHolder t) = iterable_payer (ch_iterable t)"
| "rome_tx_payer (Svm t) = it_payer_keypair (at_resource (as_atomic t))"
| "rome_tx_payer (CrossRollup t) = cr_payer t"
| "rome_tx_payer (CrossChain t) = cr_payer t"

section \<open>Each comes to its end\<close>

fun alt_remaining :: "alt_tx \<Rightarrow> nat" where
  "alt_remaining tx = (case al_step tx of AltExecute \<Rightarrow> 2 | AltWaitNextSlot \<Rightarrow> 1 | AltEnd \<Rightarrow> 0)"

declare alt_remaining.simps [simp del]

lemma alt_ix_dealloc_asks: "alt_ix_dealloc env nd tx = (nd', r) \<Longrightarrow> asks_only nd nd'"
  unfolding alt_ix_dealloc_def Let_def
  by (rule and_then_asks, assumption) (auto intro: emulate_asks [OF prod.collapse [symmetric]])

lemma alt_ixs_alloc_asks: "alt_ixs_alloc env nd tx = (nd', r) \<Longrightarrow> asks_only nd nd'"
  unfolding alt_ixs_alloc_def
  by (rule and_then_asks, assumption, simp, rule and_then_asks, assumption, simp, rule and_then_asks, assumption)
    (auto intro: emulate_asks [OF prod.collapse [symmetric]])

lemma get_alt_raw_account_asks: "get_alt_raw_account nd tx = (nd', r) \<Longrightarrow> asks_only nd nd'"
  unfolding get_alt_raw_account_def Let_def
  by (rule and_then_asks, assumption, simp, rule and_then_asks, assumption, simp, rule and_then_asks, assumption) auto

interpretation alt: advance_tx "alt_advance env" alt_remaining for env
proof
  fix nd t nd' t' r
  assume "alt_advance env nd t = (nd', t', r)"
  then show "asks_only nd nd'"
    by (auto simp: alt_advance_def Let_def split: alt_steps.splits prod.splits res.splits
        dest!: alt_ix_dealloc_asks alt_ixs_alloc_asks get_alt_raw_account_asks intro: asks_only_trans)
next
  fix nd t nd' t' step
  assume "alt_advance env nd t = (nd', t', Ok step)" and "step \<noteq> End"
  then show "alt_remaining t' < alt_remaining t"
    by (auto simp: alt_advance_def Let_def alt_remaining.simps res_elims split: alt_steps.splits prod.splits res.splits)
next
  fix nd t nd' t'
  assume "alt_advance env nd t = (nd', t', Ok End)"
  then show "alt_remaining t' \<le> alt_remaining t"
    by (auto simp: alt_advance_def Let_def alt_remaining.simps res_elims split: alt_steps.splits prod.splits res.splits)
qed

fun iterable_remaining :: "iterable \<Rightarrow> nat" where
  "iterable_remaining (AtomicI t) = atomic_remaining t"
| "iterable_remaining (IterativeI t) = iterative_remaining t"
| "iterable_remaining (AtomicHolderI t) = atomic_holder_remaining t"
| "iterable_remaining (IterativeHolderI t) = iterative_holder_remaining t"

declare atomic_remaining.simps [simp del] iterative_remaining.simps [simp del]
  atomic_holder_remaining.simps [simp del] iterative_holder_remaining.simps [simp del]

lemma map_tx_eq: "map_tx f m = (nd, t', r) \<longleftrightarrow> (\<exists>t. m = (nd, t, r) \<and> t' = f t)"
  by (cases m) (auto simp: map_tx_def)

interpretation iterable: advance_tx "iterable_advance env" iterable_remaining for env
proof
  fix nd t nd' t' r
  assume "iterable_advance env nd t = (nd', t', r)"
  then show "asks_only nd nd'"
    by (cases t) (auto simp: map_tx_eq
        dest: atomic.only_asks iterative.only_asks atomic_holder.only_asks iterative_holder.only_asks)
next
  fix nd t nd' t' step
  assume "iterable_advance env nd t = (nd', t', Ok step)" and "step \<noteq> End"
  then show "iterable_remaining t' < iterable_remaining t"
    by (cases t) (auto simp: map_tx_eq
        dest: atomic.progress iterative.progress atomic_holder.progress iterative_holder.progress)
next
  fix nd t nd' t'
  assume "iterable_advance env nd t = (nd', t', Ok End)"
  then show "iterable_remaining t' \<le> iterable_remaining t"
    by (cases t) (auto simp: map_tx_eq
        dest: atomic.stays iterative.stays atomic_holder.stays iterative_holder.stays)
qed

lemma versioned_Ok: "versioned v t r = Ok s \<Longrightarrow> \<exists>s0. r = Ok s0 \<and> (s = End \<longleftrightarrow> s0 = End)"
  by (cases t; cases r)
    (auto simp: versioned_def single_with_version_def unchecked_with_version_def split: ix_exec_step.splits)

lemma advance_with_version_facts:
  assumes "iterable_advance_with_version env v nd t = (nd', t', r)"
  shows "asks_only nd nd'"
    and "r = Ok s \<Longrightarrow> s \<noteq> End \<Longrightarrow> iterable_remaining t' < iterable_remaining t"
    and "r = Ok End \<Longrightarrow> iterable_remaining t' \<le> iterable_remaining t"
  using assms iterable.only_asks iterable.progress iterable.stays
  by (fastforce simp: iterable_advance_with_version_def split: prod.splits dest: versioned_Ok)+

fun composed_remaining :: "composed_steps \<Rightarrow> nat \<Rightarrow> nat \<Rightarrow> nat" where
  "composed_remaining AltFirst before after = Suc (before + after)"
| "composed_remaining (Composed v) before after = after"

fun alt_composed_remaining :: "alt_composed \<Rightarrow> nat" where
  "alt_composed_remaining tx =
     composed_remaining (ac_step tx) (alt_remaining (ac_alt tx)) (iterable_remaining (ac_iterable tx))"

lemma alt_composed_execute_asks: "alt_composed_execute env v nd tx = (nd', tx', r) \<Longrightarrow> asks_only nd nd'"
  by (auto simp: alt_composed_execute_def map_tx_eq dest: advance_with_version_facts(1))

lemma alt_composed_execute_remaining:
  assumes "alt_composed_execute env v nd tx = (nd', tx', Ok s)" and "ac_step tx = Composed w"
  shows "alt_composed_remaining tx' \<le> iterable_remaining (ac_iterable tx) \<and>
    (s \<noteq> End \<longrightarrow> alt_composed_remaining tx' < iterable_remaining (ac_iterable tx))"
  using assms advance_with_version_facts(2,3) [of env v nd "ac_iterable tx"]
  by (cases "s = End") (fastforce simp: alt_composed_execute_def map_tx_eq)+

interpretation alt_composed: advance_tx "alt_composed_advance env" alt_composed_remaining for env
proof
  fix nd t nd' t' r
  assume "alt_composed_advance env nd t = (nd', t', r)"
  then show "asks_only nd nd'"
    by (auto simp: alt_composed_advance_def Let_def split: composed_steps.splits prod.splits if_splits res.splits
        dest!: alt.only_asks alt_composed_execute_asks intro: asks_only_trans)
next
  fix nd t nd' t' step
  assume "alt_composed_advance env nd t = (nd', t', Ok step)" and "step \<noteq> End"
  then show "alt_composed_remaining t' < alt_composed_remaining t"
    by (auto simp: alt_composed_advance_def Let_def split: composed_steps.splits prod.splits if_splits res.splits
        dest: alt.progress dest!: alt_composed_execute_remaining)
next
  fix nd t nd' t'
  assume "alt_composed_advance env nd t = (nd', t', Ok End)"
  then show "alt_composed_remaining t' \<le> alt_composed_remaining t"
    by (auto simp: alt_composed_advance_def Let_def split: composed_steps.splits prod.splits if_splits res.splits
        dest: alt.stays dest!: alt_composed_execute_remaining)
qed

fun composed_holder_remaining :: "alt_composed_holder \<Rightarrow> nat" where
  "composed_holder_remaining tx =
     composed_remaining (ch_step tx) (alt_remaining (ch_alt tx) + transmit_remaining (ch_transmit tx))
       (iterable_remaining (ch_iterable tx))"

lemma holder_composed_execute_asks:
  "holder_composed_execute env v nd tx = (nd', tx', r) \<Longrightarrow> asks_only nd nd'"
  by (auto simp: holder_composed_execute_def map_tx_eq dest: advance_with_version_facts(1))

lemma holder_composed_execute_remaining:
  assumes "holder_composed_execute env v nd tx = (nd', tx', Ok s)" and "ch_step tx = Composed w"
  shows "composed_holder_remaining tx' \<le> iterable_remaining (ch_iterable tx) \<and>
    (s \<noteq> End \<longrightarrow> composed_holder_remaining tx' < iterable_remaining (ch_iterable tx))"
  using assms advance_with_version_facts(2,3) [of env v nd "ch_iterable tx"]
  by (cases "s = End") (fastforce simp: holder_composed_execute_def map_tx_eq)+

lemma join_parallel_End: "join_parallel a b = Ok s \<Longrightarrow> s = End \<longleftrightarrow> a = End \<and> b = End"
  by (cases a; cases b) (auto simp: join_parallel_def)

text \<open>Both parts move in each round; none goes back.\<close>

lemma alt_remaining_le: "alt_advance env nd t = (nd', t', Ok s) \<Longrightarrow> alt_remaining t' \<le> alt_remaining t"
  using alt.progress alt.stays by (cases "s = End") (auto intro: less_imp_le)

lemma transmit_remaining_le:
  "transmit_advance env nd t = (nd', t', Ok s) \<Longrightarrow> transmit_remaining t' \<le> transmit_remaining t"
  using transmit.progress transmit.stays by (cases "s = End") (auto intro: less_imp_le)

lemma both_advance:
  assumes "alt_advance env nd a = (nd1, a', Ok s1)" and "transmit_advance env nd1 b = (nd2, b', Ok s2)"
    and "s1 \<noteq> End \<or> s2 \<noteq> End"
  shows "alt_remaining a' + transmit_remaining b' < alt_remaining a + transmit_remaining b"
  using assms(3) alt_remaining_le [OF assms(1)] transmit_remaining_le [OF assms(2)]
    alt.progress [OF assms(1)] transmit.progress [OF assms(2)] by linarith

interpretation alt_composed_holder: advance_tx "alt_composed_holder_advance env" composed_holder_remaining for env
proof
  fix nd t nd' t' r
  assume "alt_composed_holder_advance env nd t = (nd', t', r)"
  then show "asks_only nd nd'"
    by (auto simp: alt_composed_holder_advance_def Let_def
        split: composed_steps.splits prod.splits if_splits res.splits
        dest!: alt.only_asks transmit.only_asks holder_composed_execute_asks intro: asks_only_trans)
next
  fix nd t nd' t' step
  assume run: "alt_composed_holder_advance env nd t = (nd', t', Ok step)" and step: "step \<noteq> End"
  show "composed_holder_remaining t' < composed_holder_remaining t"
  proof (cases "ch_step t")
    case (Composed v)
    then show ?thesis using run step
      by (auto simp: alt_composed_holder_advance_def dest!: holder_composed_execute_remaining)
  next
    case AltFirst
    obtain nd1 a s1 nd2 b s2 ix where alt: "alt_advance env nd (ch_alt t) = (nd1, a, Ok s1)"
      and tr: "transmit_advance env nd1 (ch_transmit t) = (nd2, b, Ok s2)" and ix: "join_parallel s1 s2 = Ok ix"
      using run by (auto simp: alt_composed_holder_advance_def AltFirst Let_def split: prod.splits res.splits)
    note joined = join_parallel_End [OF ix]
    show ?thesis
    proof (cases "ix = End")
      case True
      then show ?thesis using run step
        by (auto simp: alt_composed_holder_advance_def AltFirst Let_def alt tr ix split: res.splits
            dest!: holder_composed_execute_remaining)
    next
      case False
      then show ?thesis using run both_advance [OF alt tr] joined
        by (auto simp: alt_composed_holder_advance_def AltFirst Let_def alt tr ix)
    qed
  qed
next
  fix nd t nd' t'
  assume "alt_composed_holder_advance env nd t = (nd', t', Ok End)"
  then show "composed_holder_remaining t' \<le> composed_holder_remaining t"
    by (auto simp: alt_composed_holder_advance_def Let_def
        split: composed_steps.splits prod.splits if_splits res.splits dest!: holder_composed_execute_remaining)
qed

fun svm_remaining :: "atomic_svm \<Rightarrow> nat" where
  "svm_remaining tx = (case as_step tx of Execute \<Rightarrow> 1 | Finished \<Rightarrow> 0)"

lemma single_with_version_End: "single_with_version v r = Ok End \<longleftrightarrow> r = Ok End"
  by (cases r) (auto simp: single_with_version_def split: ix_exec_step.splits)

interpretation svm: advance_tx "atomic_svm_advance env" svm_remaining for env
  by unfold_locales
    (auto simp: atomic_svm_advance_def split: exec_steps.splits prod.splits dest: atomic.only_asks)

fun cross_remaining :: "cross_tx \<Rightarrow> nat" where
  "cross_remaining tx = (if cr_complete tx then 0 else 1)"

interpretation cross_rollup: advance_tx cross_rollup_advance cross_remaining
  by unfold_locales (auto simp: cross_rollup_advance_def split: if_splits)

interpretation cross_chain: advance_tx cross_chain_advance cross_remaining
  by unfold_locales (auto simp: cross_chain_advance_def split: if_splits)

fun rome_tx_remaining :: "rome_tx \<Rightarrow> nat" where
  "rome_tx_remaining (Plain t) = iterable_remaining t"
| "rome_tx_remaining (WithAlt t) = alt_composed_remaining t"
| "rome_tx_remaining (WithAltAndHolder t) = composed_holder_remaining t"
| "rome_tx_remaining (Svm t) = svm_remaining t"
| "rome_tx_remaining (CrossRollup t) = cross_remaining t"
| "rome_tx_remaining (CrossChain t) = cross_remaining t"

declare alt_composed_remaining.simps [simp del] composed_holder_remaining.simps [simp del]
  svm_remaining.simps [simp del] cross_remaining.simps [simp del]

interpretation rome_tx: advance_tx "rome_tx_advance env" rome_tx_remaining for env
proof
  fix nd t nd' t' r
  assume "rome_tx_advance env nd t = (nd', t', r)"
  then show "asks_only nd nd'"
    by (cases t) (auto simp: map_tx_eq dest: iterable.only_asks alt_composed.only_asks
        alt_composed_holder.only_asks svm.only_asks cross_rollup.only_asks cross_chain.only_asks)
next
  fix nd t nd' t' step
  assume "rome_tx_advance env nd t = (nd', t', Ok step)" and "step \<noteq> End"
  then show "rome_tx_remaining t' < rome_tx_remaining t"
    by (cases t) (auto simp: map_tx_eq dest: iterable.progress alt_composed.progress
        alt_composed_holder.progress svm.progress cross_rollup.progress cross_chain.progress)
next
  fix nd t nd' t'
  assume "rome_tx_advance env nd t = (nd', t', Ok End)"
  then show "rome_tx_remaining t' \<le> rome_tx_remaining t"
    by (cases t) (auto simp: map_tx_eq dest: iterable.stays alt_composed.stays
        alt_composed_holder.stays svm.stays cross_rollup.stays cross_chain.stays)
qed

end
