(* ===== verification/Tx_Builder.thy ===== *)
theory Tx_Builder
  imports Alt_Txs
begin

text \<open>
  \<^verbatim>\<open>rome-evm-client/src/tx/builder.rs\<close>: how \<^verbatim>\<open>TxBuilder\<close> picks the transaction that runs
  an EVM transaction.  The resources of the builder are the vector of \<open>Resources\<close>; an
  operation that has to wait because it is empty returns \<open>None\<close>.
\<close>

section \<open>Size and keys\<close>

definition USE_ALT_KEYS_BOUND :: nat where "USE_ALT_KEYS_BOUND = 28"

text \<open>\<^verbatim>\<open>PACKET_DATA_SIZE\<close> of the Solana crates is 1232.\<close>

definition PACKET_DATA_SIZE :: nat where "PACKET_DATA_SIZE = 1232"

definition tx_keys :: "ix_batch \<Rightarrow> 256 word list" where
  "tx_keys b = concat (map (\<lambda>ix. map am_pubkey (ix_accounts ix)) b)"

definition use_alt :: "256 word list \<Rightarrow> bool" where
  "use_alt keys \<longleftrightarrow> USE_ALT_KEYS_BOUND < length keys"

definition serialize_encode :: "tx_env \<Rightarrow> sol_tx \<Rightarrow> tx_encoding \<Rightarrow> string res" where
  "serialize_encode env tx encoding =
     try_res (ok_or BincodeError (te_serialize env tx)) (\<lambda>serialized.
     try_res (case encoding of
         Base58 \<Rightarrow> Ok (te_base58 env serialized)
       | Base64 \<Rightarrow> Ok (te_base64 env serialized)
       | OtherEncoding _ \<Rightarrow> Err (Custom ''unsupported tx encoding'')) (\<lambda>encoded.
     Ok (te_params_json env encoded encoding)))"

definition use_holder :: "tx_env \<Rightarrow> ix_batch \<Rightarrow> keypair \<Rightarrow> alt_table list option \<Rightarrow> bool res" where
  "use_holder env b payer alts =
     (if 32767 < sum_list (map (\<lambda>ix. length (ix_data ix)) b) then Ok True
      else try_res (case alts of
          Some a \<Rightarrow> compose_v0_solana_tx (te_sol env) b payer 0 a
        | None \<Rightarrow> compose_legacy_solana_tx (te_sol env) b payer 0) (\<lambda>tx.
        try_res (serialize_encode env tx Base64) (\<lambda>json.
        Ok (PACKET_DATA_SIZE - 100 < length json))))"

section \<open>Composition\<close>

definition compose_iterable_with_holder ::
  "bool \<Rightarrow> 256 word list \<Rightarrow> transmit_tx \<Rightarrow> iterable \<Rightarrow> node \<Rightarrow> node \<times> rome_tx res" where
  "compose_iterable_with_holder alt keys tt t nd =
     (if alt then
        and_then (new_alt_tx (tt_builder tt) (tt_resource tt) keys nd) (\<lambda>nd alt_tx.
          (nd, Ok (WithAltAndHolder (new_alt_composed_holder alt_tx tt t))))
      else (nd, Ok (Plain t)))"

definition compose_iterable_without_holder ::
  "tx_builder \<Rightarrow> bool \<Rightarrow> 256 word list \<Rightarrow> resource_item \<Rightarrow> iterable \<Rightarrow> node \<Rightarrow> node \<times> rome_tx res" where
  "compose_iterable_without_holder tb alt keys r t nd =
     (if alt then
        and_then (new_alt_tx tb r keys nd) (\<lambda>nd alt_tx. (nd, Ok (WithAlt (new_alt_composed alt_tx t))))
      else (nd, Ok (Plain t)))"

definition holder_iterable :: "bool \<Rightarrow> transmit_tx \<Rightarrow> bool \<Rightarrow> node \<Rightarrow> node \<times> iterable" where
  "holder_iterable is_atomic tt alt nd =
     (if is_atomic then (nd, AtomicHolderI (new_atomic_tx_holder tt alt))
      else (case new_iterative_tx_holder tt alt nd of (nd', t) \<Rightarrow> (nd', IterativeHolderI t)))"

definition compose_iterable ::
  "tx_env \<Rightarrow> tx_builder \<Rightarrow> ix_batch \<Rightarrow> resource_item \<Rightarrow> bytes \<Rightarrow> h256 \<Rightarrow> iterable \<Rightarrow> bool \<Rightarrow> node
    \<Rightarrow> node \<times> rome_tx res" where
  "compose_iterable env tb b r rlp hash t is_atomic nd =
     (let keys = tx_keys b;
          alt = use_alt keys;
          alts = (if alt then Some [\<lparr>alt_key = 0, alt_addresses = keys\<rparr>] else None) in
      and_then (nd, use_holder env b (it_payer_keypair r) alts) (\<lambda>nd holder.
        if holder then
          (let tt = new_transmit_tx tb r rlp hash in
           case holder_iterable is_atomic tt alt nd of
             (nd', t') \<Rightarrow> compose_iterable_with_holder alt keys tt t' nd')
        else compose_iterable_without_holder tb alt keys r t nd))"

section \<open>Building\<close>

text \<open>
  \<^verbatim>\<open>build_tx\<close> after the resource is locked: the instruction that is measured, the
  transaction and whether it is atomic.
\<close>

definition build_iterable ::
  "tx_env \<Rightarrow> tx_builder \<Rightarrow> resource_item \<Rightarrow> bytes \<Rightarrow> node \<Rightarrow> node \<times> (ix_batch \<times> iterable \<times> bool) res" where
  "build_iterable env tb r rlp nd =
     (case atomic_ix env nd (new_atomic_tx tb rlp r) of
        (nd1, t, Ok _) \<Rightarrow>
          and_then (nd1, expect ''unwrap'' (at_emulation t)) (\<lambda>nd1 em.
            if em_is_atomic em then
              and_then (nd1, expect ''unwrap'' (at_ix t)) (\<lambda>nd1 ix. (nd1, Ok (ix, AtomicI t, True)))
            else
              and_then (new_iterative_tx env tb r rlp nd1) (\<lambda>nd2 t2.
                case iterative_ixs env nd2 t2 of
                  (nd3, t3, Ok _) \<Rightarrow>
                    and_then (nd3, expect ''unwrap'' (ie_ixs t3)) (\<lambda>nd3 ixs.
                    and_then (nd3, if ixs = [] then Panic ''no instructions in iterative Tx'' else Ok (last ixs)) (\<lambda>nd3 ix.
                      (nd3, Ok (ix, IterativeI t3, False))))
                | (nd3, t3, Err e) \<Rightarrow> (nd3, Err e)
                | (nd3, t3, Panic m) \<Rightarrow> (nd3, Panic m)))
      | (nd1, t, Err e) \<Rightarrow> (nd1, Err e)
      | (nd1, t, Panic m) \<Rightarrow> (nd1, Panic m))"

definition build_with ::
  "tx_env \<Rightarrow> tx_builder \<Rightarrow> resource_item \<Rightarrow> bytes \<Rightarrow> h256 \<Rightarrow> node \<Rightarrow> node \<times> rome_tx res" where
  "build_with env tb r rlp hash nd =
     and_then (build_iterable env tb r rlp nd) (\<lambda>nd (ix, t, is_atomic).
       compose_iterable env tb ix r rlp hash t is_atomic nd)"

text \<open>\<^verbatim>\<open>build_svm_tx\<close> after the resource is locked; the errors it makes are dropped.\<close>

definition build_svm_with ::
  "tx_env \<Rightarrow> tx_builder \<Rightarrow> resource_item \<Rightarrow> bytes \<Rightarrow> instruction list \<Rightarrow> 256 word list option \<Rightarrow> node
    \<Rightarrow> node \<times> rome_tx res" where
  "build_svm_with env tb r rlp svm alt_keys nd =
     and_then (new_atomic_svm env nd (new_atomic_tx tb rlp r) svm alt_keys) (\<lambda>nd t.
     and_then (nd, expect ''unwrap'' (at_ix (as_atomic t))) (\<lambda>nd ix.
     and_then (nd, expect ''unwrap'' (at_emulation (as_atomic t))) (\<lambda>nd em.
     and_then (nd, use_holder env ix (it_payer_keypair r) (as_alts t)) (\<lambda>nd _.
       (nd, Ok (Svm t))))))"

text \<open>
  A resource stays locked as long as the transaction lives, and is given back when none is
  made; a panic drops it as well.
\<close>

definition lock_resource :: "resource_item list \<Rightarrow> (resource_item list \<times> resource_item) option" where
  "lock_resource items = factory_pop items"

definition keep_if_ok :: "resource_item list \<Rightarrow> resource_item \<Rightarrow> node \<times> 'a res \<Rightarrow> resource_item list \<times> node \<times> 'a res" where
  "keep_if_ok items r m = (case m of (nd, x) \<Rightarrow> ((if is_ok x then items else factory_push items r), nd, x))"

definition build_tx ::
  "tx_env \<Rightarrow> tx_builder \<Rightarrow> bytes \<Rightarrow> h256 \<Rightarrow> resource_item list \<Rightarrow> node
    \<Rightarrow> (resource_item list \<times> node \<times> rome_tx res) option" where
  "build_tx env tb rlp hash items nd =
     (case lock_resource items of
        None \<Rightarrow> None
      | Some (items', r) \<Rightarrow> Some (keep_if_ok items' r (build_with env tb r rlp hash nd)))"

definition build_svm_tx ::
  "tx_env \<Rightarrow> tx_builder \<Rightarrow> bytes \<Rightarrow> instruction list \<Rightarrow> 256 word list option \<Rightarrow> resource_item list \<Rightarrow> node
    \<Rightarrow> (resource_item list \<times> node \<times> rome_tx res) option" where
  "build_svm_tx env tb rlp svm alt_keys items nd =
     (case lock_resource items of
        None \<Rightarrow> None
      | Some (items', r) \<Rightarrow> Some (keep_if_ok items' r (build_svm_with env tb r rlp svm alt_keys nd)))"

end
