(* ===== verification/Rome_Sdk.thy ===== *)
theory Rome_Sdk
  imports Tx_Builder
begin

text \<open>
  \<^verbatim>\<open>rome-sdk/src/rome.rs\<close>: the rollups with their builders, and the composition of
  rollup, cross rollup and cross chain transactions.  As in \<open>Tx_Builder\<close>, \<open>None\<close> is an
  operation that waits for a resource.
\<close>

section \<open>Transactions and rollups\<close>

text \<open>
  \<^verbatim>\<open>EthSignedTxTuple\<close> of \<^verbatim>\<open>tx/tx_tuple.rs\<close>: the chain, the signed bytes and the hash that
  the \<^verbatim>\<open>ethers\<close> crate computes.
\<close>

record eth_signed_tx =
  es_chain_id :: "u64 option"
  es_rlp :: bytes
  es_hash :: h256

record romulus_tx =
  ro_eth_txs :: "eth_signed_tx list"
  ro_sol_ixs :: "instruction list"

text \<open>Each builder has a resource factory of its own.\<close>

record rollup =
  ru_builder :: tx_builder
  ru_items :: "resource_item list"

type_synonym rome = "u64 \<rightharpoonup> rollup"

text \<open>
  \<^verbatim>\<open>new_with_config\<close>, without the clients and the clock: the builders of the configured
  rollups.  \<open>parse\<close> reads a public key.
\<close>

fun builders_from_config ::
  "(string \<Rightarrow> 256 word option) \<Rightarrow> payer list \<Rightarrow> (u64 \<times> string) list \<Rightarrow> rome res" where
  "builders_from_config parse payers [] = Ok Map.empty"
| "builders_from_config parse payers ((chain, key) # rollups) =
     try_res (ok_or (Custom ''Failed to parse program id'') (parse key)) (\<lambda>program.
     try_res (builders_from_config parse payers rollups) (\<lambda>builders.
       Ok (builders(chain \<mapsto> \<lparr>ru_builder = \<lparr>tb_chain_id = chain, tb_program_id = program\<rparr>,
         ru_items = factory_from_payers payers\<rparr>))))"

definition get_transaction_builder :: "rome \<Rightarrow> u64 \<Rightarrow> rollup res" where
  "get_transaction_builder rome chain = ok_or (UnsupportedChainId chain) (rome chain)"

text \<open>The rollup with its key in the map.\<close>

definition get_transaction_builder_for_tx :: "rome \<Rightarrow> eth_signed_tx \<Rightarrow> (u64 \<times> rollup) res" where
  "get_transaction_builder_for_tx rome tx =
     try_res (ok_or NoChainId (es_chain_id tx)) (\<lambda>chain.
     try_res (get_transaction_builder rome chain) (\<lambda>ru. Ok (chain, ru)))"

text \<open>\<^verbatim>\<open>transaction_count\<close>; \<open>tx_count\<close> is the emulator's.\<close>

definition transaction_count ::
  "(256 word \<Rightarrow> address \<Rightarrow> u64 \<Rightarrow> u64 res) \<Rightarrow> rome \<Rightarrow> address \<Rightarrow> u64 \<Rightarrow> u64 res" where
  "transaction_count tx_count rome address chain =
     try_res (get_transaction_builder rome chain) (\<lambda>ru. tx_count (tb_program_id (ru_builder ru)) address chain)"

section \<open>Estimating gas\<close>

text \<open>
  \<^verbatim>\<open>TransactionRequest\<close> of \<^verbatim>\<open>ethers\<close>, whose recipient may be a name, and the legacy
  transaction of \<^verbatim>\<open>rome_evm\<close>.
\<close>

datatype name_or_address = Address address | Name string

record transaction_request =
  rq_chain_id :: "u64 option"
  rq_nonce :: "u256 option"
  rq_gas_price :: "u256 option"
  rq_gas :: "u256 option"
  rq_to :: "name_or_address option"
  rq_value :: "u256 option"
  rq_data :: "bytes option"
  rq_from :: "address option"

record legacy_tx =
  le_nonce :: u64
  le_gas_price :: u256
  le_gas_limit :: u256
  le_to :: "address option"
  le_value :: u256
  le_data :: "bytes option"
  le_chain_id :: u256
  le_from :: address

definition unwrap_or_zero :: "'a::zero option \<Rightarrow> 'a" where
  "unwrap_or_zero v = (case v of None \<Rightarrow> 0 | Some x \<Rightarrow> x)"

definition cast_transaction_request :: "transaction_request \<Rightarrow> u64 \<Rightarrow> legacy_tx res" where
  "cast_transaction_request v chain =
     try_res (as_u64 (unwrap_or_zero (rq_nonce v))) (\<lambda>nonce.
       Ok \<lparr>le_nonce = nonce, le_gas_price = unwrap_or_zero (rq_gas_price v),
         le_gas_limit = unwrap_or_zero (rq_gas v),
         le_to = map_option (\<lambda>t. case t of Address a \<Rightarrow> a | Name _ \<Rightarrow> 0) (rq_to v),
         le_value = unwrap_or_zero (rq_value v),
         le_data = Some (case rq_data v of None \<Rightarrow> [] | Some d \<Rightarrow> d),
         le_chain_id = ucast (case rq_chain_id v of Some c \<Rightarrow> c | None \<Rightarrow> chain),
         le_from = unwrap_or_zero (rq_from v)\<rparr>)"

definition estimate_gas ::
  "(256 word \<Rightarrow> legacy_tx \<Rightarrow> emulation res) \<Rightarrow> log_env \<Rightarrow> rome \<Rightarrow> transaction_request \<Rightarrow> u256 res" where
  "estimate_gas estimate env rome tx =
     try_res (ok_or NoChainId (rq_chain_id tx)) (\<lambda>chain.
     try_res (get_transaction_builder rome chain) (\<lambda>ru.
     try_res (cast_transaction_request tx (tb_chain_id (ru_builder ru))) (\<lambda>legacy.
     try_res (estimate (tb_program_id (ru_builder ru)) legacy) (\<lambda>em.
     try_res (check_exit_reason env em) (\<lambda>_.
     try_res (check_accounts_len em) (\<lambda>_. Ok (ucast (em_gas em))))))))"

section \<open>Composition\<close>

definition compose_rollup_tx ::
  "tx_env \<Rightarrow> rome \<Rightarrow> eth_signed_tx \<Rightarrow> node \<Rightarrow> (rome \<times> node \<times> rome_tx res) option" where
  "compose_rollup_tx env rome tx nd =
     (case get_transaction_builder_for_tx rome tx of
        Ok (chain, ru) \<Rightarrow>
          (case build_tx env (ru_builder ru) (es_rlp tx) (es_hash tx) (ru_items ru) nd of
             None \<Rightarrow> None
           | Some (items, nd', r) \<Rightarrow>
               Some (rome(chain \<mapsto> ru\<lparr>ru_items := items\<rparr>), nd', r))
      | Err e \<Rightarrow> Some (rome, nd, Err e)
      | Panic m \<Rightarrow> Some (rome, nd, Panic m))"

text \<open>
  The loops of \<^verbatim>\<open>compose_cross_rollup_tx\<close> and \<^verbatim>\<open>compose_cross_chain_tx\<close>.  The first
  resource is kept until the function returns; that of every later transaction is locked and
  dropped at the end of its iteration, while those of the first are used.
\<close>

definition lock_in :: "u64 \<Rightarrow> rome \<Rightarrow> (rome \<times> resource_item) option" where
  "lock_in chain rome =
     (case rome chain of
        None \<Rightarrow> None
      | Some ru \<Rightarrow> map_option (\<lambda>(items, r). (rome(chain \<mapsto> ru\<lparr>ru_items := items\<rparr>), r)) (lock_resource (ru_items ru)))"

definition release_in :: "u64 \<Rightarrow> resource_item \<Rightarrow> rome \<Rightarrow> rome" where
  "release_in chain r rome =
     (case rome chain of
        None \<Rightarrow> rome
      | Some ru \<Rightarrow> rome(chain \<mapsto> ru\<lparr>ru_items := factory_push (ru_items ru) r\<rparr>))"

definition release_all :: "(u64 \<times> resource_item) option \<Rightarrow> rome \<Rightarrow> rome" where
  "release_all held rome = (case held of None \<Rightarrow> rome | Some (chain, r) \<Rightarrow> release_in chain r rome)"

definition cross_ix_data :: "tx_env \<Rightarrow> resource_item \<Rightarrow> eth_signed_tx \<Rightarrow> bytes" where
  "cross_ix_data env r tx = ins_DoTx env # resource_fee_recipient r @ es_rlp tx"

definition cross_ix :: "tx_env \<Rightarrow> tx_builder \<Rightarrow> resource_item \<Rightarrow> eth_signed_tx \<Rightarrow> node \<Rightarrow> node \<times> instruction res" where
  "cross_ix env tb r tx nd =
     (let data = cross_ix_data env r tx in
      and_then (emulate env tb data (it_payer_keypair r) nd) (\<lambda>nd em.
        (nd, if em_is_atomic em then Ok (build_ix tb em data)
             else Err (Custom ''Transaction is too large or expensive''))))"

fun cross_loop ::
  "tx_env \<Rightarrow> eth_signed_tx list \<Rightarrow> (u64 \<times> resource_item) option \<Rightarrow> instruction list \<Rightarrow> rome \<Rightarrow> node
    \<Rightarrow> (rome \<times> node \<times> (u64 \<times> resource_item) option \<times> instruction list res) option" where
  "cross_loop env [] held ixs rome nd = Some (rome, nd, held, Ok ixs)"
| "cross_loop env (tx # txs) held ixs rome nd =
     (case get_transaction_builder_for_tx rome tx of
        Ok (chain, ru) \<Rightarrow>
          (case lock_in chain rome of
             None \<Rightarrow> None
           | Some (rome1, current) \<Rightarrow>
               (let held' = (case held of None \<Rightarrow> Some (chain, current) | Some h \<Rightarrow> Some h);
                    r = (case held of None \<Rightarrow> current | Some (_, r) \<Rightarrow> r);
                    rome2 = (if held = None then rome1 else release_in chain current rome1) in
                case cross_ix env (ru_builder ru) r tx nd of
                  (nd1, Ok ix) \<Rightarrow> cross_loop env txs held' (ixs @ [ix]) rome2 nd1
                | (nd1, Err e) \<Rightarrow> Some (rome2, nd1, held', Err e)
                | (nd1, Panic m) \<Rightarrow> Some (rome2, nd1, held', Panic m)))
      | Err e \<Rightarrow> Some (rome, nd, held, Err e)
      | Panic m \<Rightarrow> Some (rome, nd, held, Panic m))"

definition cross_prologue :: "tx_env \<Rightarrow> instruction list" where
  "cross_prologue env = [compute_unit_limit (te_sol env) 1400000, heap_frame (te_sol env) (256 * 1024)]"

definition no_resource :: "rome_error" where
  "no_resource = Custom ''Failed to acquire resource for Solana transaction''"

definition compose_cross_rollup_tx ::
  "tx_env \<Rightarrow> eth_signed_tx list \<Rightarrow> rome \<Rightarrow> node \<Rightarrow> (rome \<times> node \<times> rome_tx res) option" where
  "compose_cross_rollup_tx env txs rome nd =
     (case cross_loop env txs None (cross_prologue env) rome nd of
        None \<Rightarrow> None
      | Some (rome', nd', held, r) \<Rightarrow>
          Some (release_all held rome', nd', try_res r (\<lambda>ixs.
            try_res (ok_or no_resource held) (\<lambda>(_, r).
              Ok (CrossRollup (new_cross_tx (new_owned ixs) (it_payer_keypair r) []))))))"

definition compose_cross_chain_tx ::
  "tx_env \<Rightarrow> romulus_tx \<Rightarrow> keypair list \<Rightarrow> rome \<Rightarrow> node \<Rightarrow> (rome \<times> node \<times> rome_tx res) option" where
  "compose_cross_chain_tx env tx signers rome nd =
     (case cross_loop env (ro_eth_txs tx) None (cross_prologue env) rome nd of
        None \<Rightarrow> None
      | Some (rome', nd', held, r) \<Rightarrow>
          Some (release_all held rome', nd', try_res r (\<lambda>ixs.
            try_res (ok_or no_resource held) (\<lambda>(_, r).
              Ok (CrossChain (new_cross_tx (new_owned (ixs @ ro_sol_ixs tx)) (it_payer_keypair r) signers))))))"

end
