(* ===== verification/Tower.thy ===== *)
theory Tower
  imports Alt_Txs
begin

text \<open>
  \<^verbatim>\<open>rome-solana/src/tower.rs\<close>: the loop that sends the steps of a transaction to Solana
  and confirms them.  A client error is \<open>RpcClientError\<close>; an error of \<^verbatim>\<open>anyhow\<close> is the
  error it wraps, or \<open>Custom\<close> of a text.
\<close>

section \<open>Sending\<close>

definition to_tx :: "sol_lib \<Rightarrow> ix_batch \<Rightarrow> keypair \<Rightarrow> tx_version \<Rightarrow> node \<Rightarrow> node \<times> sol_tx res" where
  "to_tx lib ixs payer ver nd =
     and_then (ask (nd_get_latest_blockhash nd) nd) (\<lambda>nd bh.
       (nd, case ver of Legacy \<Rightarrow> compose_legacy_solana_tx lib ixs payer bh
                      | V0 alt \<Rightarrow> compose_v0_solana_tx lib ixs payer bh alt))"

definition send_tx :: "sol_tx \<Rightarrow> node \<Rightarrow> node \<times> bytes res" where
  "send_tx tx nd = ask (\<lambda>t. nd_send nd t tx) (nd\<lparr>nd_sent := nd_sent nd @ [tx]\<rparr>)"

definition send_and_confirm ::
  "sol_lib \<Rightarrow> ix_batch \<Rightarrow> keypair \<Rightarrow> tx_version \<Rightarrow> node \<Rightarrow> node \<times> bytes res" where
  "send_and_confirm lib ixs payer ver nd = and_then (to_tx lib ixs payer ver nd) (\<lambda>nd tx. send_tx tx nd)"

definition send_and_confirm_with_signers ::
  "sol_lib \<Rightarrow> ix_batch \<Rightarrow> keypair \<Rightarrow> keypair list \<Rightarrow> node \<Rightarrow> node \<times> bytes res" where
  "send_and_confirm_with_signers lib ixs payer signers nd =
     and_then (ask (nd_get_latest_blockhash nd) nd) (\<lambda>nd bh.
     and_then (nd, compose_legacy_solana_tx_with_signers lib ixs payer signers bh) (\<lambda>nd tx. send_tx tx nd))"

text \<open>
  \<^verbatim>\<open>join_all\<close> runs every future whatever the others return; their calls are taken in the
  order of the batches.
\<close>

fun send_parallel_unchecked ::
  "sol_lib \<Rightarrow> ix_batch list \<Rightarrow> keypair \<Rightarrow> tx_version \<Rightarrow> node \<Rightarrow> node \<times> bytes res list" where
  "send_parallel_unchecked lib [] payer ver nd = (nd, [])"
| "send_parallel_unchecked lib (b # bs) payer ver nd =
     (case send_and_confirm lib b payer ver nd of
        (nd1, r) \<Rightarrow> (case send_parallel_unchecked lib bs payer ver nd1 of (nd2, rs) \<Rightarrow> (nd2, r # rs)))"

definition send_and_confirm_parallel ::
  "sol_lib \<Rightarrow> ix_batch list \<Rightarrow> keypair \<Rightarrow> tx_version \<Rightarrow> node \<Rightarrow> node \<times> bytes list res" where
  "send_and_confirm_parallel lib bs payer ver nd =
     (case send_parallel_unchecked lib bs payer ver nd of (nd', rs) \<Rightarrow> (nd', joined rs (collect_results rs)))"

section \<open>The loop over the steps\<close>

text \<open>\<^verbatim>\<open>WaitNextSlot\<close>: ask for the slot until it is greater; the fuel counts the questions.\<close>

fun wait_next_slot :: "nat \<Rightarrow> u64 \<Rightarrow> node \<Rightarrow> (node \<times> unit res) option" where
  "wait_next_slot 0 slot_nr nd = None"
| "wait_next_slot (Suc n) slot_nr nd =
     (case ask (nd_get_slot nd) nd of
        (nd', Ok current) \<Rightarrow> if slot_nr < current then Some (nd', Ok ()) else wait_next_slot n slot_nr nd'
      | (nd', Err e) \<Rightarrow> Some (nd', Err e)
      | (nd', Panic m) \<Rightarrow> Some (nd', Panic m))"

text \<open>What the loop has collected: the signatures, and the results not yet confirmed.\<close>

record sent_state =
  ss_sigs :: "bytes list"
  ss_unchecked :: "bytes res list"

fun oks :: "'a res list \<Rightarrow> 'a list" where
  "oks [] = []"
| "oks (Ok x # rs) = x # oks rs"
| "oks (r # rs) = oks rs"

fun last_error :: "'a res list \<Rightarrow> rome_error option" where
  "last_error [] = None"
| "last_error (r # rs) =
     (case last_error rs of Some e \<Rightarrow> Some e | None \<Rightarrow> (case r of Err e \<Rightarrow> Some e | _ \<Rightarrow> None))"

definition confirm_iterative :: "bool \<Rightarrow> sent_state \<Rightarrow> sent_state res" where
  "confirm_iterative confirm st =
     (if confirm then Ok (st\<lparr>ss_sigs := ss_sigs st @ oks (ss_unchecked st)\<rparr>)
      else Err (case last_error (ss_unchecked st) of
        Some e \<Rightarrow> e | None \<Rightarrow> Custom ''tx execution is not completed or tx status unknown''))"

definition add_sig :: "sent_state \<Rightarrow> bytes \<Rightarrow> sent_state" where
  "add_sig st sig = st\<lparr>ss_sigs := ss_sigs st @ [sig]\<rparr>"

text \<open>One step; \<open>n\<close> is the fuel for waiting.  \<open>None\<close> as the value is the end.\<close>

definition run_step ::
  "nat \<Rightarrow> sol_lib \<Rightarrow> keypair \<Rightarrow> ix_exec_step \<Rightarrow> sent_state \<Rightarrow> node \<Rightarrow> (node \<times> sent_state option res) option" where
  "run_step n lib payer step st nd =
     (case step of
        Single b ver \<Rightarrow>
          (case send_and_confirm lib b payer ver nd of (nd', r) \<Rightarrow> Some (nd', try_res r (\<lambda>sig. Ok (Some (add_sig st sig)))))
      | SingleWithSigners b signers \<Rightarrow>
          (case send_and_confirm_with_signers lib b payer signers nd of
             (nd', r) \<Rightarrow> Some (nd', try_res r (\<lambda>sig. Ok (Some (add_sig st sig)))))
      | Parallel bs ver \<Rightarrow>
          (case send_and_confirm_parallel lib bs payer ver nd of
             (nd', r) \<Rightarrow> Some (nd', try_res r (\<lambda>sigs. Ok (Some (st\<lparr>ss_sigs := ss_sigs st @ sigs\<rparr>)))))
      | ParallelUnchecked bs ver \<Rightarrow>
          (case send_parallel_unchecked lib bs payer ver nd of
             (nd', rs) \<Rightarrow> Some (nd', joined rs (Ok (Some (st\<lparr>ss_unchecked := rs\<rparr>)))))
      | ConfirmationIterativeTx confirm \<Rightarrow> Some (nd, try_res (confirm_iterative confirm st) (\<lambda>st. Ok (Some st)))
      | WaitNextSlot slot_nr \<Rightarrow>
          map_option (\<lambda>(nd', r). (nd', try_res r (\<lambda>_. Ok (Some st)))) (wait_next_slot n slot_nr nd)
      | End \<Rightarrow> Some (nd, Ok None))"

text \<open>
  \<^verbatim>\<open>send_and_confirm_tx_iterable\<close> for any \<^verbatim>\<open>AdvanceTx\<close>, whose \<^verbatim>\<open>advance\<close> is an argument.
  The fuel counts the rounds, and in each the questions for the slot.
\<close>

fun send_loop ::
  "nat \<Rightarrow> sol_lib \<Rightarrow> (node \<Rightarrow> 't \<Rightarrow> node \<times> 't \<times> ix_exec_step res) \<Rightarrow> keypair \<Rightarrow> 't \<Rightarrow> sent_state \<Rightarrow> node
    \<Rightarrow> (node \<times> 't \<times> bytes list res) option" where
  "send_loop 0 lib advance payer t st nd = None"
| "send_loop (Suc n) lib advance payer t st nd =
     (case advance nd t of
        (nd1, t1, Ok step) \<Rightarrow>
          (case run_step n lib payer step st nd1 of
             None \<Rightarrow> None
           | Some (nd2, Ok (Some st')) \<Rightarrow> send_loop n lib advance payer t1 st' nd2
           | Some (nd2, Ok None) \<Rightarrow> Some (nd2, t1, Ok (ss_sigs st))
           | Some (nd2, Err e) \<Rightarrow> Some (nd2, t1, Err e)
           | Some (nd2, Panic m) \<Rightarrow> Some (nd2, t1, Panic m))
      | (nd1, t1, Err e) \<Rightarrow> Some (nd1, t1, Err (Custom ''Failed to advance tx''))
      | (nd1, t1, Panic m) \<Rightarrow> Some (nd1, t1, Panic m))"

definition send_and_confirm_tx_iterable ::
  "nat \<Rightarrow> tx_env \<Rightarrow> rome_tx \<Rightarrow> node \<Rightarrow> (node \<times> rome_tx \<times> bytes list res) option" where
  "send_and_confirm_tx_iterable n env t nd =
     send_loop n (te_sol env) (rome_tx_advance env) (rome_tx_payer t) t \<lparr>ss_sigs = [], ss_unchecked = []\<rparr> nd"

text \<open>\<^verbatim>\<open>Rome::send_and_confirm\<close> of \<^verbatim>\<open>rome-sdk\<close>: the last signature.\<close>

definition rome_send_and_confirm ::
  "nat \<Rightarrow> tx_env \<Rightarrow> rome_tx \<Rightarrow> node \<Rightarrow> (node \<times> rome_tx \<times> bytes res) option" where
  "rome_send_and_confirm n env t nd =
     map_option (\<lambda>(nd', t', r). (nd', t', try_res r (\<lambda>sigs.
       if sigs = [] then Panic ''unwrap'' else Ok (last sigs))))
       (send_and_confirm_tx_iterable n env t nd)"

end
