(* ===== verification/Advance_Facts.thy ===== *)
theory Advance_Facts
  imports Tower "HOL-Library.Sublist"
begin

text \<open>
  Every transaction comes to its end: the contract \<open>advance_tx\<close> for each implementation of
  \<^verbatim>\<open>AdvanceTx\<close>, and what follows for the loop of the tower.
\<close>

section \<open>Fuel\<close>

lemma wait_next_slot_Suc:
  "wait_next_slot (Suc n) s nd =
    (let nd' = nd\<lparr>nd_calls := Suc (nd_calls nd)\<rparr> in
     case nd_get_slot nd (nd_calls nd) of
       Ok current \<Rightarrow> if s < current then Some (nd', Ok ()) else wait_next_slot n s nd'
     | Err e \<Rightarrow> Some (nd', Err e)
     | Panic m \<Rightarrow> Some (nd', Panic m))"
  by (simp add: ask_def Let_def split: res.split)

declare wait_next_slot.simps(2) [simp del]

lemma wait_next_slot_mono: "wait_next_slot n s nd = Some r \<Longrightarrow> n \<le> m \<Longrightarrow> wait_next_slot m s nd = Some r"
proof (induction n arbitrary: nd m)
  case (Suc n)
  then obtain m' where m: "m = Suc m'" "n \<le> m'" by (cases m) auto
  show ?case
    using Suc.prems(1) Suc.IH [OF _ m(2)] by (simp add: wait_next_slot_Suc m(1) Let_def split: res.splits if_splits)
qed simp

lemma run_step_mono:
  assumes "run_step n lib payer step st nd = Some r" and "n \<le> m"
  shows "run_step m lib payer step st nd = Some r"
proof (cases step)
  case (WaitNextSlot s)
  then obtain q where "wait_next_slot n s nd = Some q" using assms(1) by (auto simp: run_step_def)
  with wait_next_slot_mono [OF this assms(2)] show ?thesis using assms(1) by (simp add: run_step_def WaitNextSlot)
qed (use assms(1) in \<open>simp_all add: run_step_def\<close>)

lemma send_loop_mono:
  "send_loop n lib adv payer t st nd = Some r \<Longrightarrow> n \<le> m \<Longrightarrow> send_loop m lib adv payer t st nd = Some r"
proof (induction n lib adv payer t st nd arbitrary: m rule: send_loop.induct)
  case (2 n lib adv payer t st nd)
  then obtain m' where m: "m = Suc m'" "n \<le> m'" by (cases m) auto
  obtain nd1 t1 r1 where adv: "adv nd t = (nd1, t1, r1)" by (cases "adv nd t") auto
  show ?case
  proof (cases r1)
    case (Ok step)
    obtain nd2 q where step: "run_step n lib payer step st nd1 = Some (nd2, q)"
      using "2.prems"(1) by (auto simp: adv Ok split: option.splits)
    note step' = run_step_mono [OF step m(2)]
    show ?thesis
    proof (cases "\<exists>st'. q = Ok (Some st')")
      case True
      then obtain st' where q: "q = Ok (Some st')" by blast
      have "send_loop n lib adv payer t1 st' nd2 = Some r"
        using "2.prems"(1) by (simp add: adv Ok step q)
      from "2.IH" [OF adv [symmetric] refl Ok step refl q refl this m(2)] show ?thesis
        by (simp add: m(1) adv Ok step' q)
    next
      case False
      then show ?thesis using "2.prems"(1)
        by (auto simp: adv Ok step step' m(1) split: res.splits option.splits)
    qed
  qed (use "2.prems"(1) in \<open>simp_all add: adv m(1)\<close>)
qed simp

section \<open>The loop ends\<close>

text \<open>After every call there is one at which the node reports a slot above \<open>s\<close>, or an error.\<close>

definition slots_pass :: "node \<Rightarrow> u64 \<Rightarrow> bool" where
  "slots_pass nd s \<longleftrightarrow> (\<forall>k. \<exists>k' \<ge> k. case nd_get_slot nd k' of Ok c \<Rightarrow> s < c | _ \<Rightarrow> True)"

definition same_answers :: "node \<Rightarrow> node \<Rightarrow> bool" where
  "same_answers nd nd' \<longleftrightarrow> nd_get_slot nd' = nd_get_slot nd \<and> nd_send nd' = nd_send nd \<and>
     nd_get_latest_blockhash nd' = nd_get_latest_blockhash nd \<and>
     nd_confirm_tx_iterative nd' = nd_confirm_tx_iterative nd"

lemma same_answers_asks: "asks_only nd nd' \<Longrightarrow> same_answers nd nd'"
  unfolding asks_only_def same_answers_def by (cases nd; cases nd') auto

lemma and_then_same:
  assumes "and_then m k = (nd', r)" and "same_answers nd (fst m)"
    and "\<And>nd1 x nd2 r. k nd1 x = (nd2, r) \<Longrightarrow> same_answers nd1 nd2"
  shows "same_answers nd nd'"
  using assms by (cases m; cases "snd m") (auto simp: and_then_def same_answers_def)

lemma same_ask: "same_answers nd (fst (ask f nd))" "ask f nd = (nd', r) \<Longrightarrow> same_answers nd nd'"
  by (auto simp: ask_def same_answers_def)

lemma send_tx_same: "send_tx tx nd = (nd', r) \<Longrightarrow> same_answers nd nd'"
  by (auto simp: send_tx_def ask_def same_answers_def)

lemma send_and_confirm_same: "send_and_confirm lib b payer ver nd = (nd', r) \<Longrightarrow> same_answers nd nd'"
  unfolding send_and_confirm_def to_tx_def
  by (rule and_then_same, assumption) (auto simp: and_then_def ask_def same_answers_def send_tx_def split: res.splits)

lemma send_with_signers_same:
  "send_and_confirm_with_signers lib b payer signers nd = (nd', r) \<Longrightarrow> same_answers nd nd'"
  unfolding send_and_confirm_with_signers_def
  by (rule and_then_same, assumption, rule same_ask)
    (auto simp: and_then_def send_tx_def ask_def same_answers_def split: res.splits)

lemma send_parallel_unchecked_same:
  "send_parallel_unchecked lib bs payer ver nd = (nd', rs) \<Longrightarrow> same_answers nd nd'"
proof (induction bs arbitrary: nd rs)
  case (Cons b bs)
  then show ?case
    by (auto split: prod.splits simp: same_answers_def dest!: send_and_confirm_same)
qed (simp add: same_answers_def)

lemma wait_next_slot_same: "wait_next_slot n s nd = Some (nd', r) \<Longrightarrow> same_answers nd nd'"
proof (induction n arbitrary: nd)
  case (Suc n)
  show ?case using Suc.prems Suc.IH
    by (auto simp: wait_next_slot_Suc Let_def same_answers_def split: res.splits if_splits)
qed simp

lemma run_step_same: "run_step n lib payer step st nd = Some (nd', r) \<Longrightarrow> same_answers nd nd'"
  by (cases step)
    (auto simp: run_step_def same_answers_def send_and_confirm_parallel_def split: prod.splits
      dest!: send_and_confirm_same send_with_signers_same send_parallel_unchecked_same wait_next_slot_same)

lemma wait_next_slot_ends:
  assumes "slots_pass nd s" shows "\<exists>n r. wait_next_slot n s nd = Some r"
proof -
  obtain k where k: "nd_calls nd \<le> k" "case nd_get_slot nd k of Ok c \<Rightarrow> s < c | _ \<Rightarrow> True"
    using assms by (auto simp: slots_pass_def)
  have "\<exists>r. wait_next_slot (Suc d) s nd' = Some r"
    if "k = nd_calls nd' + d" "nd_get_slot nd' = nd_get_slot nd" for d nd'
    using that
  proof (induction d arbitrary: nd')
    case 0
    then show ?case using k(2) by (auto simp: wait_next_slot_Suc Let_def split: res.splits)
  next
    case (Suc d)
    from Suc.IH [of "nd'\<lparr>nd_calls := Suc (nd_calls nd')\<rparr>"] Suc.prems
    have "\<exists>r. wait_next_slot (Suc d) s (nd'\<lparr>nd_calls := Suc (nd_calls nd')\<rparr>) = Some r" by simp
    then show ?case by (subst wait_next_slot_Suc) (auto simp: Let_def split: res.split)
  qed
  from this [of nd "k - nd_calls nd"] k(1) show ?thesis by fastforce
qed

lemma run_step_ends:
  assumes "\<And>s. step = WaitNextSlot s \<Longrightarrow> slots_pass nd s"
  shows "\<exists>n r. run_step n lib payer step st nd = Some r"
proof (cases step)
  case (WaitNextSlot s)
  then obtain n r where "wait_next_slot n s nd = Some r" using wait_next_slot_ends [of nd s] assms by blast
  then have "run_step n lib payer step st nd = Some ((\<lambda>(nd', r). (nd', try_res r (\<lambda>_. Ok (Some st)))) r)"
    by (simp add: run_step_def WaitNextSlot)
  then show ?thesis by blast
qed (auto simp: run_step_def split: prod.split)

context advance_tx
begin

text \<open>Enough fuel gives a result, as the transaction gets shorter with each round.\<close>

lemma send_loop_ends:
  assumes "\<And>nd t nd' t' s. advance nd t = (nd', t', Ok (WaitNextSlot s)) \<Longrightarrow> awaited s"
    and "\<And>s. awaited s \<Longrightarrow> slots_pass nd s"
  shows "\<exists>n r. send_loop n lib advance payer t st nd = Some r"
  using assms(2)
proof (induction "remaining t" arbitrary: t st nd rule: less_induct)
  case less
  obtain nd1 t1 r1 where adv: "advance nd t = (nd1, t1, r1)" by (cases "advance nd t") auto
  show ?case
  proof (cases r1)
    case (Ok step)
    have slots1: "slots_pass nd1 s" if "awaited s" for s
      using less.prems [OF that] same_answers_asks [OF only_asks [OF adv]] by (simp add: slots_pass_def same_answers_def)
    have "slots_pass nd1 s" if "step = WaitNextSlot s" for s
      using slots1 assms(1) [of nd t nd1 t1 s] adv Ok that by simp
    then obtain n nd2 q where step: "run_step n lib payer step st nd1 = Some (nd2, q)"
      using run_step_ends [of step nd1 lib payer st] by auto
    show ?thesis
    proof (cases "\<exists>st'. q = Ok (Some st')")
      case True
      then obtain st' where q: "q = Ok (Some st')" by blast
      then have "step \<noteq> End" using step by (auto simp: run_step_def)
      then have "remaining t1 < remaining t" using progress adv Ok by blast
      moreover have "slots_pass nd2 s" if "awaited s" for s
        using slots1 [OF that] run_step_same [OF step] by (simp add: slots_pass_def same_answers_def)
      ultimately obtain m r where rest: "send_loop m lib advance payer t1 st' nd2 = Some r"
        using less.hyps by blast
      have "run_step (max n m) lib payer step st nd1 = Some (nd2, q)"
        using run_step_mono [OF step] by simp
      moreover have "send_loop (max n m) lib advance payer t1 st' nd2 = Some r"
        using send_loop_mono [OF rest] by simp
      ultimately have "send_loop (Suc (max n m)) lib advance payer t st nd = Some r"
        by (simp add: adv Ok q)
      then show ?thesis by blast
    next
      case False
      then have "\<exists>r. send_loop (Suc n) lib advance payer t st nd = Some r"
        by (auto simp: adv Ok step split: res.split option.split)
      then show ?thesis by blast
    qed
  next
    case (Err e)
    then have "\<exists>r. send_loop (Suc 0) lib advance payer t st nd = Some r" by (simp add: adv)
    then show ?thesis by blast
  next
    case (Panic m)
    then have "\<exists>r. send_loop (Suc 0) lib advance payer t st nd = Some r" by (simp add: adv)
    then show ?thesis by blast
  qed
qed

end

section \<open>Waiting\<close>

lemma iterable_never_waits: "iterable_advance env nd t = (nd', t', r) \<Longrightarrow> r \<noteq> Ok (WaitNextSlot s)"
  by (cases t)
    (auto simp: map_tx_eq atomic_advance_def iterative_advance_def atomic_holder_advance_def iterative_holder_advance_def
      atomic_holder_execute_def iterative_holder_execute_def transmit_advance_def transmit_pop_def res_elims
      split: exec_steps.splits iter_steps.splits holder_steps.splits transmit_steps.splits prod.splits if_splits
        res.splits option.splits)

lemma versioned_waits: "versioned v t r = Ok (WaitNextSlot s) \<longleftrightarrow> r = Ok (WaitNextSlot s)"
  by (cases t; cases r)
    (auto simp: versioned_def single_with_version_def unchecked_with_version_def split: ix_exec_step.splits)

lemma with_version_never_waits:
  "iterable_advance_with_version env v nd t = (nd', t', r) \<Longrightarrow> r \<noteq> Ok (WaitNextSlot s)"
  using iterable_never_waits by (fastforce simp: iterable_advance_with_version_def versioned_waits split: prod.splits)

lemma transmit_never_waits: "transmit_advance env nd t = (nd', t', r) \<Longrightarrow> r \<noteq> Ok (WaitNextSlot s)"
  by (auto simp: transmit_advance_def transmit_pop_def split: transmit_steps.splits prod.splits if_splits res.splits)

text \<open>The only slots ever waited for are those in which a table was extended.\<close>

definition table_slot :: "tx_env \<Rightarrow> u64 \<Rightarrow> bool" where
  "table_slot env s \<longleftrightarrow> (\<exists>acc addresses. alt_of_data env acc = Some (addresses, s))"

lemma alt_waits: "alt_advance env nd t = (nd', t', Ok (WaitNextSlot s)) \<Longrightarrow> table_slot env s"
  by (auto simp: alt_advance_def Let_def last_extended_slot_def res_elims table_slot_def
      split: alt_steps.splits prod.splits res.splits)

lemma join_parallel_waits: "join_parallel a b = Ok (WaitNextSlot s) \<Longrightarrow> a = WaitNextSlot s \<or> b = WaitNextSlot s"
  by (cases a; cases b) (auto simp: join_parallel_def)

lemma rome_tx_waits:
  assumes "rome_tx_advance env nd t = (nd', t', Ok (WaitNextSlot s))" shows "table_slot env s"
proof (cases t)
  case (Plain i)
  then show ?thesis using assms by (auto simp: map_tx_eq dest: iterable_never_waits)
next
  case (WithAlt c)
  then show ?thesis using assms
    by (auto simp: map_tx_eq alt_composed_advance_def alt_composed_execute_def Let_def
        split: composed_steps.splits prod.splits if_splits res.splits dest: alt_waits with_version_never_waits)
next
  case (WithAltAndHolder c)
  then show ?thesis using assms
    by (auto simp: map_tx_eq alt_composed_holder_advance_def holder_composed_execute_def Let_def
        split: composed_steps.splits prod.splits if_splits res.splits dest!: join_parallel_waits
        dest: alt_waits with_version_never_waits transmit_never_waits)
next
  case (Svm c)
  then show ?thesis using assms
    by (auto simp: map_tx_eq atomic_svm_advance_def atomic_advance_def single_with_version_def
        split: exec_steps.splits prod.splits if_splits res.splits option.splits)
qed (use assms in \<open>auto simp: map_tx_eq cross_rollup_advance_def cross_chain_advance_def split: if_splits\<close>)

text \<open>
  C16. Sending a transaction always comes to an end: when the slots the node reports get beyond
  those in which lookup tables were extended, \<^verbatim>\<open>send_and_confirm_tx_iterable\<close> returns a
  value or an error for every transaction the SDK can make, whatever the node and the emulator
  answer and however many steps the transaction has.
\<close>

theorem tower_terminates:
  assumes "\<And>s. table_slot env s \<Longrightarrow> slots_pass nd s"
  shows "\<exists>n r. send_and_confirm_tx_iterable n env t nd = Some r"
  unfolding send_and_confirm_tx_iterable_def
  by (rule rome_tx.send_loop_ends [where awaited = "table_slot env"]) (auto dest: rome_tx_waits assms)

definition test_log_env :: log_env where
  "test_log_env = \<lparr>base64_decode = (\<lambda>_. None), EVENT_LOG = [], EXIT_REASON = [], GAS_VALUE = [], GAS_PRICE = [],
     GAS_RECIPIENT = [], REVERT_ERROR = [], REVERT_PANIC = [], abi_decode_string = (\<lambda>_. None),
     abi_decode_uint = (\<lambda>_. None)\<rparr>"

definition test_sol_lib :: sol_lib where
  "test_sol_lib = (let ix = \<lparr>ix_program_id = 0, ix_accounts = [], ix_data = []\<rparr> in
     \<lparr>compute_unit_limit = (\<lambda>_. ix), heap_frame = (\<lambda>_. ix), v0_compiles = (\<lambda>_. True), signers_match = (\<lambda>_. True)\<rparr>)"

definition test_tx_env :: tx_env where
  "test_tx_env = \<lparr>te_sol = test_sol_lib, te_log = test_log_env, ins_DoTx = 0, ins_TransmitTx = 1, ins_DoTxHolder = 2,
     ins_DoTxIterative = 3, ins_DoTxHolderIterative = 4, ins_AltAlloc = 5, ins_AltDealloc = 6, te_keccak = (\<lambda>_. 0),
     alt_of_data = (\<lambda>_. Some ([], 3)), te_serialize = (\<lambda>_. Some []), te_base58 = (\<lambda>_. []), te_base64 = (\<lambda>_. []),
     te_params_json = (\<lambda>_ _. [])\<rparr>"

definition test_emulation :: emulation where
  "test_emulation = \<lparr>em_accounts = [], em_is_atomic = True, em_vm = None, em_lock_overrides = [], em_gas = 0\<rparr>"

definition test_node :: node where
  "test_node = \<lparr>nd_calls = 0, nd_emulate = (\<lambda>_ _ _ _. Ok test_emulation),
     nd_confirm_tx_iterative = (\<lambda>_ _ _ _ _ _ _. Ok True), nd_get_alt = (\<lambda>_ _ _ _. Ok None),
     nd_get_account = (\<lambda>_ _. Ok []), nd_get_slot = (\<lambda>k. Ok (if k < 5 then 3 else 4)),
     nd_get_latest_blockhash = (\<lambda>_. Ok 0), nd_send = (\<lambda>_ _. Ok []), nd_random = (\<lambda>_. 0), nd_sent = []\<rparr>"

definition test_resource :: resource_item where
  "test_resource = \<lparr>it_payer_keypair = 7, it_holder = 0, it_fee_recipient = None\<rparr>"

definition test_atomic_tx :: rome_tx where
  "test_atomic_tx = Plain (AtomicI (new_atomic_tx \<lparr>tb_chain_id = 1, tb_program_id = 2\<rparr> [9] test_resource))"

theorem tower_terminates_witness:
  "\<exists>n r. send_and_confirm_tx_iterable n test_tx_env test_atomic_tx test_node = Some r"
proof (rule tower_terminates)
  fix s assume "table_slot test_tx_env s"
  then have "s = 3" by (auto simp: table_slot_def test_tx_env_def)
  moreover have "\<exists>k' \<ge> k. \<not> k' < (5 :: nat)" for k by (rule exI [of _ "max k 5"]) simp
  ultimately show "slots_pass test_node s" by (auto simp: slots_pass_def test_node_def)
qed

section \<open>What the tower sends\<close>

definition step_batches :: "ix_exec_step \<Rightarrow> ix_batch list" where
  "step_batches s = (case s of
     Single b _ \<Rightarrow> [b] | SingleWithSigners b _ \<Rightarrow> [b] | Parallel bs _ \<Rightarrow> bs | ParallelUnchecked bs _ \<Rightarrow> bs | _ \<Rightarrow> [])"

definition step_version :: "ix_exec_step \<Rightarrow> tx_version" where
  "step_version s = (case s of Single _ v \<Rightarrow> v | Parallel _ v \<Rightarrow> v | ParallelUnchecked _ v \<Rightarrow> v | _ \<Rightarrow> Legacy)"

definition step_signers :: "keypair \<Rightarrow> ix_exec_step \<Rightarrow> keypair list" where
  "step_signers payer s = payer # (case s of SingleWithSigners _ signers \<Rightarrow> signers | _ \<Rightarrow> [])"

text \<open>
  What is sent for a step: a transaction for each batch, of the payer, with the version and the
  signers of the step; of the steps that are not checked some may be missing, for which there was no
  recent blockhash or that did not compile.
\<close>

definition sends :: "keypair \<Rightarrow> ix_exec_step \<Rightarrow> sol_tx list \<Rightarrow> bool" where
  "sends payer s log \<longleftrightarrow>
     (\<forall>tx \<in> set log. st_payer tx = payer \<and> st_signers tx = step_signers payer s \<and> st_version tx = step_version s) \<and>
     (case s of ParallelUnchecked bs _ \<Rightarrow> subseq (map st_ixs log) bs | _ \<Rightarrow> map st_ixs log = step_batches s)"

lemma send_and_confirm_sends:
  assumes "send_and_confirm lib b payer ver nd = (nd', r)"
  shows "\<exists>log. nd_sent nd' = nd_sent nd @ log \<and> (\<forall>tx \<in> set log. st_payer tx = payer \<and> st_signers tx = [payer] \<and> st_version tx = ver) \<and>
    (map st_ixs log = [b] \<or> log = [] \<and> \<not> is_ok r)"
  using assms
  by (cases "nd_get_latest_blockhash nd (nd_calls nd)"; cases ver)
    (auto simp: send_and_confirm_def to_tx_def ask_def and_then_def send_tx_def compose_legacy_solana_tx_def
      sign_legacy_def compose_v0_solana_tx_def Let_def split: if_splits)

lemma send_with_signers_sends:
  assumes "send_and_confirm_with_signers lib b payer signers nd = (nd', Ok sig)"
  shows "\<exists>log. nd_sent nd' = nd_sent nd @ log \<and> (\<forall>tx \<in> set log. st_payer tx = payer \<and> st_signers tx = payer # signers \<and> st_version tx = Legacy) \<and>
    map st_ixs log = [b]"
  using assms
  by (cases "nd_get_latest_blockhash nd (nd_calls nd)")
    (auto simp: send_and_confirm_with_signers_def ask_def and_then_def send_tx_def
      compose_legacy_solana_tx_with_signers_def sign_legacy_def split: if_splits)

lemma send_parallel_unchecked_sends:
  assumes "send_parallel_unchecked lib bs payer ver nd = (nd', rs)"
  shows "\<exists>log. nd_sent nd' = nd_sent nd @ log \<and> (\<forall>tx \<in> set log. st_payer tx = payer \<and> st_signers tx = [payer] \<and> st_version tx = ver) \<and>
    subseq (map st_ixs log) bs \<and> (list_all is_ok rs \<longrightarrow> map st_ixs log = bs)"
  using assms
proof (induction bs arbitrary: nd rs)
  case (Cons b bs)
  obtain nd1 r where one: "send_and_confirm lib b payer ver nd = (nd1, r)"
    by (cases "send_and_confirm lib b payer ver nd") auto
  obtain rs' where all: "send_parallel_unchecked lib bs payer ver nd1 = (nd', rs')" and rs: "rs = r # rs'"
    using Cons.prems by (auto simp: one split: prod.splits)
  obtain log1 where log1: "nd_sent nd1 = nd_sent nd @ log1" "\<forall>tx \<in> set log1. st_payer tx = payer \<and> st_signers tx = [payer] \<and> st_version tx = ver"
    "map st_ixs log1 = [b] \<or> log1 = [] \<and> \<not> is_ok r"
    using send_and_confirm_sends [OF one] by (elim exE conjE) (rule that)
  obtain log2 where log2: "nd_sent nd' = nd_sent nd1 @ log2" "\<forall>tx \<in> set log2. st_payer tx = payer \<and> st_signers tx = [payer] \<and> st_version tx = ver"
    "subseq (map st_ixs log2) bs" "list_all is_ok rs' \<longrightarrow> map st_ixs log2 = bs"
    using Cons.IH [OF all] by blast
  show ?case using log1 log2 by (intro exI [of _ "log1 @ log2"]) (auto simp: rs)
qed simp

lemma send_parallel_sends:
  assumes "send_and_confirm_parallel lib bs payer ver nd = (nd', Ok sigs)"
  shows "\<exists>log. nd_sent nd' = nd_sent nd @ log \<and> (\<forall>tx \<in> set log. st_payer tx = payer \<and> st_signers tx = [payer] \<and> st_version tx = ver) \<and>
    map st_ixs log = bs"
proof -
  obtain rs where rs: "send_parallel_unchecked lib bs payer ver nd = (nd', rs)" and j: "joined rs (collect_results rs) = Ok sigs"
    using assms by (cases "send_parallel_unchecked lib bs payer ver nd") (auto simp: send_and_confirm_parallel_def)
  from joined_Ok [OF j] have "list_all is_ok rs" by (rule collect_results_Ok)
  with send_parallel_unchecked_sends [OF rs] show ?thesis by (elim exE conjE) auto
qed

lemma asks_only_sent: "asks_only nd nd' \<Longrightarrow> nd_sent nd' = nd_sent nd"
  unfolding asks_only_def by (cases nd; cases nd') simp

lemma wait_next_slot_sent: "wait_next_slot n s nd = Some (nd', r) \<Longrightarrow> nd_sent nd' = nd_sent nd"
proof (induction n arbitrary: nd)
  case (Suc n)
  show ?case using Suc.prems Suc.IH
    by (auto simp: wait_next_slot_Suc Let_def split: res.splits if_splits)
qed simp

lemma run_step_sends:
  assumes "run_step n lib payer step st nd = Some (nd', Ok (Some st'))"
  shows "\<exists>log. nd_sent nd' = nd_sent nd @ log \<and> sends payer step log"
proof (cases step)
  case (Single b v)
  then obtain sig where "send_and_confirm lib b payer v nd = (nd', Ok sig)"
    using assms by (auto simp: run_step_def res_elims split: prod.splits)
  from send_and_confirm_sends [OF this] show ?thesis by (auto simp: sends_def Single step_batches_def step_version_def step_signers_def)
next
  case (SingleWithSigners b signers)
  then obtain sig where "send_and_confirm_with_signers lib b payer signers nd = (nd', Ok sig)"
    using assms by (auto simp: run_step_def res_elims split: prod.splits)
  from send_with_signers_sends [OF this] show ?thesis
    by (auto simp: sends_def SingleWithSigners step_batches_def step_version_def step_signers_def)
next
  case (Parallel bs v)
  then obtain sigs where "send_and_confirm_parallel lib bs payer v nd = (nd', Ok sigs)"
    using assms by (auto simp: run_step_def res_elims split: prod.splits)
  from send_parallel_sends [OF this] show ?thesis by (auto simp: sends_def Parallel step_batches_def step_version_def step_signers_def)
next
  case (ParallelUnchecked bs v)
  then obtain rs where "send_parallel_unchecked lib bs payer v nd = (nd', rs)"
    using assms by (auto simp: run_step_def split: prod.splits)
  from send_parallel_unchecked_sends [OF this] show ?thesis
    by (auto simp: sends_def ParallelUnchecked step_version_def step_signers_def)
next
  case (WaitNextSlot s)
  then show ?thesis using assms wait_next_slot_sent
    by (auto simp: run_step_def sends_def step_batches_def split: prod.splits)
qed (use assms in \<open>auto simp: run_step_def sends_def step_batches_def\<close>)

lemma run_step_end: "run_step n lib payer step st nd = Some (nd', Ok None) \<Longrightarrow> step = End \<and> nd' = nd"
  by (cases step) (auto simp: run_step_def res_elims joined_def split: prod.splits option.splits)

context advance_tx
begin

lemma send_loop_sends:
  assumes "send_loop n lib advance payer t st nd = Some (nd', t', Ok sigs)"
  shows "\<exists>ss logs. runs advance t ss \<and> list_all2 (sends payer) ss logs \<and> nd_sent nd' = nd_sent nd @ concat logs"
  using assms
proof (induction n arbitrary: t st nd)
  case (Suc n)
  obtain nd1 t1 step where adv: "advance nd t = (nd1, t1, Ok step)"
    using Suc.prems by (auto split: prod.splits res.splits)
  have sent1: "nd_sent nd1 = nd_sent nd" by (rule asks_only_sent [OF only_asks [OF adv]])
  obtain nd2 q where step: "run_step n lib payer step st nd1 = Some (nd2, q)"
    using Suc.prems by (auto simp: adv split: option.splits)
  show ?case
  proof (cases q)
    case (Ok o')
    show ?thesis
    proof (cases o')
      case None
      then have "step = End" "nd2 = nd1" using run_step_end step Ok by auto
      moreover have "nd' = nd2" using Suc.prems by (simp add: adv step Ok None)
      ultimately show ?thesis using adv sent1 by (intro exI [of _ "[]"]) (auto intro: runs_end)
    next
      case (Some st')
      then have ne: "step \<noteq> End" using step Ok by (auto simp: run_step_def)
      obtain log where log: "nd_sent nd2 = nd_sent nd1 @ log" "sends payer step log"
        using run_step_sends step Ok Some by blast
      have "send_loop n lib advance payer t1 st' nd2 = Some (nd', t', Ok sigs)"
        using Suc.prems by (simp add: adv step Ok Some)
      from Suc.IH [OF this] obtain ss logs where "runs advance t1 ss" "list_all2 (sends payer) ss logs"
        "nd_sent nd' = nd_sent nd2 @ concat logs" by blast
      then show ?thesis using runs_step [of advance nd t nd1 t1 step ss, OF adv ne] log sent1
        by (intro exI [of _ "step # ss"] exI [of _ "log # logs"]) auto
    qed
  qed (use Suc.prems in \<open>auto simp: adv step\<close>)
qed simp

end

lemma test_send:
  "\<exists>nd' t'. send_and_confirm_tx_iterable 2 test_tx_env test_atomic_tx test_node = Some (nd', t', Ok [[]])"
  by (simp add: send_and_confirm_tx_iterable_def test_atomic_tx_def new_atomic_tx_def numeral_2_eq_2 atomic_advance_def
      atomic_ix_def emulate_def ask_def test_node_def test_emulation_def check_exit_reason_def check_accounts_len_def
      map_tx_def run_step_def send_and_confirm_def to_tx_def send_tx_def compose_legacy_solana_tx_def sign_legacy_def
      test_tx_env_def test_sol_lib_def add_sig_def Let_def)

end
