(* ===== verification/Rome_Facts.thy ===== *)
theory Rome_Facts
  imports Rome_Sdk Advance_Facts "HOL-Library.Multiset"
begin

text \<open>
  What composing transactions over several rollups promises: the items of the rollups are
  given back, all EVM transactions travel in one Solana transaction, and when it waits.
\<close>

section \<open>The items of the rollups\<close>

definition builder_of :: "rome \<Rightarrow> u64 \<Rightarrow> tx_builder option" where
  "builder_of rome chain = map_option ru_builder (rome chain)"

definition items_of :: "rome \<Rightarrow> u64 \<Rightarrow> resource_item list" where
  "items_of rome chain = (case rome chain of None \<Rightarrow> [] | Some ru \<Rightarrow> ru_items ru)"

definition held_in :: "(u64 \<times> resource_item) option \<Rightarrow> u64 \<Rightarrow> resource_item multiset" where
  "held_in held chain = (case held of Some (c, r) \<Rightarrow> if c = chain then {#r#} else {#} | None \<Rightarrow> {#})"

definition all_items :: "(u64 \<times> resource_item) option \<Rightarrow> rome \<Rightarrow> u64 \<Rightarrow> resource_item multiset" where
  "all_items held rome chain = mset (items_of rome chain) + held_in held chain"

lemma lock_in_eq: "lock_in chain rome = (case rome chain of None \<Rightarrow> None | Some ru \<Rightarrow>
    if ru_items ru = [] then None
    else Some (rome(chain \<mapsto> ru\<lparr>ru_items := butlast (ru_items ru)\<rparr>), last (ru_items ru)))"
  by (simp add: lock_in_def lock_resource_def factory_pop_def split: option.splits)

lemma mset_butlast_last: "xs \<noteq> [] \<Longrightarrow> mset xs = add_mset (last xs) (mset (butlast xs))"
  by (induction xs) auto

lemma lock_in_facts:
  assumes "lock_in chain rome = Some (rome', r)"
  shows "mset (items_of rome c) = mset (items_of rome' c) + (if c = chain then {#r#} else {#})"
    and "builder_of rome' = builder_of rome" and "chain \<in> dom rome'"
    and "length (items_of rome' c) = length (items_of rome c) - of_bool (c = chain)"
proof -
  obtain ru where ru: "rome chain = Some ru" "ru_items ru \<noteq> []" "r = last (ru_items ru)"
    "rome' = rome(chain \<mapsto> ru\<lparr>ru_items := butlast (ru_items ru)\<rparr>)"
    using assms by (auto simp: lock_in_eq split: option.splits if_splits)
  show "mset (items_of rome c) = mset (items_of rome' c) + (if c = chain then {#r#} else {#})"
    using mset_butlast_last [OF ru(2)] ru by (simp add: items_of_def)
  show "builder_of rome' = builder_of rome" and "chain \<in> dom rome'"
    and "length (items_of rome' c) = length (items_of rome c) - of_bool (c = chain)"
    using ru by (auto simp: items_of_def builder_of_def)
qed

lemma release_in_facts:
  assumes "chain \<in> dom rome"
  shows "mset (items_of (release_in chain r rome) c) = mset (items_of rome c) + (if c = chain then {#r#} else {#})"
    and "builder_of (release_in chain r rome) = builder_of rome" and "dom (release_in chain r rome) = dom rome"
    and "length (items_of (release_in chain r rome) c) = length (items_of rome c) + of_bool (c = chain)"
  using assms
  by (auto simp: release_in_def items_of_def builder_of_def factory_push_def fun_eq_iff split: option.splits)

lemma builders_dom: "builder_of rome' = builder_of rome \<Longrightarrow> dom rome' = dom rome"
  by (auto simp: builder_of_def fun_eq_iff dom_def) (metis option.map_disc_iff not_None_eq)+

lemma builder_for_tx: "get_transaction_builder_for_tx rome tx = Ok (chain, ru) \<longleftrightarrow>
    es_chain_id tx = Some chain \<and> rome chain = Some ru"
  by (auto simp: get_transaction_builder_for_tx_def get_transaction_builder_def res_elims)

text \<open>One iteration of the loop, from the state it starts in to the one it leaves.\<close>

lemma iteration_facts:
  assumes "lock_in chain rome = Some (rome1, current)"
    and "held' = (case held of None \<Rightarrow> Some (chain, current) | Some h \<Rightarrow> Some h)"
    and "rome2 = (if held = None then rome1 else release_in chain current rome1)"
  shows "all_items held' rome2 = all_items held rome" and "builder_of rome2 = builder_of rome"
    and "(\<forall>c r. held = Some (c, r) \<longrightarrow> c \<in> dom rome) \<Longrightarrow> (\<forall>c r. held' = Some (c, r) \<longrightarrow> c \<in> dom rome2)"
    and "length (items_of rome2 c) = length (items_of rome c) - of_bool (held = None \<and> c = chain)"
proof -
  note lock = lock_in_facts [OF assms(1)]
  note release = release_in_facts [OF lock(3), of current]
  have one: "items_of rome chain \<noteq> []" using lock(1) [of chain] by auto
  show "all_items held' rome2 = all_items held rome"
    by (cases held) (auto simp: assms(2,3) all_items_def held_in_def lock(1) release(1) fun_eq_iff)
  show b: "builder_of rome2 = builder_of rome" by (simp add: assms(3) lock(2) release(2))
  show "(\<forall>c r. held = Some (c, r) \<longrightarrow> c \<in> dom rome) \<Longrightarrow> (\<forall>c r. held' = Some (c, r) \<longrightarrow> c \<in> dom rome2)"
    using lock(3) builders_dom [OF lock(2)] by (cases held) (auto simp: assms(2,3) release(3))
  show "length (items_of rome2 c) = length (items_of rome c) - of_bool (held = None \<and> c = chain)"
    using one by (auto simp: assms(3) lock(4) release(4) Suc_leI)
qed

lemma cross_loop_step:
  assumes "cross_loop env (tx # txs) held ixs rome nd = Some out"
  obtains e where "out = (rome, nd, held, e)" and "\<not> is_ok e"
  | chain ru rome1 current where "es_chain_id tx = Some chain" "rome chain = Some ru"
      "lock_in chain rome = Some (rome1, current)"
      "(let held' = (case held of None \<Rightarrow> Some (chain, current) | Some h \<Rightarrow> Some h);
            rome2 = (if held = None then rome1 else release_in chain current rome1) in
        case cross_ix env (ru_builder ru) (snd (the held')) tx nd of
          (nd1, Ok ix) \<Rightarrow> cross_loop env txs held' (ixs @ [ix]) rome2 nd1 = Some out
        | (nd1, Err e) \<Rightarrow> out = (rome2, nd1, held', Err e)
        | (nd1, Panic m) \<Rightarrow> out = (rome2, nd1, held', Panic m))"
proof (cases "get_transaction_builder_for_tx rome tx")
  case (Ok p)
  obtain chain ru where p: "p = (chain, ru)" by (cases p)
  from Ok have tx: "es_chain_id tx = Some chain" "rome chain = Some ru" by (simp_all add: p builder_for_tx)
  obtain rome1 current where lock: "lock_in chain rome = Some (rome1, current)"
    using assms by (auto simp: Ok p split: option.splits)
  show ?thesis
    by (rule that(2) [OF tx lock], use assms in
      \<open>cases held; auto simp: Ok p lock Let_def split: prod.splits res.splits\<close>)
qed (use assms that(1) in auto)

text \<open>Whatever the result, no item is lost and the builders stay.\<close>

lemma cross_loop_items:
  assumes "cross_loop env txs held ixs rome nd = Some (rome', nd', held', r)"
    and "\<forall>c r. held = Some (c, r) \<longrightarrow> c \<in> dom rome"
  shows "all_items held' rome' = all_items held rome \<and> builder_of rome' = builder_of rome \<and>
    (\<forall>c r. held' = Some (c, r) \<longrightarrow> c \<in> dom rome')"
  using assms
proof (induction txs arbitrary: held ixs rome nd)
  case (Cons tx txs)
  from Cons.prems(1) show ?case
  proof (cases rule: cross_loop_step)
    case (1 e)
    then show ?thesis using Cons.prems(2) by simp
  next
    case (2 chain ru rome1 current)
    define h2 where "h2 = (case held of None \<Rightarrow> Some (chain, current) | Some h \<Rightarrow> Some h)"
    define rome2 where "rome2 = (if held = None then rome1 else release_in chain current rome1)"
    note it = iteration_facts [OF 2(3) h2_def rome2_def]
    show ?thesis
    proof (cases "cross_ix env (ru_builder ru) (snd (the h2)) tx nd")
      case (Pair nd1 q)
      show ?thesis
      proof (cases q)
        case (Ok ix)
        then have "cross_loop env txs h2 (ixs @ [ix]) rome2 nd1 = Some (rome', nd', held', r)"
          using 2(4) Pair by (simp add: h2_def rome2_def Let_def)
        from Cons.IH [OF this it(3) [OF Cons.prems(2)]] show ?thesis by (simp add: it(1,2))
      qed (use 2(4) Pair it(1,2) it(3) [OF Cons.prems(2)] in \<open>simp_all add: h2_def [symmetric] rome2_def [symmetric]\<close>)
    qed
  qed
qed simp

section \<open>What is composed\<close>

text \<open>
  An instruction that carries a transaction: it runs the program of its rollup on the bytes of
  the transaction, for the resource, and its emulation was atomic.
\<close>

definition carries :: "tx_env \<Rightarrow> (u64 \<Rightarrow> tx_builder option) \<Rightarrow> resource_item \<Rightarrow> eth_signed_tx \<Rightarrow> instruction \<Rightarrow> bool" where
  "carries env builders r tx ix \<longleftrightarrow>
     (\<exists>chain tb em. es_chain_id tx = Some chain \<and> builders chain = Some tb \<and> em_is_atomic em \<and>
       length (em_accounts em) \<le> MAX_ALLOWED_ACCOUNTS \<and> ix = build_ix tb em (cross_ix_data env r tx))"

lemma cross_ix_Ok:
  assumes "cross_ix env tb r tx nd = (nd', Ok ix)"
  shows "\<exists>em. em_is_atomic em \<and> length (em_accounts em) \<le> MAX_ALLOWED_ACCOUNTS \<and> ix = build_ix tb em (cross_ix_data env r tx)"
  using assms by (auto simp: cross_ix_def Let_def res_elims split: if_splits dest: emulate_Ok)

lemma cross_ix_asks: "cross_ix env tb r tx nd = (nd', q) \<Longrightarrow> asks_only nd nd'"
  unfolding cross_ix_def Let_def
  by (rule and_then_asks, assumption) (auto intro: emulate_asks [OF prod.collapse [symmetric]])

lemma cross_loop_asks:
  "cross_loop env txs held ixs rome nd = Some (rome', nd', held', r) \<Longrightarrow> asks_only nd nd'"
proof (induction txs arbitrary: held ixs rome nd)
  case (Cons tx txs)
  from Cons.prems show ?case
  proof (cases rule: cross_loop_step)
    case (2 chain ru rome1 current)
    then show ?thesis using Cons.IH
      by (auto simp: Let_def split: prod.splits res.splits dest: cross_ix_asks intro: asks_only_trans)
  qed simp
qed simp

lemma cross_loop_carries:
  assumes "cross_loop env txs held ixs rome nd = Some (rome', nd', held', Ok ixs')"
  shows "(\<exists>new. ixs' = ixs @ new \<and> list_all2 (carries env (builder_of rome) (snd (the held'))) txs new) \<and>
    (held \<noteq> None \<longrightarrow> held' = held)"
  using assms
proof (induction txs arbitrary: held ixs rome nd)
  case (Cons tx txs)
  from Cons.prems(1) show ?case
  proof (cases rule: cross_loop_step)
    case (2 chain ru rome1 current)
    define h2 where "h2 = (case held of None \<Rightarrow> Some (chain, current) | Some h \<Rightarrow> Some h)"
    define rome2 where "rome2 = (if held = None then rome1 else release_in chain current rome1)"
    note it = iteration_facts [OF 2(3) h2_def rome2_def]
    have h2: "h2 \<noteq> None" "held \<noteq> None \<longrightarrow> h2 = held" by (auto simp: h2_def split: option.splits)
    obtain nd1 ix where ix: "cross_ix env (ru_builder ru) (snd (the h2)) tx nd = (nd1, Ok ix)"
      and rest: "cross_loop env txs h2 (ixs @ [ix]) rome2 nd1 = Some (rome', nd', held', Ok ixs')"
      using 2(4) unfolding h2_def [symmetric] rome2_def [symmetric] Let_def by (auto split: prod.splits res.splits)
    from Cons.IH [OF rest] h2(1) obtain new where new: "ixs' = ixs @ ix # new"
      "list_all2 (carries env (builder_of rome) (snd (the held'))) txs new" "held' = h2"
      by (auto simp: it(2))
    have "carries env (builder_of rome) (snd (the held')) tx ix"
      using cross_ix_Ok [OF ix] 2(1,2) by (auto simp: carries_def builder_of_def new(3))
    then show ?thesis using new h2 by auto
  qed simp
qed simp

text \<open>What the two compositions share, at the end.\<close>

lemma release_all_items:
  assumes "\<forall>c r. held = Some (c, r) \<longrightarrow> c \<in> dom rome"
  shows "mset (items_of (release_all held rome) c) = all_items held rome c" and
    "builder_of (release_all held rome) = builder_of rome"
  using assms release_in_facts by (auto simp: release_all_def all_items_def held_in_def split: option.splits)

lemma cross_loop_released:
  assumes "cross_loop env txs None ixs rome nd = Some (rome', nd', held, r)"
  shows "mset (items_of (release_all held rome') c) = mset (items_of rome c)" and
    "builder_of (release_all held rome') = builder_of rome"
  using cross_loop_items [OF assms] release_all_items [of held rome']
  by (auto simp: all_items_def held_in_def)

text \<open>
  C28. However the composition of a cross rollup or a cross chain transaction ends, every
  rollup has the resources it had before, and its builder.
\<close>

theorem cross_compositions_release:
  assumes "compose_cross_rollup_tx env txs rome nd = Some (rome', nd', r) \<or>
    compose_cross_chain_tx env tx signers rome nd = Some (rome', nd', r)"
  shows "mset (items_of rome' chain) = mset (items_of rome chain) \<and> builder_of rome' = builder_of rome"
  using assms cross_loop_released
  by (auto simp: compose_cross_rollup_tx_def compose_cross_chain_tx_def split: option.splits prod.splits)

lemma cross_rollup_runs:
  "runs (rome_tx_advance env) (CrossRollup t) ss \<Longrightarrow> ss = (if cr_complete t then [] else [Single (cr_instructions t) Legacy])"
proof -
  have ended: "ss = []" if "runs (rome_tx_advance env) (CrossRollup t) ss" "cr_complete t" for t ss
    using that by (cases rule: runs.cases) (auto simp: map_tx_def cross_rollup_advance_def)
  show "runs (rome_tx_advance env) (CrossRollup t) ss \<Longrightarrow>
      ss = (if cr_complete t then [] else [Single (cr_instructions t) Legacy])"
    by (erule runs.cases) (auto simp: map_tx_def cross_rollup_advance_def ended split: if_splits)
qed

text \<open>
  C27. Transactions over several rollups are atomic: when composing and sending them succeeds,
  exactly one Solana transaction was sent, which carries after the compute budget one
  instruction for each of them, in their order, and is paid by the payer of one resource.
\<close>

theorem cross_rollup_atomic:
  assumes "compose_cross_rollup_tx env txs rome nd = Some (rome1, nd1, Ok t)"
    and "send_and_confirm_tx_iterable n env t nd1 = Some (nd2, t2, Ok sigs)"
  shows "\<exists>stx ixs r. nd_sent nd2 = nd_sent nd @ [stx] \<and> st_ixs stx = cross_prologue env @ ixs \<and>
    st_payer stx = it_payer_keypair r \<and> st_version stx = Legacy \<and>
    list_all2 (carries env (builder_of rome) r) txs ixs"
proof -
  obtain rome' held ixs' where loop: "cross_loop env txs None (cross_prologue env) rome nd = Some (rome', nd1, held, Ok ixs')"
    and "held \<noteq> None" and t: "t = CrossRollup (new_cross_tx ixs' (it_payer_keypair (snd (the held))) [])"
    using assms(1) by (auto simp: compose_cross_rollup_tx_def res_elims new_owned_def split: option.splits)
  from cross_loop_carries [OF loop] obtain new where new: "ixs' = cross_prologue env @ new"
    "list_all2 (carries env (builder_of rome) (snd (the held))) txs new" by blast
  obtain ss logs where run: "runs (rome_tx_advance env) t ss" and logs: "list_all2 (sends (rome_tx_payer t)) ss logs"
    and sent: "nd_sent nd2 = nd_sent nd1 @ concat logs"
    using rome_tx.send_loop_sends [OF assms(2) [unfolded send_and_confirm_tx_iterable_def]] by auto
  have "ss = [Single ixs' Legacy]" using cross_rollup_runs [OF run [unfolded t]] by (simp add: new_cross_tx_def)
  then obtain log where "logs = [log]" "sends (rome_tx_payer t) (Single ixs' Legacy) log"
    using logs by (auto simp: list_all2_Cons1)
  moreover from this have "\<exists>stx. log = [stx] \<and> st_ixs stx = ixs' \<and> st_payer stx = rome_tx_payer t \<and> st_version stx = Legacy"
    by (auto simp: sends_def step_batches_def step_version_def map_eq_Cons_conv)
  ultimately show ?thesis
    using sent new asks_only_sent [OF cross_loop_asks [OF loop]] by (auto simp: t new_cross_tx_def)
qed

section \<open>Waiting for resources\<close>

text \<open>All emulations succeed and are atomic; all rollups are known.\<close>

definition always_atomic :: "tx_env \<Rightarrow> node \<Rightarrow> bool" where
  "always_atomic env nd \<longleftrightarrow>
     (\<forall>k program data payer. \<exists>em. nd_emulate nd k program data payer = Ok em \<and> em_is_atomic em \<and>
       check_exit_reason (te_log env) em = Ok () \<and> check_accounts_len em = Ok ())"

definition all_known :: "rome \<Rightarrow> eth_signed_tx list \<Rightarrow> bool" where
  "all_known rome txs \<longleftrightarrow> (\<forall>tx \<in> set txs. \<exists>chain. es_chain_id tx = Some chain \<and> chain \<in> dom rome)"

lemma always_atomic_cross_ix:
  assumes "always_atomic env nd"
  shows "\<exists>ix. cross_ix env tb r tx nd = (nd\<lparr>nd_calls := Suc (nd_calls nd)\<rparr>, Ok ix) \<and>
    always_atomic env (nd\<lparr>nd_calls := Suc (nd_calls nd)\<rparr>)"
proof -
  obtain em where "nd_emulate nd (nd_calls nd) (tb_program_id tb) (cross_ix_data env r tx) (it_payer_keypair r) = Ok em"
    "em_is_atomic em" "check_exit_reason (te_log env) em = Ok ()" "check_accounts_len em = Ok ()"
    using assms unfolding always_atomic_def by blast
  moreover have "always_atomic env (nd\<lparr>nd_calls := Suc (nd_calls nd)\<rparr>)"
    using assms by (simp add: always_atomic_def)
  ultimately show ?thesis by (simp add: cross_ix_def emulate_def ask_def Let_def)
qed

lemma waits_iteration:
  assumes "always_atomic env nd" and "es_chain_id tx = Some chain" and "chain \<in> dom rome"
  shows "items_of rome chain = [] \<and> cross_loop env (tx # txs) held ixs rome nd = None \<or>
    (\<exists>held' ixs' rome' nd'. cross_loop env (tx # txs) held ixs rome nd = cross_loop env txs held' ixs' rome' nd' \<and>
      items_of rome chain \<noteq> [] \<and> held' \<noteq> None \<and> always_atomic env nd' \<and> dom rome' = dom rome \<and>
      (\<forall>c. length (items_of rome' c) = length (items_of rome c) - of_bool (held = None \<and> c = chain)))"
proof (cases "lock_in chain rome")
  case None
  then show ?thesis using assms(2,3)
    by (auto simp: get_transaction_builder_for_tx_def get_transaction_builder_def lock_in_eq items_of_def
        split: option.splits if_splits)
next
  case (Some p)
  obtain rome1 current where p: "p = (rome1, current)" by (cases p)
  obtain ru where ru: "rome chain = Some ru" using assms(3) by auto
  define h2 where "h2 = (case held of None \<Rightarrow> Some (chain, current) | Some h \<Rightarrow> Some h)"
  define rome2 where "rome2 = (if held = None then rome1 else release_in chain current rome1)"
  note it = iteration_facts [OF Some [unfolded p] h2_def rome2_def]
  obtain ix where ix: "cross_ix env (ru_builder ru) (snd (the h2)) tx nd = (nd\<lparr>nd_calls := Suc (nd_calls nd)\<rparr>, Ok ix)"
    and atomic: "always_atomic env (nd\<lparr>nd_calls := Suc (nd_calls nd)\<rparr>)"
    using always_atomic_cross_ix [OF assms(1)] by blast
  have "snd (the h2) = (case held of None \<Rightarrow> current | Some (_, r) \<Rightarrow> r)"
    by (auto simp: h2_def split: option.splits)
  then have "cross_loop env (tx # txs) held ixs rome nd =
      cross_loop env txs h2 (ixs @ [ix]) rome2 (nd\<lparr>nd_calls := Suc (nd_calls nd)\<rparr>)"
    using ix assms(2) by (simp add: get_transaction_builder_for_tx_def get_transaction_builder_def ru Some p Let_def
        h2_def [symmetric] rome2_def [symmetric])
  moreover have "items_of rome chain \<noteq> []" using lock_in_facts(1) [OF Some [unfolded p], of chain] by auto
  moreover have "h2 \<noteq> None" by (auto simp: h2_def split: option.splits)
  ultimately show ?thesis using atomic it(4) builders_dom [OF it(2)]
    by (intro disjI2 exI [of _ h2] exI [of _ "ixs @ [ix]"] exI [of _ rome2] exI conjI allI)
qed

lemma cross_loop_waits:
  assumes "always_atomic env nd" and "all_known rome txs" and "held \<noteq> None"
  shows "cross_loop env txs held ixs rome nd = None \<longleftrightarrow> (\<exists>tx \<in> set txs. items_of rome (the (es_chain_id tx)) = [])"
  using assms
proof (induction txs arbitrary: held ixs rome nd)
  case (Cons tx txs)
  obtain chain where chain: "es_chain_id tx = Some chain" "chain \<in> dom rome" using Cons.prems(2) by (auto simp: all_known_def)
  from waits_iteration [OF Cons.prems(1) chain, of txs held ixs] show ?case
  proof (elim disjE exE conjE)
    fix held' ixs' rome' nd'
    assume next_it: "cross_loop env (tx # txs) held ixs rome nd = cross_loop env txs held' ixs' rome' nd'"
      and it: "items_of rome chain \<noteq> []" "held' \<noteq> None" "always_atomic env nd'" "dom rome' = dom rome"
        "\<forall>c. length (items_of rome' c) = length (items_of rome c) - of_bool (held = None \<and> c = chain)"
    have "items_of rome' c = [] \<longleftrightarrow> items_of rome c = []" for c
      using it(5) [rule_format, of c] Cons.prems(3) by (simp flip: length_0_conv)
    moreover have "all_known rome' txs" using Cons.prems(2) it(4) by (auto simp: all_known_def)
    ultimately show ?thesis using Cons.IH [OF it(3) _ it(2)] next_it it(1) chain(1) by simp
  qed (simp_all add: chain)
qed simp

text \<open>
  C29. When all emulations succeed and are atomic, the chain of every transaction is known and nobody
  else gives resources back, composing a cross rollup transaction waits forever exactly when the rollup of some transaction has no free
  resource, or the rollup of the first has a single one and is the rollup of a later
  transaction too: it then waits for the resource it holds itself.
\<close>

theorem cross_rollup_waits:
  assumes "always_atomic env nd" and "all_known rome txs"
  shows "compose_cross_rollup_tx env txs rome nd = None \<longleftrightarrow>
    (\<exists>tx \<in> set txs. items_of rome (the (es_chain_id tx)) = []) \<or>
    (\<exists>tx rest. txs = tx # rest \<and> length (items_of rome (the (es_chain_id tx))) = 1 \<and>
      es_chain_id tx \<in> set (map es_chain_id rest))"
proof (cases txs)
  case (Cons tx rest)
  obtain chain where chain: "es_chain_id tx = Some chain" "chain \<in> dom rome" using assms(2) Cons by (auto simp: all_known_def)
  have known: "\<exists>c. es_chain_id tx' = Some c" if "tx' \<in> set rest" for tx' using assms(2) that Cons by (auto simp: all_known_def)
  have eq: "compose_cross_rollup_tx env txs rome nd = None \<longleftrightarrow> cross_loop env txs None (cross_prologue env) rome nd = None"
    by (auto simp: compose_cross_rollup_tx_def split: option.splits)
  from waits_iteration [OF assms(1) chain, of rest None "cross_prologue env"] show ?thesis
  proof (elim disjE exE conjE)
    fix held' ixs' rome' nd'
    assume next_it: "cross_loop env (tx # rest) None (cross_prologue env) rome nd = cross_loop env rest held' ixs' rome' nd'"
      and it: "items_of rome chain \<noteq> []" "held' \<noteq> None" "always_atomic env nd'" "dom rome' = dom rome"
        "\<forall>c. length (items_of rome' c) = length (items_of rome c) - of_bool (None = None \<and> c = chain)"
    have len: "items_of rome' c = [] \<longleftrightarrow> items_of rome c = [] \<or> c = chain \<and> length (items_of rome c) = 1" for c
    proof -
      have "length (items_of rome' c) = length (items_of rome c) - of_bool (c = chain)" using it(5) by simp
      then show ?thesis using it(1) by (cases "c = chain"; cases "items_of rome c"; cases "items_of rome' c") auto
    qed
    have "all_known rome' rest" using assms(2) it(4) Cons by (auto simp: all_known_def)
    note waits = cross_loop_waits [OF it(3) this it(2)]
    have "(\<exists>tx' \<in> set rest. the (es_chain_id tx') = chain) \<longleftrightarrow> Some chain \<in> es_chain_id ` set rest"
      using known by force
    then show ?thesis
      unfolding Cons eq [unfolded Cons] next_it waits len using it(1) chain(1) by (simp add: bex_disj_distrib) blast
  qed (simp del: cross_loop.simps add: eq [unfolded Cons] Cons chain)
qed (simp add: compose_cross_rollup_tx_def)

definition test_rome :: rome where
  "test_rome = [1 \<mapsto> \<lparr>ru_builder = \<lparr>tb_chain_id = 1, tb_program_id = 2\<rparr>, ru_items = [test_resource]\<rparr>,
     2 \<mapsto> \<lparr>ru_builder = \<lparr>tb_chain_id = 2, tb_program_id = 3\<rparr>, ru_items = [test_resource]\<rparr>]"

definition test_signed :: "u64 \<Rightarrow> eth_signed_tx" where
  "test_signed chain = \<lparr>es_chain_id = Some chain, es_rlp = [9], es_hash = 0\<rparr>"

lemma test_always_atomic: "always_atomic test_tx_env test_node"
  by (simp add: always_atomic_def test_node_def test_emulation_def check_exit_reason_def check_accounts_len_def)

lemma test_all_known: "all_known test_rome [test_signed 1, test_signed 2]"
  "all_known test_rome [test_signed 1, test_signed 2, test_signed 1]"
  by (auto simp: all_known_def test_signed_def test_rome_def)

theorem cross_rollup_waits_witness:
  "compose_cross_rollup_tx test_tx_env [test_signed 1, test_signed 2, test_signed 1] test_rome test_node = None"
  using cross_rollup_waits [OF test_always_atomic test_all_known(2)]
  by (simp add: test_signed_def test_rome_def items_of_def)

lemma test_composes:
  "\<exists>rome' nd' t. compose_cross_rollup_tx test_tx_env [test_signed 1, test_signed 2] test_rome test_node = Some (rome', nd', Ok t) \<and>
    (\<exists>nd2 t2 sigs. send_and_confirm_tx_iterable 2 test_tx_env t nd' = Some (nd2, t2, Ok sigs))"
  by (simp add: compose_cross_rollup_tx_def test_signed_def test_rome_def cross_prologue_def
      get_transaction_builder_for_tx_def get_transaction_builder_def lock_in_eq cross_ix_def Let_def emulate_def ask_def
      test_node_def test_emulation_def check_exit_reason_def check_accounts_len_def release_in_def new_cross_tx_def
      send_and_confirm_tx_iterable_def numeral_2_eq_2 cross_rollup_advance_def map_tx_def run_step_def send_and_confirm_def
      to_tx_def send_tx_def compose_legacy_solana_tx_def sign_legacy_def test_tx_env_def test_sol_lib_def add_sig_def)

theorem cross_compositions_release_witness:
  "\<exists>rome' nd' t. compose_cross_rollup_tx test_tx_env [test_signed 1, test_signed 2] test_rome test_node = Some (rome', nd', Ok t) \<and>
    mset (items_of rome' 1) = {#test_resource#}"
proof -
  obtain rome' nd' t where c: "compose_cross_rollup_tx test_tx_env [test_signed 1, test_signed 2] test_rome test_node = Some (rome', nd', Ok t)"
    using test_composes by blast
  have "mset (items_of rome' 1) = mset (items_of test_rome 1)"
    by (rule conjunct1 [OF cross_compositions_release [OF disjI1 [OF c]]])
  then show ?thesis using c by (simp add: items_of_def test_rome_def)
qed

theorem cross_rollup_atomic_witness:
  "\<exists>rome' nd' t nd2 t2 sigs stx ixs. compose_cross_rollup_tx test_tx_env [test_signed 1, test_signed 2] test_rome test_node = Some (rome', nd', Ok t) \<and>
    send_and_confirm_tx_iterable 2 test_tx_env t nd' = Some (nd2, t2, Ok sigs) \<and>
    nd_sent nd2 = [stx] \<and> st_ixs stx = cross_prologue test_tx_env @ ixs \<and> length ixs = 2"
proof -
  obtain rome' nd' t nd2 t2 sigs where
    c: "compose_cross_rollup_tx test_tx_env [test_signed 1, test_signed 2] test_rome test_node = Some (rome', nd', Ok t)" and
    s: "send_and_confirm_tx_iterable 2 test_tx_env t nd' = Some (nd2, t2, Ok sigs)"
    using test_composes by (elim exE conjE) (rule that)
  from cross_rollup_atomic [OF c s] obtain stx ixs r where "nd_sent nd2 = nd_sent test_node @ [stx]"
    "st_ixs stx = cross_prologue test_tx_env @ ixs"
    "list_all2 (carries test_tx_env (builder_of test_rome) r) [test_signed 1, test_signed 2] ixs"
    by (elim exE conjE) (rule that)
  then show ?thesis using c s list_all2_lengthD by (fastforce simp: test_node_def)
qed

end
