(* ===== verification/Tx_Facts.thy ===== *)
theory Tx_Facts
  imports Advance_Facts Block_Parser
begin

text \<open>
  What the transactions of \<open>Evm_Txs\<close> and \<open>Alt_Txs\<close> do: the steps of a transaction that is
  transmitted to a holder and their round trip through the parser of the indexer, the steps of
  the composed transactions, the number of iterations, and two defects.
\<close>

section \<open>Transmitting\<close>

lemma runs_batches:
  "runs (transmit_advance env) t ss \<Longrightarrow> tt_step t = TrExecute (rev bs) \<Longrightarrow> ss = map (\<lambda>b. Parallel b Legacy) bs"
proof (induction arbitrary: bs rule: runs.induct)
  case (runs_end nd t nd' t')
  then show ?case by (auto simp: transmit_advance_def transmit_pop_def split: if_splits)
next
  case (runs_step nd t nd' t' s ss)
  then obtain b bs' where bs: "bs = b # bs'"
    by (cases bs) (auto simp: transmit_advance_def transmit_pop_def)
  then have "s = Parallel b Legacy" "tt_step t' = TrExecute (rev bs')"
    using runs_step.hyps(1) runs_step.prems by (auto simp: transmit_advance_def transmit_pop_def butlast_append)
  with runs_step.IH [of bs'] show ?case by (simp add: bs)
qed

text \<open>The pieces of a transaction that its transmission writes, with their offsets.\<close>

definition transmit_pieces :: "bytes \<Rightarrow> (nat \<times> bytes) list" where
  "transmit_pieces rlp = with_offsets 0 (chunks_loop TRANSMIT_TX_SIZE rlp)"

definition transmit_batch :: "tx_env \<Rightarrow> transmit_tx \<Rightarrow> emulation \<Rightarrow> nat \<times> bytes \<Rightarrow> ix_batch" where
  "transmit_batch env tx em = (\<lambda>(offset, chunk).
     new_owned [build_ix (tt_builder tx) em (transmit_tx_data env tx offset chunk)])"

lemma transmit_ixs_Ok:
  "transmit_ixs env nd tx = (nd', Ok ixs) \<Longrightarrow> \<exists>em. ixs = map (transmit_batch env tx em) (transmit_pieces (tt_rlp tx))"
  by (auto simp: transmit_ixs_def res_elims into_chunks_def transmit_pieces_def transmit_batch_def TRANSMIT_TX_SIZE_def
      split: prod.splits)

lemma transmit_runs:
  assumes "runs (transmit_advance env) t ss" and "tt_step t = TrInit"
  shows "\<exists>em. ss = map (\<lambda>b. Parallel b Legacy) (chunks_loop 12 (map (transmit_batch env t em) (transmit_pieces (tt_rlp t))))"
proof -
  have batches: "MAX_PERMITTED_DATA_INCREASE div TRANSMIT_TX_SIZE = 12"
    by (simp add: MAX_PERMITTED_DATA_INCREASE_def TRANSMIT_TX_SIZE_def)
  obtain nd nd' t' r where adv: "transmit_advance env nd t = (nd', t', Ok r)" and
    ss: "r = End \<and> ss = [] \<or> r \<noteq> End \<and> (\<exists>rest. ss = r # rest \<and> runs (transmit_advance env) t' rest)"
    using assms(1) by cases auto
  obtain nd1 ixs where ixs: "transmit_ixs env nd t = (nd1, Ok ixs)"
    using adv by (auto simp: transmit_advance_def assms(2) split: prod.splits res.splits)
  then obtain em where em: "ixs = map (transmit_batch env t em) (transmit_pieces (tt_rlp t))"
    using transmit_ixs_Ok by blast
  have pop: "transmit_pop (rev (chunks_loop 12 ixs)) t = (t', r)"
    using adv by (auto simp: transmit_advance_def assms(2) ixs into_chunks_def batches split: prod.splits)
  have "ss = map (\<lambda>b. Parallel b Legacy) (chunks_loop 12 ixs)"
  proof (cases "chunks_loop 12 ixs")
    case Nil
    then show ?thesis using pop ss by (auto simp: transmit_pop_def)
  next
    case (Cons b bs)
    then have "r = Parallel b Legacy" "tt_step t' = TrExecute (rev bs)"
      using pop by (auto simp: transmit_pop_def butlast_append)
    with ss obtain rest where "ss = r # rest" "runs (transmit_advance env) t' rest" by auto
    with runs_batches [OF this(2) \<open>tt_step t' = TrExecute (rev bs)\<close>] \<open>r = Parallel b Legacy\<close> Cons
    show ?thesis by simp
  qed
  then show ?thesis using em by blast
qed

text \<open>
  What the argument parser of the EVM program documents: it reads back what
  \<^verbatim>\<open>TransmitTx::tx_data\<close> wrote, after the discriminant.
\<close>

definition transmit_args_law :: "tx_env \<Rightarrow> evm_api \<Rightarrow> transmit_tx \<Rightarrow> bool" where
  "transmit_args_law env api tx \<longleftrightarrow>
     (\<forall>offset bin. offset < 2 ^ 64 \<longrightarrow> transmit_tx_args api (tl (transmit_tx_data env tx offset bin)) =
       Some (offset, tt_hash tx, tb_chain_id (tt_builder tx), bin))"

text \<open>What the indexer hands to the holder for a list of such instructions.\<close>

definition read_pieces :: "evm_api \<Rightarrow> instruction list \<Rightarrow> (nat \<times> bytes) list" where
  "read_pieces api ixs = List.map_filter (\<lambda>ix. map_option (\<lambda>(offset, _, _, chunk). (offset, chunk))
     (transmit_tx_args api (tl (ix_data ix)))) ixs"

definition sent_instructions :: "ix_exec_step list \<Rightarrow> instruction list" where
  "sent_instructions ss = concat (concat (map step_batches ss))"

lemma sent_instructions_transmit:
  "sent_instructions (map (\<lambda>b. Parallel b Legacy) (chunks_loop 12 (map (transmit_batch env t em) ps))) =
    map (\<lambda>(offset, chunk). build_ix (tt_builder t) em (transmit_tx_data env t offset chunk)) ps"
proof -
  have "concat (map step_batches (map (\<lambda>b. Parallel b Legacy) bs)) = concat bs" for bs
    by (induction bs) (simp_all add: step_batches_def)
  then show ?thesis
    by (simp add: sent_instructions_def concat_chunks_loop transmit_batch_def new_owned_def split_def
        del: map_map)
qed

lemma piece_offsets: "(offset, chunk) \<in> set (transmit_pieces rlp) \<Longrightarrow> offset + length chunk \<le> length rlp"
  using with_offsets_slice [of offset chunk 0 "chunks_loop TRANSMIT_TX_SIZE rlp"]
  by (simp add: transmit_pieces_def concat_chunks_loop TRANSMIT_TX_SIZE_def)

lemma read_pieces_transmit:
  assumes "transmit_args_law env api t" and "length rlp < 2 ^ 63" and "set ps \<subseteq> set (transmit_pieces rlp)"
  shows "read_pieces api (map (\<lambda>(offset, chunk). build_ix (tt_builder t) em (transmit_tx_data env t offset chunk)) ps) = ps"
  using assms(3)
proof (induction ps)
  case (Cons p ps)
  obtain offset chunk where p: "p = (offset, chunk)" by (cases p)
  have "offset + length chunk \<le> length rlp" using Cons.prems piece_offsets by (auto simp: p)
  then have "transmit_tx_args api (tl (transmit_tx_data env t offset chunk)) =
      Some (offset, tt_hash t, tb_chain_id (tt_builder t), chunk)"
    using assms(1,2) by (simp add: transmit_args_law_def)
  with Cons show ?case by (simp add: read_pieces_def List.map_filter_simps p)
qed (simp add: read_pieces_def List.map_filter_simps)

lemma transmit_ix_inj:
  assumes "transmit_args_law env api t" and "length rlp < 2 ^ 63"
  shows "inj_on (\<lambda>(offset, chunk). build_ix (tt_builder t) em (transmit_tx_data env t offset chunk)) (set (transmit_pieces rlp))"
    (is "inj_on ?ix _")
proof (rule inj_onI)
  fix p q assume pq: "p \<in> set (transmit_pieces rlp)" "q \<in> set (transmit_pieces rlp)" "?ix p = ?ix q"
  have "[p] = read_pieces api (map ?ix [p])" using read_pieces_transmit [OF assms, of "[p]" em] pq(1) by simp
  also have "\<dots> = read_pieces api (map ?ix [q])" using pq(3) by simp
  also have "\<dots> = [q]" using read_pieces_transmit [OF assms, of "[q]" em] pq(2) by simp
  finally show "p = q" by simp
qed

lemma map_preimage:
  assumes "inj_on f A" and "set ys \<subseteq> f ` A"
  shows "\<exists>xs. ys = map f xs \<and> set xs \<subseteq> A \<and> (set ys = f ` A \<longrightarrow> set xs = A)"
proof (intro exI conjI impI)
  let ?xs = "map (the_inv_into A f) ys"
  show ys: "ys = map f ?xs"
    using f_the_inv_into_f [OF assms(1)] assms(2) by (simp add: map_idI subset_iff)
  show sub: "set ?xs \<subseteq> A" using the_inv_into_into [OF assms(1)] assms(2) by auto
  assume "set ys = f ` A"
  then have "f ` set ?xs = f ` A" using ys by (metis set_map)
  then show "set ?xs = A" using inj_on_image_eq_iff [OF assms(1) sub subset_refl] by simp
qed

text \<open>
  C6. Round trip of a transmission: take the transactions that transmitting an encoded EVM
  transaction goes through, in batches of at most twelve, and let the indexer read the
  instructions in any order and any number of times.  It accepts all of them, and when it has seen
  each at least once, the data in the holder is complete and is the encoded transaction.
\<close>

theorem transmission_reassembled:
  assumes "runs (transmit_advance env) (new_transmit_tx tb r rlp hash) ss"
    and "transmit_args_law env api (new_transmit_tx tb r rlp hash)" and "length rlp < 2 ^ 63"
    and "set ixs \<subseteq> set (sent_instructions ss)"
  shows "list_all (\<lambda>s. \<exists>b. s = Parallel b Legacy \<and> length b \<le> 12) ss \<and>
    (\<exists>h ps. update_all new_big_tx (read_pieces api ixs) = Ok (BigEvmTx h ps) \<and>
      (set ixs = set (sent_instructions ss) \<and> rlp \<noteq> [] \<longrightarrow> is_data_complete (BigEvmTx h ps) \<and> h = rlp))"
proof -
  let ?t = "new_transmit_tx tb r rlp hash" and ?cs = "chunks_loop TRANSMIT_TX_SIZE rlp"
  have t: "tt_step ?t = TrInit" "tt_rlp ?t = rlp" by (simp_all add: new_transmit_tx_def)
  obtain em where ss: "ss = map (\<lambda>b. Parallel b Legacy) (chunks_loop 12 (map (transmit_batch env ?t em) (transmit_pieces rlp)))"
    using transmit_runs [OF assms(1) t(1)] by (auto simp: t(2))
  let ?ix = "\<lambda>(offset, chunk). build_ix (tt_builder ?t) em (transmit_tx_data env ?t offset chunk)"
  have sent: "sent_instructions ss = map ?ix (transmit_pieces rlp)" by (simp add: ss sent_instructions_transmit)
  obtain ps where ps: "ixs = map ?ix ps" "set ps \<subseteq> set (transmit_pieces rlp)"
    "set ixs = set (sent_instructions ss) \<longrightarrow> set ps = set (transmit_pieces rlp)"
    using map_preimage [OF transmit_ix_inj [OF assms(2,3)], of ixs em] assms(4) unfolding sent set_map by blast
  have read: "read_pieces api ixs = ps" using read_pieces_transmit [OF assms(2,3) ps(2)] ps(1) by simp
  have nonempty: "[] \<notin> set ?cs" using chunk_lengths [of TRANSMIT_TX_SIZE _ rlp] by (force simp: TRANSMIT_TX_SIZE_def)
  have rlp: "concat ?cs = rlp" by (simp add: concat_chunks_loop TRANSMIT_TX_SIZE_def)
  have cs: "rlp \<noteq> [] \<Longrightarrow> ?cs \<noteq> []" using rlp by auto
  have "length b \<le> 12" if "b \<in> set (chunks_loop 12 xs)" for b and xs :: "ix_batch list"
    using chunk_lengths [of 12 b xs] that by simp
  then have "list_all (\<lambda>s. \<exists>b. s = Parallel b Legacy \<and> length b \<le> 12) ss"
    by (auto simp: ss list_all_iff)
  moreover have "\<exists>h ps'. update_all new_big_tx ps = Ok (BigEvmTx h ps') \<and>
      (set ps = set (transmit_pieces rlp) \<and> rlp \<noteq> [] \<longrightarrow> is_data_complete (BigEvmTx h ps') \<and> h = rlp)"
    using chunks_reassembled [OF nonempty, of ps] rlp assms(3) ps(2) cs
    unfolding transmit_pieces_def by auto
  ultimately show ?thesis using read ps(3) by auto
qed

text \<open>An argument parser that reads the layout of \<^verbatim>\<open>TransmitTx::tx_data\<close>.\<close>

definition layout_api :: evm_api where
  "layout_api = \<lparr>DoTx = 0, TransmitTx_disc = 1, DoTxHolder = 2, DoTxIterative = 3, DoTxHolderIterative = 4, Deposit = 5,
     split_fee = (\<lambda>_. None), deposit_args = (\<lambda>_. None), do_tx_iterative_args = (\<lambda>_. None),
     do_tx_holder_args = (\<lambda>_. None), do_tx_holder_iterative_args = (\<lambda>_. None),
     transmit_tx_args = (\<lambda>data. Some (of_le_bytes (take 8 (drop 8 data)), u256_of_be (take 32 (drop 16 data)),
       u64_of_le (take 8 (drop 48 data)), drop 56 data)), bs58_decode = (\<lambda>_. None)\<rparr>"

lemma layout_law: "transmit_args_law env layout_api tx"
  by (simp add: transmit_args_law_def layout_api_def transmit_tx_data_def resource_holder_def of_le_bytes_le_bytes)

definition test_transmit_tx :: transmit_tx where
  "test_transmit_tx = new_transmit_tx \<lparr>tb_chain_id = 1, tb_program_id = 2\<rparr> test_resource [9] 0"

lemma one_chunk: "x \<noteq> [] \<Longrightarrow> length x \<le> n \<Longrightarrow> chunks_loop n x = [x]"
  by (cases x) (auto simp: chunks_loop_step)

lemma test_transmit_runs:
  "\<exists>b. runs (transmit_advance test_tx_env) test_transmit_tx [Parallel b Legacy]"
proof -
  let ?ixs = "map (transmit_batch test_tx_env test_transmit_tx test_emulation) [(0, [9])]"
  have em: "emulate test_tx_env tb data payer test_node = (test_node\<lparr>nd_calls := 1\<rparr>, Ok test_emulation)" for tb data payer
    by (simp add: emulate_def ask_def test_node_def test_emulation_def check_exit_reason_def check_accounts_len_def)
  have "transmit_advance test_tx_env test_node test_transmit_tx =
      (test_node\<lparr>nd_calls := 1\<rparr>, test_transmit_tx\<lparr>tt_step := TrExecute []\<rparr>, Ok (Parallel ?ixs Legacy))"
    by (simp add: transmit_advance_def transmit_ixs_def em test_transmit_tx_def new_transmit_tx_def into_chunks_def
        TRANSMIT_TX_SIZE_def MAX_PERMITTED_DATA_INCREASE_def one_chunk transmit_batch_def transmit_pop_def)
  moreover have "transmit_advance test_tx_env nd (test_transmit_tx\<lparr>tt_step := TrExecute []\<rparr>) =
      (nd, test_transmit_tx\<lparr>tt_step := TrComplete\<rparr>, Ok End)" for nd
    by (simp add: transmit_advance_def transmit_pop_def)
  ultimately show ?thesis by (blast intro: runs.intros ix_exec_step.distinct)
qed

theorem transmission_reassembled_witness:
  "\<exists>b h ps. runs (transmit_advance test_tx_env) test_transmit_tx [Parallel b Legacy] \<and>
    update_all new_big_tx (read_pieces layout_api (concat b @ concat b)) = Ok (BigEvmTx h ps) \<and> h = [9]"
proof -
  obtain b where run: "runs (transmit_advance test_tx_env) test_transmit_tx [Parallel b Legacy]"
    using test_transmit_runs by blast
  have "set (concat b @ concat b) = set (sent_instructions [Parallel b Legacy])"
    by (simp add: sent_instructions_def step_batches_def)
  then show ?thesis
    using transmission_reassembled [OF run [unfolded test_transmit_tx_def] layout_law, of "concat b @ concat b"] run by auto
qed

section \<open>Executing from a holder\<close>

text \<open>A transaction in a holder goes through the steps of its transmission first.\<close>

lemma transmit_advance_keeps:
  "transmit_advance env nd t = (nd', t', r) \<Longrightarrow>
    tt_builder t' = tt_builder t \<and> tt_resource t' = tt_resource t \<and> tt_hash t' = tt_hash t \<and> tt_rlp t' = tt_rlp t"
  by (auto simp: transmit_advance_def transmit_pop_def split: transmit_steps.splits prod.splits res.splits if_splits)

lemma atomic_holder_execute_Ok:
  "atomic_holder_execute env nd t = (nd', t', Ok s) \<Longrightarrow>
    ah_step t' = HEnd \<and> (\<exists>em. s = Single (new_composible_owned (te_sol env)
      (build_ix (tt_builder (ah_transmit t)) em (atomic_holder_data env (ah_transmit t)))) Legacy)"
  by (auto simp: atomic_holder_execute_def atomic_holder_ixs_def Let_def res_elims split: prod.splits)

lemma holder_transmits_first:
  assumes "runs (atomic_holder_advance env) t ss" and "ah_step t = HTransmit"
  shows "\<exists>ss' em. runs (transmit_advance env) (ah_transmit t) ss' \<and>
    ss = ss' @ [Single (new_composible_owned (te_sol env)
      (build_ix (tt_builder (ah_transmit t)) em (atomic_holder_data env (ah_transmit t)))) Legacy]"
  using assms
proof (induction rule: runs.induct)
  case (runs_end nd t nd' t')
  then show ?case
    by (auto simp: atomic_holder_advance_def split: prod.splits if_splits dest: atomic_holder_execute_Ok)
next
  case (runs_step nd t nd' t' s ss)
  obtain nd1 tt r where tt: "transmit_advance env nd (ah_transmit t) = (nd1, tt, r)"
    by (cases "transmit_advance env nd (ah_transmit t)") auto
  note keeps = transmit_advance_keeps [OF tt]
  show ?case
  proof (cases "r = Ok End")
    case True
    then have "atomic_holder_execute env nd1 (t\<lparr>ah_transmit := tt, ah_step := HExecute\<rparr>) = (nd', t', Ok s)"
      using runs_step.hyps(1) runs_step.prems by (simp add: atomic_holder_advance_def tt)
    note exec = atomic_holder_execute_Ok [OF this]
    have "ss = []" using runs_step.hyps(3) exec by cases (auto simp: atomic_holder_advance_def)
    moreover have "runs (transmit_advance env) (ah_transmit t) []" using tt True by (auto intro: runs.intros)
    ultimately show ?thesis using exec keeps by (auto simp: atomic_holder_data_def)
  next
    case False
    then have t': "t' = t\<lparr>ah_transmit := tt\<rparr>" and r: "r = Ok s"
      using runs_step.hyps(1) runs_step.prems by (auto simp: atomic_holder_advance_def tt)
    then obtain ss' em where "runs (transmit_advance env) tt ss'" and
      "ss = ss' @ [Single (new_composible_owned (te_sol env) (build_ix (tt_builder tt) em (atomic_holder_data env tt))) Legacy]"
      using runs_step.IH runs_step.prems by auto
    moreover have "atomic_holder_data env tt = atomic_holder_data env (ah_transmit t)"
      using keeps by (simp add: atomic_holder_data_def)
    ultimately show ?thesis
      using runs.runs_step [of "transmit_advance env" nd "ah_transmit t" nd1 tt s ss'] tt r runs_step.hyps(2) keeps
      by (intro exI [of _ "s # ss'"] exI [of _ em]) simp
  qed
qed

lemma sends_batches:
  assumes "list_all2 (sends payer) ss logs" and "\<And>bs v. ParallelUnchecked bs v \<notin> set ss"
  shows "map st_ixs (concat logs) = concat (map step_batches ss)"
  using assms
proof (induction rule: list_all2_induct)
  case (Cons s ss log logs)
  have "map st_ixs log = step_batches s"
    using Cons.hyps(1) Cons.prems [of _ _] by (cases s) (auto simp: sends_def step_batches_def)
  moreover have "ParallelUnchecked bs v \<notin> set ss" for bs v using Cons.prems [of bs v] by simp
  ultimately show ?case using Cons.IH by simp
qed simp

lemma runs_map_tx:
  assumes "runs adv' t ss" and "\<And>nd t. adv' nd (f t) = map_tx f (adv nd t)" and "t = f u" and "inj f"
  shows "runs adv u ss"
  using assms(1,3)
proof (induction arbitrary: u rule: runs.induct)
  case (runs_end nd t nd' t')
  then show ?case by (auto simp: assms(2) map_tx_eq intro: runs.intros)
next
  case (runs_step nd t nd' t' s ss)
  then obtain u' where "adv nd u = (nd', u', Ok s)" "t' = f u'" by (auto simp: assms(2) map_tx_eq)
  with runs_step show ?case by (auto intro: runs.intros)
qed

text \<open>
  C26. An atomic transaction that does not fit is first transmitted, then executed: when
  sending it succeeds, exactly these transactions were sent, in this order: one for each piece
  of at most 800 bytes of the encoded transaction, at its offset, and at last the one that
  executes the holder.
\<close>

theorem holder_tx_sent:
  assumes "send_and_confirm_tx_iterable n env
      (Plain (AtomicHolderI (new_atomic_tx_holder (new_transmit_tx tb r rlp hash) False))) nd = Some (nd', t', Ok sigs)"
  shows "\<exists>em em'. map st_ixs (nd_sent nd') = map st_ixs (nd_sent nd) @
      map (transmit_batch env (new_transmit_tx tb r rlp hash) em) (transmit_pieces rlp) @
      [new_composible_owned (te_sol env) (build_ix tb em' (atomic_holder_data env (new_transmit_tx tb r rlp hash)))]"
proof -
  let ?tt = "new_transmit_tx tb r rlp hash"
  let ?h = "new_atomic_tx_holder ?tt False"
  obtain ss logs where run: "runs (rome_tx_advance env) (Plain (AtomicHolderI ?h)) ss"
    and logs: "list_all2 (sends (it_payer_keypair r)) ss logs" "nd_sent nd' = nd_sent nd @ concat logs"
    using rome_tx.send_loop_sends [OF assms [unfolded send_and_confirm_tx_iterable_def]]
    by (auto simp: new_atomic_tx_holder_def new_transmit_tx_def)
  have "runs (iterable_advance env) (AtomicHolderI ?h) ss"
    by (rule runs_map_tx [OF run, of Plain]) (auto simp: inj_def)
  then have "runs (atomic_holder_advance env) ?h ss"
    by (rule runs_map_tx [of _ _ _ AtomicHolderI]) (auto simp: inj_def)
  from holder_transmits_first [OF this] obtain ss' em' where run': "runs (transmit_advance env) ?tt ss'"
    and ss: "ss = ss' @ [Single (new_composible_owned (te_sol env) (build_ix tb em' (atomic_holder_data env ?tt))) Legacy]"
    by (auto simp: new_atomic_tx_holder_def new_transmit_tx_def)
  from transmit_runs [OF run'] obtain em where
    ss': "ss' = map (\<lambda>b. Parallel b Legacy) (chunks_loop 12 (map (transmit_batch env ?tt em) (transmit_pieces rlp)))"
    by (auto simp: new_transmit_tx_def)
  have "concat (map step_batches (map (\<lambda>b. Parallel b Legacy) bs)) = concat bs" for bs
    by (induction bs) (simp_all add: step_batches_def)
  then have "concat (map step_batches ss') = map (transmit_batch env ?tt em) (transmit_pieces rlp)"
    unfolding ss' by (simp add: concat_chunks_loop del: map_map)
  moreover have "map st_ixs (concat logs) = concat (map step_batches ss)"
    by (rule sends_batches [OF logs(1)]) (auto simp: ss ss')
  ultimately show ?thesis
    unfolding logs(2) by (intro exI [of _ em] exI [of _ em']) (simp add: ss step_batches_def)
qed

lemma test_holder_sent:
  "\<exists>nd' t' sigs. send_and_confirm_tx_iterable 3 test_tx_env
      (Plain (AtomicHolderI (new_atomic_tx_holder test_transmit_tx False))) test_node = Some (nd', t', Ok sigs)"
  by (simp add: send_and_confirm_tx_iterable_def test_transmit_tx_def new_transmit_tx_def new_atomic_tx_holder_def
      numeral_3_eq_3 atomic_holder_advance_def transmit_advance_def transmit_ixs_def into_chunks_def
      TRANSMIT_TX_SIZE_def MAX_PERMITTED_DATA_INCREASE_def one_chunk transmit_pop_def atomic_holder_execute_def
      atomic_holder_ixs_def emulate_def ask_def test_node_def test_emulation_def check_exit_reason_def
      check_accounts_len_def map_tx_def run_step_def send_and_confirm_def to_tx_def send_tx_def
      send_and_confirm_parallel_def joined_def new_owned_def
      compose_legacy_solana_tx_def sign_legacy_def test_tx_env_def test_sol_lib_def add_sig_def Let_def)

theorem holder_tx_sent_witness:
  "\<exists>nd' t' sigs. send_and_confirm_tx_iterable 3 test_tx_env
      (Plain (AtomicHolderI (new_atomic_tx_holder test_transmit_tx False))) test_node = Some (nd', t', Ok sigs) \<and>
    length (nd_sent nd') = length (nd_sent test_node) + length (transmit_pieces [9]) + 1"
proof -
  obtain nd' t' sigs where run: "send_and_confirm_tx_iterable 3 test_tx_env
      (Plain (AtomicHolderI (new_atomic_tx_holder test_transmit_tx False))) test_node = Some (nd', t', Ok sigs)"
    using test_holder_sent by (elim exE) (rule that)
  from holder_tx_sent [OF run [unfolded test_transmit_tx_def]]
  have "length (map st_ixs (nd_sent nd')) = length (nd_sent test_node) + length (transmit_pieces [9]) + 1"
    by (elim exE) simp
  then show ?thesis using run by auto
qed

end
