(* ===== verification/Build_Facts.thy ===== *)
theory Build_Facts
  imports Rome_Facts Tx_Facts
begin

text \<open>
  What the choice of \<^verbatim>\<open>TxBuilder\<close> guarantees: a transaction it builds without a holder and
  without a lookup table fits a packet when it is sent.
\<close>

section \<open>Sizes\<close>

text \<open>
  Two Solana transactions of the same shape differ in the blockhash and in the bytes of the
  instruction data, not in their number; their encodings have the same size.
\<close>

definition ix_shape :: "instruction \<Rightarrow> 256 word \<times> account_meta list \<times> nat" where
  "ix_shape ix = (ix_program_id ix, ix_accounts ix, length (ix_data ix))"

definition same_shape :: "sol_tx \<Rightarrow> sol_tx \<Rightarrow> bool" where
  "same_shape tx tx' \<longleftrightarrow> st_payer tx = st_payer tx' \<and> st_signers tx = st_signers tx' \<and> st_version tx = st_version tx' \<and>
     map ix_shape (st_ixs tx) = map ix_shape (st_ixs tx')"

definition json_size :: "tx_env \<Rightarrow> sol_tx \<Rightarrow> nat option" where
  "json_size env tx = (case serialize_encode env tx Base64 of Ok json \<Rightarrow> Some (length json) | _ \<Rightarrow> None)"

definition sizes_law :: "tx_env \<Rightarrow> bool" where
  "sizes_law env \<longleftrightarrow> (\<forall>tx tx'. same_shape tx tx' \<longrightarrow> json_size env tx = json_size env tx')"

definition fits_packet :: "tx_env \<Rightarrow> sol_tx \<Rightarrow> bool" where
  "fits_packet env tx \<longleftrightarrow> (\<exists>n \<le> PACKET_DATA_SIZE - 100. json_size env tx = Some n)"

lemma no_holder_fits:
  assumes "use_holder env b payer None = Ok False" and "sizes_law env"
    and "st_payer tx = payer" "st_signers tx = [payer]" "st_version tx = Legacy" "map ix_shape (st_ixs tx) = map ix_shape b"
  shows "fits_packet env tx"
proof -
  let ?tx0 = "\<lparr>st_payer = payer, st_signers = [payer], st_ixs = b, st_blockhash = 0, st_version = Legacy\<rparr>"
  obtain json where "serialize_encode env ?tx0 Base64 = Ok json" "length json \<le> PACKET_DATA_SIZE - 100"
    using assms(1) by (auto simp: use_holder_def compose_legacy_solana_tx_def sign_legacy_def res_elims split: if_splits)
  then have "json_size env ?tx0 = Some (length json)" "length json \<le> PACKET_DATA_SIZE - 100" by (simp_all add: json_size_def)
  moreover have "same_shape ?tx0 tx" using assms(3-) by (simp add: same_shape_def)
  ultimately show ?thesis using assms(2) unfolding fits_packet_def sizes_law_def by metis
qed

section \<open>What is built\<close>

text \<open>A transaction without a holder, with the instruction that was measured.\<close>

fun holds_batches :: "resource_item \<Rightarrow> ix_batch \<Rightarrow> iterable \<Rightarrow> bool" where
  "holds_batches r b (AtomicI t) \<longleftrightarrow> at_ix t = Some b \<and> at_step t = Execute \<and> at_resource t = r"
| "holds_batches r b (IterativeI t) \<longleftrightarrow> ie_step t = ItExecute \<and> ie_resource t = r \<and>
     (\<exists>bs. ie_ixs t = Some bs \<and> (\<forall>b' \<in> set bs. map ix_shape b' = map ix_shape b))"
| "holds_batches r b _ \<longleftrightarrow> False"

lemma atomic_ix_Ok:
  assumes "atomic_ix env nd t = (nd', t', Ok u)"
  shows "at_step t' = at_step t \<and> at_resource t' = at_resource t \<and> (\<exists>b. at_ix t' = Some b)"
  using assms by (auto simp: atomic_ix_def Let_def split: prod.splits res.splits)

lemma iterative_ixs_Ok:
  assumes "iterative_ixs env nd t = (nd', t', Ok u)"
  shows "ie_step t' = ie_step t \<and> ie_resource t' = ie_resource t \<and>
    (\<exists>bs. ie_ixs t' = Some bs \<and> (\<forall>b \<in> set bs. \<forall>b' \<in> set bs. map ix_shape b' = map ix_shape b))"
  using assms
  by (auto simp: iterative_ixs_def new_composible_batches_owned_def new_composible_owned_def ix_shape_def build_ix_def
      iterative_tx_data_def split: prod.splits res.splits option.splits)

lemma step_then_Ok:
  "(case m of (nd, t, Ok u) \<Rightarrow> k nd t u | (nd, t, Err e) \<Rightarrow> (nd, Err e) | (nd, t, Panic p) \<Rightarrow> (nd, Panic p)) =
      (nd', Ok y) \<longleftrightarrow> (\<exists>nd1 t1 u. m = (nd1, t1, Ok u) \<and> k nd1 t1 u = (nd', Ok y))"
  by (auto split: prod.splits res.splits)

lemma build_iterable_holds:
  assumes "build_iterable env tb r rlp nd = (nd', Ok (b, t, is_atomic))"
  shows "holds_batches r b t"
proof -
  obtain nd1 at u where at: "atomic_ix env nd (new_atomic_tx tb rlp r) = (nd1, at, Ok u)"
    using assms by (auto simp: build_iterable_def split: prod.splits res.splits)
  have facts: "at_step at = Execute" "at_resource at = r" using atomic_ix_Ok [OF at] by (simp_all add: new_atomic_tx_def)
  show ?thesis
  proof (cases "em_is_atomic (the (at_emulation at))")
    case True
    then show ?thesis using assms facts
      by (auto simp: build_iterable_def at res_elims split: if_splits)
  next
    case False
    obtain em where em: "at_emulation at = Some em" using assms by (auto simp: build_iterable_def at res_elims)
    have eq: "and_then (new_iterative_tx env tb r rlp nd1) (\<lambda>nd2 t2. (case iterative_ixs env nd2 t2 of
          (nd3, t3, Ok _) \<Rightarrow>
            and_then (nd3, expect ''unwrap'' (ie_ixs t3)) (\<lambda>nd3 ixs.
            and_then (nd3, if ixs = [] then Panic ''no instructions in iterative Tx'' else Ok (last ixs)) (\<lambda>nd3 ix.
              (nd3, Ok (ix, IterativeI t3, False))))
        | (nd3, t3, Err e) \<Rightarrow> (nd3, Err e) | (nd3, t3, Panic m) \<Rightarrow> (nd3, Panic m))) = (nd', Ok (b, t, is_atomic))"
      using assms False by (simp add: build_iterable_def at em)
    obtain nd2 t2 where it: "new_iterative_tx env tb r rlp nd1 = (nd2, Ok t2)"
      and rest: "(case iterative_ixs env nd2 t2 of
          (nd3, t3, Ok _) \<Rightarrow>
            and_then (nd3, expect ''unwrap'' (ie_ixs t3)) (\<lambda>nd3 ixs.
            and_then (nd3, if ixs = [] then Panic ''no instructions in iterative Tx'' else Ok (last ixs)) (\<lambda>nd3 ix.
              (nd3, Ok (ix, IterativeI t3, False))))
        | (nd3, t3, Err e) \<Rightarrow> (nd3, Err e) | (nd3, t3, Panic m) \<Rightarrow> (nd3, Panic m)) = (nd', Ok (b, t, is_atomic))"
      using and_then_eq_Ok [THEN iffD1, OF eq] by (elim exE conjE) (rule that)
    obtain nd3 t3 u3 where it2: "iterative_ixs env nd2 t2 = (nd3, t3, Ok u3)" and
      last: "and_then (nd3, expect ''unwrap'' (ie_ixs t3)) (\<lambda>nd3 ixs.
        and_then (nd3, if ixs = [] then Panic ''no instructions in iterative Tx'' else Ok (last ixs)) (\<lambda>nd3 ix.
          (nd3, Ok (ix, IterativeI t3, False)))) = (nd', Ok (b, t, is_atomic))"
      using step_then_Ok [THEN iffD1, OF rest] by (elim exE conjE) (rule that)
    have t2: "ie_step t2 = ItExecute" "ie_resource t2 = r" using it by (auto simp: new_iterative_tx_def ask_def)
    obtain bs where bs: "ie_step t3 = ie_step t2" "ie_resource t3 = ie_resource t2" "ie_ixs t3 = Some bs"
      and shape: "\<forall>b \<in> set bs. \<forall>b' \<in> set bs. map ix_shape b' = map ix_shape b"
      using iterative_ixs_Ok [OF it2] by (elim exE conjE) (rule that)
    have ne: "bs \<noteq> []" and eqs: "b = last bs" "t = IterativeI t3" using last bs(3) by (auto split: if_splits)
    have "\<forall>b' \<in> set bs. map ix_shape b' = map ix_shape (last bs)" using shape last_in_set [OF ne] by blast
    then show ?thesis unfolding eqs holds_batches.simps bs t2 by blast
  qed
qed

lemma compose_plain:
  assumes "compose_iterable env tb b r rlp hash t is_atomic nd = (nd', Ok (Plain t'))"
  shows "use_holder env b (it_payer_keypair r) None = Ok False \<and> t' = t \<or>
    (\<exists>h. t' = AtomicHolderI h) \<or> (\<exists>h. t' = IterativeHolderI h)"
  using assms
  by (auto simp: compose_iterable_def Let_def res_elims compose_iterable_with_holder_def compose_iterable_without_holder_def
      holder_iterable_def split: if_splits prod.splits)

lemma atomic_runs:
  assumes "runs (atomic_advance env) t ss" and "at_ix t = Some b" and "at_step t = Execute"
  shows "ss = [Single b Legacy]"
proof -
  have ended: "ss = []" if "runs (atomic_advance env) t ss" "at_step t = Finished" for t ss
    using that by (cases rule: runs.cases) (auto simp: atomic_advance_def)
  from assms(1) show ?thesis by cases (use assms(2,3) ended in \<open>auto simp: atomic_advance_def\<close>)
qed

lemma iterative_runs:
  assumes "runs (iterative_advance env) t ss" and "ie_ixs t = Some bs" and "ie_step t = ItExecute"
  shows "\<exists>c. ss = [ParallelUnchecked bs Legacy, ConfirmationIterativeTx c]"
proof -
  have ended: "ss = []" if "runs (iterative_advance env) t ss" "ie_step t = ItComplete" for t ss
    using that by (cases rule: runs.cases) (auto simp: iterative_advance_def)
  have confirms: "\<exists>c. ss = [ConfirmationIterativeTx c]" if "runs (iterative_advance env) t ss" "ie_step t = ItConfirm" for t ss
    using that(1) by cases (use that(2) ended in \<open>auto simp: iterative_advance_def res_elims split: prod.splits\<close>)
  from assms(1) show ?thesis by cases (use assms(2,3) confirms in \<open>auto simp: iterative_advance_def\<close>)
qed

lemma plain_runs:
  assumes "runs (rome_tx_advance env) (Plain t) ss" and "holds_batches r b t"
  shows "\<forall>s \<in> set ss. (\<forall>b' \<in> set (step_batches s). map ix_shape b' = map ix_shape b) \<and>
    (step_batches s \<noteq> [] \<longrightarrow> step_version s = Legacy) \<and> step_signers p s = [p]"
proof -
  have run: "runs (iterable_advance env) t ss" by (rule runs_map_tx [OF assms(1), of Plain]) (auto simp: inj_def)
  show ?thesis
  proof (cases t)
    case (AtomicI a)
    then have "runs (atomic_advance env) a ss"
      by (intro runs_map_tx [OF run, of AtomicI]) (auto simp: inj_def)
    from atomic_runs [OF this, of b] show ?thesis using assms(2) AtomicI
      by (simp add: step_batches_def step_version_def step_signers_def)
  next
    case (IterativeI i)
    then obtain bs where bs: "ie_ixs i = Some bs" "\<forall>b' \<in> set bs. map ix_shape b' = map ix_shape b" "ie_step i = ItExecute"
      using assms(2) by auto
    have "runs (iterative_advance env) i ss"
      using IterativeI by (intro runs_map_tx [OF run, of IterativeI]) (auto simp: inj_def)
    from iterative_runs [OF this bs(1,3)] show ?thesis using bs(2)
      by (auto simp: step_batches_def step_version_def step_signers_def)
  qed (use assms(2) in auto)
qed

lemma sends_in_batches:
  assumes "sends payer s log" and "tx \<in> set log"
  shows "st_ixs tx \<in> set (step_batches s)"
proof -
  have "set (map st_ixs log) \<subseteq> set (step_batches s)"
    using assms(1) by (cases s) (auto simp: sends_def step_batches_def dest!: subseq_set_mono)
  with assms(2) show ?thesis by auto
qed

text \<open>
  C30. When the builder decides that an EVM transaction needs neither a holder nor a lookup
  table, everything the tower sends for it fits: the JSON of each Solana transaction has at
  most 100 bytes less than a packet.
\<close>

theorem built_tx_fits:
  assumes "build_tx env tb rlp hash items nd = Some (items', nd1, Ok (Plain t))"
    and "\<And>h. t \<noteq> AtomicHolderI h" "\<And>h. t \<noteq> IterativeHolderI h" and "sizes_law env"
    and "send_and_confirm_tx_iterable n env (Plain t) nd1 = Some (nd2, t2, Ok sigs)"
  shows "\<exists>log. nd_sent nd2 = nd_sent nd1 @ log \<and> (\<forall>tx \<in> set log. fits_packet env tx)"
proof -
  obtain r nd0 b t0 is_atomic where built: "build_iterable env tb r rlp nd = (nd0, Ok (b, t0, is_atomic))"
    and composed: "compose_iterable env tb b r rlp hash t0 is_atomic nd0 = (nd1, Ok (Plain t))"
    using assms(1) by (auto simp: build_tx_def keep_if_ok_def build_with_def res_elims split: option.splits prod.splits)
  have t: "t = t0" and no_holder: "use_holder env b (it_payer_keypair r) None = Ok False"
    using compose_plain [OF composed] assms(2,3) by auto
  note holds = build_iterable_holds [OF built, folded t]
  have payer: "rome_tx_payer (Plain t) = it_payer_keypair r" using holds by (cases t) auto
  obtain ss logs where run: "runs (rome_tx_advance env) (Plain t) ss" and
    logs: "list_all2 (sends (rome_tx_payer (Plain t))) ss logs" and sent: "nd_sent nd2 = nd_sent nd1 @ concat logs"
    using rome_tx.send_loop_sends [OF assms(5) [unfolded send_and_confirm_tx_iterable_def]] by (elim exE conjE) (rule that)
  have "fits_packet env tx" if tx: "tx \<in> set log" and log: "log \<in> set logs" for tx log
  proof -
    obtain s where s: "s \<in> set ss" and sends: "sends (it_payer_keypair r) s log"
      using logs log unfolding payer by (metis in_set_conv_nth list_all2_conv_all_nth nth_mem)
    have "st_ixs tx \<in> set (step_batches s)" by (rule sends_in_batches [OF sends tx])
    with plain_runs [OF run holds, of "it_payer_keypair r"] s have "map ix_shape (st_ixs tx) = map ix_shape b"
      "step_version s = Legacy" "step_signers (it_payer_keypair r) s = [it_payer_keypair r]" by fastforce+
    with sends tx show ?thesis
      by (intro no_holder_fits [OF no_holder assms(4)]) (auto simp: sends_def)
  qed
  with sent show ?thesis by auto
qed

lemma test_built:
  "\<exists>items' nd1 t nd2 t2 sigs. build_tx test_tx_env \<lparr>tb_chain_id = 1, tb_program_id = 2\<rparr> [9] 0 [test_resource] test_node =
      Some (items', nd1, Ok (Plain (AtomicI t))) \<and>
    send_and_confirm_tx_iterable 2 test_tx_env (Plain (AtomicI t)) nd1 = Some (nd2, t2, Ok sigs)"
  by (simp add: build_tx_def lock_resource_def factory_pop_def keep_if_ok_def build_with_def build_iterable_def atomic_ix_def
      new_atomic_tx_def emulate_def ask_def test_node_def test_emulation_def check_exit_reason_def check_accounts_len_def
      Let_def compose_iterable_def tx_keys_def use_alt_def USE_ALT_KEYS_BOUND_def use_holder_def new_composible_owned_def
      build_ix_def test_tx_env_def test_sol_lib_def compose_legacy_solana_tx_def sign_legacy_def serialize_encode_def
      atomic_tx_data_def resource_fee_recipient_def test_resource_def PACKET_DATA_SIZE_def compose_iterable_without_holder_def
      send_and_confirm_tx_iterable_def numeral_2_eq_2 atomic_advance_def map_tx_def run_step_def send_and_confirm_def
      to_tx_def send_tx_def add_sig_def)

lemma test_sizes: "sizes_law test_tx_env"
  by (simp add: sizes_law_def json_size_def serialize_encode_def test_tx_env_def)

theorem built_tx_fits_witness:
  "\<exists>items' nd1 t nd2 t2 sigs log. build_tx test_tx_env \<lparr>tb_chain_id = 1, tb_program_id = 2\<rparr> [9] 0 [test_resource] test_node =
      Some (items', nd1, Ok (Plain (AtomicI t))) \<and>
    send_and_confirm_tx_iterable 2 test_tx_env (Plain (AtomicI t)) nd1 = Some (nd2, t2, Ok sigs) \<and>
    nd_sent nd2 = nd_sent nd1 @ log \<and> (\<forall>tx \<in> set log. fits_packet test_tx_env tx)"
proof -
  obtain items' nd1 t nd2 t2 sigs where
    b: "build_tx test_tx_env \<lparr>tb_chain_id = 1, tb_program_id = 2\<rparr> [9] 0 [test_resource] test_node =
      Some (items', nd1, Ok (Plain (AtomicI t)))" and
    s: "send_and_confirm_tx_iterable 2 test_tx_env (Plain (AtomicI t)) nd1 = Some (nd2, t2, Ok sigs)"
    using test_built by (elim exE conjE) (rule that)
  from built_tx_fits [OF b _ _ test_sizes s] b s show ?thesis by blast
qed

end
