(* ===== verification/Alt_Facts.thy ===== *)
theory Alt_Facts
  imports Tx_Facts
begin

text \<open>
  The lookup table of a transaction in a holder (\<^verbatim>\<open>alt_composed_holder.rs\<close>): it is created
  while the transaction is transmitted, and must be awaited before it is used.
\<close>

section \<open>How long the transmission takes\<close>

lemma chunks_loop_count: "0 < n \<Longrightarrow> length (chunks_loop n xs) \<le> k \<longleftrightarrow> length xs \<le> k * n"
proof (induction k arbitrary: xs)
  case 0
  then show ?case by (cases xs) (simp_all add: chunks_loop_step)
next
  case (Suc k)
  show ?case
  proof (cases "xs = []")
    case False
    then have "length (chunks_loop n xs) \<le> Suc k \<longleftrightarrow> length (chunks_loop n (drop n xs)) \<le> k"
      using Suc.prems by (simp add: chunks_loop_step)
    with Suc.IH [OF Suc.prems, of "drop n xs"] show ?thesis by auto
  qed simp
qed

lemma with_offsets_length: "length (with_offsets n cs) = length cs"
  by (induction cs arbitrary: n) simp_all

definition one_transmission :: "bytes \<Rightarrow> bool" where
  "one_transmission rlp \<longleftrightarrow> length rlp \<le> 9600"

lemma transmission_batches: "length (chunks_loop 12 (map f (transmit_pieces rlp))) \<le> 1 \<longleftrightarrow> one_transmission rlp"
  by (simp add: chunks_loop_count with_offsets_length transmit_pieces_def TRANSMIT_TX_SIZE_def one_transmission_def)

text \<open>The first two steps of a transmission.\<close>

lemma transmit_first_two:
  assumes "transmit_advance env nd t = (nd1, t1, Ok q1)" and "tt_step t = TrInit"
    and "transmit_advance env nd2 t1 = (nd3, t3, Ok q2)"
  shows "q2 = End \<longleftrightarrow> one_transmission (tt_rlp t)"
proof -
  have batches: "MAX_PERMITTED_DATA_INCREASE div TRANSMIT_TX_SIZE = 12"
    by (simp add: MAX_PERMITTED_DATA_INCREASE_def TRANSMIT_TX_SIZE_def)
  obtain nd0 ixs where ixs: "transmit_ixs env nd t = (nd0, Ok ixs)"
    using assms(1) by (auto simp: transmit_advance_def assms(2) split: prod.splits res.splits)
  then obtain em where em: "ixs = map (transmit_batch env t em) (transmit_pieces (tt_rlp t))"
    using transmit_ixs_Ok by blast
  have pop: "transmit_pop (rev (chunks_loop 12 ixs)) t = (t1, q1)"
    using assms(1) by (auto simp: transmit_advance_def assms(2) ixs into_chunks_def batches split: prod.splits)
  have "q2 = End \<longleftrightarrow> length (chunks_loop 12 ixs) \<le> 1"
  proof (cases "chunks_loop 12 ixs")
    case Nil
    then show ?thesis using pop assms(3) by (auto simp: transmit_pop_def transmit_advance_def)
  next
    case (Cons b bs)
    then have "tt_step t1 = TrExecute (rev bs)" using pop by (auto simp: transmit_pop_def butlast_append)
    then show ?thesis using Cons assms(3) by (auto simp: transmit_pop_def transmit_advance_def split: if_splits)
  qed
  then show ?thesis by (simp only: em transmission_batches)
qed

lemma transmit_results: "transmit_advance env nd t = (nd', t', Ok q) \<Longrightarrow> q = End \<or> (\<exists>b. q = Parallel b Legacy)"
  by (auto simp: transmit_advance_def transmit_pop_def split: transmit_steps.splits prod.splits res.splits if_splits)

section \<open>The steps of the composition\<close>

lemma first_composed_step:
  assumes "alt_composed_holder_advance env nd tx = (nd', tx', Ok s)"
    and "ch_step tx = AltFirst" and "al_step (ch_alt tx) = AltExecute"
  shows "(\<exists>b v. s = Parallel b v) \<and> ch_step tx' = AltFirst \<and> al_step (ch_alt tx') = AltWaitNextSlot \<and>
    (\<exists>nd1 nd2 q. transmit_advance env nd1 (ch_transmit tx) = (nd2, ch_transmit tx', Ok q))"
proof -
  obtain nd1 alt a nd2 tt q where alt: "alt_advance env nd (ch_alt tx) = (nd1, alt, Ok a)"
    and tr: "transmit_advance env nd1 (ch_transmit tx) = (nd2, tt, Ok q)"
    using assms(1) by (auto simp: alt_composed_holder_advance_def assms(2) split: prod.splits res.splits)
  have "al_step alt = AltWaitNextSlot" and "\<exists>b. a = Parallel b Legacy"
    using alt by (auto simp: alt_advance_def assms(3) split: prod.splits res.splits)
  then have "(\<exists>b v. s = Parallel b v) \<and> tx' = tx\<lparr>ch_alt := alt, ch_transmit := tt\<rparr>"
    using assms(1) transmit_results [OF tr]
    by (auto simp: alt_composed_holder_advance_def assms(2) alt tr join_parallel_def split: if_splits)
  with tr \<open>al_step alt = AltWaitNextSlot\<close> assms(2) show ?thesis by auto
qed

lemma second_composed_step:
  assumes "alt_composed_holder_advance env nd tx = (nd', tx', Ok s)"
    and "ch_step tx = AltFirst" and "al_step (ch_alt tx) = AltWaitNextSlot"
  shows "ch_step tx' = AltFirst \<and> al_step (ch_alt tx') = AltEnd \<and>
    (\<exists>nd1 nd2 q. transmit_advance env nd1 (ch_transmit tx) = (nd2, ch_transmit tx', Ok q) \<and>
      (if q = End then \<exists>x. s = WaitNextSlot x else s = q))"
proof -
  obtain nd1 alt a nd2 tt q where alt: "alt_advance env nd (ch_alt tx) = (nd1, alt, Ok a)"
    and tr: "transmit_advance env nd1 (ch_transmit tx) = (nd2, tt, Ok q)"
    using assms(1) by (auto simp: alt_composed_holder_advance_def assms(2) split: prod.splits res.splits)
  have "al_step alt = AltEnd" and a: "\<exists>x. a = WaitNextSlot x"
    using alt by (auto simp: alt_advance_def assms(3) Let_def res_elims split: prod.splits res.splits)
  then have "tx' = tx\<lparr>ch_alt := alt, ch_transmit := tt\<rparr>" and "if q = End then \<exists>x. s = WaitNextSlot x else s = q"
    using assms(1) transmit_results [OF tr]
    by (auto simp: alt_composed_holder_advance_def assms(2) alt tr join_parallel_def split: if_splits)
  with tr \<open>al_step alt = AltEnd\<close> assms(2) show ?thesis by (intro conjI exI [of _ nd1] exI [of _ nd2] exI [of _ q]) simp_all
qed

definition table_ready :: "alt_composed_holder \<Rightarrow> bool" where
  "table_ready tx \<longleftrightarrow> ch_step tx \<noteq> AltFirst \<or> al_step (ch_alt tx) = AltEnd"

lemma later_composed_step:
  assumes "alt_composed_holder_advance env nd tx = (nd', tx', Ok s)" and "table_ready tx"
  shows "table_ready tx' \<and> s \<noteq> WaitNextSlot x"
proof (cases "ch_step tx")
  case AltFirst
  then have alt: "alt_advance env nd (ch_alt tx) = (nd, ch_alt tx, Ok End)"
    using assms(2) by (simp add: table_ready_def alt_advance_def)
  show ?thesis using assms AltFirst
    by (auto simp: alt_composed_holder_advance_def alt table_ready_def holder_composed_execute_def map_tx_eq Let_def
        split: prod.splits res.splits if_splits dest!: join_parallel_waits
        dest: with_version_never_waits transmit_never_waits)
next
  case (Composed v)
  then show ?thesis using assms
    by (auto simp: alt_composed_holder_advance_def table_ready_def holder_composed_execute_def map_tx_eq
        dest: with_version_never_waits)
qed

lemma ready_never_waits:
  "runs (alt_composed_holder_advance env) tx ss \<Longrightarrow> table_ready tx \<Longrightarrow> WaitNextSlot x \<notin> set ss"
proof (induction rule: runs.induct)
  case (runs_step nd t nd' t' s ss)
  then show ?case using later_composed_step [OF runs_step.hyps(1)] by auto
qed simp

text \<open>
  The wait for the slot in which a lookup table becomes usable is lost when the
  transmission needs more than one step: the composed transaction waits exactly if the encoded
  transaction has at most 9600 bytes.
\<close>

theorem lookup_table_not_awaited:
  assumes "runs (alt_composed_holder_advance env) (new_alt_composed_holder alt (new_transmit_tx tb r rlp hash) t) ss"
    and "al_step alt = AltExecute"
  shows "(\<exists>s. WaitNextSlot s \<in> set ss) \<longleftrightarrow> length rlp \<le> 9600"
proof -
  let ?tx = "new_alt_composed_holder alt (new_transmit_tx tb r rlp hash) t"
  have tx: "ch_step ?tx = AltFirst" "al_step (ch_alt ?tx) = AltExecute" "tt_step (ch_transmit ?tx) = TrInit"
    "tt_rlp (ch_transmit ?tx) = rlp"
    using assms(2) by (simp_all add: new_alt_composed_holder_def new_transmit_tx_def)
  obtain nd nd1 tx1 s1 where adv1: "alt_composed_holder_advance env nd ?tx = (nd1, tx1, Ok s1)" and
    ss: "s1 = End \<and> ss = [] \<or> (\<exists>rest. ss = s1 # rest \<and> runs (alt_composed_holder_advance env) tx1 rest)"
    using assms(1) by cases auto
  from first_composed_step [OF adv1 tx(1,2)] obtain b v nd2 nd3 q1 where s1: "s1 = Parallel b v"
    and tx1: "ch_step tx1 = AltFirst" "al_step (ch_alt tx1) = AltWaitNextSlot"
    and tr1: "transmit_advance env nd2 (ch_transmit ?tx) = (nd3, ch_transmit tx1, Ok q1)"
    by (elim exE conjE) (rule that)
  obtain rest where ss: "ss = s1 # rest" and rest: "runs (alt_composed_holder_advance env) tx1 rest"
    using ss s1 by auto
  obtain nd4 nd5 tx2 s2 where adv2: "alt_composed_holder_advance env nd4 tx1 = (nd5, tx2, Ok s2)" and
    rest': "s2 = End \<and> rest = [] \<or> (\<exists>rest'. rest = s2 # rest' \<and> runs (alt_composed_holder_advance env) tx2 rest')"
    using rest by cases auto
  from second_composed_step [OF adv2 tx1] obtain nd6 nd7 q2 where tx2: "ch_step tx2 = AltFirst" "al_step (ch_alt tx2) = AltEnd"
    and tr2: "transmit_advance env nd6 (ch_transmit tx1) = (nd7, ch_transmit tx2, Ok q2)"
    and s2: "if q2 = End then \<exists>x. s2 = WaitNextSlot x else s2 = q2"
    by (elim exE conjE) (rule that)
  have q2: "q2 = End \<longleftrightarrow> length rlp \<le> 9600"
    using transmit_first_two [OF tr1 tx(3) tr2] by (simp add: tx(4) one_transmission_def)
  have "s2 \<noteq> End" using s2 by (auto split: if_splits)
  then obtain rest' where "rest = s2 # rest'" "runs (alt_composed_holder_advance env) tx2 rest'" using rest' by blast
  moreover have "WaitNextSlot x \<notin> set rest'" for x
    using ready_never_waits [OF calculation(2)] tx2 by (simp add: table_ready_def)
  moreover have "(\<exists>x. s2 = WaitNextSlot x) \<longleftrightarrow> q2 = End"
    using s2 transmit_results [OF tr2] by (auto split: if_splits)
  ultimately show ?thesis using q2 by (auto simp: ss s1)
qed

definition test_alt :: alt_tx where
  "test_alt = \<lparr>al_builder = \<lparr>tb_chain_id = 1, tb_program_id = 2\<rparr>, al_resource = test_resource, al_session = 0,
     al_keys = Some [1], al_recent_slot = 0, al_step = AltExecute, al_raw_account = None\<rparr>"

definition test_table_node :: node where
  "test_table_node = test_node\<lparr>nd_get_alt := \<lambda>_ _ _ _. Ok (Some 5)\<rparr>"

definition test_composed :: alt_composed_holder where
  "test_composed = new_alt_composed_holder test_alt (new_transmit_tx \<lparr>tb_chain_id = 1, tb_program_id = 2\<rparr> test_resource [9] 0)
     (AtomicHolderI (new_atomic_tx_holder (new_transmit_tx \<lparr>tb_chain_id = 1, tb_program_id = 2\<rparr> test_resource [9] 0) True))"

lemma test_table_asks:
  "emulate test_tx_env tb data payer (test_table_node\<lparr>nd_calls := k\<rparr>) = (test_table_node\<lparr>nd_calls := Suc k\<rparr>, Ok test_emulation)"
  by (simp add: emulate_def ask_def test_table_node_def test_node_def test_emulation_def check_exit_reason_def
      check_accounts_len_def)

lemma test_alt_raw: "get_alt_raw_account (test_table_node\<lparr>nd_calls := k\<rparr>) tx =
    (test_table_node\<lparr>nd_calls := Suc (Suc k)\<rparr>, Ok (5, []))"
  by (simp add: get_alt_raw_account_def ask_def test_table_node_def test_node_def Let_def)

lemma test_composed_runs:
  "\<exists>b1 b2 v. runs (alt_composed_holder_advance test_tx_env) test_composed [Parallel b1 Legacy, WaitNextSlot 3, Single b2 v]"
proof -
  let ?n = "\<lambda>k. test_table_node\<lparr>nd_calls := k\<rparr>"
  have alt: "alt_of_data test_tx_env d = Some ([], 3)" for d by (simp add: test_tx_env_def)
  note defs = alt_composed_holder_advance_def alt_advance_def alt_ix_dealloc_def alt_ixs_alloc_def alt_alloc_data_def
    into_chunks_def ALT_CHUNK_SIZE_def one_chunk test_table_asks Let_def join_parallel_def transmit_advance_def
    transmit_ixs_def transmit_pop_def TRANSMIT_TX_SIZE_def MAX_PERMITTED_DATA_INCREASE_def test_alt_raw alt
    last_extended_slot_def alt_account_of_def alt_account_def holder_composed_execute_def iterable_advance_with_version_def
    map_tx_def atomic_holder_advance_def atomic_holder_execute_def atomic_holder_ixs_def versioned_def single_with_version_def
  obtain b1 tx1 where 1: "alt_composed_holder_advance test_tx_env (?n 0) test_composed = (?n 3, tx1, Ok (Parallel b1 Legacy))"
    and tx1: "tx1 = test_composed\<lparr>ch_alt := test_alt\<lparr>al_keys := None, al_step := AltWaitNextSlot\<rparr>,
      ch_transmit := (ch_transmit test_composed)\<lparr>tt_step := TrExecute []\<rparr>\<rparr>"
    by (simp add: defs test_composed_def new_alt_composed_holder_def test_alt_def new_transmit_tx_def)
  obtain tx2 where 2: "alt_composed_holder_advance test_tx_env (?n 3) tx1 = (?n 5, tx2, Ok (WaitNextSlot 3))"
    and tx2: "tx2 = tx1\<lparr>ch_alt := test_alt\<lparr>al_keys := None, al_step := AltEnd, al_raw_account := Some (5, [])\<rparr>,
      ch_transmit := (ch_transmit test_composed)\<lparr>tt_step := TrComplete\<rparr>\<rparr>"
    by (simp add: defs tx1 test_composed_def new_alt_composed_holder_def test_alt_def new_transmit_tx_def)
  obtain b2 v tx3 where 3: "alt_composed_holder_advance test_tx_env (?n 5) tx2 = (?n 6, tx3, Ok (Single b2 v))"
    and tx3: "ch_step tx3 = Composed v" "\<exists>h. ch_iterable tx3 = AtomicHolderI h \<and> ah_step h = HEnd"
    by (simp add: defs tx2 tx1 test_composed_def new_alt_composed_holder_def test_alt_def new_transmit_tx_def
        new_atomic_tx_holder_def)
  have "runs (alt_composed_holder_advance test_tx_env) tx3 []"
  proof -
    obtain h where "ch_iterable tx3 = AtomicHolderI h" "ah_step h = HEnd" using tx3(2) by blast
    then have "alt_composed_holder_advance test_tx_env test_node tx3 = (test_node, tx3\<lparr>ch_iterable := AtomicHolderI h\<rparr>, Ok End)"
      by (simp add: defs tx3(1))
    then show ?thesis by (rule runs.runs_end)
  qed
  then show ?thesis using 1 2 3 by (blast intro: runs.runs_step ix_exec_step.distinct)
qed

theorem lookup_table_not_awaited_witness:
  "\<exists>ss. runs (alt_composed_holder_advance test_tx_env) test_composed ss \<and> (\<exists>s. WaitNextSlot s \<in> set ss)"
proof -
  obtain b1 b2 v where run: "runs (alt_composed_holder_advance test_tx_env) test_composed
      [Parallel b1 Legacy, WaitNextSlot 3, Single b2 v]"
    using test_composed_runs by (elim exE) (rule that)
  have "al_step test_alt = AltExecute" by (simp add: test_alt_def)
  from lookup_table_not_awaited [OF run [unfolded test_composed_def] this] run show ?thesis by auto
qed

end
