(* ===== verification/Iterations.thy ===== *)
theory Iterations
  imports Evm_Txs
begin

text \<open>
  The number of transactions of an iterative transaction (\<^verbatim>\<open>iterative.rs\<close>,
  \<^verbatim>\<open>iterative_holder.rs\<close>): the product in double precision is the exact one.
\<close>

section \<open>Rounding\<close>

lemma bit_length_upper: "n < 2 ^ bit_length n"
proof (induction n rule: bit_length.induct)
  case (1 n)
  show ?case
  proof (cases "n = 0")
    case False
    with 1 have "n div 2 < 2 ^ bit_length (n div 2)" by simp
    with False show ?thesis by (subst bit_length.simps) auto
  qed (simp add: bit_length.simps)
qed

lemma bit_length_lower: "0 < n \<Longrightarrow> 2 ^ bit_length n \<le> 2 * n"
proof (induction n rule: bit_length.induct)
  case (1 n)
  show ?case
  proof (cases "n div 2 = 0")
    case True
    with 1 have "n = 1" by auto
    then show ?thesis by (simp add: bit_length.simps)
  next
    case False
    with 1 have "2 ^ bit_length (n div 2) \<le> 2 * (n div 2)" by auto
    with 1(2) show ?thesis by (subst bit_length.simps) auto
  qed
qed

lemma bit_length_le: "n < 2 ^ k \<Longrightarrow> bit_length n \<le> k"
proof (cases "n = 0")
  case False
  assume "n < 2 ^ k"
  with bit_length_lower [of n] False have "2 ^ bit_length n < (2 :: nat) ^ Suc k" by simp
  then show ?thesis by (simp only: power_strict_increasing_iff)
qed (simp add: bit_length.simps)

text \<open>The rounded number is within half a unit of the last place; a multiple nearer than that is it.\<close>

lemma round_shift_error: "2 * round_shift k p \<le> 2 * p + 2 ^ k \<and> 2 * p \<le> 2 * round_shift k p + 2 ^ k"
proof -
  define q r where "q = p div 2 ^ k" and "r = p mod 2 ^ k"
  have p: "p = q * 2 ^ k + r" unfolding q_def r_def by (rule div_mult_mod_eq [symmetric])
  have r: "r < 2 ^ k" by (simp add: r_def)
  have "round_shift k p = q * 2 ^ k \<and> (k = 0 \<or> 2 * r \<le> 2 ^ k) \<or> round_shift k p = q * 2 ^ k + 2 ^ k \<and> 2 ^ k \<le> 2 * r"
    unfolding round_shift_def q_def [symmetric] r_def [symmetric] Let_def by auto
  then show ?thesis using r unfolding p by auto
qed

lemma round_shift_dvd: "2 ^ k dvd round_shift k p"
  by (simp add: round_shift_def Let_def)

lemma round_shift_nearest:
  assumes "2 ^ k dvd t" and "p \<le> t" and "2 * (t - p) < 2 ^ k"
  shows "round_shift k p = t"
proof -
  obtain a b where a: "t = 2 ^ k * a" and b: "round_shift k p = 2 ^ k * b"
    using assms(1) round_shift_dvd [of k p] by (elim dvdE) (rule that)
  have "2 * (2 ^ k * b) \<le> 2 * p + 2 ^ k" "2 * p \<le> 2 * (2 ^ k * b) + 2 ^ k"
    using round_shift_error [of k p] by (simp_all add: b)
  then have "2 ^ k * b < 2 ^ k * a + 2 ^ k" "2 ^ k * a < 2 ^ k * b + 2 ^ k" using assms(2,3) a by linarith+
  then have "2 ^ k * b < 2 ^ k * (a + 1)" "2 ^ k * a < 2 ^ k * (b + 1)" by (simp_all add: algebra_simps)
  then have "a = b" by (simp only: mult_less_cancel1) simp
  then show ?thesis by (simp add: a b)
qed

section \<open>Six fifths\<close>

lemma five_times: "5 * MULTIPLE_ITERATIONS + 1 = 6 * 2 ^ 52"
  by (simp add: MULTIPLE_ITERATIONS_def)

lemma round53_small: "n < 2 ^ 53 \<Longrightarrow> round53 n = n"
  using bit_length_le [of n 53] by (simp add: round53_def round_shift_def Let_def)

lemma product_shift:
  assumes "n < 2 ^ 50" shows "bit_length (n * MULTIPLE_ITERATIONS) - 53 \<le> 50"
proof -
  have "n * MULTIPLE_ITERATIONS < 2 ^ 50 * 2 ^ 53"
    using assms by (intro mult_strict_mono) (simp_all add: MULTIPLE_ITERATIONS_def)
  then have "bit_length (n * MULTIPLE_ITERATIONS) \<le> 103" by (intro bit_length_le) simp
  then show ?thesis by simp
qed

lemma scaled_multiple:
  assumes "5 * m < 2 ^ 50"
  shows "round53 (5 * m * MULTIPLE_ITERATIONS) = 6 * m * 2 ^ 52"
proof (cases "m = 0")
  case False
  define p k where "p = 5 * m * MULTIPLE_ITERATIONS" and "k = bit_length p - 53"
  have p: "p + m = 6 * m * 2 ^ 52" using arg_cong [OF five_times, of "\<lambda>x. x * m"] by (simp add: p_def algebra_simps)
  have k: "k \<le> 50" using product_shift [OF assms] by (simp add: k_def p_def)
  have "p < 2 ^ (53 + k)"
    by (rule less_le_trans [OF bit_length_upper]) (simp add: k_def power_increasing)
  then have "5 * m * 2 ^ 52 < 2 ^ 52 * (2 * 2 ^ k)" using p by (simp add: power_add)
  then have "5 * m < 2 * 2 ^ k" by simp
  then have m: "2 * m < 2 ^ k" using False by simp
  have "2 ^ k dvd (6 * m * 2 ^ 52 :: nat)"
    using k by (intro dvd_mult le_imp_power_dvd) simp
  then have "round_shift k p = 6 * m * 2 ^ 52" by (rule round_shift_nearest) (use p m in simp_all)
  then show ?thesis by (simp add: round53_def p_def k_def)
qed (simp add: round53_def round_shift_def bit_length.simps Let_def)

lemma scaled_other:
  assumes "n < 2 ^ 50" and "n mod 5 \<noteq> 0"
  shows "round53 (n * MULTIPLE_ITERATIONS) div 2 ^ 52 = 6 * n div 5"
proof -
  define p k where "p = n * MULTIPLE_ITERATIONS" and "k = bit_length p - 53"
  have k: "(2 :: nat) ^ k \<le> 2 ^ 50" using product_shift [OF assms(1)] by (intro power_increasing) (simp_all add: k_def p_def)
  have p: "5 * p + n = 6 * n * 2 ^ 52" using arg_cong [OF five_times, of "\<lambda>x. x * n"] by (simp add: p_def algebra_simps)
  define s where "s = round_shift k p"
  have s: "2 * s \<le> 2 * p + 2 ^ 50" "2 * p \<le> 2 * s + 2 ^ 50" using round_shift_error [of k p] k by (simp_all add: s_def)
  define q r where "q = 6 * n div 5" and "r = 6 * n mod 5"
  have qr: "6 * n = 5 * q + r" by (simp add: q_def r_def)
  have r: "1 \<le> r" "r \<le> 4" using assms(2) unfolding r_def by presburger+
  have p': "5 * p + n = 5 * (q * 2 ^ 52) + r * 2 ^ 52" using p by (simp only: qr add_mult_distrib mult.assoc)
  have "q * 2 ^ 52 \<le> s" "s < q * 2 ^ 52 + 2 ^ 52" using p' s r assms(1) by simp_all
  then have "s div 2 ^ 52 = q" by (intro div_nat_eqI) (simp_all add: algebra_simps)
  then show ?thesis by (simp add: s_def round53_def p_def k_def q_def)
qed

text \<open>
  For an estimate below \<open>2 ^ 50\<close> the number of transactions is exactly six fifths of it,
  rounded down: neither the representation of 1.2 nor the rounding of the product shows.
\<close>

theorem scaled_iterations_exact:
  assumes "unat n < 2 ^ 50"
  shows "scaled_iterations n = 6 * unat n div 5 \<and> unat n \<le> scaled_iterations n"
proof -
  have "round53 (unat n * MULTIPLE_ITERATIONS) div 2 ^ 52 = 6 * unat n div 5"
  proof (cases "unat n mod 5 = 0")
    case True
    then obtain m where "unat n = 5 * m" by auto
    with scaled_multiple [of m] assms show ?thesis by simp
  qed (rule scaled_other [OF assms])
  moreover have "6 * unat n div 5 < 2 ^ 64" using assms by simp
  ultimately show ?thesis using assms round53_small [of "unat n"] by (simp add: scaled_iterations_def)
qed

theorem scaled_iterations_exact_witness: "scaled_iterations 7 = 8"
  using scaled_iterations_exact [of 7] by simp

end
