(* ===== verification/Solana_Client.thy ===== *)
theory Solana_Client
  imports Block_Parser
begin

text \<open>
  \<^verbatim>\<open>rome-evm-client/src/indexer/multiplexed_solana_client.rs\<close>: a request goes to all RPC
  providers at once, the first good answer counts, and a failed round is repeated.
\<close>

section \<open>Errors of the RPC client\<close>

text \<open>
  \<^verbatim>\<open>ErrorKind\<close>: the JSON did not parse, the node answered with a code and a message,
  another error of the RPC protocol, or anything else.
\<close>

datatype client_error = SerdeJson | RpcResponseError int string | OtherRpcError | OtherKind string

type_synonym 'a client_result = "client_error + 'a"

section \<open>Asking all providers\<close>

text \<open>
  \<^verbatim>\<open>plex\<close>: the answers of the providers, in their order, and the order in which they arrive
  (a list of positions).  The first answer that is not an error is the result; without one it
  is the error of the last provider.
\<close>

record 'a answers =
  an_answers :: "'a client_result list"
  an_arrival :: "nat list"

fun first_good :: "'a client_result list \<Rightarrow> nat list \<Rightarrow> 'a option" where
  "first_good rs [] = None"
| "first_good rs (i # is) =
     (if i < length rs then (case rs ! i of Inr x \<Rightarrow> Some x | Inl e \<Rightarrow> first_good rs is) else first_good rs is)"

fun errors_of :: "'a client_result list \<Rightarrow> client_error list" where
  "errors_of [] = []"
| "errors_of (Inl e # rs) = e # errors_of rs"
| "errors_of (Inr x # rs) = errors_of rs"

definition plex :: "'a answers \<Rightarrow> 'a client_result" where
  "plex a =
     (case first_good (an_answers a) (an_arrival a) of
        Some x \<Rightarrow> Inr x
      | None \<Rightarrow> Inl (let errors = errors_of (an_answers a) in
          if errors = [] then OtherKind ''All providers failed'' else last errors))"

definition process_plex_result :: "'a client_result \<Rightarrow> 'a option res" where
  "process_plex_result r =
     (case r of
        Inr v \<Rightarrow> Ok (Some v)
      | Inl kind \<Rightarrow>
          (case kind of
             SerdeJson \<Rightarrow> Ok None
           | RpcResponseError c message \<Rightarrow>
               if c = - 32005 then Err (Custom message)
               else if c = - 32011 then Panic message
               else if c = - 32007 then Ok None
               else if c = - 32009 then Err (Custom message)
               else if c = - 32004 then Err (Custom message)
               else Err (Custom message)
           | OtherRpcError \<Rightarrow> Ok None
           | OtherKind e \<Rightarrow> Err (Custom e)))"

section \<open>Retries\<close>

text \<open>
  \<open>rounds t\<close> are the answers of the providers in round \<open>t\<close>, \<open>emergency\<close> those of the
  emergency providers, if there are any.  The result comes with the number of the rounds.
  Subtracting from no retries left overflows.
\<close>

fun retry_rounds ::
  "(nat \<Rightarrow> 'a answers) \<Rightarrow> (nat \<Rightarrow> 'a answers) option \<Rightarrow> nat \<Rightarrow> nat \<Rightarrow> nat \<times> 'a option res" where
  "retry_rounds rounds emergency t 0 =
     (case process_plex_result (plex (rounds t)) of
        Ok res \<Rightarrow> (Suc t, Ok res)
      | Err e \<Rightarrow> (Suc t, Panic ''attempt to subtract with overflow'')
      | Panic m \<Rightarrow> (Suc t, Panic m))"
| "retry_rounds rounds emergency t (Suc retries_remaining) =
     (case process_plex_result (plex (rounds t)) of
        Ok res \<Rightarrow> (Suc t, Ok res)
      | Err e \<Rightarrow>
          (if 0 < retries_remaining then retry_rounds rounds emergency (Suc t) retries_remaining
           else (Suc t, case emergency of
               Some em \<Rightarrow> process_plex_result (plex (em t))
             | None \<Rightarrow> Err (Custom ''retries exhausted'')))
      | Panic m \<Rightarrow> (Suc t, Panic m))"

definition plex_with_retries ::
  "(nat \<Rightarrow> 'a answers) \<Rightarrow> (nat \<Rightarrow> 'a answers) option \<Rightarrow> nat \<Rightarrow> nat \<times> 'a option res" where
  "plex_with_retries rounds emergency num_retries = retry_rounds rounds emergency 0 num_retries"

section \<open>What a request returns\<close>

text \<open>All providers answer, each once.\<close>

definition all_arrive :: "'a answers \<Rightarrow> bool" where
  "all_arrive a \<longleftrightarrow> set (an_arrival a) = {..<length (an_answers a)}"

lemma first_good_Some: "first_good rs is = Some x \<Longrightarrow> Inr x \<in> set rs"
  by (induction "is") (auto split: if_splits sum.splits simp: in_set_conv_nth)

lemma first_good_None: "first_good rs is = None \<longleftrightarrow> (\<forall>i \<in> set is. i < length rs \<longrightarrow> (\<exists>e. rs ! i = Inl e))"
  by (induction "is") (auto split: sum.splits)

lemma errors_of_all: "\<forall>r \<in> set rs. \<exists>e. r = Inl e \<Longrightarrow> map Inl (errors_of rs) = rs"
  by (induction rs) auto

text \<open>A good answer wins over any error; only if there is none the error of the last provider is returned.\<close>

lemma plex_good:
  assumes "all_arrive a"
  shows "(\<exists>x. plex a = Inr x) \<longleftrightarrow> (\<exists>x. Inr x \<in> set (an_answers a))"
    and "plex a = Inr x \<Longrightarrow> Inr x \<in> set (an_answers a)"
    and "plex a = Inl e \<Longrightarrow> an_answers a \<noteq> [] \<Longrightarrow> last (an_answers a) = Inl e"
proof -
  have none: "first_good (an_answers a) (an_arrival a) = None \<longleftrightarrow> (\<forall>r \<in> set (an_answers a). \<exists>e. r = Inl e)"
    using assms unfolding first_good_None all_arrive_def by (auto simp: all_set_conv_all_nth)
  have inr: "(\<forall>r \<in> set rs. \<exists>e. r = Inl e) \<longleftrightarrow> (\<nexists>x. Inr x \<in> set rs)" for rs :: "(client_error + 'a) list"
    by (metis Inl_Inr_False obj_sumE)
  show "(\<exists>x. plex a = Inr x) \<longleftrightarrow> (\<exists>x. Inr x \<in> set (an_answers a))"
    using none inr by (auto simp: plex_def split: option.splits)
  show "plex a = Inr x \<Longrightarrow> Inr x \<in> set (an_answers a)"
    by (auto simp: plex_def first_good_Some split: option.splits)
  assume "plex a = Inl e" and ne: "an_answers a \<noteq> []"
  then have all: "\<forall>r \<in> set (an_answers a). \<exists>e. r = Inl e" using none by (auto simp: plex_def split: option.splits)
  then have "map Inl (errors_of (an_answers a)) = an_answers a" by (rule errors_of_all)
  then show "last (an_answers a) = Inl e"
    using \<open>plex a = Inl e\<close> ne none all by (auto simp: plex_def Let_def last_map split: option.splits if_splits)
       (metis last_map list.map_disc_iff)
qed

text \<open>The rounds that fail with an error are repeated, at most as often as asked for.\<close>

lemma retry_rounds_bound: "fst (retry_rounds rounds emergency t n) \<le> t + max 1 n"
proof (induction rounds emergency t n rule: retry_rounds.induct)
  case (2 rounds emergency t n)
  then show ?case by (auto split: res.splits simp: max_def)
qed (auto split: res.splits)

lemma retry_rounds_first:
  assumes "\<forall>i < k. \<exists>e. process_plex_result (plex (rounds (t + i))) = Err e" and "k < n"
  shows "retry_rounds rounds emergency t n = retry_rounds rounds emergency (t + k) (n - k)"
  using assms
proof (induction k arbitrary: t n)
  case (Suc k)
  from Suc.prems obtain m where n: "n = Suc m" and m: "k < m" by (cases n) auto
  obtain e where "process_plex_result (plex (rounds t)) = Err e" using Suc.prems(1) by force
  then have "retry_rounds rounds emergency t n = retry_rounds rounds emergency (Suc t) m" using m by (simp add: n)
  also have "\<dots> = retry_rounds rounds emergency (Suc t + k) (m - k)"
  proof (rule Suc.IH)
    show "\<forall>i < k. \<exists>e. process_plex_result (plex (rounds (Suc t + i))) = Err e"
    proof (intro allI impI)
      fix i assume "i < k"
      then show "\<exists>e. process_plex_result (plex (rounds (Suc t + i))) = Err e"
        using Suc.prems(1) [rule_format, of "Suc i"] by simp
    qed
  qed (rule m)
  finally show ?case by (simp add: n)
qed simp

text \<open>
  C31. A request that is tried \<open>n\<close> times returns what the first round without an error says
  (and panics if that round does); if all of them fail, it returns the answer of the emergency
  providers or an error.  It never asks more than \<open>n\<close> times.
\<close>

theorem retries_exact:
  assumes "0 < n"
  shows "fst (plex_with_retries rounds emergency n) \<le> n \<and>
    (\<forall>k < n. (\<forall>i < k. \<exists>e. process_plex_result (plex (rounds i)) = Err e) \<and>
        (\<nexists>e. process_plex_result (plex (rounds k)) = Err e) \<longrightarrow>
      plex_with_retries rounds emergency n = (Suc k, process_plex_result (plex (rounds k)))) \<and>
    ((\<forall>i < n. \<exists>e. process_plex_result (plex (rounds i)) = Err e) \<longrightarrow>
      plex_with_retries rounds emergency n = (n, case emergency of
        Some em \<Rightarrow> process_plex_result (plex (em (n - 1))) | None \<Rightarrow> Err (Custom ''retries exhausted'')))"
proof (intro conjI allI impI)
  show "fst (plex_with_retries rounds emergency n) \<le> n"
    using retry_rounds_bound [of rounds emergency 0 n] assms by (simp add: plex_with_retries_def)
next
  fix k
  assume k: "k < n" and fails: "(\<forall>i < k. \<exists>e. process_plex_result (plex (rounds i)) = Err e) \<and>
    (\<nexists>e. process_plex_result (plex (rounds k)) = Err e)"
  then obtain m where "n - k = Suc m" by (cases "n - k") auto
  then show "plex_with_retries rounds emergency n = (Suc k, process_plex_result (plex (rounds k)))"
    using retry_rounds_first [of k rounds 0 n emergency] k fails
    by (auto simp: plex_with_retries_def split: res.split)
next
  assume fails: "\<forall>i < n. \<exists>e. process_plex_result (plex (rounds i)) = Err e"
  obtain m where n: "n = Suc m" using assms by (cases n) auto
  obtain e where "process_plex_result (plex (rounds m)) = Err e" using fails by (auto simp: n)
  then have one: "retry_rounds rounds emergency m (Suc 0) = (n, case emergency of
      Some em \<Rightarrow> process_plex_result (plex (em (n - 1))) | None \<Rightarrow> Err (Custom ''retries exhausted''))"
    unfolding n by (simp split: option.split)
  have "retry_rounds rounds emergency 0 n = retry_rounds rounds emergency m (Suc 0)"
    using retry_rounds_first [of m rounds 0 n emergency] fails by (simp add: n del: retry_rounds.simps)
  then show "plex_with_retries rounds emergency n = (n, case emergency of
      Some em \<Rightarrow> process_plex_result (plex (em (n - 1))) | None \<Rightarrow> Err (Custom ''retries exhausted''))"
    unfolding plex_with_retries_def one .
qed

definition test_rounds :: "nat \<Rightarrow> nat answers" where
  "test_rounds t = \<lparr>an_answers = [Inl SerdeJson, if t = 0 then Inl (RpcResponseError (- 32005) ''unhealthy'') else Inr t],
     an_arrival = [1, 0]\<rparr>"

theorem retries_exact_witness: "plex_with_retries test_rounds None 3 = (2, Ok (Some 1))"
  using conjunct1 [OF conjunct2 [OF retries_exact [of 3 test_rounds None]]]
  by (auto simp: test_rounds_def plex_def process_plex_result_def Let_def dest!: spec [of _ "1 :: nat"])

text \<open>Without retries the first error overflows the counter.\<close>

lemma no_retries_panics:
  assumes "process_plex_result (plex (rounds 0)) = Err e"
  shows "plex_with_retries rounds emergency 0 = (1, Panic ''attempt to subtract with overflow'')"
  by (simp add: plex_with_retries_def assms)

end
