(* ===== verification/Tower_Facts.thy ===== *)
theory Tower_Facts
  imports Advance_Facts
begin

text \<open>
  What the tower does for the steps of a transaction, call by call: which transactions it sends,
  which answers it got, and which signatures it returns.  It is stated as relations between a
  step, the number of the first call to the node, what is sent, the results and the number of the
  next call; the answers are those of the node.
\<close>

section \<open>Batches\<close>

text \<open>
  A batch: the node is asked for a blockhash, the transaction with it is composed and sent.
  Nothing is sent in two cases only: there is no blockhash, or the composition fails.
\<close>

inductive batch_sent ::
  "node \<Rightarrow> (ix_batch \<Rightarrow> h256 \<Rightarrow> sol_tx res) \<Rightarrow> ix_batch \<Rightarrow> nat \<Rightarrow> sol_tx list \<Rightarrow> bytes res \<Rightarrow> nat \<Rightarrow> bool"
  for nd compose where
  sent: "nd_get_latest_blockhash nd k = Ok bh \<Longrightarrow> compose b bh = Ok tx \<Longrightarrow>
    batch_sent nd compose b k [tx] (nd_send nd (Suc k) tx) (Suc (Suc k))"
| no_blockhash: "try_res (nd_get_latest_blockhash nd k) (\<lambda>_. Ok []) = r \<Longrightarrow> \<not> is_ok r \<Longrightarrow>
    batch_sent nd compose b k [] r (Suc k)"
| not_composed: "nd_get_latest_blockhash nd k = Ok bh \<Longrightarrow> try_res (compose b bh) (\<lambda>_. Ok []) = r \<Longrightarrow> \<not> is_ok r \<Longrightarrow>
    batch_sent nd compose b k [] r (Suc k)"

inductive batches_sent ::
  "node \<Rightarrow> (ix_batch \<Rightarrow> h256 \<Rightarrow> sol_tx res) \<Rightarrow> ix_batch list \<Rightarrow> nat \<Rightarrow> sol_tx list \<Rightarrow> bytes res list \<Rightarrow> nat \<Rightarrow> bool"
  for nd compose where
  none_left: "batches_sent nd compose [] k [] [] k"
| next_batch: "batch_sent nd compose b k log r k1 \<Longrightarrow> batches_sent nd compose bs k1 logs rs k2 \<Longrightarrow>
    batches_sent nd compose (b # bs) k (log @ logs) (r # rs) k2"

inductive_cases batch_sentE: "batch_sent nd compose b k log r k'"
inductive_cases batches_sent_ConsE: "batches_sent nd compose (b # bs) k log rs k'"

definition compose_versioned :: "sol_lib \<Rightarrow> keypair \<Rightarrow> tx_version \<Rightarrow> ix_batch \<Rightarrow> h256 \<Rightarrow> sol_tx res" where
  "compose_versioned lib payer ver b bh =
     (case ver of Legacy \<Rightarrow> compose_legacy_solana_tx lib b payer bh | V0 alt \<Rightarrow> compose_v0_solana_tx lib b payer bh alt)"

text \<open>If the node has a blockhash at every call and everything can be composed, nothing is missing.\<close>

lemma batches_sent_all:
  assumes "batches_sent nd compose bs k log rs k'" and "\<And>k. is_ok (nd_get_latest_blockhash nd k)"
    and "\<And>b bh. b \<in> set bs \<Longrightarrow> is_ok (compose b bh)" and "\<And>b bh tx. compose b bh = Ok tx \<Longrightarrow> st_ixs tx = b"
  shows "map st_ixs log = bs"
  using assms
proof (induction rule: batches_sent.induct)
  case (next_batch b k log r k1 bs logs rs k2)
  have ok: "is_ok (nd_get_latest_blockhash nd k)" "is_ok (compose b bh)" for k bh using next_batch.prems by simp_all
  have "map st_ixs log = [b]"
    using next_batch.hyps(1)
  proof cases
    case no_blockhash
    then show ?thesis using ok(1) [of k] by (cases "nd_get_latest_blockhash nd k") auto
  next
    case (not_composed bh)
    then show ?thesis using ok(2) [of bh] by (cases "compose b bh") auto
  qed (use next_batch.prems(3) in simp)
  moreover have "map st_ixs logs = bs" using next_batch by simp
  ultimately show ?case by simp
qed simp

section \<open>Steps\<close>

text \<open>
  A step that succeeded.  Waiting has asked for the slot until it was greater; of the batches that are
  not checked the results may be errors; a confirmation that is missing ends in an error.
\<close>

definition step_sent ::
  "node \<Rightarrow> sol_lib \<Rightarrow> keypair \<Rightarrow> ix_exec_step \<Rightarrow> nat \<Rightarrow> sol_tx list \<Rightarrow> bytes res list \<Rightarrow> nat \<Rightarrow> bool" where
  "step_sent nd lib payer s k log rs k' \<longleftrightarrow>
     (case s of
        Single b v \<Rightarrow> batches_sent nd (compose_versioned lib payer v) [b] k log rs k' \<and> list_all is_ok rs
      | SingleWithSigners b signers \<Rightarrow>
          batches_sent nd (\<lambda>b. compose_legacy_solana_tx_with_signers lib b payer signers) [b] k log rs k' \<and> list_all is_ok rs
      | Parallel bs v \<Rightarrow> batches_sent nd (compose_versioned lib payer v) bs k log rs k' \<and> list_all is_ok rs
      | ParallelUnchecked bs v \<Rightarrow> batches_sent nd (compose_versioned lib payer v) bs k log rs k' \<and> first_panic rs = None
      | ConfirmationIterativeTx confirm \<Rightarrow> confirm \<and> log = [] \<and> rs = [] \<and> k' = k
      | WaitNextSlot s \<Rightarrow> log = [] \<and> rs = [] \<and> k < k' \<and>
          (\<exists>c. nd_get_slot nd (k' - 1) = Ok c \<and> s < c) \<and> (\<forall>i\<in>{k..<k' - 1}. \<exists>c. nd_get_slot nd i = Ok c \<and> c \<le> s)
      | End \<Rightarrow> False)"

text \<open>The steps one after the other; between two of them the transaction may ask the node itself.\<close>

inductive steps_sent ::
  "node \<Rightarrow> sol_lib \<Rightarrow> keypair \<Rightarrow> ix_exec_step list \<Rightarrow> nat \<Rightarrow> sol_tx list list \<Rightarrow> bytes res list list \<Rightarrow> bool"
  for nd lib payer where
  no_step: "steps_sent nd lib payer [] k [] []"
| next_step: "k \<le> k1 \<Longrightarrow> step_sent nd lib payer s k1 log rs k2 \<Longrightarrow> steps_sent nd lib payer ss k2 logs rss \<Longrightarrow>
    steps_sent nd lib payer (s # ss) k (log # logs) (rs # rss)"

text \<open>
  The signatures returned: of the checked steps all of them; of those that are not checked the
  ones that did not fail, at the confirmation.
\<close>

fun returned_sigs :: "bytes res list \<Rightarrow> (ix_exec_step \<times> bytes res list) list \<Rightarrow> bytes list" where
  "returned_sigs unchecked [] = []"
| "returned_sigs unchecked ((ParallelUnchecked bs v, rs) # srs) = returned_sigs rs srs"
| "returned_sigs unchecked ((ConfirmationIterativeTx c, rs) # srs) = oks unchecked @ returned_sigs unchecked srs"
| "returned_sigs unchecked ((s, rs) # srs) = oks rs @ returned_sigs unchecked srs"

section \<open>The code\<close>

lemma same_answers_sym: "same_answers nd nd' \<Longrightarrow> same_answers nd' nd"
  by (auto simp: same_answers_def)

lemma batch_sent_mono:
  "batch_sent nd compose b k log r k' \<Longrightarrow> same_answers nd nd' \<Longrightarrow> batch_sent nd' compose b k log r k'"
proof (induction rule: batch_sent.induct)
  case (sent k bh b tx)
  then show ?case using batch_sent.sent [of nd' k bh compose b tx] by (simp add: same_answers_def)
qed (auto simp: same_answers_def intro: batch_sent.intros)

lemma batches_sent_mono:
  "batches_sent nd compose bs k log rs k' \<Longrightarrow> same_answers nd nd' \<Longrightarrow> batches_sent nd' compose bs k log rs k'"
  by (induction rule: batches_sent.induct) (auto intro: batches_sent.intros batch_sent_mono)

lemma batches_sent_one: "batch_sent nd compose b k log r k' \<Longrightarrow> batches_sent nd compose [b] k log [r] k'"
  using next_batch [OF _ none_left] by fastforce

lemma step_sent_mono:
  assumes "step_sent nd lib payer s k log rs k'" and "same_answers nd nd'"
  shows "step_sent nd' lib payer s k log rs k'"
proof -
  have slot: "nd_get_slot nd' = nd_get_slot nd" using assms(2) by (simp add: same_answers_def)
  show ?thesis using assms(1) batches_sent_mono [OF _ assms(2)]
    by (cases s) (auto simp: step_sent_def slot)
qed

lemma steps_sent_mono:
  "steps_sent nd lib payer ss k logs rss \<Longrightarrow> same_answers nd nd' \<Longrightarrow> steps_sent nd' lib payer ss k logs rss"
  by (induction rule: steps_sent.induct) (auto intro: steps_sent.intros step_sent_mono)

lemma send_and_confirm_batch:
  assumes "send_and_confirm lib b payer ver nd = (nd', r)"
  shows "\<exists>log. nd_sent nd' = nd_sent nd @ log \<and>
    batch_sent nd (compose_versioned lib payer ver) b (nd_calls nd) log r (nd_calls nd')"
proof (cases "nd_get_latest_blockhash nd (nd_calls nd)")
  case (Ok bh)
  show ?thesis
  proof (cases "compose_versioned lib payer ver b bh")
    case (Ok tx)
    then show ?thesis using assms \<open>nd_get_latest_blockhash nd (nd_calls nd) = Ok bh\<close>
        sent [of nd "nd_calls nd" bh "compose_versioned lib payer ver" b tx]
      by (auto simp: send_and_confirm_def to_tx_def ask_def and_then_def send_tx_def compose_versioned_def
          split: tx_version.splits)
  qed (use assms \<open>nd_get_latest_blockhash nd (nd_calls nd) = Ok bh\<close>
      not_composed [of nd "nd_calls nd" bh "compose_versioned lib payer ver" b] in
      \<open>auto simp: send_and_confirm_def to_tx_def ask_def and_then_def compose_versioned_def split: tx_version.splits\<close>)
qed (use assms no_blockhash [of nd "nd_calls nd"] in \<open>auto simp: send_and_confirm_def to_tx_def ask_def and_then_def\<close>)

lemma send_with_signers_batch:
  assumes "send_and_confirm_with_signers lib b payer signers nd = (nd', Ok sig)"
  shows "\<exists>log. nd_sent nd' = nd_sent nd @ log \<and>
    batch_sent nd (\<lambda>b. compose_legacy_solana_tx_with_signers lib b payer signers) b (nd_calls nd) log (Ok sig) (nd_calls nd')"
proof -
  obtain bh tx where bh: "nd_get_latest_blockhash nd (nd_calls nd) = Ok bh"
    and tx: "compose_legacy_solana_tx_with_signers lib b payer signers bh = Ok tx"
    using assms by (auto simp: send_and_confirm_with_signers_def ask_def and_then_def split: res.splits)
  have run: "nd_sent nd' = nd_sent nd @ [tx]" "nd_calls nd' = Suc (Suc (nd_calls nd))"
    "Ok sig = nd_send nd (Suc (nd_calls nd)) tx"
    using assms by (auto simp: send_and_confirm_with_signers_def ask_def and_then_def send_tx_def bh tx)
  let ?c = "\<lambda>b. compose_legacy_solana_tx_with_signers lib b payer signers"
  show ?thesis unfolding run(2,3)
    by (rule exI [of _ "[tx]"], rule conjI, rule run(1), rule sent [where compose = ?c, OF bh tx])
qed

lemma send_parallel_batches:
  "send_parallel_unchecked lib bs payer ver nd = (nd', rs) \<Longrightarrow>
    \<exists>log. nd_sent nd' = nd_sent nd @ log \<and>
      batches_sent nd (compose_versioned lib payer ver) bs (nd_calls nd) log rs (nd_calls nd')"
proof (induction bs arbitrary: nd rs)
  case (Cons b bs)
  obtain nd1 r where one: "send_and_confirm lib b payer ver nd = (nd1, r)" by fastforce
  obtain rs' where all: "send_parallel_unchecked lib bs payer ver nd1 = (nd', rs')" and rs: "rs = r # rs'"
    using Cons.prems by (auto simp: one split: prod.splits)
  obtain log1 where log1: "nd_sent nd1 = nd_sent nd @ log1"
    "batch_sent nd (compose_versioned lib payer ver) b (nd_calls nd) log1 r (nd_calls nd1)"
    using send_and_confirm_batch [OF one] by blast
  obtain log2 where log2: "nd_sent nd' = nd_sent nd1 @ log2"
    "batches_sent nd1 (compose_versioned lib payer ver) bs (nd_calls nd1) log2 rs' (nd_calls nd')"
    using Cons.IH [OF all] by blast
  from next_batch [OF log1(2) batches_sent_mono [OF log2(2) same_answers_sym [OF send_and_confirm_same [OF one]]]]
  show ?case using log1(1) log2(1) by (auto simp: rs)
qed (auto intro: none_left)

lemma wait_next_slot_asked:
  "wait_next_slot n s nd = Some (nd', Ok u) \<Longrightarrow> nd_sent nd' = nd_sent nd \<and> nd_calls nd < nd_calls nd' \<and>
    (\<exists>c. nd_get_slot nd (nd_calls nd' - 1) = Ok c \<and> s < c) \<and>
    (\<forall>i\<in>{nd_calls nd..<nd_calls nd' - 1}. \<exists>c. nd_get_slot nd i = Ok c \<and> c \<le> s)"
proof (induction n arbitrary: nd)
  case (Suc n)
  obtain c where c: "nd_get_slot nd (nd_calls nd) = Ok c"
    using Suc.prems by (auto simp: wait_next_slot_Suc Let_def split: res.splits)
  show ?case
  proof (cases "s < c")
    case False
    let ?nd = "nd\<lparr>nd_calls := Suc (nd_calls nd)\<rparr>"
    have "wait_next_slot n s ?nd = Some (nd', Ok u)"
      using Suc.prems False by (simp add: wait_next_slot_Suc Let_def c)
    from Suc.IH [OF this] have rest: "nd_sent nd' = nd_sent nd" "Suc (nd_calls nd) < nd_calls nd'"
      "\<exists>c. nd_get_slot nd (nd_calls nd' - 1) = Ok c \<and> s < c"
      "\<forall>i\<in>{Suc (nd_calls nd)..<nd_calls nd' - 1}. \<exists>c. nd_get_slot nd i = Ok c \<and> c \<le> s" by simp_all
    have "\<exists>c. nd_get_slot nd i = Ok c \<and> c \<le> s" if "i \<in> {nd_calls nd..<nd_calls nd' - 1}" for i
      using that rest(4) c False by (cases "i = nd_calls nd") auto
    then show ?thesis using rest by auto
  qed (use Suc.prems c in \<open>auto simp: wait_next_slot_Suc Let_def\<close>)
qed simp

lemma joined_no_panic: "joined rs r = Ok x \<Longrightarrow> first_panic rs = None \<and> r = Ok x"
  by (simp add: joined_def split: option.splits)

lemma collect_results_oks: "collect_results rs = Ok xs \<Longrightarrow> list_all is_ok rs \<and> oks rs = xs"
  by (induction rs arbitrary: xs rule: oks.induct) (auto simp: res_elims)

text \<open>How a step changes what the loop has collected.\<close>

definition collected :: "ix_exec_step \<Rightarrow> bytes res list \<Rightarrow> sent_state \<Rightarrow> sent_state" where
  "collected s rs st =
     (case s of
        ParallelUnchecked _ _ \<Rightarrow> st\<lparr>ss_unchecked := rs\<rparr>
      | ConfirmationIterativeTx _ \<Rightarrow> st\<lparr>ss_sigs := ss_sigs st @ oks (ss_unchecked st)\<rparr>
      | _ \<Rightarrow> st\<lparr>ss_sigs := ss_sigs st @ oks rs\<rparr>)"

lemma returned_sigs_collected:
  "ss_sigs st @ returned_sigs (ss_unchecked st) ((s, rs) # srs) =
    ss_sigs (collected s rs st) @ returned_sigs (ss_unchecked (collected s rs st)) srs"
  by (cases s) (simp_all add: collected_def)

lemma run_step_exact:
  assumes "run_step n lib payer step st nd = Some (nd', Ok (Some st'))"
  shows "\<exists>log rs. nd_sent nd' = nd_sent nd @ log \<and> step_sent nd lib payer step (nd_calls nd) log rs (nd_calls nd') \<and>
    st' = collected step rs st"
proof (cases step)
  case (Single b v)
  then obtain sig where run: "send_and_confirm lib b payer v nd = (nd', Ok sig)" and st: "st' = add_sig st sig"
    using assms by (auto simp: run_step_def res_elims split: prod.splits)
  from send_and_confirm_batch [OF run] obtain log where "nd_sent nd' = nd_sent nd @ log"
    "batch_sent nd (compose_versioned lib payer v) b (nd_calls nd) log (Ok sig) (nd_calls nd')" by blast
  then show ?thesis using st
    by (intro exI [of _ log] exI [of _ "[Ok sig]"])
      (simp add: step_sent_def Single batches_sent_one collected_def add_sig_def)
next
  case (SingleWithSigners b signers)
  then obtain sig where run: "send_and_confirm_with_signers lib b payer signers nd = (nd', Ok sig)" and st: "st' = add_sig st sig"
    using assms by (auto simp: run_step_def res_elims split: prod.splits)
  from send_with_signers_batch [OF run] obtain log where "nd_sent nd' = nd_sent nd @ log"
    "batch_sent nd (\<lambda>b. compose_legacy_solana_tx_with_signers lib b payer signers) b (nd_calls nd) log (Ok sig) (nd_calls nd')"
    by blast
  then show ?thesis using st
    by (intro exI [of _ log] exI [of _ "[Ok sig]"])
      (simp add: step_sent_def SingleWithSigners batches_sent_one collected_def add_sig_def)
next
  case (Parallel bs v)
  then obtain sigs rs where run: "send_parallel_unchecked lib bs payer v nd = (nd', rs)"
    and rs: "joined rs (collect_results rs) = Ok sigs" and st: "st' = st\<lparr>ss_sigs := ss_sigs st @ sigs\<rparr>"
    using assms by (auto simp: run_step_def send_and_confirm_parallel_def res_elims split: prod.splits)
  from send_parallel_batches [OF run] obtain log where "nd_sent nd' = nd_sent nd @ log"
    "batches_sent nd (compose_versioned lib payer v) bs (nd_calls nd) log rs (nd_calls nd')" by blast
  then show ?thesis using st collect_results_oks [of rs sigs] joined_no_panic [OF rs]
    by (intro exI [of _ log] exI [of _ rs]) (simp add: step_sent_def Parallel collected_def)
next
  case (ParallelUnchecked bs v)
  then obtain rs where run: "send_parallel_unchecked lib bs payer v nd = (nd', rs)"
    and rs: "joined rs (Ok (Some (st\<lparr>ss_unchecked := rs\<rparr>))) = Ok (Some st')"
    using assms by (auto simp: run_step_def split: prod.splits)
  from send_parallel_batches [OF run] obtain log where "nd_sent nd' = nd_sent nd @ log"
    "batches_sent nd (compose_versioned lib payer v) bs (nd_calls nd) log rs (nd_calls nd')" by blast
  then show ?thesis using joined_no_panic [OF rs]
    by (intro exI [of _ log] exI [of _ rs]) (auto simp: step_sent_def ParallelUnchecked collected_def)
next
  case (ConfirmationIterativeTx c)
  then show ?thesis using assms
    by (auto simp: run_step_def res_elims confirm_iterative_def step_sent_def collected_def split: if_splits)
next
  case (WaitNextSlot s)
  then obtain u where run: "wait_next_slot n s nd = Some (nd', Ok u)" and st: "st' = st"
    using assms by (auto simp: run_step_def res_elims)
  from wait_next_slot_asked [OF run] st show ?thesis
    by (intro exI [of _ "[]"] exI [of _ "[]"]) (simp add: step_sent_def WaitNextSlot collected_def)
qed (use assms in \<open>simp add: run_step_def\<close>)

context advance_tx
begin

lemma send_loop_exact:
  assumes "send_loop n lib advance payer t st nd = Some (nd', t', Ok sigs)"
  shows "\<exists>ss logs rss. runs advance t ss \<and> steps_sent nd lib payer ss (nd_calls nd) logs rss \<and>
    nd_sent nd' = nd_sent nd @ concat logs \<and> sigs = ss_sigs st @ returned_sigs (ss_unchecked st) (zip ss rss)"
  using assms
proof (induction n arbitrary: t st nd)
  case (Suc n)
  obtain nd1 t1 step where adv: "advance nd t = (nd1, t1, Ok step)"
    using Suc.prems by (auto split: prod.splits res.splits)
  note asks = only_asks [OF adv]
  have calls: "nd_calls nd \<le> nd_calls nd1" using asks by (simp add: asks_only_def)
  obtain nd2 q where step: "run_step n lib payer step st nd1 = Some (nd2, q)"
    using Suc.prems by (auto simp: adv split: option.splits)
  obtain o' where q: "q = Ok o'" using Suc.prems by (cases q) (auto simp: adv step)
  show ?case
  proof (cases o')
    case None
    then have "step = End" "nd2 = nd1" using run_step_end step q by auto
    moreover have "nd' = nd2" "sigs = ss_sigs st" using Suc.prems by (simp_all add: adv step q None)
    ultimately show ?thesis using adv asks_only_sent [OF asks]
      by (intro exI [of _ "[]"]) (auto intro: runs_end no_step)
  next
    case (Some st')
    then have ne: "step \<noteq> End" using step q by (auto simp: run_step_def)
    obtain log rs where log: "nd_sent nd2 = nd_sent nd1 @ log" "st' = collected step rs st"
      "step_sent nd1 lib payer step (nd_calls nd1) log rs (nd_calls nd2)"
      using run_step_exact step q Some by blast
    have same: "same_answers nd1 nd" "same_answers nd2 nd"
      using same_answers_asks [OF asks] run_step_same [OF step] by (simp_all add: same_answers_def)
    have "send_loop n lib advance payer t1 st' nd2 = Some (nd', t', Ok sigs)"
      using Suc.prems by (simp add: adv step q Some)
    from Suc.IH [OF this] obtain ss logs rss where rest: "runs advance t1 ss"
      "steps_sent nd2 lib payer ss (nd_calls nd2) logs rss" "nd_sent nd' = nd_sent nd2 @ concat logs"
      "sigs = ss_sigs st' @ returned_sigs (ss_unchecked st') (zip ss rss)" by blast
    have "steps_sent nd lib payer ss (nd_calls nd2) logs rss"
      using rest(2) same(2) by (rule steps_sent_mono)
    from next_step [OF calls step_sent_mono [OF log(3) same(1)] this]
    show ?thesis using rest log(1,2) runs_step [of advance, OF adv ne rest(1)] asks_only_sent [OF asks]
      by (intro exI [of _ "step # ss"] exI [of _ "log # logs"] exI [of _ "rs # rss"])
        (simp add: returned_sigs_collected)
  qed
qed simp

end

text \<open>
  C5. When sending succeeds, the tower has gone through the steps of the transaction up to its
  end, in order, and has sent for each exactly the transactions of its batches, of its payer, signers and
  version and with the blockhash the node gave just before; a batch is missing only in a step
  that is not checked, and only if the node gave no blockhash for it or it cannot be composed.
  The signatures returned are the node's answers to what was sent, without the errors of the
  steps that are not checked.
\<close>

theorem tower_sends_steps:
  assumes "send_and_confirm_tx_iterable n env t nd = Some (nd', t', Ok sigs)"
  shows "\<exists>ss logs rss. runs (rome_tx_advance env) t ss \<and>
    steps_sent nd (te_sol env) (rome_tx_payer t) ss (nd_calls nd) logs rss \<and>
    nd_sent nd' = nd_sent nd @ concat logs \<and> sigs = returned_sigs [] (zip ss rss)"
  using rome_tx.send_loop_exact [OF assms [unfolded send_and_confirm_tx_iterable_def]] by simp

theorem tower_sends_steps_witness:
  "\<exists>nd' t' ss. send_and_confirm_tx_iterable 2 test_tx_env test_atomic_tx test_node = Some (nd', t', Ok [[]]) \<and>
    runs (rome_tx_advance test_tx_env) test_atomic_tx ss \<and> ss \<noteq> []"
proof -
  obtain nd' t' where run: "send_and_confirm_tx_iterable 2 test_tx_env test_atomic_tx test_node = Some (nd', t', Ok [[]])"
    using test_send by blast
  from tower_sends_steps [OF this] obtain ss rss where ss: "runs (rome_tx_advance test_tx_env) test_atomic_tx ss"
    "[[]] = returned_sigs [] (zip ss rss)" by blast
  then have "ss \<noteq> []" by auto
  with run ss(1) show ?thesis by blast
qed

end
