(* ===== verification/Rpc_Client.thy ===== *)
theory Rpc_Client
  imports Rome_Sdk Build_Facts Receipts Tower_Facts Complex_Main
begin

text \<open>
  \<^verbatim>\<open>rome-evm-client/src/client.rs\<close>: the client that answers the requests of the Ethereum
  JSON RPC from the block storage and the emulator, and sends transactions through the tower.
\<close>

definition MAX_FEE_HISTORY_BLOCKS :: u64 where "MAX_FEE_HISTORY_BLOCKS = 1000"
definition BASE_FEE_PER_GAS :: u256 where "BASE_FEE_PER_GAS = 1000"

section \<open>Storage and emulator\<close>

text \<open>The operations of the block storage that the client uses; a receipt is any type.\<close>

record ('w, 'r) rpc_storage =
  ec_latest_block :: "'w \<Rightarrow> 'w \<times> u64 option res"
  ec_get_block_number :: "'w \<Rightarrow> h256 \<Rightarrow> 'w \<times> u64 option res"
  ec_get_block_by_number :: "'w \<Rightarrow> u64 \<Rightarrow> bool \<Rightarrow> 'w \<times> block_type option res"
  ec_get_transaction :: "'w \<Rightarrow> h256 \<Rightarrow> 'w \<times> transaction option res"
  ec_get_transaction_receipt :: "'w \<Rightarrow> h256 \<Rightarrow> 'w \<times> 'r option res"

text \<open>The read functions of the \<^verbatim>\<open>emulator\<close> crate, for a program, at the state of the chain.\<close>

record emulator_api =
  xe_get_balance :: "256 word \<Rightarrow> address \<Rightarrow> u64 \<Rightarrow> u256 res"
  xe_get_tx_count :: "256 word \<Rightarrow> address \<Rightarrow> u64 \<Rightarrow> u64 res"
  xe_get_code :: "256 word \<Rightarrow> address \<Rightarrow> u64 \<Rightarrow> bytes res"
  xe_get_storage_at :: "256 word \<Rightarrow> address \<Rightarrow> u256 \<Rightarrow> u64 \<Rightarrow> u256 res"
  xe_call :: "256 word \<Rightarrow> legacy_tx \<Rightarrow> emulation res"
  xe_estimate_gas :: "256 word \<Rightarrow> legacy_tx \<Rightarrow> emulation res"
  xe_deposit :: u8
  xe_reg_owner :: u8

text \<open>\<^verbatim>\<open>RomeEVMClient\<close>, without the node and the resources of its transaction builder.\<close>

record ('w, 'r) rome_client =
  cl_storage :: "('w, 'r) rpc_storage"
  cl_builder :: tx_builder
  cl_genesis_timestamp :: u256
  cl_gas_price :: u256

datatype block_number_tag = Latest | Number u64 | OtherTag string

datatype block_id = BlockNumber block_number_tag | BlockHash h256

section \<open>Requests to the emulator\<close>

text \<open>\<^verbatim>\<open>RomeEvmUtil::cast_u256\<close>: through the big-endian bytes.\<close>

definition cast_u256 :: "u256 \<Rightarrow> u256" where
  "cast_u256 v = u256_of_be (u256_be v)"

definition client_get_balance :: "emulator_api \<Rightarrow> ('w, 'r) rome_client \<Rightarrow> address \<Rightarrow> u256 res" where
  "client_get_balance api cl a =
     try_res (xe_get_balance api (tb_program_id (cl_builder cl)) a (tb_chain_id (cl_builder cl))) (\<lambda>v. Ok (cast_u256 v))"

definition client_transaction_count :: "emulator_api \<Rightarrow> ('w, 'r) rome_client \<Rightarrow> address \<Rightarrow> u64 res" where
  "client_transaction_count api cl a =
     xe_get_tx_count api (tb_program_id (cl_builder cl)) a (tb_chain_id (cl_builder cl))"

definition client_get_code :: "emulator_api \<Rightarrow> ('w, 'r) rome_client \<Rightarrow> address \<Rightarrow> bytes res" where
  "client_get_code api cl a = xe_get_code api (tb_program_id (cl_builder cl)) a (tb_chain_id (cl_builder cl))"

definition client_get_storage_at :: "emulator_api \<Rightarrow> ('w, 'r) rome_client \<Rightarrow> address \<Rightarrow> u256 \<Rightarrow> u256 res" where
  "client_get_storage_at api cl a k =
     try_res (xe_get_storage_at api (tb_program_id (cl_builder cl)) a (cast_u256 k) (tb_chain_id (cl_builder cl)))
       (\<lambda>v. Ok (cast_u256 v))"

definition client_call :: "emulator_api \<Rightarrow> log_env \<Rightarrow> ('w, 'r) rome_client \<Rightarrow> transaction_request \<Rightarrow> bytes res" where
  "client_call api env cl rq =
     try_res (cast_transaction_request rq (tb_chain_id (cl_builder cl))) (\<lambda>legacy.
     try_res (xe_call api (tb_program_id (cl_builder cl)) legacy) (\<lambda>em.
     try_res (check_exit_reason env em) (\<lambda>_.
     try_res (expect ''vm expected'' (em_vm em)) (\<lambda>vm.
       Ok (case vm_return_value vm of None \<Rightarrow> [] | Some v \<Rightarrow> v)))))"

definition client_estimate_gas ::
  "emulator_api \<Rightarrow> log_env \<Rightarrow> ('w, 'r) rome_client \<Rightarrow> transaction_request \<Rightarrow> u256 res" where
  "client_estimate_gas api env cl rq =
     try_res (cast_transaction_request rq (tb_chain_id (cl_builder cl))) (\<lambda>legacy.
     try_res (xe_estimate_gas api (tb_program_id (cl_builder cl)) legacy) (\<lambda>em.
     try_res (check_exit_reason env em) (\<lambda>_.
     try_res (check_accounts_len em) (\<lambda>_. Ok (ucast (em_gas em))))))"

text \<open>
  \<^verbatim>\<open>emulate\<close> puts the instruction before its data; \<open>em_signer\<close> is the flag
  \<^verbatim>\<open>signer\<close> of an account in the report of the emulator.
\<close>

definition client_emulate :: "('w, 'r) rome_client \<Rightarrow> u8 \<Rightarrow> bytes \<Rightarrow> keypair \<Rightarrow> node \<Rightarrow> node \<times> emulation res" where
  "client_emulate cl ins args payer nd = ask (\<lambda>t. nd_emulate nd t (tb_program_id (cl_builder cl)) (ins # args) payer) nd"

record emulated_account =
  ea_pubkey :: "256 word"
  ea_is_signer :: bool
  ea_is_writable :: bool

definition client_emulate_tx ::
  "log_env \<Rightarrow> (emulation \<Rightarrow> 256 word \<Rightarrow> bool) \<Rightarrow> ('w, 'r) rome_client \<Rightarrow> u8 \<Rightarrow> bytes \<Rightarrow> keypair \<Rightarrow> node
    \<Rightarrow> node \<times> emulated_account list res" where
  "client_emulate_tx env em_signer cl ins_do_tx rlp payer nd =
     and_then (client_emulate cl ins_do_tx (0 # rlp) payer nd) (\<lambda>nd em.
       (nd, try_res (check_exit_reason env em) (\<lambda>_.
            try_res (check_accounts_len em) (\<lambda>_.
              Ok (map (\<lambda>(key, writable). \<lparr>ea_pubkey = key, ea_is_signer = em_signer em key, ea_is_writable = writable\<rparr>)
                (em_accounts em))))))"

text \<open>An emulation that is reported has at most as many accounts as a transaction may name, and sends nothing.\<close>

lemma client_emulate_tx_result:
  assumes "client_emulate_tx env em_signer cl ins_do_tx rlp payer nd = (nd', Ok accounts)"
  shows "length accounts \<le> MAX_ALLOWED_ACCOUNTS \<and> nd_sent nd' = nd_sent nd"
  using assms by (auto simp: client_emulate_tx_def client_emulate_def check_accounts_len_def and_then_eq_Ok ask_def res_elims
      split: if_splits)

section \<open>Blocks\<close>

definition client_block_number :: "('w, 'r) rome_client \<Rightarrow> 'w \<Rightarrow> 'w \<times> u64 res" where
  "client_block_number cl w =
     and_then (ec_latest_block (cl_storage cl) w) (\<lambda>w l. (w, Ok (case l of Some n \<Rightarrow> n | None \<Rightarrow> 0)))"

definition client_get_block_number :: "('w, 'r) rome_client \<Rightarrow> block_id \<Rightarrow> 'w \<Rightarrow> 'w \<times> u64 option res" where
  "client_get_block_number cl b w =
     (case b of
        BlockNumber number \<Rightarrow>
          (case number of
             Latest \<Rightarrow> and_then (ec_latest_block (cl_storage cl) w) (\<lambda>w l.
               (w, Ok (case l of Some n \<Rightarrow> Some n | None \<Rightarrow> Some 0)))
           | Number n \<Rightarrow> (w, Ok (Some n))
           | OtherTag _ \<Rightarrow> (w, Err (Custom ''Block tag not supported'')))
      | BlockHash h \<Rightarrow> ec_get_block_number (cl_storage cl) w h)"

definition client_get_block :: "('w, 'r) rome_client \<Rightarrow> block_id \<Rightarrow> bool \<Rightarrow> 'w \<Rightarrow> 'w \<times> block_type option res" where
  "client_get_block cl b full_transactions w =
     and_then (client_get_block_number cl b w) (\<lambda>w number.
       case number of
         None \<Rightarrow> (w, Ok None)
       | Some n \<Rightarrow>
           if n = 0 then (w, Ok (Some (genesis (cl_genesis_timestamp cl) full_transactions)))
           else ec_get_block_by_number (cl_storage cl) w n full_transactions)"

text \<open>\<^verbatim>\<open>p as u64\<close> of a double that is a number: truncated, and saturated at the ends.\<close>

definition f64_as_u64 :: "real \<Rightarrow> u64" where
  "f64_as_u64 p = word_of_nat (min (2 ^ 64 - 1) (nat \<lfloor>p\<rfloor>))"

record fee_history =
  fh_base_fee_per_gas :: "u256 list"
  fh_gas_used_ratio :: "real list"
  fh_oldest_block :: u256
  fh_reward :: "u256 list list"

definition client_fee_history ::
  "('w, 'r) rome_client \<Rightarrow> u64 \<Rightarrow> block_id \<Rightarrow> real list \<Rightarrow> 'w \<Rightarrow> 'w \<times> fee_history res" where
  "client_fee_history cl n b reward_percentiles w =
     (let n = min n MAX_FEE_HISTORY_BLOCKS in
      and_then (client_get_block_number cl b w) (\<lambda>w number.
        case number of
          Some newest \<Rightarrow>
            (w, Ok \<lparr>fh_base_fee_per_gas = replicate (unat n) BASE_FEE_PER_GAS,
              fh_gas_used_ratio = replicate (unat n) (1 / 2),
              fh_oldest_block = (if n \<le> newest then ucast (newest - n) else 0),
              fh_reward = replicate (unat n) (map (\<lambda>p. ucast (f64_as_u64 p)) reward_percentiles)\<rparr>)
        | None \<Rightarrow> (w, Err (Custom ''Indexer is not started''))))"

definition client_get_transaction :: "('w, 'r) rome_client \<Rightarrow> h256 \<Rightarrow> 'w \<Rightarrow> 'w \<times> transaction option res" where
  "client_get_transaction cl h w = ec_get_transaction (cl_storage cl) w h"

definition client_get_transaction_receipt :: "('w, 'r) rome_client \<Rightarrow> h256 \<Rightarrow> 'w \<Rightarrow> 'w \<times> 'r option res" where
  "client_get_transaction_receipt cl h w = ec_get_transaction_receipt (cl_storage cl) w h"

section \<open>Sending\<close>

text \<open>
  A boxed transaction refers to the resource that was locked for it by the \<^verbatim>\<open>Arc\<close>s of its
  parts.  When it is dropped, so are they, and with the last the resource goes back to the factory.
  All are clones of the one that \<^verbatim>\<open>build_tx\<close> makes, so an item occurs once
  in what is given back.
\<close>

fun iterable_resource :: "iterable \<Rightarrow> resource_item" where
  "iterable_resource (AtomicI t) = at_resource t"
| "iterable_resource (IterativeI t) = ie_resource t"
| "iterable_resource (AtomicHolderI t) = tt_resource (ah_transmit t)"
| "iterable_resource (IterativeHolderI t) = tt_resource (ih_transmit t)"

fun resource_arcs :: "rome_tx \<Rightarrow> resource_item list" where
  "resource_arcs (Plain t) = [iterable_resource t]"
| "resource_arcs (WithAlt t) = [al_resource (ac_alt t), iterable_resource (ac_iterable t)]"
| "resource_arcs (WithAltAndHolder t) =
     [al_resource (ch_alt t), tt_resource (ch_transmit t), iterable_resource (ch_iterable t)]"
| "resource_arcs (Svm t) = [at_resource (as_atomic t)]"
| "resource_arcs (CrossRollup t) = []"
| "resource_arcs (CrossChain t) = []"

definition drop_tx :: "rome_tx \<Rightarrow> resource_item list \<Rightarrow> resource_item list" where
  "drop_tx t items = foldl factory_push items (remdups (resource_arcs t))"

text \<open>
  \<^verbatim>\<open>send_and_confirm_tx_iterable\<close> on the transaction that was built, which is dropped as it
  was left when the function returns.  Waiting for a resource, and running out of fuel, is \<open>None\<close>.
\<close>

definition send_built ::
  "nat \<Rightarrow> tx_env \<Rightarrow> (resource_item list \<times> node \<times> rome_tx res) option
    \<Rightarrow> (resource_item list \<times> node \<times> unit res) option" where
  "send_built n env built =
     (case built of
        None \<Rightarrow> None
      | Some (left, nd1, Ok t) \<Rightarrow>
          (case send_and_confirm_tx_iterable n env t nd1 of
             None \<Rightarrow> None
           | Some (nd2, t', r) \<Rightarrow> Some (drop_tx t' left, nd2, case r of
               Ok _ \<Rightarrow> Ok () | Err e \<Rightarrow> Err (Custom ''sending failed'') | Panic m \<Rightarrow> Panic m))
      | Some (left, nd1, Err e) \<Rightarrow> Some (left, nd1, Err e)
      | Some (left, nd1, Panic m) \<Rightarrow> Some (left, nd1, Panic m))"

definition prepare_transaction ::
  "tx_env \<Rightarrow> tx_builder \<Rightarrow> bytes \<Rightarrow> resource_item list \<Rightarrow> node \<Rightarrow> (resource_item list \<times> node \<times> rome_tx res) option" where
  "prepare_transaction env tb rlp items nd = build_tx env tb rlp (te_keccak env rlp) items nd"

definition send_transaction ::
  "nat \<Rightarrow> tx_env \<Rightarrow> tx_builder \<Rightarrow> bytes \<Rightarrow> resource_item list \<Rightarrow> node
    \<Rightarrow> (resource_item list \<times> node \<times> h256 res) option" where
  "send_transaction n env tb rlp items nd =
     map_option (\<lambda>(items', nd', r). (items', nd', try_res r (\<lambda>_. Ok (te_keccak env rlp))))
       (send_built n env (prepare_transaction env tb rlp items nd))"

definition send_composite_transaction ::
  "nat \<Rightarrow> tx_env \<Rightarrow> tx_builder \<Rightarrow> bytes \<Rightarrow> instruction list \<Rightarrow> 256 word list option \<Rightarrow> resource_item list \<Rightarrow> node
    \<Rightarrow> (resource_item list \<times> node \<times> h256 res) option" where
  "send_composite_transaction n env tb rlp svm alt_keys items nd =
     map_option (\<lambda>(items', nd', r). (items', nd', try_res r (\<lambda>_. Ok (te_keccak env rlp))))
       (send_built n env (build_svm_tx env tb rlp svm alt_keys items nd))"

text \<open>
  \<^verbatim>\<open>deposit\<close> and \<^verbatim>\<open>reg_owner\<close>: one instruction, emulated without looking at how the
  emulation ended, signed by the given key and sent.
\<close>

definition send_private ::
  "tx_env \<Rightarrow> tx_builder \<Rightarrow> bytes \<Rightarrow> keypair \<Rightarrow> node \<Rightarrow> node \<times> unit res" where
  "send_private env tb data signer nd =
     and_then (ask (\<lambda>t. nd_emulate nd t (tb_program_id tb) data signer) nd) (\<lambda>nd em.
     and_then (ask (nd_get_latest_blockhash nd) nd) (\<lambda>nd bh.
     and_then (nd, compose_legacy_solana_tx (te_sol env) [build_ix tb em data] signer bh) (\<lambda>nd tx.
     and_then (send_tx tx nd) (\<lambda>nd _. (nd, Ok ())))))"

definition client_deposit :: "emulator_api \<Rightarrow> tx_env \<Rightarrow> tx_builder \<Rightarrow> bytes \<Rightarrow> keypair \<Rightarrow> node \<Rightarrow> node \<times> unit res" where
  "client_deposit api env tb rlp signer nd =
     send_private env tb (xe_deposit api # u64_le (tb_chain_id tb) @ rlp) signer nd"

definition client_reg_owner :: "emulator_api \<Rightarrow> tx_env \<Rightarrow> tx_builder \<Rightarrow> u64 \<Rightarrow> keypair \<Rightarrow> node \<Rightarrow> node \<times> unit res" where
  "client_reg_owner api env tb chain signer nd =
     send_private env tb (xe_reg_owner api # u64_le chain) signer nd"

section \<open>What the client promises\<close>

lemma cast_u256_same [simp]: "cast_u256 v = v"
  by (simp add: cast_u256_def)

lemma fee_history_lists:
  assumes "client_fee_history cl n (BlockNumber (Number newest)) percentiles w = (w', Ok h)"
  shows "length (fh_base_fee_per_gas h) = min (unat n) 1000 \<and>
    length (fh_gas_used_ratio h) = min (unat n) 1000 \<and> length (fh_reward h) = min (unat n) 1000 \<and>
    (n \<le> newest \<longrightarrow> unat newest - unat (fh_oldest_block h) = min (unat n) 1000)"
proof -
  define m where "m = min n MAX_FEE_HISTORY_BLOCKS"
  have m: "unat m = min (unat n) 1000" "m \<le> n"
    by (auto simp: m_def MAX_FEE_HISTORY_BLOCKS_def min_def word_le_nat_alt)
  have h: "h = \<lparr>fh_base_fee_per_gas = replicate (unat m) BASE_FEE_PER_GAS, fh_gas_used_ratio = replicate (unat m) (1 / 2),
      fh_oldest_block = (if m \<le> newest then ucast (newest - m) else 0),
      fh_reward = replicate (unat m) (map (\<lambda>p. ucast (f64_as_u64 p)) percentiles)\<rparr>"
    using assms by (auto simp: client_fee_history_def client_get_block_number_def m_def Let_def)
  have "unat newest - unat (fh_oldest_block h) = unat m" if "n \<le> newest"
  proof -
    have le: "m \<le> newest" using that m(2) by simp
    then have "unat (newest - m) = unat newest - unat m" and "unat m \<le> unat newest"
      by (simp_all add: unat_sub word_le_nat_alt)
    moreover have "unat (ucast (newest - m) :: u256) = unat (newest - m)"
      using unat_bound [of "newest - m"] by (simp add: unsigned_ucast_eq take_bit_nat_eq_self)
    ultimately show ?thesis using le by (simp add: h)
  qed
  with m(1) show ?thesis by (simp add: h)
qed


definition test_client_rpc :: "(nat, nat) rome_client" where
  "test_client_rpc = \<lparr>cl_storage = \<lparr>ec_latest_block = (\<lambda>w. (w, Ok (Some 7))), ec_get_block_number = (\<lambda>w h. (w, Ok None)),
     ec_get_block_by_number = (\<lambda>w n f. (w, Ok None)), ec_get_transaction = (\<lambda>w h. (w, Ok None)),
     ec_get_transaction_receipt = (\<lambda>w h. (w, Ok None))\<rparr>, cl_builder = \<lparr>tb_chain_id = 1, tb_program_id = 2\<rparr>,
     cl_genesis_timestamp = 0, cl_gas_price = 1\<rparr>"


text \<open>Building asks the node and sends nothing; all parts of what is built refer to the locked resource.\<close>

lemma new_alt_tx_facts:
  "new_alt_tx tb r keys nd = (nd', q) \<Longrightarrow> asks_only nd nd' \<and> (\<forall>t. q = Ok t \<longrightarrow> al_resource t = r)"
  unfolding new_alt_tx_def
  by (cases "nd_get_slot nd (nd_calls nd)")
    (auto simp: ask_def and_then_def asks_only_def split: res.splits)

lemma atomic_ix_resource: "atomic_ix env nd t = (nd', t', q) \<Longrightarrow> at_resource t' = at_resource t"
  by (auto simp: atomic_ix_def Let_def split: prod.splits res.splits)

lemma iterative_ixs_resource: "iterative_ixs env nd t = (nd', t', q) \<Longrightarrow> ie_resource t' = ie_resource t"
  by (auto simp: iterative_ixs_def split: prod.splits res.splits option.splits)

lemma new_iterative_tx_facts:
  "new_iterative_tx env tb r rlp nd = (nd', q) \<Longrightarrow> asks_only nd nd' \<and> (\<forall>t. q = Ok t \<longrightarrow> ie_resource t = r)"
  by (auto simp: new_iterative_tx_def ask_def)

lemma build_iterable_facts:
  assumes "build_iterable env tb r rlp nd = (nd', q)"
  shows "asks_only nd nd' \<and> (\<forall>ix t a. q = Ok (ix, t, a) \<longrightarrow> iterable_resource t = r)"
proof -
  obtain nd1 t1 q1 where one: "atomic_ix env nd (new_atomic_tx tb rlp r) = (nd1, t1, q1)" by (metis prod_cases3)
  have r1: "at_resource t1 = r" using atomic_ix_resource [OF one] by (simp add: new_atomic_tx_def)
  have nd1: "asks_only nd nd1" by (rule atomic_ix_asks [OF one])
  obtain nd2 q2 where two: "new_iterative_tx env tb r rlp nd1 = (nd2, q2)" by fastforce
  note nd2 = asks_only_trans [OF nd1 conjunct1 [OF new_iterative_tx_facts [OF two]]]
  have "asks_only nd nd3 \<and> ie_resource t3 = r" if "iterative_ixs env nd2 t2 = (nd3, t3, q3)" "q2 = Ok t2" for t2 nd3 t3 q3
    using asks_only_trans [OF nd2 iterative_ixs_asks [OF that(1)]] iterative_ixs_resource [OF that(1)]
      new_iterative_tx_facts [OF two] that(2) by simp
  then show ?thesis using assms nd1 nd2 r1
    by (auto simp: build_iterable_def one two and_then_def split: res.splits prod.splits if_splits)
qed

lemma holder_iterable_facts:
  "holder_iterable a tt alt nd = (nd', t) \<Longrightarrow> asks_only nd nd' \<and> iterable_resource t = tt_resource tt"
  by (auto simp: holder_iterable_def new_atomic_tx_holder_def new_iterative_tx_holder_def ask_def split: if_splits prod.splits)

lemma compose_with_holder_facts:
  "compose_iterable_with_holder alt keys tt t nd = (nd', q) \<Longrightarrow> iterable_resource t = tt_resource tt \<Longrightarrow>
    asks_only nd nd' \<and> (\<forall>t'. q = Ok t' \<longrightarrow> remdups (resource_arcs t') = [tt_resource tt])"
  by (cases "new_alt_tx (tt_builder tt) (tt_resource tt) keys nd")
    (auto simp: compose_iterable_with_holder_def and_then_def new_alt_composed_holder_def
      split: if_splits res.splits dest!: new_alt_tx_facts)

lemma compose_without_holder_facts:
  "compose_iterable_without_holder tb alt keys r t nd = (nd', q) \<Longrightarrow> iterable_resource t = r \<Longrightarrow>
    asks_only nd nd' \<and> (\<forall>t'. q = Ok t' \<longrightarrow> remdups (resource_arcs t') = [r])"
  by (cases "new_alt_tx tb r keys nd")
    (auto simp: compose_iterable_without_holder_def and_then_def new_alt_composed_def
      split: if_splits res.splits dest!: new_alt_tx_facts)

lemma compose_iterable_facts:
  assumes "compose_iterable env tb b r rlp hash t a nd = (nd', q)" and "iterable_resource t = r"
  shows "asks_only nd nd' \<and> (\<forall>t'. q = Ok t' \<longrightarrow> remdups (resource_arcs t') = [r])"
proof -
  let ?tt = "new_transmit_tx tb r rlp hash"
  have tt: "tt_resource ?tt = r" by (simp add: new_transmit_tx_def)
  obtain nd1 t1 where holder: "holder_iterable a ?tt (use_alt (tx_keys b)) nd = (nd1, t1)" by fastforce
  note h = holder_iterable_facts [OF holder, unfolded tt]
  have "asks_only nd nd2 \<and> (\<forall>t'. q2 = Ok t' \<longrightarrow> remdups (resource_arcs t') = [r])"
    if "compose_iterable_with_holder (use_alt (tx_keys b)) (tx_keys b) ?tt t1 nd1 = (nd2, q2)" for nd2 q2
    using compose_with_holder_facts [OF that] h asks_only_trans by (simp add: tt) blast
  note with_holder = this
  obtain h where h': "use_holder env b (it_payer_keypair r)
      (if use_alt (tx_keys b) then Some [\<lparr>alt_key = 0, alt_addresses = tx_keys b\<rparr>] else None) = h" by blast
  show ?thesis
  proof (cases h)
    case (Ok use)
    then show ?thesis using assms(1) with_holder compose_without_holder_facts [OF _ assms(2)]
      by (cases use) (simp_all add: compose_iterable_def Let_def and_then_def h' holder)
  qed (use assms(1) in \<open>auto simp: compose_iterable_def Let_def and_then_def h'\<close>)
qed

lemma build_with_facts:
  assumes "build_with env tb r rlp hash nd = (nd', q)"
  shows "asks_only nd nd' \<and> (\<forall>t'. q = Ok t' \<longrightarrow> remdups (resource_arcs t') = [r])"
proof -
  obtain nd1 q1 where one: "build_iterable env tb r rlp nd = (nd1, q1)" by fastforce
  note first = build_iterable_facts [OF one]
  have "asks_only nd nd' \<and> (\<forall>t'. q = Ok t' \<longrightarrow> remdups (resource_arcs t') = [r])"
    if "q1 = Ok (ix, t, a)" "compose_iterable env tb ix r rlp hash t a nd1 = (nd', q)" for ix t a
    using compose_iterable_facts [OF that(2)] first that(1) asks_only_trans by simp blast
  then show ?thesis using assms first
    by (auto simp: build_with_def one and_then_def split: res.splits)
qed

text \<open>A transaction refers to the same resource however far it has come.\<close>

lemma atomic_advance_resource: "atomic_advance env nd t = (nd', t', q) \<Longrightarrow> at_resource t' = at_resource t"
  by (auto simp: atomic_advance_def split: exec_steps.splits prod.splits res.splits option.splits if_splits
      dest!: atomic_ix_resource)

lemma iterative_advance_resource: "iterative_advance env nd t = (nd', t', q) \<Longrightarrow> ie_resource t' = ie_resource t"
  by (auto simp: iterative_advance_def split: iter_steps.splits prod.splits res.splits option.splits if_splits
      dest!: iterative_ixs_resource)

lemma transmit_advance_resource: "transmit_advance env nd t = (nd', t', q) \<Longrightarrow> tt_resource t' = tt_resource t"
  by (auto simp: transmit_advance_def transmit_pop_def split: transmit_steps.splits prod.splits res.splits if_splits)

lemma iterable_advance_resource:
  assumes "iterable_advance env nd t = (nd', t', q)" shows "iterable_resource t' = iterable_resource t"
proof (cases t)
  case (AtomicHolderI h)
  then show ?thesis using assms
    by (auto simp: map_tx_eq atomic_holder_advance_def atomic_holder_execute_def
        split: holder_steps.splits prod.splits if_splits dest!: transmit_advance_resource)
next
  case (IterativeHolderI h)
  then show ?thesis using assms
    by (auto simp: map_tx_eq iterative_holder_advance_def iterative_holder_execute_def
        split: holder_steps.splits prod.splits if_splits res.splits dest!: transmit_advance_resource)
qed (use assms in \<open>auto simp: map_tx_eq dest: atomic_advance_resource iterative_advance_resource\<close>)

lemma with_version_resource:
  "iterable_advance_with_version env v nd t = (nd', t', q) \<Longrightarrow> iterable_resource t' = iterable_resource t"
  by (auto simp: iterable_advance_with_version_def split: prod.splits dest: iterable_advance_resource)

lemma alt_advance_resource: "alt_advance env nd t = (nd', t', q) \<Longrightarrow> al_resource t' = al_resource t"
  by (auto simp: alt_advance_def Let_def split: alt_steps.splits prod.splits res.splits)

lemma rome_tx_advance_arcs:
  assumes "rome_tx_advance env nd t = (nd', t', q)" shows "resource_arcs t' = resource_arcs t"
proof (cases t)
  case (WithAlt c)
  then show ?thesis using assms
    by (auto simp: map_tx_eq alt_composed_advance_def alt_composed_execute_def Let_def
        split: composed_steps.splits prod.splits if_splits res.splits dest!: alt_advance_resource with_version_resource)
next
  case (WithAltAndHolder c)
  then show ?thesis using assms
    by (auto simp: map_tx_eq alt_composed_holder_advance_def holder_composed_execute_def Let_def
        split: composed_steps.splits prod.splits if_splits res.splits
        dest!: alt_advance_resource transmit_advance_resource with_version_resource)
next
  case (Svm c)
  then show ?thesis using assms
    by (auto simp: map_tx_eq atomic_svm_advance_def split: exec_steps.splits prod.splits dest: atomic_advance_resource)
qed (use assms in \<open>auto simp: map_tx_eq dest: iterable_advance_resource\<close>)

lemma send_loop_arcs:
  "send_loop n lib (rome_tx_advance env) payer t st nd = Some (nd', t', q) \<Longrightarrow> resource_arcs t' = resource_arcs t"
proof (induction n arbitrary: t st nd)
  case (Suc n)
  obtain nd1 t1 q1 where adv: "rome_tx_advance env nd t = (nd1, t1, q1)" by (metis prod_cases3)
  show ?case using Suc.prems Suc.IH rome_tx_advance_arcs [OF adv]
    by (fastforce simp: adv split: res.splits option.splits)
qed simp

lemma send_transaction_result:
  assumes "send_transaction n env tb rlp items nd = Some (items', nd', r)"
  shows "items' = items \<and> (\<forall>hash. r = Ok hash \<longrightarrow> hash = te_keccak env rlp \<and>
    (\<exists>left nd1 t ss logs rss. build_tx env tb rlp hash items nd = Some (left, nd1, Ok t) \<and>
      Ix_Batches.runs (rome_tx_advance env) t ss \<and>
      steps_sent nd1 (te_sol env) (rome_tx_payer t) ss (nd_calls nd1) logs rss \<and>
      nd_sent nd' = nd_sent nd @ concat logs))"
proof -
  obtain left nd1 b where built: "build_tx env tb rlp (te_keccak env rlp) items nd = Some (left, nd1, b)"
    using assms by (auto simp: send_transaction_def send_built_def prepare_transaction_def split: option.splits)
  then obtain left0 res where items: "items = left0 @ [res]" and left: "left = (if is_ok b then left0 else items)"
    and b: "build_with env tb res rlp (te_keccak env rlp) nd = (nd1, b)"
    by (auto simp: build_tx_def keep_if_ok_def lock_resource_def factory_pop_Some factory_push_def
        split: option.splits prod.splits)
  note facts = build_with_facts [OF b]
  show ?thesis
  proof (cases b)
    case (Ok t)
    obtain t' q where sent: "send_and_confirm_tx_iterable n env t nd1 = Some (nd', t', q)"
      and items': "items' = drop_tx t' left" and r: "r = Ok hash \<Longrightarrow> hash = te_keccak env rlp \<and> is_ok q" for hash
      using assms by (auto simp: send_transaction_def send_built_def prepare_transaction_def built Ok res_elims
          split: option.splits res.splits)
    have "resource_arcs t' = resource_arcs t"
      using sent unfolding send_and_confirm_tx_iterable_def by (rule send_loop_arcs)
    then have "items' = items" using facts items left by (simp add: items' drop_tx_def Ok factory_push_def)
    moreover have "\<exists>ss logs rss. Ix_Batches.runs (rome_tx_advance env) t ss \<and>
        steps_sent nd1 (te_sol env) (rome_tx_payer t) ss (nd_calls nd1) logs rss \<and>
        nd_sent nd' = nd_sent nd1 @ concat logs" if "q = Ok sigs" for sigs
      using rome_tx.send_loop_exact [OF sent [unfolded that send_and_confirm_tx_iterable_def]] by blast
    ultimately show ?thesis using r built asks_only_sent [OF conjunct1 [OF facts]] by (auto simp: Ok is_ok_iff)
  qed (use assms left in \<open>auto simp: send_transaction_def send_built_def prepare_transaction_def built\<close>)
qed

text \<open>
  C12. Whatever way sending a transaction ends, with a hash, an error or a panic, the resource that was
  locked for it is back where it was; the hash is that of the bytes given, and it is returned only
  when the transaction that was built has gone through its steps to the end and what was sent is exactly
  theirs: building sent nothing, and a batch is missing only in a step that is not checked, when
  the node gave no blockhash for it or it cannot be composed.
\<close>

theorem client_sends_transaction:
  assumes "send_transaction n env tb rlp items nd = Some (items', nd', r)"
  shows "items' = items \<and> (\<forall>hash. r = Ok hash \<longrightarrow> hash = te_keccak env rlp \<and>
    (\<exists>left nd1 t ss logs rss. build_tx env tb rlp hash items nd = Some (left, nd1, Ok t) \<and>
      Ix_Batches.runs (rome_tx_advance env) t ss \<and>
      steps_sent nd1 (te_sol env) (rome_tx_payer t) ss (nd_calls nd1) logs rss \<and>
      nd_sent nd' = nd_sent nd @ concat logs))"
  by (rule send_transaction_result [OF assms])

theorem client_sends_transaction_witness:
  "\<exists>items' nd'. send_transaction 2 test_tx_env \<lparr>tb_chain_id = 1, tb_program_id = 2\<rparr> [9] [test_resource] test_node =
      Some (items', nd', Ok 0) \<and> items' = [test_resource]"
proof -
  obtain left nd1 t nd' t2 sigs where
    b: "build_tx test_tx_env \<lparr>tb_chain_id = 1, tb_program_id = 2\<rparr> [9] 0 [test_resource] test_node =
      Some (left, nd1, Ok (Plain (AtomicI t)))" and
    s: "send_and_confirm_tx_iterable 2 test_tx_env (Plain (AtomicI t)) nd1 = Some (nd', t2, Ok sigs)"
    using test_built by (elim exE conjE) (rule that)
  have hash: "te_keccak test_tx_env [9] = 0" by (simp add: test_tx_env_def)
  have run: "send_transaction 2 test_tx_env \<lparr>tb_chain_id = 1, tb_program_id = 2\<rparr> [9] [test_resource] test_node =
      Some (drop_tx t2 left, nd', Ok 0)"
    by (simp add: send_transaction_def send_built_def prepare_transaction_def hash b s)
  from client_sends_transaction [OF run] run show ?thesis by simp
qed

end
