(* ===== verification/Celestia.thy ===== *)
theory Celestia
  imports Geth_Engine
begin

text \<open>
  The client of the data availability layer, \<^verbatim>\<open>rome-da/src/celestia\<close>: the namespace of a
  rollup, the blobs its transactions are submitted as, submission, the subscription and the
  reading of blobs.  Base64, zlib, SHA3, Keccak, RLP, the \<^verbatim>\<open>hex\<close> crate and JSON are fields
  of \<open>da_lib\<close>; the node is a record of answers by call.  An \<^verbatim>\<open>anyhow::Error\<close> is a
  \<open>Custom\<close> error with the constant part of its text.
\<close>

section \<open>Types\<close>

record blob_param =
  bp_namespace :: rstr
  bp_data :: rstr
  bp_share_version :: int
  bp_commitment :: rstr
  bp_index :: int

record da_submission_block =
  sb_block_number :: u64
  sb_timestamp :: u256
  sb_transactions :: "transaction list"

record subscribe_blob_response =
  sr_height :: u64
  sr_blobs :: "blob_param list"

record tx_config =
  tc_gas_price :: "nat option"
  tc_is_gas_price_set :: "bool option"
  tc_gas :: "u64 option"
  tc_key_name :: "rstr option"
  tc_signer_address :: "rstr option"
  tc_fee_granter_address :: "rstr option"

record 'j da_lib =
  da_base64_encode :: "bytes \<Rightarrow> rstr"
  da_base64_decode :: "rstr \<Rightarrow> bytes option"
  da_hex_decode :: "rstr \<Rightarrow> bytes option"
  da_compress :: "bytes \<Rightarrow> bytes option"
  da_decompress :: "bytes \<Rightarrow> bytes option"
  da_sha3_256 :: "rstr \<Rightarrow> bytes"
  da_keccak :: "bytes \<Rightarrow> h256"
  da_tx_rlp :: "transaction \<Rightarrow> bytes"
  da_tx_decode :: "bytes \<Rightarrow> transaction option"
  da_json :: "rstr \<Rightarrow> 'j option"
  da_second_param :: "'j \<Rightarrow> 'j option"
  da_response :: "'j \<Rightarrow> subscribe_blob_response option"

section \<open>Namespaces\<close>

declare hex_nat.simps [simp del]

definition string_to_base64_namespace :: "'j da_lib \<Rightarrow> rstr \<Rightarrow> rstr res" where
  "string_to_base64_namespace lib input =
     (let hex_string = hex_encode (map word_of_nat input);
          user_id_hex = (if 20 \<le> length hex_string then take 20 hex_string
                         else replicate (20 - length hex_string) 48 @ hex_string) in
      case da_hex_decode lib user_id_hex of
        None \<Rightarrow> Err (Custom ''hex'')
      | Some user_id_bytes \<Rightarrow>
          if length user_id_bytes \<noteq> 29 - 19 then Panic ''copy_from_slice''
          else Ok (da_base64_encode lib (replicate 19 0 @ user_id_bytes)))"

definition get_namespace :: "'j da_lib \<Rightarrow> u64 \<Rightarrow> rstr res" where
  "get_namespace lib chain = string_to_base64_namespace lib (str ''rome_'' @ hex_nat (unat chain))"

section \<open>Blobs\<close>

text \<open>\<^verbatim>\<open>H256::as_bytes\<close> is the big-endian bytes.\<close>

definition create_new_commitment :: "'j da_lib \<Rightarrow> h256 \<Rightarrow> h256 \<Rightarrow> h256" where
  "create_new_commitment lib hashed_old_commitment tx_signature =
     da_keccak lib (be_bytes 32 (unat hashed_old_commitment) @ be_bytes 32 (unat tx_signature))"

definition derive_commitment :: "'j da_lib \<Rightarrow> rstr \<Rightarrow> rstr" where
  "derive_commitment lib d = da_base64_encode lib (da_sha3_256 lib d)"

definition compress_data :: "'j da_lib \<Rightarrow> bytes \<Rightarrow> bytes res" where
  "compress_data lib streamout = ok_or (Custom ''zlib'') (da_compress lib streamout)"

definition decompress_data :: "'j da_lib \<Rightarrow> bytes \<Rightarrow> bytes res" where
  "decompress_data lib d = ok_or (Custom ''zlib'') (da_decompress lib d)"

text \<open>The body of the inner loop; the index is an \<^verbatim>\<open>i32\<close>.\<close>

definition push_blob :: "'j da_lib \<Rightarrow> rstr \<Rightarrow> transaction \<Rightarrow> blob_param list \<times> int \<Rightarrow> (blob_param list \<times> int) res" where
  "push_blob lib namespace tx st = (case st of (blobs, index) \<Rightarrow>
     try_res (compress_data lib (da_tx_rlp lib tx)) (\<lambda>tx_data.
       let d = da_base64_encode lib tx_data;
           blobs = blobs @ [\<lparr>bp_namespace = namespace, bp_data = d, bp_share_version = 0,
             bp_commitment = derive_commitment lib d, bp_index = index\<rparr>] in
       if index + 1 < 2 ^ 31 then Ok (blobs, index + 1) else Panic ''attempt to add with overflow''))"

fun push_txs :: "'j da_lib \<Rightarrow> rstr \<Rightarrow> transaction list \<Rightarrow> blob_param list \<times> int \<Rightarrow> (blob_param list \<times> int) res" where
  "push_txs lib namespace [] st = Ok st"
| "push_txs lib namespace (tx # txs) st = try_res (push_blob lib namespace tx st) (push_txs lib namespace txs)"

fun push_blocks :: "'j da_lib \<Rightarrow> rstr \<Rightarrow> da_submission_block list \<Rightarrow> blob_param list \<times> int \<Rightarrow> (blob_param list \<times> int) res" where
  "push_blocks lib namespace [] st = Ok st"
| "push_blocks lib namespace (b # bs) st =
     try_res (push_txs lib namespace (sb_transactions b) st) (push_blocks lib namespace bs)"

definition compress_blocks_to_blobs :: "'j da_lib \<Rightarrow> rstr \<Rightarrow> da_submission_block list \<Rightarrow> blob_param list res" where
  "compress_blocks_to_blobs lib namespace blocks =
     try_res (push_blocks lib namespace blocks ([], 0)) (\<lambda>(blobs, _). Ok blobs)"

definition decode_blob_to_tx :: "'j da_lib \<Rightarrow> blob_param \<Rightarrow> transaction res" where
  "decode_blob_to_tx lib blob =
     try_res (ok_or Base64DecodeError (da_base64_decode lib (bp_data blob))) (\<lambda>d.
     try_res (decompress_data lib d) (\<lambda>tx_data.
       ok_or TxDecodeError (da_tx_decode lib tx_data)))"

section \<open>The client\<close>

text \<open>
  The requests to the node; its answers, parsed, are given by the number of requests before.
\<close>

datatype da_request = BlobSubmit "blob_param list" tx_config | BlobGetAll u64 rstr

record da_node =
  dn_submit :: "nat \<Rightarrow> da_request \<Rightarrow> u64 res"
  dn_get_all :: "nat \<Rightarrow> da_request \<Rightarrow> blob_param list res"

record 'j da_client =
  dc_chain_id :: u64
  dc_lib :: "'j da_lib"
  dc_node :: da_node

type_synonym da_requests = "da_request list"

definition no_tx_config :: tx_config where
  "no_tx_config = \<lparr>tc_gas_price = None, tc_is_gas_price_set = None, tc_gas = None, tc_key_name = None,
     tc_signer_address = None, tc_fee_granter_address = None\<rparr>"

definition submit_blobs :: "'j da_client \<Rightarrow> blob_param list \<Rightarrow> da_requests \<Rightarrow> da_requests \<times> u64 res" where
  "submit_blobs cl blobs sent =
     (let req = BlobSubmit blobs no_tx_config in (sent @ [req], dn_submit (dc_node cl) (length sent) req))"

text \<open>The result of the submission is only logged.\<close>

definition submit_blocks :: "'j da_client \<Rightarrow> da_submission_block list \<Rightarrow> da_requests \<Rightarrow> da_requests \<times> unit res" where
  "submit_blocks cl blocks sent =
     (case try_res (get_namespace (dc_lib cl) (dc_chain_id cl)) (\<lambda>namespace.
             compress_blocks_to_blobs (dc_lib cl) namespace blocks) of
        Ok blobs \<Rightarrow>
          if blobs = [] then (sent, Ok ())
          else (case submit_blobs cl blobs sent of (sent, Panic m) \<Rightarrow> (sent, Panic m) | (sent, _) \<Rightarrow> (sent, Ok ()))
      | Err e \<Rightarrow> (sent, Err e)
      | Panic m \<Rightarrow> (sent, Panic m))"

fun unwrap_all :: "'a res list \<Rightarrow> 'a list res" where
  "unwrap_all [] = Ok []"
| "unwrap_all (Ok x # rs) = try_res (unwrap_all rs) (\<lambda>xs. Ok (x # xs))"
| "unwrap_all (Err e # rs) = Panic ''called unwrap on an Err value''"
| "unwrap_all (Panic m # rs) = Panic m"

definition fetch_blobs_by_height :: "'j da_client \<Rightarrow> u64 \<Rightarrow> da_requests \<Rightarrow> da_requests \<times> transaction list res" where
  "fetch_blobs_by_height cl height sent =
     (case get_namespace (dc_lib cl) (dc_chain_id cl) of
        Ok namespace \<Rightarrow>
          (let req = BlobGetAll height namespace in
           (sent @ [req], try_res (dn_get_all (dc_node cl) (length sent) req) (\<lambda>res.
              unwrap_all (map (decode_blob_to_tx (dc_lib cl)) res))))
      | Err e \<Rightarrow> (sent, Err e)
      | Panic m \<Rightarrow> (sent, Panic m))"

section \<open>The subscription\<close>

datatype ws_message = WsText rstr | WsOther | WsError

fun contains_str :: "rstr \<Rightarrow> rstr \<Rightarrow> bool" where
  "contains_str p [] = (p = [])"
| "contains_str p (c # cs) = (take (length p) (c # cs) = p \<or> contains_str p cs)"

text \<open>One message in the task that reads the web socket; the blobs go to the channel.\<close>

definition blob_message :: "'j da_lib \<Rightarrow> ws_message \<Rightarrow> blob_param list list \<Rightarrow> blob_param list list res" where
  "blob_message lib m channel = (case m of
     WsText text \<Rightarrow>
       if contains_str (str ''Blobs'') text then
         try_res (expect ''json'' (da_json lib text)) (\<lambda>root.
         try_res (expect ''params'' (da_second_param lib root)) (\<lambda>param.
           Ok (case da_response lib param of Some resp \<Rightarrow> channel @ [sr_blobs resp] | None \<Rightarrow> channel)))
       else Ok channel
   | _ \<Rightarrow> Ok channel)"

text \<open>The task ends with the stream, or silently when it panics.\<close>

fun blob_task :: "'j da_lib \<Rightarrow> ws_message list \<Rightarrow> blob_param list list \<Rightarrow> blob_param list list" where
  "blob_task lib [] channel = channel"
| "blob_task lib (m # ms) channel =
     (case blob_message lib m channel of Ok channel \<Rightarrow> blob_task lib ms channel | _ \<Rightarrow> channel)"

end
