(* ===== verification/Celestia_Facts.thy ===== *)
theory Celestia_Facts
  imports Celestia
begin

text \<open>
  What the client of the data availability layer promises: which rollups share a namespace,
  and that submitted transactions are read back.
\<close>

section \<open>Laws of the libraries\<close>

text \<open>
  Base64, the \<^verbatim>\<open>hex\<close> crate and zlib decode what they encode.  The RLP of a transaction holds neither its
  place in a block nor, unless it is a deposit (type \<^verbatim>\<open>0x7E\<close>), its sender:
  \<^verbatim>\<open>Transaction::decode\<close> leaves these at their defaults, and the sender has to be recovered from the signature,
  as \<^verbatim>\<open>decode_transaction_from_rlp\<close> of the indexer does.  That the other fields come back is asked of
  the transactions submitted.
\<close>

definition da_laws :: "'j da_lib \<Rightarrow> bool" where
  "da_laws lib \<longleftrightarrow>
     (\<forall>bs. da_base64_decode lib (da_base64_encode lib bs) = Some bs) \<and>
     (\<forall>bs. da_hex_decode lib (hex_encode bs) = Some bs) \<and>
     (\<forall>bs c. da_compress lib bs = Some c \<longrightarrow> da_decompress lib c = Some bs)"

definition rlp_fields :: "transaction \<Rightarrow> transaction" where
  "rlp_fields tx = tx\<lparr>tx_from := (if tx_transaction_type tx = Some 0x7E then tx_from tx else 0),
     tx_block_hash := None, tx_block_number := None, tx_transaction_index := None\<rparr>"

definition tx_decodes :: "'j da_lib \<Rightarrow> transaction \<Rightarrow> bool" where
  "tx_decodes lib tx \<longleftrightarrow> da_tx_decode lib (da_tx_rlp lib tx) = Some (rlp_fields tx)"

section \<open>Hexadecimal digits\<close>

definition digit_value :: "nat \<Rightarrow> nat" where
  "digit_value d = (if d < 58 then d - 48 else d - 87)"

lemma digit_value: "d < 16 \<Longrightarrow> digit_value (hex_digit d) = d"
  by (simp add: digit_value_def hex_digit_def)

lemma hex_digit_byte: "d < 16 \<Longrightarrow> hex_digit d < 256"
  by (simp add: hex_digit_def)

lemma hex_nat_value: "foldl (\<lambda>a d. 16 * a + digit_value d) 0 (hex_nat n) = n"
proof (induction n rule: hex_nat.induct)
  case (1 n)
  then show ?case by (subst hex_nat.simps) (simp add: digit_value)
qed

lemma hex_nat_inj: "hex_nat m = hex_nat n \<longleftrightarrow> m = n"
  by (metis hex_nat_value)

lemma hex_nat_bytes: "set (hex_nat n) \<subseteq> {..<256}"
proof (induction n rule: hex_nat.induct)
  case (1 n)
  then show ?case by (subst hex_nat.simps) (simp add: hex_digit_byte)
qed

lemma hex_nat_length: "n < 16 ^ Suc k \<Longrightarrow> length (hex_nat n) \<le> Suc k"
proof (induction k arbitrary: n)
  case (Suc k)
  then have "n div 16 < 16 ^ Suc k" by (simp add: less_mult_imp_div_less)
  then show ?case using Suc.IH by (subst hex_nat.simps) simp
qed (simp add: hex_nat.simps)

lemma word_of_bytes_inj:
  assumes "set xs \<subseteq> {..<256}" and "set ys \<subseteq> {..<256}"
  shows "map (word_of_nat :: nat \<Rightarrow> u8) xs = map word_of_nat ys \<longleftrightarrow> xs = ys"
proof -
  have "inj_on (word_of_nat :: nat \<Rightarrow> u8) {..<256}"
    by (rule inj_on_inverseI [where g = unat]) (simp add: unat_of_nat)
  then show ?thesis using assms by (intro inj_on_map_eq_map) (auto intro: inj_on_subset)
qed

section \<open>Namespaces\<close>

lemma hex_encode_length: "length (hex_encode bs) = 2 * length bs"
  by (induction bs) (simp_all add: hex_encode_def)

lemma hex_encode_append: "hex_encode (xs @ ys) = hex_encode xs @ hex_encode ys"
  by (simp add: hex_encode_def)

lemma hex_encode_take: "take (2 * n) (hex_encode bs) = hex_encode (take n bs)"
proof (induction bs arbitrary: n)
  case (Cons b bs)
  then show ?case by (cases n) (simp_all add: hex_encode_def)
qed (simp add: hex_encode_def)

lemma hex_encode_zeros: "hex_encode (replicate n 0) = replicate (2 * n) 48"
  by (induction n) (simp_all add: hex_encode_def hex_digit_def)

definition rome_bytes :: "u8 list" where
  "rome_bytes = [114, 111, 109, 101, 95]"

lemma rome_bytes: "map word_of_nat (str ''rome_'') = rome_bytes"
  by (simp add: str_def rome_bytes_def)

text \<open>The ten bytes of a rollup.\<close>

definition user_id :: "u64 \<Rightarrow> bytes" where
  "user_id chain = (let h = map word_of_nat (hex_nat (unat chain)) in
     replicate (5 - length h) 0 @ rome_bytes @ take 5 h)"

lemma user_id_length: "length (user_id chain) = 10"
  by (simp add: user_id_def Let_def rome_bytes_def)

lemma get_namespace_eq:
  assumes "da_laws lib"
  shows "get_namespace lib chain = Ok (da_base64_encode lib (replicate 19 0 @ user_id chain))"
proof -
  define h :: bytes where "h = map word_of_nat (hex_nat (unat chain))"
  have bytes: "map word_of_nat (str ''rome_'' @ hex_nat (unat chain)) = rome_bytes @ h"
    by (simp add: h_def rome_bytes)
  have "(if 20 \<le> length (hex_encode (rome_bytes @ h)) then take 20 (hex_encode (rome_bytes @ h))
      else replicate (20 - length (hex_encode (rome_bytes @ h))) 48 @ hex_encode (rome_bytes @ h)) = hex_encode (user_id chain)"
  proof (cases "5 \<le> length h")
    case True
    then show ?thesis using hex_encode_take [of 10 "rome_bytes @ h"]
      by (simp add: hex_encode_length user_id_def flip: h_def) (simp add: rome_bytes_def)
  next
    case False
    then show ?thesis
      by (simp add: hex_encode_length user_id_def hex_encode_append hex_encode_zeros Let_def flip: h_def)
        (simp add: rome_bytes_def diff_mult_distrib2)
  qed
  then show ?thesis using assms
    by (simp add: get_namespace_def string_to_base64_namespace_def bytes da_laws_def user_id_length Let_def del: map_append)
qed

lemma user_id_suffix: "dropWhile (\<lambda>b. b = 0) (user_id chain) = rome_bytes @ take 5 (map word_of_nat (hex_nat (unat chain)))"
  by (simp add: user_id_def Let_def rome_bytes_def dropWhile_append)

lemma user_id_inj: "user_id a = user_id b \<longleftrightarrow> take 5 (hex_nat (unat a)) = take 5 (hex_nat (unat b))"
proof
  assume "user_id a = user_id b"
  then have "map (word_of_nat :: nat \<Rightarrow> u8) (take 5 (hex_nat (unat a))) = map word_of_nat (take 5 (hex_nat (unat b)))"
    using user_id_suffix [of a] user_id_suffix [of b] by (simp add: take_map)
  moreover have "set (take 5 (hex_nat n)) \<subseteq> {..<256}" for n
    using hex_nat_bytes [of n] set_take_subset [of 5 "hex_nat n"] by blast
  ultimately show "take 5 (hex_nat (unat a)) = take 5 (hex_nat (unat b))"
    using word_of_bytes_inj by blast
next
  assume same: "take 5 (hex_nat (unat a)) = take 5 (hex_nat (unat b))"
  have "5 - length (hex_nat (unat a)) = 5 - length (take 5 (hex_nat (unat a)))" for a :: u64 by simp
  then have "5 - length (hex_nat (unat a)) = 5 - length (hex_nat (unat b))" by (metis same)
  then show "user_id a = user_id b" by (simp add: user_id_def Let_def take_map same)
qed

lemma namespace_inj:
  assumes "da_laws lib"
  shows "get_namespace lib a = get_namespace lib b \<longleftrightarrow> user_id a = user_id b"
proof -
  have "da_base64_encode lib x = da_base64_encode lib y \<longleftrightarrow> x = y" for x y
    using assms by (metis da_laws_def option.inject)
  then show ?thesis by (simp add: get_namespace_eq [OF assms])
qed

lemma hex_nat_long: "16 ^ k \<le> n \<Longrightarrow> k < length (hex_nat n)"
proof (induction k arbitrary: n)
  case (Suc k)
  then have "16 ^ k \<le> n div 16" "16 \<le> n" by (simp_all add: less_eq_div_iff_mult_less_eq ac_simps)
      (metis dual_order.trans mult_le_mono2 nat_mult_1_right one_le_numeral one_le_power)
  then show ?case using Suc.IH [of "n div 16"] by (subst hex_nat.simps) simp
qed (subst hex_nat.simps, simp)

lemma hex_nat_times_16: "0 < n \<Longrightarrow> hex_nat (16 * n) = hex_nat n @ [hex_digit 0]"
  by (subst hex_nat.simps) simp

text \<open>
  C38. Every rollup has a namespace, and two of them share it exactly if the first five
  hexadecimal digits of their chain ids agree.  So two rollups whose chain ids are both below \<open>2 ^ 20\<close> never
  share one; a rollup with a larger chain id may share that of any other, also of one below \<open>2 ^ 20\<close>, as
  every chain id from \<open>0x10000\<close> to \<open>0xfffff\<close> does with its sixteen-fold.
\<close>

theorem namespaces_shared:
  assumes "da_laws lib"
  shows "is_ok (get_namespace lib a) \<and>
    (get_namespace lib a = get_namespace lib b \<longleftrightarrow> take 5 (hex_nat (unat a)) = take 5 (hex_nat (unat b))) \<and>
    (a < 2 ^ 20 \<longrightarrow> b < 2 ^ 20 \<longrightarrow> (get_namespace lib a = get_namespace lib b \<longleftrightarrow> a = b)) \<and>
    (0x10000 \<le> a \<longrightarrow> a < 2 ^ 20 \<longrightarrow> get_namespace lib (16 * a) = get_namespace lib a)"
proof -
  have "take 5 (hex_nat (unat c)) = hex_nat (unat c)" if "c < 2 ^ 20" for c :: u64
  proof -
    have "unat c < 16 ^ Suc 4" using that by (simp add: word_less_nat_alt)
    from hex_nat_length [OF this] show ?thesis by simp
  qed
  moreover have "get_namespace lib (16 * a) = get_namespace lib a" if "0x10000 \<le> a" "a < 2 ^ 20"
  proof -
    have a: "16 ^ 4 \<le> unat a" "unat a < 2 ^ 20" using that by (simp_all add: word_le_nat_alt word_less_nat_alt)
    then have "unat (16 * a) = 16 * unat a" by (simp add: unat_word_ariths)
    moreover have "4 < length (hex_nat (unat a))" by (rule hex_nat_long [OF a(1)])
    ultimately have "take 5 (hex_nat (unat (16 * a))) = take 5 (hex_nat (unat a))"
      using a(1) by (simp add: hex_nat_times_16)
    then show ?thesis using namespace_inj [OF assms] user_id_inj by blast
  qed
  ultimately show ?thesis
    using get_namespace_eq [OF assms] namespace_inj [OF assms] user_id_inj by (auto simp: hex_nat_inj word_unat_eq_iff)
qed

section \<open>Blobs\<close>

definition blob_of :: "'j da_lib \<Rightarrow> rstr \<Rightarrow> transaction \<Rightarrow> blob_param \<Rightarrow> bool" where
  "blob_of lib namespace tx b \<longleftrightarrow> bp_namespace b = namespace \<and>
     (\<exists>c. da_compress lib (da_tx_rlp lib tx) = Some c \<and> bp_data b = da_base64_encode lib c)"

lemma push_txs_append:
  "push_txs lib namespace (xs @ ys) st = try_res (push_txs lib namespace xs st) (push_txs lib namespace ys)"
proof (induction xs arbitrary: st)
  case (Cons x xs)
  then show ?case by (cases "push_blob lib namespace x st") simp_all
qed simp

lemma push_blocks_txs:
  "push_blocks lib namespace blocks st = push_txs lib namespace (concat (map sb_transactions blocks)) st"
proof (induction blocks arbitrary: st)
  case (Cons b blocks)
  then show ?case by (cases "push_txs lib namespace (sb_transactions b) st") (simp_all add: push_txs_append)
qed simp

lemma push_txs_blobs:
  "push_txs lib namespace txs (blobs, i) = Ok (blobs', i') \<Longrightarrow>
   \<exists>new. blobs' = blobs @ new \<and> list_all2 (blob_of lib namespace) txs new \<and> map bp_index new = [i..i + int (length txs) - 1]"
proof (induction txs arbitrary: blobs i)
  case (Cons tx txs)
  then obtain c where c: "da_compress lib (da_tx_rlp lib tx) = Some c"
    by (auto simp: push_blob_def compress_data_def res_elims)
  define b where "b = \<lparr>bp_namespace = namespace, bp_data = da_base64_encode lib c, bp_share_version = 0,
    bp_commitment = derive_commitment lib (da_base64_encode lib c), bp_index = i\<rparr>"
  have b: "bp_namespace b = namespace" "bp_data b = da_base64_encode lib c" "bp_index b = i" by (simp_all add: b_def)
  have rest: "push_txs lib namespace txs (blobs @ [b], i + 1) = Ok (blobs', i')"
    using Cons.prems c by (auto simp: push_blob_def compress_data_def b_def res_elims Let_def split: if_splits)
  from Cons.IH [OF rest] obtain new where "blobs' = (blobs @ [b]) @ new" "list_all2 (blob_of lib namespace) txs new"
    and "map bp_index new = [i + 1..i + 1 + int (length txs) - 1]" by blast
  moreover have "blob_of lib namespace tx b" using b c by (simp add: blob_of_def)
  ultimately show ?case using b(3) by (intro exI [of _ "b # new"]) (simp add: upto_rec1)
qed simp

lemma decode_blob_of:
  assumes "da_laws lib" and "blob_of lib namespace tx b" and "tx_decodes lib tx"
  shows "decode_blob_to_tx lib b = Ok (rlp_fields tx)"
  using assms by (auto simp: decode_blob_to_tx_def decompress_data_def blob_of_def da_laws_def tx_decodes_def)

lemma unwrap_all_Ok: "unwrap_all (map Ok xs) = Ok xs"
  by (induction xs) simp_all

lemma submit_blocks_request:
  assumes "submit_blocks cl blocks sent = (sent', Ok ())" and "concat (map sb_transactions blocks) \<noteq> []"
  obtains namespace blobs where "get_namespace (dc_lib cl) (dc_chain_id cl) = Ok namespace"
    and "sent' = sent @ [BlobSubmit blobs no_tx_config]"
    and "list_all2 (blob_of (dc_lib cl) namespace) (concat (map sb_transactions blocks)) blobs"
    and "map bp_index blobs = [0..int (length blobs) - 1]"
proof -
  obtain namespace blobs where ns: "get_namespace (dc_lib cl) (dc_chain_id cl) = Ok namespace"
    and blobs: "compress_blocks_to_blobs (dc_lib cl) namespace blocks = Ok blobs"
    and rest: "(if blobs = [] then (sent, Ok ()) else (case submit_blobs cl blobs sent of
      (sent, Panic m) \<Rightarrow> (sent, Panic m) | (sent, _) \<Rightarrow> (sent, Ok ()))) = (sent', Ok ())"
    using assms(1) by (auto simp: submit_blocks_def res_elims split: res.splits)
  obtain i where push: "push_txs (dc_lib cl) namespace (concat (map sb_transactions blocks)) ([], 0) = Ok (blobs, i)"
    using blobs by (auto simp: compress_blocks_to_blobs_def push_blocks_txs res_elims)
  from push_txs_blobs [OF push] have all: "list_all2 (blob_of (dc_lib cl) namespace) (concat (map sb_transactions blocks)) blobs"
    and idx: "map bp_index blobs = [0..int (length (concat (map sb_transactions blocks))) - 1]" by auto
  from all have len: "length (concat (map sb_transactions blocks)) = length blobs" by (rule list_all2_lengthD)
  with assms(2) have "blobs \<noteq> []" by (metis length_0_conv)
  with rest have "sent' = sent @ [BlobSubmit blobs no_tx_config]"
    by (auto simp: submit_blobs_def Let_def split: res.splits)
  with that ns all idx len show thesis by metis
qed

text \<open>
  C37. What a client submits goes out as one request with a numbered blob for every transaction,
  in the namespace of the rollup; and a client of the rollup that gets these blobs from its node
  returns the transactions in their order, with the fields that RLP has.  It does not return them as they were:
  unlike the indexer it does not recover the sender, so that of every transaction but a deposit is the zero address.
  Asked of the libraries: base64, hex and zlib decode what they encode, and RLP decodes the
  encoding of each transaction submitted to its fields.
\<close>

theorem submitted_blocks_fetched:
  assumes "da_laws (dc_lib cl)" and "submit_blocks cl blocks sent = (sent', Ok ())"
    and "txs = concat (map sb_transactions blocks)" and "txs \<noteq> []" and "\<forall>tx \<in> set txs. tx_decodes (dc_lib cl) tx"
  shows "\<exists>namespace blobs. get_namespace (dc_lib cl) (dc_chain_id cl) = Ok namespace \<and>
    sent' = sent @ [BlobSubmit blobs no_tx_config] \<and> (\<forall>b \<in> set blobs. bp_namespace b = namespace) \<and>
    map bp_index blobs = [0..int (length blobs) - 1] \<and>
    (\<forall>reader height asked. dc_lib reader = dc_lib cl \<and> dc_chain_id reader = dc_chain_id cl \<and>
       dn_get_all (dc_node reader) (length asked) (BlobGetAll height namespace) = Ok blobs \<longrightarrow>
       snd (fetch_blobs_by_height reader height asked) = Ok (map rlp_fields txs))"
proof -
  obtain namespace blobs where ns: "get_namespace (dc_lib cl) (dc_chain_id cl) = Ok namespace"
    and sent: "sent' = sent @ [BlobSubmit blobs no_tx_config]"
    and all: "list_all2 (blob_of (dc_lib cl) namespace) txs blobs" and idx: "map bp_index blobs = [0..int (length blobs) - 1]"
    using submit_blocks_request [OF assms(2) assms(4) [unfolded assms(3)]] unfolding assms(3) by metis
  have "map (decode_blob_to_tx (dc_lib cl)) blobs = map (Ok \<circ> rlp_fields) txs"
    using all assms(5) by (induction rule: list_all2_induct) (simp_all add: decode_blob_of [OF assms(1)])
  moreover have "\<forall>b \<in> set blobs. bp_namespace b = namespace"
    using all by (induction rule: list_all2_induct) (simp_all add: blob_of_def)
  ultimately show ?thesis using ns sent idx
    by (intro exI [of _ namespace] exI [of _ blobs]) (auto simp: fetch_blobs_by_height_def unwrap_all_Ok Let_def simp flip: map_map)
qed

text \<open>A failed submission is not reported.\<close>

lemma failed_submission_ignored:
  assumes "submit_blobs cl blobs sent = (sent', Err e)" and "blobs \<noteq> []"
    and "get_namespace (dc_lib cl) (dc_chain_id cl) = Ok namespace"
    and "compress_blocks_to_blobs (dc_lib cl) namespace blocks = Ok blobs"
  shows "submit_blocks cl blocks sent = (sent', Ok ())"
  using assms by (simp add: submit_blocks_def)

text \<open>A blob of anyone else that does not decode panics the reader.\<close>

lemma foreign_blob_panics:
  assumes "get_namespace (dc_lib cl) (dc_chain_id cl) = Ok namespace"
    and "dn_get_all (dc_node cl) (length asked) (BlobGetAll height namespace) = Ok (b # blobs)"
    and "decode_blob_to_tx (dc_lib cl) b = Err e"
  shows "is_panic (snd (fetch_blobs_by_height cl height asked))"
  using assms by (simp add: fetch_blobs_by_height_def Let_def)

section \<open>An instance\<close>

text \<open>Hexadecimal text is paired up again, the other codecs are identities on the bytes.\<close>

definition unhex :: "nat \<Rightarrow> nat" where
  "unhex d = (if d < 58 then d - 48 else d - 87)"

fun pair_up :: "rstr \<Rightarrow> bytes" where
  "pair_up (a # b # ds) = word_of_nat (16 * unhex a + unhex b) # pair_up ds"
| "pair_up ds = []"

definition test_da_lib :: "unit da_lib" where
  "test_da_lib = \<lparr>da_base64_encode = map unat, da_base64_decode = (\<lambda>t. Some (map word_of_nat t)),
     da_hex_decode = (\<lambda>t. Some (pair_up t)), da_compress = Some, da_decompress = Some, da_sha3_256 = (\<lambda>_. []),
     da_keccak = (\<lambda>_. 0), da_tx_rlp = (\<lambda>tx. be_bytes 8 (unat (tx_nonce tx))),
     da_tx_decode = (\<lambda>bs. Some (default_transaction\<lparr>tx_nonce := word_of_nat (of_be_bytes bs)\<rparr>)),
     da_json = (\<lambda>_. None), da_second_param = (\<lambda>_. None), da_response = (\<lambda>_. None)\<rparr>"

lemma unhex_digit: "d < 16 \<Longrightarrow> unhex (hex_digit d) = d"
  by (simp add: unhex_def hex_digit_def)

lemma pair_up_hex: "pair_up (hex_encode bs) = bs"
proof (induction bs)
  case (Cons b bs)
  have "unat b div 16 < 16" using unsigned_less [of b, where ?'a = nat] by (simp add: less_mult_imp_div_less)
  then show ?case using Cons by (simp add: hex_encode_def unhex_digit)
qed (simp add: hex_encode_def)

lemma test_da_laws: "da_laws test_da_lib"
  by (simp add: da_laws_def test_da_lib_def pair_up_hex o_def)

theorem namespaces_shared_witness:
  "get_namespace test_da_lib 1 \<noteq> get_namespace test_da_lib 2 \<and>
   get_namespace test_da_lib 0x123456 = get_namespace test_da_lib 0x123457"
  using namespaces_shared [OF test_da_laws, of 1 2] namespaces_shared [OF test_da_laws, of "0x123456" "0x123457"]
  by (simp add: hex_nat.simps hex_digit_def)

definition test_da_tx :: transaction where
  "test_da_tx = default_transaction\<lparr>tx_nonce := 7, tx_from := 9\<rparr>"

definition test_da_client :: "unit da_client" where
  "test_da_client = \<lparr>dc_chain_id = 1, dc_lib = test_da_lib,
     dc_node = \<lparr>dn_submit = (\<lambda>_ _. Ok 5), dn_get_all = (\<lambda>_ _. Ok [])\<rparr>\<rparr>"

lemma test_submission: "\<exists>sent. submit_blocks test_da_client [\<lparr>sb_block_number = 1, sb_timestamp = 2,
    sb_transactions = [test_da_tx]\<rparr>] [] = (sent, Ok ())"
proof -
  have "submit_blobs test_da_client blobs sent = (sent @ [BlobSubmit blobs no_tx_config], Ok 5)" for blobs sent
    by (simp add: submit_blobs_def Let_def test_da_client_def)
  moreover have "dc_lib test_da_client = test_da_lib" and "da_compress test_da_lib = Some"
    by (simp_all add: test_da_client_def test_da_lib_def)
  ultimately show ?thesis
    by (simp add: submit_blocks_def get_namespace_eq [OF test_da_laws] compress_blocks_to_blobs_def push_blob_def
        compress_data_def Let_def)
qed

theorem submitted_blocks_fetched_witness:
  "\<exists>blobs namespace. fst (submit_blocks test_da_client [\<lparr>sb_block_number = 1, sb_timestamp = 2, sb_transactions = [test_da_tx]\<rparr>] []) =
     [BlobSubmit blobs no_tx_config] \<and>
     get_namespace test_da_lib 1 = Ok namespace \<and>
     (\<forall>h. snd (fetch_blobs_by_height (test_da_client\<lparr>dc_node := \<lparr>dn_submit = (\<lambda>_ _. Ok 5), dn_get_all = (\<lambda>_ _. Ok blobs)\<rparr>\<rparr>) h []) =
       Ok [default_transaction\<lparr>tx_nonce := 7\<rparr>])"
proof -
  obtain sent where sent: "submit_blocks test_da_client [\<lparr>sb_block_number = 1, sb_timestamp = 2,
    sb_transactions = [test_da_tx]\<rparr>] [] = (sent, Ok ())" using test_submission by blast
  have decodes: "\<forall>tx \<in> set [test_da_tx]. tx_decodes (dc_lib test_da_client) tx"
    by (simp add: tx_decodes_def rlp_fields_def default_transaction_def test_da_client_def test_da_lib_def test_da_tx_def be_bytes_def of_be_bytes_def
        of_le_bytes_le_bytes)
  have laws: "da_laws (dc_lib test_da_client)" using test_da_laws by (simp add: test_da_client_def)
  from submitted_blocks_fetched [OF laws sent _ _ decodes] obtain namespace blobs where
    "get_namespace test_da_lib 1 = Ok namespace" "sent = [BlobSubmit blobs no_tx_config]"
    and read: "\<And>reader height asked. dc_lib reader = test_da_lib \<Longrightarrow> dc_chain_id reader = 1 \<Longrightarrow>
      dn_get_all (dc_node reader) (length asked) (BlobGetAll height namespace) = Ok blobs \<Longrightarrow>
      snd (fetch_blobs_by_height reader height asked) = Ok [rlp_fields test_da_tx]"
    by (auto simp: test_da_client_def)
  moreover have "rlp_fields test_da_tx = default_transaction\<lparr>tx_nonce := 7\<rparr>"
    by (simp add: rlp_fields_def test_da_tx_def default_transaction_def)
  ultimately show ?thesis using sent
    by (intro exI [of _ blobs] exI [of _ namespace]) (simp add: read test_da_client_def)
qed

end
