(* ===== verification/Services.thy ===== *)
theory Services
  imports Log_Parser
begin

text \<open>
  Services that run on: \<^verbatim>\<open>rome-utils/src/services\<close>.  The runner restarts a service, the
  pollers ask an address again and again, the listener reads a web socket.  A service is a
  function of a state that may end (then it says how long it ran) or run on (\<open>None\<close>);
  network answers are given by the number of requests before.
\<close>

section \<open>The service runner\<close>

type_synonym u32 = "32 word"

record service_runner =
  unhealthy_retries :: u32
  healthy_within_ms :: u64
  max_retries :: u32
  retry_interval_ms :: u64

definition default_service_runner :: service_runner where
  "default_service_runner = \<lparr>unhealthy_retries = 5, healthy_within_ms = 5000, max_retries = -1, retry_interval_ms = 100\<rparr>"

text \<open>
  A service with the result it ends with and the milliseconds it took.  A panic of the service unwinds through
  the runner, which does not restart it.
\<close>

type_synonym ('s, 'r) service = "'s \<Rightarrow> ('s \<times> 'r res \<times> nat) option"

definition add_u32 :: "u32 \<Rightarrow> u32 res" where
  "add_u32 n = (if n = -1 then Panic ''attempt to add with overflow'' else Ok (n + 1))"

fun run_loop :: "nat \<Rightarrow> service_runner \<Rightarrow> ('s, 'r) service \<Rightarrow> u32 \<Rightarrow> u32 \<Rightarrow> 's \<Rightarrow> ('s \<times> unit res) option" where
  "run_loop 0 sr service retries unhealthy s = None"
| "run_loop (Suc n) sr service retries unhealthy s =
     (case service s of
        None \<Rightarrow> None
      | Some (s, Panic m, elapsed) \<Rightarrow> Some (s, Panic m)
      | Some (s, res, elapsed) \<Rightarrow>
          (case try_res (if elapsed < unat (healthy_within_ms sr) then add_u32 unhealthy else Ok 0) (\<lambda>unhealthy.
                  try_res (add_u32 retries) (\<lambda>retries. Ok (unhealthy, retries))) of
             Ok (unhealthy, retries) \<Rightarrow>
               if unhealthy_retries sr \<le> unhealthy \<or> max_retries sr \<le> retries
               then Some (s, Err (Custom ''Service failed too many times, giving up''))
               else run_loop n sr service retries unhealthy s
           | Err e \<Rightarrow> Some (s, Err e)
           | Panic m \<Rightarrow> Some (s, Panic m)))"

definition service_run :: "nat \<Rightarrow> service_runner \<Rightarrow> ('s, 'r) service \<Rightarrow> 's \<Rightarrow> ('s \<times> unit res) option" where
  "service_run n sr service s = run_loop n sr service 0 0 s"

subsection \<open>When it gives up\<close>

text \<open>The runs that ended too quickly, without a longer one in between.\<close>

fun quick_streak :: "(nat \<Rightarrow> bool) \<Rightarrow> nat \<Rightarrow> nat" where
  "quick_streak quick 0 = 0"
| "quick_streak quick (Suc i) = (if quick i then Suc (quick_streak quick i) else 0)"

definition gives_up :: "service_runner \<Rightarrow> (nat \<Rightarrow> bool) \<Rightarrow> nat \<Rightarrow> bool" where
  "gives_up sr quick k \<longleftrightarrow> unat (max_retries sr) \<le> k \<or>
     (unat (unhealthy_retries sr) \<le> k \<and> (\<forall>i. k - unat (unhealthy_retries sr) \<le> i \<and> i < k \<longrightarrow> quick i))"

lemma quick_streak_le: "quick_streak quick k \<le> k"
  by (induction k) auto

lemma quick_streak_iff: "u \<le> quick_streak quick k \<longleftrightarrow> u \<le> k \<and> (\<forall>i. k - u \<le> i \<and> i < k \<longrightarrow> quick i)"
proof (induction k arbitrary: u)
  case (Suc k)
  show ?case
  proof (cases u)
    case (Suc v)
    have "(\<forall>i. k - v \<le> i \<and> i < Suc k \<longrightarrow> quick i) \<longleftrightarrow> quick k \<and> (\<forall>i. k - v \<le> i \<and> i < k \<longrightarrow> quick i)"
      by (auto simp: less_Suc_eq)
    then show ?thesis using Suc.IH [of v] by (auto simp: Suc)
  qed auto
qed simp

lemma gives_up_streak:
  "gives_up sr quick k \<longleftrightarrow> unat (max_retries sr) \<le> k \<or> unat (unhealthy_retries sr) \<le> quick_streak quick k"
  by (simp add: gives_up_def quick_streak_iff)

lemma add_u32_of_nat: "n < 2 ^ 32 - 1 \<Longrightarrow> add_u32 (word_of_nat n) = Ok (word_of_nat (Suc n))"
proof -
  assume n: "n < 2 ^ 32 - 1"
  then have "unat (word_of_nat n :: u32) \<noteq> unat (-1 :: u32)"
    by (simp add: unat_of_nat unsigned_minus_1_eq_mask mask_eq_exp_minus_1)
  then show ?thesis by (auto simp: add_u32_def add.commute)
qed

lemma gives_up_at_max: "gives_up sr quick (max 1 (unat (max_retries sr)))"
  by (simp add: gives_up_def)

text \<open>A service that always ends without a panic, in the states \<open>st i\<close> after the times \<open>time i\<close>.\<close>

definition ends_after :: "('s, 'r) service \<Rightarrow> (nat \<Rightarrow> 's) \<Rightarrow> (nat \<Rightarrow> nat) \<Rightarrow> bool" where
  "ends_after service st time \<longleftrightarrow> (\<forall>i. \<exists>r. \<not> is_panic r \<and> service (st i) = Some (st (Suc i), r, time i))"

lemma run_loop_gives_up:
  assumes "ends_after service st time" and "quick = (\<lambda>i. time i < unat (healthy_within_ms sr))"
    and "0 < k" and "gives_up sr quick k" and "\<forall>j. 0 < j \<and> j < k \<longrightarrow> \<not> gives_up sr quick j"
    and "i < k" and "k \<le> i + n"
  shows "run_loop n sr service (word_of_nat i) (word_of_nat (quick_streak quick i)) (st i) =
    Some (st k, Err (Custom ''Service failed too many times, giving up''))"
  using assms(6,7)
proof (induction n arbitrary: i)
  case (Suc n)
  have "k \<le> unat (max_retries sr) \<or> k = 1"
    using assms(3,5) gives_up_at_max [of sr quick] by (cases "max 1 (unat (max_retries sr)) < k") auto
  then have i: "i < 2 ^ 32 - 1" using Suc.prems unsigned_less [of "max_retries sr", where ?'a = nat] by auto
  then have streak: "quick_streak quick i < 2 ^ 32 - 1" using quick_streak_le [of quick i] by simp
  obtain r where run: "service (st i) = Some (st (Suc i), r, time i)" and np: "\<not> is_panic r"
    using assms(1) by (auto simp: ends_after_def)
  have counted: "(if time i < unat (healthy_within_ms sr) then add_u32 (word_of_nat (quick_streak quick i)) else Ok 0) =
      Ok (word_of_nat (quick_streak quick (Suc i)))"
    using add_u32_of_nat [OF streak] by (simp add: assms(2))
  have small: "unat (word_of_nat (Suc i) :: u32) = Suc i"
    "unat (word_of_nat (quick_streak quick (Suc i)) :: u32) = quick_streak quick (Suc i)"
    using i quick_streak_le [of quick "Suc i"] by (simp_all add: unat_of_nat del: quick_streak.simps of_nat_Suc)
  have "unhealthy_retries sr \<le> word_of_nat (quick_streak quick (Suc i)) \<or> max_retries sr \<le> word_of_nat (Suc i) \<longleftrightarrow>
      gives_up sr quick (Suc i)"
    by (simp add: gives_up_streak word_le_nat_alt small disj_commute del: quick_streak.simps of_nat_Suc)
  then have step: "run_loop (Suc n) sr service (word_of_nat i) (word_of_nat (quick_streak quick i)) (st i) =
      (if gives_up sr quick (Suc i) then Some (st (Suc i), Err (Custom ''Service failed too many times, giving up''))
       else run_loop n sr service (word_of_nat (Suc i)) (word_of_nat (quick_streak quick (Suc i))) (st (Suc i)))"
    using np by (cases r) (simp_all add: run counted add_u32_of_nat [OF i] del: quick_streak.simps of_nat_Suc)
  show ?case
  proof (cases "Suc i = k")
    case False
    then show ?thesis using Suc.IH [of "Suc i"] Suc.prems assms(5) step by simp
  qed (use step assms(4) in simp)
qed simp

lemma some_gives_up:
  obtains k where "0 < k" and "gives_up sr quick k" and "\<forall>j. 0 < j \<and> j < k \<longrightarrow> \<not> gives_up sr quick j"
    and "k \<le> max 1 (unat (max_retries sr))"
proof -
  define k where "k = (LEAST k. 0 < k \<and> gives_up sr quick k)"
  have max: "0 < max 1 (unat (max_retries sr)) \<and> gives_up sr quick (max 1 (unat (max_retries sr)))"
    using gives_up_at_max by simp
  show thesis
  proof (rule that)
    show "0 < k" and "gives_up sr quick k" unfolding k_def using LeastI [of "\<lambda>k. 0 < k \<and> gives_up sr quick k", OF max] by auto
    show "k \<le> max 1 (unat (max_retries sr))" unfolding k_def using Least_le [of "\<lambda>k. 0 < k \<and> gives_up sr quick k", OF max] .
    show "\<forall>j. 0 < j \<and> j < k \<longrightarrow> \<not> gives_up sr quick j" unfolding k_def using not_less_Least by blast
  qed
qed



section \<open>Pollers\<close>

text \<open>
  The answer to a posted request: none, a status with or without a readable body.  The
  interval of \<^verbatim>\<open>tokio::time::interval\<close> completes its first tick at once and later ones at
  multiples of the period after it was made, or immediately when they are overdue; a period of
  zero panics.
\<close>

datatype http_answer = NoAnswer | HttpAnswer nat "bytes option"

record ('p, 'a) poll_net =
  pn_post :: "nat \<Rightarrow> 'p \<Rightarrow> http_answer"
  pn_parse :: "bytes \<Rightarrow> 'a option"
  pn_elapsed :: "nat \<Rightarrow> nat"

record interval =
  iv_period :: nat
  iv_next :: nat

definition new_interval :: "nat \<Rightarrow> nat \<Rightarrow> interval res" where
  "new_interval period now = (if period = 0 then Panic ''period must be non-zero'' else Ok \<lparr>iv_period = period, iv_next = now\<rparr>)"

definition interval_tick :: "interval \<Rightarrow> nat \<Rightarrow> interval \<times> nat" where
  "interval_tick iv now = (iv\<lparr>iv_next := iv_next iv + iv_period iv\<rparr>, max now (iv_next iv))"

text \<open>Requests made, the times they were made at, the data sent to the channel, the clock.\<close>

record 'a poll_state =
  ps_asked :: "nat list"
  ps_channel :: "'a list"
  ps_now :: nat

definition poll_step :: "('p, 'a) poll_net \<Rightarrow> 'p \<Rightarrow> 'a poll_state \<Rightarrow> 'a poll_state \<times> 'a res" where
  "poll_step net payload s =
     (let t = length (ps_asked s) in
      (s\<lparr>ps_asked := ps_asked s @ [ps_now s], ps_now := ps_now s + pn_elapsed net t\<rparr>,
       case pn_post net t payload of
         NoAnswer \<Rightarrow> Err (Custom ''Failed to send request'')
       | HttpAnswer status body \<Rightarrow>
           if \<not> (200 \<le> status \<and> status < 300) then Err (Custom ''Failed to send request'')
           else try_res (ok_or (Custom ''Failed to get response text'') body) (\<lambda>body.
             ok_or (Custom ''Failed to parse response'') (pn_parse net body))))"

definition send_polled :: "'a \<Rightarrow> 'a poll_state \<Rightarrow> 'a poll_state" where
  "send_polled x s = s\<lparr>ps_channel := ps_channel s @ [x]\<rparr>"

fun constant_loop :: "nat \<Rightarrow> ('p, 'a) poll_net \<Rightarrow> 'p \<Rightarrow> interval \<Rightarrow> 'a poll_state \<Rightarrow> ('a poll_state \<times> unit res) option" where
  "constant_loop 0 net payload iv s = None"
| "constant_loop (Suc n) net payload iv s =
     (case poll_step net payload s of
        (s, Ok x) \<Rightarrow>
          (case interval_tick iv (ps_now s) of (iv, now) \<Rightarrow>
             constant_loop n net payload iv ((send_polled x s)\<lparr>ps_now := now\<rparr>))
      | (s, Err e) \<Rightarrow> Some (s, Err e)
      | (s, Panic m) \<Rightarrow> Some (s, Panic m))"

definition constant_poll ::
  "nat \<Rightarrow> ('p, 'a) poll_net \<Rightarrow> 'p \<Rightarrow> nat \<Rightarrow> 'a poll_state \<Rightarrow> ('a poll_state \<times> unit res) option" where
  "constant_poll n net payload period s =
     (case new_interval period (ps_now s) of
        Ok iv \<Rightarrow> constant_loop n net payload iv s
      | Err e \<Rightarrow> Some (s, Err e)
      | Panic m \<Rightarrow> Some (s, Panic m))"

text \<open>The payload and the period of the atomic poller may change; they are read in every round.\<close>

fun atomic_poll ::
  "nat \<Rightarrow> ('p, 'a) poll_net \<Rightarrow> (nat \<Rightarrow> 'p) \<Rightarrow> (nat \<Rightarrow> nat) \<Rightarrow> 'a poll_state \<Rightarrow> ('a poll_state \<times> unit res) option" where
  "atomic_poll 0 net payload interval_ms s = None"
| "atomic_poll (Suc n) net payload interval_ms s =
     (case new_interval (interval_ms (length (ps_asked s))) (ps_now s) of
        Ok iv \<Rightarrow>
          (case poll_step net (payload (length (ps_asked s))) s of
             (s, Ok x) \<Rightarrow>
               (case interval_tick iv (ps_now s) of (iv, now) \<Rightarrow>
                  atomic_poll n net payload interval_ms ((send_polled x s)\<lparr>ps_now := now\<rparr>))
           | (s, Err e) \<Rightarrow> Some (s, Err e)
           | (s, Panic m) \<Rightarrow> Some (s, Panic m))
      | Err e \<Rightarrow> Some (s, Err e)
      | Panic m \<Rightarrow> Some (s, Panic m))"

datatype 'p poller_strategy = AtomicPoller "nat \<Rightarrow> 'p" "nat \<Rightarrow> nat" | ConstantPoller 'p nat

definition poller_listen ::
  "nat \<Rightarrow> ('p, 'a) poll_net \<Rightarrow> 'p poller_strategy \<Rightarrow> 'a poll_state \<Rightarrow> ('a poll_state \<times> unit res) option" where
  "poller_listen n net strategy s = (case strategy of
     AtomicPoller payload interval_ms \<Rightarrow> atomic_poll n net payload interval_ms s
   | ConstantPoller payload period \<Rightarrow> constant_poll n net payload period s)"

definition listen_with_service_runner ::
  "nat \<Rightarrow> ('p, 'a) poll_net \<Rightarrow> 'p poller_strategy \<Rightarrow> service_runner \<Rightarrow> 'a poll_state \<Rightarrow> ('a poll_state \<times> unit res) option" where
  "listen_with_service_runner n net strategy sr =
     service_run n sr (\<lambda>s. map_option (\<lambda>(s', res). (s', res, ps_now s' - ps_now s)) (poller_listen n net strategy s))"

text \<open>
  \<^verbatim>\<open>GethPendingTxsIndexer::listen\<close> (\<^verbatim>\<open>rome-geth/src/indexers/pending_txs.rs\<close>) polls
  \<^verbatim>\<open>txpool_content\<close>, and fails whenever polling ends.
\<close>

definition geth_pending_listen ::
  "nat \<Rightarrow> (string, 'a) poll_net \<Rightarrow> nat \<Rightarrow> service_runner \<Rightarrow> 'a poll_state \<Rightarrow> ('a poll_state \<times> unit res) option" where
  "geth_pending_listen n net poll_interval_ms sr s =
     map_option (\<lambda>(s, _). (s, Err (Custom ''Geth Polling failed'')))
       (listen_with_service_runner n net (ConstantPoller ''txpool_content'' poll_interval_ms) sr s)"

subsection \<open>What is polled\<close>

text \<open>The data of the requests \<open>a\<close>, \<open>a + 1\<close>, ... that succeed.\<close>

definition polled :: "('p, 'a) poll_net \<Rightarrow> 'p \<Rightarrow> nat \<Rightarrow> 'a res" where
  "polled net payload t = snd (poll_step net payload \<lparr>ps_asked = replicate t 0, ps_channel = [], ps_now = 0\<rparr>)"

lemma poll_step_eq:
  "poll_step net payload s = (s\<lparr>ps_asked := ps_asked s @ [ps_now s],
     ps_now := ps_now s + pn_elapsed net (length (ps_asked s))\<rparr>, polled net payload (length (ps_asked s)))"
  by (simp add: poll_step_def polled_def Let_def)

text \<open>
  A poller that ends has sent to the channel the data of all its requests but the last, in
  order; the last one failed.
\<close>

lemma constant_loop_sends:
  assumes "constant_loop n net payload iv s = Some (s', r)"
  shows "\<exists>xs. ps_channel s' = ps_channel s @ xs \<and> length (ps_asked s') = Suc (length (ps_asked s) + length xs) \<and>
    (\<forall>i < length xs. polled net payload (length (ps_asked s) + i) = Ok (xs ! i)) \<and>
    \<not> is_ok (polled net payload (length (ps_asked s) + length xs)) \<and> \<not> is_ok r"
  using assms
proof (induction n arbitrary: iv s)
  case (Suc n)
  show ?case
  proof (cases "polled net payload (length (ps_asked s))")
    case (Ok x)
    then obtain iv1 s1 where rest: "constant_loop n net payload iv1 s1 = Some (s', r)"
      and s1: "ps_channel s1 = ps_channel s @ [x]" "length (ps_asked s1) = Suc (length (ps_asked s))"
      using Suc.prems by (auto simp: poll_step_eq send_polled_def split: prod.splits)
    from Suc.IH [OF rest] obtain xs where xs: "ps_channel s' = ps_channel s @ x # xs"
      "length (ps_asked s') = Suc (length (ps_asked s) + length (x # xs))"
      "\<forall>i < length xs. polled net payload (Suc (length (ps_asked s)) + i) = Ok (xs ! i)"
      "\<not> is_ok (polled net payload (length (ps_asked s) + length (x # xs)))" "\<not> is_ok r"
      by (auto simp: s1)
    have "\<forall>i < length (x # xs). polled net payload (length (ps_asked s) + i) = Ok ((x # xs) ! i)"
      using xs(3) Ok by (auto simp: nth_Cons split: nat.split)
    with xs show ?thesis by blast
  qed (use Suc.prems in \<open>auto simp: poll_step_eq intro!: exI [of _ "[]"]\<close>)
qed simp

text \<open>
  The atomic poller makes its interval anew in every round, so its tick never waits: every
  request is made the moment the one before it has ended.
\<close>

lemma atomic_poll_never_waits:
  assumes "atomic_poll n net payload interval_ms s = Some (s', r)"
  shows "\<exists>ts. ps_asked s' = ps_asked s @ ts \<and>
    (\<forall>i < length ts. ts ! i = ps_now s + (\<Sum>j < i. pn_elapsed net (length (ps_asked s) + j)))"
  using assms
proof (induction n arbitrary: s)
  case (Suc n)
  let ?t = "length (ps_asked s)"
  show ?case
  proof (cases "new_interval (interval_ms ?t) (ps_now s)")
    case (Ok iv)
    then have iv: "iv_next iv = ps_now s" by (auto simp: new_interval_def split: if_splits)
    show ?thesis
    proof (cases "polled net (payload ?t) ?t")
      case (Ok x)
      define s1 where "s1 = (send_polled x (s\<lparr>ps_asked := ps_asked s @ [ps_now s]\<rparr>))\<lparr>ps_now := ps_now s + pn_elapsed net ?t\<rparr>"
      have "atomic_poll n net payload interval_ms s1 = Some (s', r)"
        using Suc.prems Ok iv \<open>new_interval _ _ = Ok iv\<close>
        by (simp add: poll_step_eq interval_tick_def send_polled_def s1_def max_absorb1)
      from Suc.IH [OF this] obtain ts where ts: "ps_asked s' = ps_asked s @ ps_now s # ts"
        "\<forall>i < length ts. ts ! i = ps_now s + pn_elapsed net ?t + (\<Sum>j < i. pn_elapsed net (Suc ?t + j))"
        by (auto simp: s1_def send_polled_def)
      have "\<forall>i < length (ps_now s # ts). (ps_now s # ts) ! i = ps_now s + (\<Sum>j < i. pn_elapsed net (?t + j))"
        using ts(2) by (auto simp: nth_Cons sum.lessThan_Suc_shift simp del: sum.lessThan_Suc split: nat.split)
      with ts(1) show ?thesis by blast
    qed (use Suc.prems Ok in \<open>auto simp: poll_step_eq intro!: exI [of _ "[ps_now s]"]\<close>)
  qed (use Suc.prems in \<open>auto simp: intro!: exI [of _ "[]"]\<close>)
qed simp

section \<open>The web socket listener\<close>

text \<open>
  \<^verbatim>\<open>ws_listner.rs\<close>: a connection, when it can be opened and the payload sent, gives the
  frames read before it breaks; \<open>wn_pong_sent\<close> says whether an answer to a frame can be sent.
\<close>

datatype ws_frame = FrameText rstr | FramePing bytes | FramePong bytes | FrameClose | FrameOther

record 'a rpc_response =
  rr_id :: "rstr option"
  rr_error :: "rstr option"
  rr_result :: "'a option"

record 'a ws_net =
  wn_connect :: "nat \<Rightarrow> ws_frame list option"
  wn_parse :: "rstr \<Rightarrow> 'a rpc_response option"
  wn_pong_sent :: "bytes \<Rightarrow> bool"

record 'a ws_state =
  ws_connects :: nat
  ws_channel :: "'a list"
  ws_pongs :: "bytes list"

definition response_data :: "rstr \<Rightarrow> 'a rpc_response \<Rightarrow> 'a option" where
  "response_data payload_id m =
     (case rr_id m of
        None \<Rightarrow> None
      | Some i \<Rightarrow> if i \<noteq> payload_id then None else if rr_error m \<noteq> None then None else rr_result m)"

fun listen_socket :: "'a ws_net \<Rightarrow> rstr \<Rightarrow> ws_frame list \<Rightarrow> 'a ws_state \<Rightarrow> 'a ws_state \<times> unit res" where
  "listen_socket net payload_id [] s = (s, Err (Custom ''Connection closed unexpectedly''))"
| "listen_socket net payload_id (FrameText text # fs) s =
     (case wn_parse net text of
        None \<Rightarrow> (s, Err (Custom ''Failed to parse message''))
      | Some m \<Rightarrow> listen_socket net payload_id fs
          (case response_data payload_id m of None \<Rightarrow> s | Some x \<Rightarrow> s\<lparr>ws_channel := ws_channel s @ [x]\<rparr>))"
| "listen_socket net payload_id (FramePing res # fs) s =
     (if wn_pong_sent net res then listen_socket net payload_id fs (s\<lparr>ws_pongs := ws_pongs s @ [res]\<rparr>)
      else (s, Err (Custom ''Failed to send pong'')))"
| "listen_socket net payload_id (FramePong res # fs) s =
     (if wn_pong_sent net res then listen_socket net payload_id fs (s\<lparr>ws_pongs := ws_pongs s @ [res]\<rparr>)
      else (s, Err (Custom ''Failed to send pong'')))"
| "listen_socket net payload_id (FrameClose # fs) s = (s, Err (Custom ''Received close message. Closing...''))"
| "listen_socket net payload_id (FrameOther # fs) s = listen_socket net payload_id fs s"

definition ws_open :: "'a ws_net \<Rightarrow> 'a ws_state \<Rightarrow> 'a ws_state \<times> ws_frame list option" where
  "ws_open net s = (s\<lparr>ws_connects := Suc (ws_connects s)\<rparr>, wn_connect net (ws_connects s))"

function ws_listen :: "'a ws_net \<Rightarrow> rstr \<Rightarrow> nat \<Rightarrow> nat \<Rightarrow> 'a ws_state \<Rightarrow> 'a ws_state \<times> unit res" where
  "ws_listen net payload_id sub_errors parse_errors s =
     (if \<not> (sub_errors < 5 \<and> parse_errors < 5) then (s, Err (Custom ''Too many errors connecting''))
      else (case ws_open net s of
        (s, None) \<Rightarrow> ws_listen net payload_id (Suc sub_errors) parse_errors s
      | (s, Some socket) \<Rightarrow>
          (case listen_socket net payload_id socket s of
             (s, Err err) \<Rightarrow> ws_listen net payload_id 0 (Suc parse_errors) s
           | (s, _) \<Rightarrow> (s, Panic ''unreachable''))))"
  by pat_completeness auto
termination
  by (relation "measures [\<lambda>(_, _, _, p, _). 5 - p, \<lambda>(_, _, q, _, _). 5 - q]") auto

declare ws_listen.simps [simp del]

lemma listen_socket_ends:
  "\<exists>e s'. listen_socket net payload_id frames s = (s', Err e) \<and> ws_connects s' = ws_connects s"
  by (induction net payload_id frames s rule: listen_socket.induct) (auto split: option.split)

lemma ws_listen_bound:
  "sub_errors \<le> 5 \<Longrightarrow> parse_errors \<le> 5 \<Longrightarrow>
   snd (ws_listen net payload_id sub_errors parse_errors s) = Err (Custom ''Too many errors connecting'') \<and>
   ws_connects (fst (ws_listen net payload_id sub_errors parse_errors s)) + (if parse_errors < 5 then sub_errors else 0) \<le>
     ws_connects s + 5 * (5 - parse_errors)"
proof (induction net payload_id sub_errors parse_errors s rule: ws_listen.induct)
  case (1 net payload_id sub_errors parse_errors s)
  show ?case
  proof (cases "sub_errors < 5 \<and> parse_errors < 5")
    case True
    obtain s1 socket where one: "ws_open net s = (s1, socket)" and s1: "ws_connects s1 = Suc (ws_connects s)"
      by (simp add: ws_open_def)
    show ?thesis
    proof (cases socket)
      case None
      have "ws_listen net payload_id sub_errors parse_errors s = ws_listen net payload_id (Suc sub_errors) parse_errors s1"
        using True one None by (subst ws_listen.simps) simp
      moreover have "Suc sub_errors \<le> 5" using True by simp
      ultimately show ?thesis using 1(1) [OF _ one [symmetric] None] True s1 1(4) by auto
    next
      case (Some frames)
      obtain e s2 where sock: "listen_socket net payload_id frames s1 = (s2, Err e)" and s2: "ws_connects s2 = ws_connects s1"
        using listen_socket_ends by blast
      have "ws_listen net payload_id sub_errors parse_errors s = ws_listen net payload_id 0 (Suc parse_errors) s2"
        using True one Some sock by (subst ws_listen.simps) simp
      moreover have "Suc parse_errors \<le> 5" using True by simp
      ultimately show ?thesis using 1(2) [OF _ one [symmetric] Some sock [symmetric]] True s1 s2 by (auto split: if_splits)
    qed
  next
    case False
    then have "ws_listen net payload_id sub_errors parse_errors s = (s, Err (Custom ''Too many errors connecting''))"
      by (subst ws_listen.simps) simp
    then show ?thesis using False 1(3,4) by auto
  qed
qed

text \<open>
  The listener ends with an error after at most 25 attempts to connect: five in a row that
  fail, or five connections that break, between which up to four attempts may fail.
\<close>

lemma ws_listener_gives_up:
  "\<exists>s' e. ws_listen net payload_id 0 0 s = (s', Err e) \<and> ws_connects s' \<le> ws_connects s + 25"
  using ws_listen_bound [of 0 0 net payload_id s] by (cases "ws_listen net payload_id 0 0 s") auto

end
