(* ===== verification/Solana_Indexers.thy ===== *)
theory Solana_Indexers
  imports Services Ix_Batches
begin

text \<open>
  The indexers of \<^verbatim>\<open>rome-solana/src/indexers\<close>: the slots with blocks, the blocks of
  those slots with a bounded number of requests at a time, and the clock.  The node is given by
  its answers to the calls so far.
\<close>

section \<open>Slots\<close>

record 'b block_node =
  bn_get_slot :: "nat \<Rightarrow> slot res"
  bn_get_blocks :: "nat \<Rightarrow> slot \<Rightarrow> slot list res"
  bn_get_block :: "nat \<Rightarrow> slot \<Rightarrow> 'b res"
  bn_elapsed :: "nat \<Rightarrow> nat"

text \<open>Calls made and the slots sent to the channel.\<close>

type_synonym slot_state = "nat \<times> slot list"

fun index_slots_loop :: "nat \<Rightarrow> 'b block_node \<Rightarrow> slot \<Rightarrow> slot_state \<Rightarrow> (slot_state \<times> unit res) option" where
  "index_slots_loop 0 node slot_nr st = None"
| "index_slots_loop (Suc n) node slot_nr (t, sent) =
     (case bn_get_blocks node t slot_nr of
        Ok [] \<Rightarrow> index_slots_loop n node slot_nr (Suc t, sent)
      | Ok (b # bs) \<Rightarrow>
          if last (b # bs) = -1 then Some ((Suc t, sent), Panic ''attempt to add with overflow'')
          else index_slots_loop n node (last (b # bs) + 1) (Suc t, sent @ b # bs)
      | Err e \<Rightarrow> Some ((Suc t, sent), Err e)
      | Panic m \<Rightarrow> Some ((Suc t, sent), Panic m))"

definition index_slots :: "nat \<Rightarrow> 'b block_node \<Rightarrow> slot option \<Rightarrow> slot_state \<Rightarrow> (slot_state \<times> unit res) option" where
  "index_slots n node start_slot st = (case st of (t, sent) \<Rightarrow>
     (case start_slot of
        Some value \<Rightarrow> index_slots_loop n node value (t, sent)
      | None \<Rightarrow>
          (case bn_get_slot node t of
             Ok slot_nr \<Rightarrow> index_slots_loop n node slot_nr (Suc t, sent)
           | Err e \<Rightarrow> Some ((Suc t, sent), Err e)
           | Panic m \<Rightarrow> Some ((Suc t, sent), Panic m))))"

text \<open>\<^verbatim>\<open>index\<close> runs the slot task under the service runner.\<close>

definition slot_service :: "nat \<Rightarrow> 'b block_node \<Rightarrow> service_runner \<Rightarrow> slot option \<Rightarrow> slot_state \<Rightarrow> (slot_state \<times> unit res) option" where
  "slot_service n node sr start_slot =
     service_run n sr (\<lambda>st. map_option (\<lambda>(st', r). (st', r, \<Sum>t \<leftarrow> [fst st..<fst st']. bn_elapsed node t)) (index_slots n node start_slot st))"

text \<open>
  A node with the slots of the chain that have a block: it answers with those from the slot
  asked for up to its head.
\<close>

definition serves :: "'b block_node \<Rightarrow> slot list \<Rightarrow> bool" where
  "serves node chain \<longleftrightarrow> sorted_wrt (<) chain \<and>
     (\<forall>t a. (\<exists>h. bn_get_blocks node t a = Ok (filter (\<lambda>k. a \<le> k \<and> k \<le> h) chain)) \<or> (\<exists>e. bn_get_blocks node t a = Err e))"

lemma filter_range_append:
  assumes "sorted_wrt (<) (chain :: slot list)" and "a \<le> b" and "b \<le> c"
  shows "filter (\<lambda>k. a \<le> k \<and> k < b) chain @ filter (\<lambda>k. b \<le> k \<and> k < c) chain = filter (\<lambda>k. a \<le> k \<and> k < c) chain"
  using assms(1)
proof (induction chain)
  case (Cons x chain)
  show ?case
  proof (cases "x < b")
    case True
    then show ?thesis using Cons assms(2,3) by (auto simp: not_le)
  next
    case False
    then have "\<forall>k \<in> set chain. \<not> k < b" using Cons.prems by auto
    then have "filter (\<lambda>k. a \<le> k \<and> k < b) chain = []" by (simp add: filter_empty_conv)
    moreover have "a \<le> x" using False assms(2) by simp
    ultimately show ?thesis using Cons False by auto
  qed
qed simp

lemma filter_empty_range [simp]: "filter (\<lambda>k. b \<le> k \<and> k < (b :: slot)) chain = []"
  by (auto simp: filter_empty_conv not_less)

lemma sorted_below_last: "sorted_wrt (<) (xs :: slot list) \<Longrightarrow> k \<in> set xs \<Longrightarrow> k \<le> last xs"
  by (induction xs) (auto split: if_splits intro: less_imp_le less_le_trans)

lemma less_next: "(l :: slot) \<noteq> -1 \<Longrightarrow> k < l + 1 \<longleftrightarrow> k \<le> l"
proof -
  assume "l \<noteq> -1"
  then have "1 + l \<noteq> 0" by (metis add.commute eq_neg_iff_add_eq_0)
  from unatSuc [OF this] show ?thesis by (simp add: word_less_nat_alt word_le_nat_alt add.commute less_Suc_eq_le)
qed

lemma served_range:
  assumes "sorted_wrt (<) (chain :: slot list)" and "filter (\<lambda>k. b \<le> k \<and> k \<le> h) chain = x # xs" and "last (x # xs) \<noteq> -1"
  shows "filter (\<lambda>k. b \<le> k \<and> k \<le> h) chain = filter (\<lambda>k. b \<le> k \<and> k < last (x # xs) + 1) chain \<and> b \<le> last (x # xs) + 1"
proof -
  let ?l = "last (x # xs)"
  have l: "b \<le> ?l" "?l \<le> h" "?l \<in> set chain"
    using last_in_set [of "x # xs"] assms(2) by (metis (mono_tags, lifting) list.discI mem_Collect_eq set_filter)+
  have below: "k < ?l + 1 \<longleftrightarrow> k \<le> ?l" for k by (rule less_next [OF assms(3)])
  have "sorted_wrt (<) (x # xs)" using assms(1,2) by (metis sorted_wrt_filter)
  from sorted_below_last [OF this] have "k \<le> ?l" if "k \<in> set chain" "b \<le> k" "k \<le> h" for k
    using that assms(2) by (metis (mono_tags, lifting) mem_Collect_eq set_filter)
  moreover have "b \<le> ?l + 1" using l(1) below [of b] by (simp add: less_imp_le)
  ultimately show ?thesis using l below by (auto intro!: filter_cong)
qed

lemma index_slots_loop_sends:
  assumes "serves node chain" and "index_slots_loop n node b (t, sent) = Some ((t', sent'), r)"
  shows "\<exists>c. b \<le> c \<and> sent' = sent @ filter (\<lambda>k. b \<le> k \<and> k < c) chain \<and> \<not> is_ok r"
  using assms(2)
proof (induction n arbitrary: b t sent)
  case (Suc n)
  consider h where "bn_get_blocks node t b = Ok (filter (\<lambda>k. b \<le> k \<and> k \<le> h) chain)" | e where "bn_get_blocks node t b = Err e"
    using assms(1) unfolding serves_def by blast
  then show ?case
  proof cases
    case (1 h)
    have sorted: "sorted_wrt (<) chain" using assms(1) by (simp add: serves_def)
    show ?thesis
    proof (cases "filter (\<lambda>k. b \<le> k \<and> k \<le> h) chain")
      case Nil
      then show ?thesis using Suc 1 by simp
    next
      case (Cons x xs)
      show ?thesis
      proof (cases "last (x # xs) = -1")
        case True
        then show ?thesis using Suc.prems 1 Cons by (auto intro!: exI [of _ b])
      next
        case False
        note range = served_range [OF sorted Cons False]
        have "index_slots_loop n node (last (x # xs) + 1) (Suc t, sent @ x # xs) = Some ((t', sent'), r)"
          using Suc.prems 1 Cons False by simp
        from Suc.IH [OF this] obtain c where c: "last (x # xs) + 1 \<le> c" "\<not> is_ok r"
          "sent' = (sent @ x # xs) @ filter (\<lambda>k. last (x # xs) + 1 \<le> k \<and> k < c) chain" by blast
        have "x # xs @ filter (\<lambda>k. last (x # xs) + 1 \<le> k \<and> k < c) chain = filter (\<lambda>k. b \<le> k \<and> k < c) chain"
          using filter_range_append [OF sorted conjunct2 [OF range] c(1)] conjunct1 [OF range] unfolding Cons by (metis append_Cons)
        then have "sent' = sent @ filter (\<lambda>k. b \<le> k \<and> k < c) chain" using c(3) by simp
        moreover have "b \<le> c" using conjunct2 [OF range] c(1) by (rule order_trans)
        ultimately show ?thesis using c(2) by blast
      qed
    qed
  qed (use Suc.prems in \<open>auto intro!: exI [of _ b]\<close>)
qed simp

text \<open>
  C40. Between two failures the slot indexer sends every slot with a block from its start, once and
  in order; it ends only with an error.  But a run that was given a start slot begins there
  again, whatever was sent before: restarted by the runner it repeats itself.
\<close>

theorem slots_indexed_in_order:
  assumes "serves node chain" and "index_slots n node (Some a) (t, sent) = Some ((t', sent'), r)"
  shows "\<exists>c. a \<le> c \<and> sent' = sent @ filter (\<lambda>k. a \<le> k \<and> k < c) chain \<and> \<not> is_ok r"
  using assms index_slots_loop_sends by (fastforce simp: index_slots_def)

definition test_block_node :: "nat block_node" where
  "test_block_node = \<lparr>bn_get_slot = (\<lambda>_. Ok 9), bn_get_blocks = (\<lambda>t a. if t = 2 then Err (Custom ''node'')
     else Ok (filter (\<lambda>k. a \<le> k \<and> k \<le> (if t = 0 then 5 else 9)) [3, 5, 8])), bn_get_block = (\<lambda>t k. Ok t), bn_elapsed = (\<lambda>_. 40)\<rparr>"

lemma test_serves: "serves test_block_node [3, 5, 8]"
  unfolding serves_def
proof (intro conjI allI)
  fix t a
  show "(\<exists>h. bn_get_blocks test_block_node t a = Ok (filter (\<lambda>k. a \<le> k \<and> k \<le> h) [3, 5, 8])) \<or>
      (\<exists>e. bn_get_blocks test_block_node t a = Err e)"
    unfolding test_block_node_def block_node.simps by (cases "t = 2"; cases "t = 0") (simp_all del: filter.simps, blast+)
qed simp

theorem slots_indexed_in_order_witness:
  "index_slots 3 test_block_node (Some 4) (0, []) = Some ((3, [5, 8]), Err (Custom ''node'')) \<and>
   (\<exists>c. [5, 8] = [] @ filter (\<lambda>k. 4 \<le> k \<and> k < c) [3, 5, 8 :: slot])"
proof -
  have run: "index_slots 3 test_block_node (Some 4) (0, []) = Some ((3, [5, 8]), Err (Custom ''node''))"
    by (simp add: index_slots_def test_block_node_def numeral_3_eq_3)
  from slots_indexed_in_order [OF test_serves this] run show ?thesis by blast
qed

section \<open>Blocks\<close>

text \<open>
  The task of a slot: the future the runner restarts asks for the block and sends it.  Its
  state is the number of calls and the blocks in the channel.
\<close>

definition block_request :: "'b block_node \<Rightarrow> slot \<Rightarrow> (nat \<times> 'b list, unit) service" where
  "block_request node slot_nr st = (case st of (t, sent) \<Rightarrow> Some (
     case bn_get_block node t slot_nr of
       Ok b \<Rightarrow> ((Suc t, sent @ [b]), Ok (), bn_elapsed node t)
     | Err e \<Rightarrow> ((Suc t, sent), Err e, bn_elapsed node t)
     | Panic m \<Rightarrow> ((Suc t, sent), Panic m, bn_elapsed node t)))"

definition block_task :: "nat \<Rightarrow> 'b block_node \<Rightarrow> service_runner \<Rightarrow> slot \<Rightarrow> nat \<times> 'b list \<Rightarrow> ((nat \<times> 'b list) \<times> unit res) option" where
  "block_task n node sr slot_nr = service_run n sr (block_request node slot_nr)"

lemma gives_up_quickly:
  assumes "0 < k" and "\<forall>i. quick i" and "gives_up sr quick k" and "\<forall>j. 0 < j \<and> j < k \<longrightarrow> \<not> gives_up sr quick j"
  shows "k = max 1 (min (unat (unhealthy_retries sr)) (unat (max_retries sr)))"
proof -
  have give: "gives_up sr quick j \<longleftrightarrow> min (unat (unhealthy_retries sr)) (unat (max_retries sr)) \<le> j" for j
    using assms(2) by (auto simp: gives_up_def)
  let ?m = "max 1 (min (unat (unhealthy_retries sr)) (unat (max_retries sr)))"
  have "\<not> ?m < k" using assms(4) give [of ?m] by auto
  moreover have "?m \<le> k" using assms(1,3) give [of k] by auto
  ultimately show ?thesis by linarith
qed

text \<open>
  The runner restarts its service after a success too.  So when the node answers, a block is
  sent again and again: with the default runner five times.
\<close>

theorem block_sent_repeatedly:
  assumes "\<And>t. bn_get_block node t slot_nr = Ok b" and "\<And>t. bn_elapsed node t < unat (healthy_within_ms sr)"
    and "max 1 (min (unat (unhealthy_retries sr)) (unat (max_retries sr))) = k" and "k \<le> n"
  shows "block_task n node sr slot_nr (t, sent) =
    Some ((t + k, sent @ replicate k b), Err (Custom ''Service failed too many times, giving up''))"
proof -
  let ?st = "\<lambda>i. (t + i, sent @ replicate i b)"
  have ends: "ends_after (block_request node slot_nr) ?st (\<lambda>i. bn_elapsed node (t + i))"
    using assms(1) by (simp add: ends_after_def block_request_def replicate_append_same)
  let ?quick = "\<lambda>i. bn_elapsed node (t + i) < unat (healthy_within_ms sr)"
  obtain k' where k': "0 < k'" "gives_up sr ?quick k'" "\<forall>j. 0 < j \<and> j < k' \<longrightarrow> \<not> gives_up sr ?quick j"
    by (rule some_gives_up)
  from gives_up_quickly [OF k'(1) _ k'(2,3)] assms(2,3) have "k' = k" by simp
  with run_loop_gives_up [OF ends refl k', of 0 n] k'(1) assms(4) show ?thesis
    by (simp add: block_task_def service_run_def)
qed

theorem block_sent_repeatedly_witness:
  "block_task 5 (test_block_node\<lparr>bn_get_block := (\<lambda>_ _. Ok 7)\<rparr>) default_service_runner 8 (0, []) =
     Some ((5, [7, 7, 7, 7, 7]), Err (Custom ''Service failed too many times, giving up''))"
proof -
  have "max 1 (min (unat (unhealthy_retries default_service_runner)) (unat (max_retries default_service_runner))) = 5"
    by (simp add: default_service_runner_def unsigned_minus_1_eq_mask mask_eq_exp_minus_1)
  from block_sent_repeatedly [OF _ _ this, of "test_block_node\<lparr>bn_get_block := (\<lambda>_ _. Ok 7)\<rparr>" 8 7 5 0 "[]"]
  show ?thesis by (simp add: test_block_node_def default_service_runner_def) (simp add: eval_nat_numeral)
qed

section \<open>At most so many requests at a time\<close>

text \<open>
  \<^verbatim>\<open>index_blocks\<close>: a slot is taken from the channel, and its task started when a permit
  of the semaphore is free; the task owns the permit until it ends, however it ends.
\<close>

record index_state =
  is_channel :: "slot list"
  is_permits :: nat
  is_running :: "slot list"
  is_started :: "slot list"

definition new_index :: "nat \<Rightarrow> slot list \<Rightarrow> index_state" where
  "new_index get_block_concurrency slots =
     \<lparr>is_channel = slots, is_permits = get_block_concurrency, is_running = [], is_started = []\<rparr>"

inductive index_step :: "index_state \<Rightarrow> index_state \<Rightarrow> bool" where
  slot_received: "index_step s (s\<lparr>is_channel := is_channel s @ [k]\<rparr>)"
| task_started: "is_channel s = k # ks \<Longrightarrow> 0 < is_permits s \<Longrightarrow>
    index_step s (s\<lparr>is_channel := ks, is_permits := is_permits s - 1, is_running := k # is_running s,
      is_started := is_started s @ [k]\<rparr>)"
| task_ended: "k \<in> set (is_running s) \<Longrightarrow>
    index_step s (s\<lparr>is_permits := is_permits s + 1, is_running := remove1 k (is_running s)\<rparr>)"

text \<open>Never more requests than configured are running, and slots are started in the order they came.\<close>

lemma index_permits:
  assumes "index_step\<^sup>*\<^sup>* (new_index n slots) s"
  shows "length (is_running s) + is_permits s = n \<and> (\<exists>later. is_started s @ is_channel s = slots @ later)"
  using assms
proof (induction rule: rtranclp_induct)
  case (step s s')
  obtain later where IH: "length (is_running s) + is_permits s = n" "is_started s @ is_channel s = slots @ later"
    using step.IH by blast
  from step.hyps(2) show ?case
  proof cases
    case (slot_received k)
    then have "is_started s' @ is_channel s' = slots @ (later @ [k])" using IH(2) by (simp flip: append_assoc)
    moreover have "length (is_running s') + is_permits s' = n" using IH(1) slot_received by simp
    ultimately show ?thesis by blast
  next
    case (task_ended k)
    then show ?thesis using IH length_pos_if_in_set [of k "is_running s"] by (auto simp: length_remove1)
  qed (use IH in auto)
qed (simp add: new_index_def)

text \<open>\<^verbatim>\<open>index\<close>: the first of its two tasks that ends, with whatever result, makes it fail.\<close>

definition block_indexer :: "unit res option \<Rightarrow> unit res option \<Rightarrow> unit res option" where
  "block_indexer slot_service_jh block_service_jh =
     (if slot_service_jh = None \<and> block_service_jh = None then None else Some (Err (Custom ''Failed to index'')))"

section \<open>The clock\<close>

type_synonym blockhash_bytes = bytes

record clock_node =
  cn_get_slot :: "nat \<Rightarrow> slot res"
  cn_get_latest_blockhash :: "nat \<Rightarrow> blockhash_bytes res"

record solana_clock =
  clock_slot :: slot
  clock_blockhash :: blockhash_bytes

definition fetch_network_clock_info :: "clock_node \<Rightarrow> nat \<Rightarrow> (slot \<times> blockhash_bytes) res" where
  "fetch_network_clock_info node t =
     try_res (cn_get_slot node t) (\<lambda>slot_nr.
     try_res (cn_get_latest_blockhash node t) (\<lambda>bh. Ok (slot_nr, bh)))"

definition new_clock :: "clock_node \<Rightarrow> nat \<Rightarrow> solana_clock res" where
  "new_clock node t =
     try_res (fetch_network_clock_info node t) (\<lambda>(slot_nr, bh). Ok \<lparr>clock_slot = slot_nr, clock_blockhash = bh\<rparr>)"

definition clock_sync :: "clock_node \<Rightarrow> nat \<Rightarrow> solana_clock \<Rightarrow> solana_clock \<times> unit res" where
  "clock_sync node t c =
     (case fetch_network_clock_info node t of
        Ok (slot_nr, bh) \<Rightarrow> (c\<lparr>clock_slot := slot_nr, clock_blockhash := bh\<rparr>, Ok ())
      | Err e \<Rightarrow> (c, Err e)
      | Panic m \<Rightarrow> (c, Panic m))"

text \<open>A round of the loop of \<^verbatim>\<open>start\<close>, with the number of ticks it waits for.\<close>

definition clock_round :: "clock_node \<Rightarrow> nat \<Rightarrow> solana_clock \<Rightarrow> solana_clock \<times> nat" where
  "clock_round node t c =
     (let c' = fst (clock_sync node t c) in (c', if clock_slot c' = clock_slot c then 2 else 1))"

fun clock_rounds :: "clock_node \<Rightarrow> nat \<Rightarrow> nat \<Rightarrow> solana_clock \<Rightarrow> solana_clock \<times> nat" where
  "clock_rounds node 0 t c = (c, 0)"
| "clock_rounds node (Suc n) t c =
     (case clock_round node t c of (c, ticks) \<Rightarrow>
        (case clock_rounds node n (Suc t) c of (c, rest) \<Rightarrow> (c, ticks + rest)))"

text \<open>
  The slot and the block hash of the clock are always from one and the same successful query,
  and an error leaves the clock as it is.
\<close>

lemma clock_from_one_query:
  "fst (clock_rounds node n t c) = c \<or>
   (\<exists>i. t \<le> i \<and> i < t + n \<and> cn_get_slot node i = Ok (clock_slot (fst (clock_rounds node n t c))) \<and>
      cn_get_latest_blockhash node i = Ok (clock_blockhash (fst (clock_rounds node n t c))))"
proof (induction n arbitrary: t c)
  case (Suc n)
  obtain c1 ticks where one: "clock_round node t c = (c1, ticks)" by fastforce
  have c1: "c1 = c \<or> cn_get_slot node t = Ok (clock_slot c1) \<and> cn_get_latest_blockhash node t = Ok (clock_blockhash c1)"
    using one by (auto simp: clock_round_def clock_sync_def fetch_network_clock_info_def res_elims Let_def split: res.splits)
  have same: "fst (clock_rounds node (Suc n) t c) = fst (clock_rounds node n (Suc t) c1)"
    by (simp add: one split: prod.split)
  from Suc.IH [of "Suc t" c1] show ?case
  proof
    assume "fst (clock_rounds node n (Suc t) c1) = c1"
    then show ?thesis using c1 unfolding same by auto
  next
    assume "\<exists>i. Suc t \<le> i \<and> i < Suc t + n \<and> cn_get_slot node i = Ok (clock_slot (fst (clock_rounds node n (Suc t) c1))) \<and>
      cn_get_latest_blockhash node i = Ok (clock_blockhash (fst (clock_rounds node n (Suc t) c1)))"
    then show ?thesis unfolding same by (metis Suc_leD add_Suc_shift)
  qed
qed simp

end
