(* ===== verification/Relayer_Storage.thy ===== *)
theory Relayer_Storage
  imports Pg_Pending
begin

text \<open>
  \<^verbatim>\<open>rome-evm-client/src/indexer/relayer/solana_block_storage.rs\<close>: the Solana block storage
  that asks a relayer for the blocks, keeps the last ones in a cache, records their slots in
  the tables of Postgres, and waits in a task of its own until a slot is finalized.
\<close>

section \<open>The relayer\<close>

text \<open>The answers of the relayer, as its protocol declares them.\<close>

record relayer_tx =
  rt_signature :: rstr
  rt_body :: rstr
  rt_is_legacy :: bool
  rt_error :: "bytes option"
  rt_logs :: "rstr list"
  rt_version :: int
  rt_fee :: u64

record relayer_block =
  gb_slot :: slot
  gb_block_hash :: rstr
  gb_parent_slot :: slot
  gb_prev_block_hash :: rstr
  gb_block_time :: timestamp
  gb_block_height :: "u64 option"
  gb_txs :: "relayer_tx list"
  gb_finalized :: bool

datatype relayer_status = StatusNotFound | StatusOther

text \<open>
  The relayer by the number of the call, the cache (\<open>rl_kept t k\<close>: the entry of slot \<open>k\<close>
  was not evicted yet), the decoding of a transaction and of its error (\<open>None\<close> if it does
  not decode).
\<close>

record relayer =
  rl_get_block :: "nat \<Rightarrow> slot \<Rightarrow> relayer_status + relayer_block"
  rl_get_slot :: "nat \<Rightarrow> relayer_status + slot"
  rl_kept :: "nat \<Rightarrow> slot \<Rightarrow> bool"
  rl_decode :: "bool \<Rightarrow> rstr \<Rightarrow> versioned_transaction option"
  rl_decode_error :: "bytes \<Rightarrow> string option"
  rl_pg :: pg_lib

text \<open>What changes: the database, the cache, the number of calls, the slots that are waited for.\<close>

record relayer_state =
  rs_pg :: pg
  rs_cache :: "(slot, solana_block) hmap"
  rs_calls :: nat
  rs_waiting :: "slot list"

section \<open>Blocks\<close>

text \<open>\<^verbatim>\<open>transpose().unwrap_or_default()\<close>: an error that does not decode is no error.\<close>

definition cast_tx :: "relayer \<Rightarrow> relayer_tx \<Rightarrow> encoded_transaction" where
  "cast_tx rl tx =
     \<lparr>decoded = rl_decode rl (rt_is_legacy tx) (rt_body tx),
      meta = Some \<lparr>meta_err = (case Option.bind (rt_error tx) (rl_decode_error rl) of None \<Rightarrow> False | Some e \<Rightarrow> True),
        log_messages = Some (rt_logs tx)\<rparr>\<rparr>"

definition cast_block_response_to_ui_block :: "relayer \<Rightarrow> relayer_block \<Rightarrow> solana_block \<times> bool" where
  "cast_block_response_to_ui_block rl b =
     (\<lparr>previous_blockhash = gb_prev_block_hash b, blockhash = gb_block_hash b, parent_slot = gb_parent_slot b,
       sol_transactions = Some (map (cast_tx rl) (gb_txs b)), block_time = Some (gb_block_time b)\<rparr>, gb_finalized b)"

text \<open>A slot must fit a signed integer.\<close>

definition i64_slot :: "slot \<Rightarrow> slot res" where
  "i64_slot k = (if unat k < 2 ^ 63 then Ok k else Err InvalidSlot)"

definition insert_sol_slot :: "slot \<Rightarrow> solana_block \<Rightarrow> bool \<Rightarrow> db \<Rightarrow> (db \<times> unit) res" where
  "insert_sol_slot k b is_finalized db =
     try_res (expect ''called Option::unwrap() on a None value'' (block_time b)) (\<lambda>t.
     try_res (insert_new bt_insert k \<lparr>sr_parent_slot = parent_slot b,
         sr_status = (if is_finalized then Finalized else Confirmed),
         sr_blockhash = Some (blockhash b), sr_timestamp = Some t\<rparr> True (db_sol_slot db)) (\<lambda>slots.
       Ok (db\<lparr>db_sol_slot := slots\<rparr>, ())))"

definition on_pg :: "(pg \<Rightarrow> pg \<times> 'a) \<Rightarrow> relayer_state \<Rightarrow> relayer_state \<times> 'a" where
  "on_pg f s = (case f (rs_pg s) of (pg', r) \<Rightarrow> (s\<lparr>rs_pg := pg'\<rparr>, r))"

definition ask :: "(nat \<Rightarrow> 'a) \<Rightarrow> relayer_state \<Rightarrow> relayer_state \<times> 'a" where
  "ask f s = (s\<lparr>rs_calls := Suc (rs_calls s)\<rparr>, f (rs_calls s))"

definition relayer_get_block :: "relayer \<Rightarrow> slot \<Rightarrow> relayer_state \<Rightarrow> relayer_state \<times> solana_block option res" where
  "relayer_get_block rl slot_nr s =
     and_then (s, i64_slot slot_nr) (\<lambda>s k.
       case (if rl_kept rl (rs_calls s) k then map_of (rs_cache s) k else None) of
         Some b \<Rightarrow> (s, Ok (Some b))
       | None \<Rightarrow>
           (case ask (\<lambda>t. rl_get_block rl t k) s of
              (s1, Inr resp) \<Rightarrow>
                (case cast_block_response_to_ui_block rl resp of
                   (block, is_finalized) \<Rightarrow>
                     and_then (on_pg (in_transaction (insert_sol_slot k block is_finalized)) s1) (\<lambda>s2 _.
                       (s2\<lparr>rs_waiting := (if is_finalized then rs_waiting s2 else rs_waiting s2 @ [k]),
                          rs_cache := hm_insert k block (rs_cache s2)\<rparr>, Ok (Some block))))
            | (s1, Inl status) \<Rightarrow> (s1, if status = StatusNotFound then Ok None else Err RelayerError)))"

definition relayer_get_last_slot :: "relayer \<Rightarrow> relayer_state \<Rightarrow> relayer_state \<times> slot option res" where
  "relayer_get_last_slot rl s =
     (case ask (rl_get_slot rl) s of
        (s1, Inr k) \<Rightarrow> (s1, Ok (Some k))
      | (s1, Inl status) \<Rightarrow> (s1, if status = StatusNotFound then Ok None else Err RelayerError))"

text \<open>The query is that of the other storage.\<close>

definition relayer_set_finalized_slot ::
  "relayer \<Rightarrow> slot \<Rightarrow> relayer_state \<Rightarrow> relayer_state \<times> (slot, solana_block) btree res" where
  "relayer_set_finalized_slot rl slot_nr = on_pg (\<lambda>pg. pg_set_finalized_slot (rl_pg rl) pg slot_nr)"

definition relayer_retain_from_slot :: "slot \<Rightarrow> relayer_state \<Rightarrow> relayer_state \<times> unit res" where
  "relayer_retain_from_slot from_slot s = (s, Ok ())"

definition relayer_store_blocks :: "(slot, solana_block) btree \<Rightarrow> slot \<Rightarrow> relayer_state \<Rightarrow> relayer_state \<times> unit res" where
  "relayer_store_blocks blocks finalized_slot s =
     (s, Panic ''Unexpected call to RelayerSolanaBlockStorage::store_blocks'')"

definition relayer_update_finalized_blocks :: "(slot, solana_block) btree \<Rightarrow> relayer_state \<Rightarrow> relayer_state \<times> unit res" where
  "relayer_update_finalized_blocks blocks s =
     (s, Panic ''Unexpected call to RelayerSolanaBlockStorage::update_finalized_blocks'')"

section \<open>Waiting for the finalization\<close>

text \<open>
  One round of the task that was started for a slot; the result says whether it ends.  An
  error of \<^verbatim>\<open>set_finalized_slot\<close> is only logged.
\<close>

definition recheck_round :: "relayer \<Rightarrow> slot \<Rightarrow> relayer_state \<Rightarrow> relayer_state \<times> bool" where
  "recheck_round rl k s =
     (case ask (\<lambda>t. rl_get_block rl t k) s of
        (s1, Inr resp) \<Rightarrow>
          if snd (cast_block_response_to_ui_block rl resp)
          then (fst (relayer_set_finalized_slot rl k s1), True) else (s1, False)
      | (s1, Inl status) \<Rightarrow> (s1, False))"

text \<open>
  What can happen: a block is asked for, a waiting task runs a round, and the rest of the
  indexer changes other tables.
\<close>

inductive relayer_step :: "relayer \<Rightarrow> relayer_state \<Rightarrow> relayer_state \<Rightarrow> bool" for rl where
  step_get: "relayer_get_block rl k s = (s', r) \<Longrightarrow> relayer_step rl s s'"
| step_last: "relayer_get_last_slot rl s = (s', q) \<Longrightarrow> relayer_step rl s s'"
| step_wait: "k \<in> set (rs_waiting s) \<Longrightarrow> recheck_round rl k s = (s', ends) \<Longrightarrow>
    relayer_step rl s (if ends then s'\<lparr>rs_waiting := remove1 k (rs_waiting s')\<rparr> else s')"
| step_other: "db_sol_slot (pg_db pg') = db_sol_slot (pg_db (rs_pg s)) \<Longrightarrow>
    db_sol_block (pg_db pg') = db_sol_block (pg_db (rs_pg s)) \<Longrightarrow> relayer_step rl s (s\<lparr>rs_pg := pg'\<rparr>)"

inductive relayer_run :: "relayer \<Rightarrow> relayer_state \<Rightarrow> relayer_state \<Rightarrow> bool" for rl where
  run_refl: "relayer_run rl s s"
| run_step: "relayer_run rl s s' \<Longrightarrow> relayer_step rl s' s'' \<Longrightarrow> relayer_run rl s s''"

section \<open>What the storage records\<close>

text \<open>The table of blocks stays empty; then the query that finalizes a fork finds no rows.\<close>

definition slots_recorded :: "relayer_state \<Rightarrow> (slot, sol_slot_row) btree" where
  "slots_recorded s = db_sol_slot (pg_db (rs_pg s))"

definition no_blocks_stored :: "relayer_state \<Rightarrow> bool" where
  "no_blocks_stored s \<longleftrightarrow> db_sol_block (pg_db (rs_pg s)) = []"

definition keeps_rows :: "relayer_state \<Rightarrow> relayer_state \<Rightarrow> bool" where
  "keeps_rows s s' \<longleftrightarrow> no_blocks_stored s' \<and>
     (\<forall>k sr. map_of (slots_recorded s) k = Some sr \<longrightarrow> map_of (slots_recorded s') k = Some sr)"

lemma keeps_rows_trans: "keeps_rows s s1 \<Longrightarrow> keeps_rows s1 s' \<Longrightarrow> keeps_rows s s'"
  by (simp add: keeps_rows_def)

lemma set_finalized_finds_nothing:
  assumes "db_sol_block db = []"
  shows "sql_set_finalized_slot k db = (db, [])"
proof -
  have "List.map_filter (\<lambda>s. map_option (Pair s) (map_of (db_sol_block db) s)) ks = []" for ks
    by (induction ks) (simp_all add: List.map_filter_def assms)
  then show ?thesis by (simp add: sql_set_finalized_slot_def)
qed

lemma set_finalized_keeps_rows:
  assumes "relayer_set_finalized_slot rl k s = (s', r)" and "no_blocks_stored s"
  shows "keeps_rows s s'"
  using assms
  by (auto simp: relayer_set_finalized_slot_def on_pg_def pg_set_finalized_slot_def in_transaction_def Let_def
      set_finalized_finds_nothing no_blocks_stored_def keeps_rows_def slots_recorded_def and_then_def
      split: prod.splits res.splits if_splits)

lemma map_of_insert_sol_slot:
  assumes "insert_sol_slot k b fin db = Ok (db', ())" and "map_of (db_sol_slot db) j = Some sr"
  shows "map_of (db_sol_slot db') j = Some sr"
proof (cases "map_of (db_sol_slot db) k")
  case None
  then obtain row where db': "db_sol_slot db' = bt_insert k row (db_sol_slot db)"
    using assms(1) by (auto simp: insert_sol_slot_def insert_new_def res_elims)
  have "map_of (bt_insert k row m) j = (if j = k then Some row else map_of m j)" if "map_of m k = None" for m
    using that by (induction k row m rule: bt_insert.induct) (auto split: if_splits)
  then show ?thesis using None assms(2) by (auto simp: db')
qed (use assms in \<open>auto simp: insert_sol_slot_def insert_new_def res_elims\<close>)

lemma insert_sol_slot_blocks: "insert_sol_slot k b fin db = Ok (db', u) \<Longrightarrow> db_sol_block db' = db_sol_block db"
  by (auto simp: insert_sol_slot_def res_elims)

lemma get_block_keeps_rows:
  assumes "relayer_get_block rl k s = (s', r)" and "no_blocks_stored s"
  shows "keeps_rows s s'"
proof -
  have same: "keeps_rows s (s\<lparr>rs_calls := n\<rparr>)" for n
    using assms(2) by (simp add: keeps_rows_def no_blocks_stored_def slots_recorded_def)
  have ins: "keeps_rows s t" if "fst (on_pg (in_transaction (insert_sol_slot k b fin)) (s\<lparr>rs_calls := n\<rparr>)) = u"
    and "rs_pg t = rs_pg u" for b fin n t u
    using that assms(2) map_of_insert_sol_slot [of k b fin] insert_sol_slot_blocks [of k b fin]
    by (auto simp: on_pg_def in_transaction_def Let_def keeps_rows_def no_blocks_stored_def slots_recorded_def
        split: prod.splits res.splits if_splits)
  show ?thesis
  proof (cases "i64_slot k")
    case (Ok j)
    then have j: "j = k" by (simp add: i64_slot_def split: if_splits)
    show ?thesis
    proof (cases "(if rl_kept rl (rs_calls s) k then map_of (rs_cache s) k else None)")
      case None
      show ?thesis
      proof (cases "rl_get_block rl (rs_calls s) k")
        case (Inr resp)
        obtain b fin where c: "cast_block_response_to_ui_block rl resp = (b, fin)" by fastforce
        obtain u q where u: "on_pg (in_transaction (insert_sol_slot k b fin)) (s\<lparr>rs_calls := Suc (rs_calls s)\<rparr>) = (u, q)"
          by fastforce
        have "rs_pg s' = rs_pg u"
          using assms(1) by (cases q) (auto simp: relayer_get_block_def Ok j None Inr c u ask_def split: if_splits)
        then show ?thesis using ins [of b fin] u by (metis fst_conv)
      qed (use assms(1) same in \<open>auto simp: relayer_get_block_def Ok j None ask_def\<close>)
    qed (use assms(1) same [of "rs_calls s"] in \<open>auto simp: relayer_get_block_def Ok j\<close>)
  qed (use assms(1) same [of "rs_calls s"] in \<open>auto simp: relayer_get_block_def\<close>)
qed

lemma step_keeps_rows:
  assumes "relayer_step rl s s'" and "no_blocks_stored s"
  shows "keeps_rows s s'"
  using assms
proof cases
  case (step_wait k t ends)
  have "keeps_rows s t"
  proof (cases "rl_get_block rl (rs_calls s) k")
    case (Inr resp)
    have "keeps_rows s (s\<lparr>rs_calls := n\<rparr>)" and "no_blocks_stored (s\<lparr>rs_calls := n\<rparr>)" for n
      using assms(2) by (simp_all add: keeps_rows_def no_blocks_stored_def slots_recorded_def)
    with step_wait(3) Inr show ?thesis
      using set_finalized_keeps_rows [of rl k "s\<lparr>rs_calls := Suc (rs_calls s)\<rparr>", OF prod.collapse [symmetric]]
      by (auto simp: recheck_round_def ask_def split: if_splits intro: keeps_rows_trans)
  qed (use step_wait(3) assms(2) in \<open>auto simp: recheck_round_def ask_def keeps_rows_def no_blocks_stored_def slots_recorded_def\<close>)
  then show ?thesis
    by (simp add: step_wait(1) keeps_rows_def no_blocks_stored_def slots_recorded_def)
qed (use assms(2) get_block_keeps_rows in \<open>auto simp: relayer_get_last_slot_def ask_def keeps_rows_def no_blocks_stored_def
  slots_recorded_def split: prod.splits sum.splits\<close>)

lemma run_keeps_rows:
  assumes "relayer_run rl s s'" and "no_blocks_stored s"
  shows "keeps_rows s s'"
  using assms
proof induction
  case (run_step s s' s'')
  then have "keeps_rows s s'" by simp
  moreover from this have "keeps_rows s' s''"
    using step_keeps_rows [OF run_step.hyps(2)] by (simp add: keeps_rows_def)
  ultimately show ?case by (rule keeps_rows_trans)
qed (simp add: keeps_rows_def)

text \<open>
  C35. With the relayer a slot that was recorded as confirmed is never finalized: whatever
  blocks are asked for and however often the waiting tasks find their slot finalized, its row
  stays what it was, because the query joins a table that this storage never fills.
\<close>

theorem relayer_slots_stay_confirmed:
  assumes "relayer_run rl s s'" and "no_blocks_stored s" and "map_of (slots_recorded s) k = Some sr"
  shows "map_of (slots_recorded s') k = Some sr"
  using run_keeps_rows [OF assms(1,2)] assms(3) by (simp add: keeps_rows_def)

text \<open>A relayer that first says a block is confirmed, then that it is finalized.\<close>

definition test_relayer :: relayer where
  "test_relayer = \<lparr>rl_get_block = (\<lambda>t k. Inr \<lparr>gb_slot = k, gb_block_hash = [1], gb_parent_slot = k - 1, gb_prev_block_hash = [],
       gb_block_time = 0, gb_block_height = None, gb_txs = [], gb_finalized = 0 < t\<rparr>),
     rl_get_slot = (\<lambda>t. Inr 5), rl_kept = (\<lambda>t k. True), rl_decode = (\<lambda>l b. None), rl_decode_error = (\<lambda>_. None),
     rl_pg = test_pg_lib\<rparr>"

definition test_relayer_state :: relayer_state where
  "test_relayer_state = \<lparr>rs_pg = test_pg, rs_cache = [], rs_calls = 0, rs_waiting = []\<rparr>"

theorem relayer_slots_stay_confirmed_witness:
  "\<exists>s' sr. recheck_round test_relayer 7 (fst (relayer_get_block test_relayer 7 test_relayer_state)) = (s', True) \<and>
    map_of (slots_recorded s') 7 = Some sr \<and> sr_status sr = Confirmed"
proof -
  define s1 where "s1 = fst (relayer_get_block test_relayer 7 test_relayer_state)"
  have s1: "rs_waiting s1 = [7]" "no_blocks_stored s1" "map_option sr_status (map_of (slots_recorded s1) 7) = Some Confirmed"
    unfolding s1_def
    by (simp_all add: relayer_get_block_def i64_slot_def ask_def test_relayer_def test_relayer_state_def
        cast_block_response_to_ui_block_def on_pg_def in_transaction_def Let_def insert_sol_slot_def insert_new_def
        test_pg_def test_db_def no_blocks_stored_def slots_recorded_def)
  obtain s' ends where round: "recheck_round test_relayer 7 s1 = (s', ends)" by fastforce
  have "0 < rs_calls s1" unfolding s1_def
    by (simp add: relayer_get_block_def i64_slot_def ask_def test_relayer_def test_relayer_state_def
        cast_block_response_to_ui_block_def on_pg_def in_transaction_def Let_def insert_sol_slot_def insert_new_def
        test_pg_def test_db_def)
  then have "snd (recheck_round test_relayer 7 s1)"
    by (simp add: recheck_round_def ask_def test_relayer_def cast_block_response_to_ui_block_def)
  then have ends using round by simp
  obtain sr where sr: "map_of (slots_recorded s1) 7 = Some sr" "sr_status sr = Confirmed" using s1(3) by auto
  have "relayer_step test_relayer s1 (if ends then s'\<lparr>rs_waiting := remove1 7 (rs_waiting s')\<rparr> else s')"
    by (rule step_wait [OF _ round]) (simp add: s1(1))
  from relayer_slots_stay_confirmed [OF run_step [OF run_refl this] s1(2) sr(1)] \<open>ends\<close>
  have "map_of (slots_recorded s') 7 = Some sr" by (simp add: slots_recorded_def)
  then show ?thesis using round \<open>ends\<close> sr(2) by (auto simp: s1_def)
qed

text \<open>A transaction whose error does not decode counts as one without an error.\<close>

lemma undecodable_error_ignored:
  assumes "rt_error tx = Some bs" and "rl_decode_error rl bs = None"
  shows "map_option meta_err (meta (cast_tx rl tx)) = Some False"
  using assms by (simp add: cast_tx_def)

end
