(* ===== verification/Pg_Types.thy ===== *)
theory Pg_Types
  imports Relayer_Storage
begin

text \<open>
  The types of the tables: primary keys are unique, and every foreign key of the migrations
  refers to a row that is there.  Every operation of the storages keeps this, whether it
  succeeds or not.
\<close>

section \<open>Well-formed tables\<close>

definition keys_of :: "('k \<times> 'v) list \<Rightarrow> 'k set" where
  "keys_of m = dom (map_of m)"

definition db_ok :: "db \<Rightarrow> bool" where
  "db_ok db \<longleftrightarrow>
     bt_ok (db_sol_slot db) \<and> bt_ok (db_sol_block db) \<and> hm_ok (db_evm_tx db) \<and> hm_ok (db_evm_tx_result db) \<and>
     bt_ok (db_eth_block db) \<and> hm_ok (db_eth_block_txs db) \<and>
     keys_of (db_sol_block db) \<subseteq> keys_of (db_sol_slot db) \<and>
     (\<forall>(s, hash) \<in> keys_of (db_evm_tx_result db). s \<in> keys_of (db_sol_slot db) \<and> hash \<in> keys_of (db_evm_tx db)) \<and>
     (\<forall>(s, i) \<in> keys_of (db_eth_block db). s \<in> keys_of (db_sol_slot db)) \<and>
     (\<forall>(s, i, hash) \<in> keys_of (db_eth_block_txs db).
       (s, i) \<in> keys_of (db_eth_block db) \<and> (s, hash) \<in> keys_of (db_evm_tx_result db))"

context kv_map
begin

lemma keys_of_ins: "ok m \<Longrightarrow> keys_of (ins k v m) = insert k (keys_of m)"
  by (auto simp: keys_of_def lookup_ins)

lemma insert_new_facts:
  assumes "insert_new ins k v fk m = Ok m'" and "ok m"
  shows "ok m'" and "keys_of m' = insert k (keys_of m)" and "k \<in> keys_of m \<or> fk"
proof -
  have cases: "(m' = m \<and> k \<in> keys_of m) \<or> (fk \<and> m' = ins k v m)"
    using assms(1) by (auto simp: insert_new_def keys_of_def split: option.splits if_splits)
  show "ok m'" and "keys_of m' = insert k (keys_of m)" and "k \<in> keys_of m \<or> fk"
    using cases assms(2) by (auto simp: ok_ins keys_of_ins)
qed

end

lemma keys_of_map: "keys_of (map (\<lambda>(k, v). (k, f k v)) m) = keys_of m"
  by (induction m) (auto simp: keys_of_def)

lemma keys_of_before:
  "keys_of (filter (\<lambda>((s, _), _). s < t) m) = {k \<in> keys_of m. fst k < (t :: slot)}"
  by (force simp: keys_of_def dom_map_of_conv_image_fst)

section \<open>Statements\<close>

lemma has_slot_iff: "has_slot db s \<longleftrightarrow> s \<in> keys_of (db_sol_slot db)"
  by (auto simp: has_slot_def keys_of_def)

lemma in_keys_of: "map_of m k \<noteq> None \<longleftrightarrow> k \<in> keys_of m"
  by (auto simp: keys_of_def)

lemma db_okD:
  assumes "db_ok db"
  shows "bt_ok (db_sol_slot db)" "bt_ok (db_sol_block db)" "hm_ok (db_evm_tx db)" "hm_ok (db_evm_tx_result db)"
    "bt_ok (db_eth_block db)" "hm_ok (db_eth_block_txs db)"
  using assms by (simp_all add: db_ok_def)

lemma insert_eth_block_ok:
  assumes "insert_eth_block k row db = Ok db'" and "db_ok db"
  shows "db_ok db'"
proof -
  obtain t where t: "insert_new bt_insert k row (has_slot db (fst k)) (db_eth_block db) = Ok t"
    and db': "db' = db\<lparr>db_eth_block := t\<rparr>"
    using assms(1) by (auto simp: insert_eth_block_def res_elims)
  note f = bt.insert_new_facts [OF t db_okD(5) [OF assms(2)]]
  have "fst k \<in> keys_of (db_sol_slot db)"
    using f(3) assms(2) by (cases k) (auto simp: db_ok_def has_slot_iff)
  then show ?thesis using assms(2) f(1,2) by (cases k) (auto simp: db_ok_def db')
qed

lemma insert_eth_block_tx_ok:
  assumes "insert_eth_block_tx s i hash tx_idx db = Ok db'" and "db_ok db"
  shows "db_ok db'"
proof -
  obtain t where t: "insert_new hm_insert (s, i, hash) tx_idx
      (map_of (db_eth_block db) (s, i) \<noteq> None \<and> map_of (db_evm_tx_result db) (s, hash) \<noteq> None) (db_eth_block_txs db) = Ok t"
    and db': "db' = db\<lparr>db_eth_block_txs := t\<rparr>"
    using assms(1) by (auto simp: insert_eth_block_tx_def res_elims)
  note f = hm.insert_new_facts [OF t [unfolded in_keys_of] db_okD(6) [OF assms(2)]]
  have "(s, i) \<in> keys_of (db_eth_block db)" and "(s, hash) \<in> keys_of (db_evm_tx_result db)"
    using f(3) assms(2) by (auto simp: db_ok_def)
  then show ?thesis using assms(2) f(1,2) by (auto simp: db_ok_def db')
qed

lemma insert_evm_tx_ok:
  assumes "insert_evm_tx hash rlp db = Ok db'" and "db_ok db"
  shows "db_ok db'"
proof -
  obtain t where t: "insert_new hm_insert hash rlp True (db_evm_tx db) = Ok t" and db': "db' = db\<lparr>db_evm_tx := t\<rparr>"
    using assms(1) by (auto simp: insert_evm_tx_def res_elims)
  note f = hm.insert_new_facts [OF t db_okD(3) [OF assms(2)]]
  show ?thesis using assms(2) f(1,2) by (auto simp: db_ok_def db')
qed

lemma insert_evm_tx_result_ok:
  assumes "insert_evm_tx_result s hash json db = Ok db'" and "db_ok db"
  shows "db_ok db'"
proof -
  obtain t row where t: "insert_new hm_insert (s, hash) row (has_slot db s \<and> map_of (db_evm_tx db) hash \<noteq> None)
      (db_evm_tx_result db) = Ok t"
    and db': "db' = db\<lparr>db_evm_tx_result := t\<rparr>"
    using assms(1) by (auto simp: insert_evm_tx_result_def res_elims)
  note f = hm.insert_new_facts [OF t [unfolded in_keys_of has_slot_iff] db_okD(4) [OF assms(2)]]
  have "s \<in> keys_of (db_sol_slot db)" and "hash \<in> keys_of (db_evm_tx db)"
    using f(3) assms(2) by (auto simp: db_ok_def)
  then show ?thesis using assms(2) f(1,2) by (auto simp: db_ok_def db')
qed

lemma update_receipt_params_ok:
  assumes "db_ok db"
  shows "db_ok (update_receipt_params s hash json db)"
proof (cases "map_of (db_evm_tx_result db) (s, hash)")
  case (Some row)
  then have "(s, hash) \<in> keys_of (db_evm_tx_result db)" by (auto simp: keys_of_def)
  then have "keys_of (hm_insert (s, hash) v (db_evm_tx_result db)) = keys_of (db_evm_tx_result db)" for v
    using hm.keys_of_ins [OF db_okD(4) [OF assms]] by auto
  then show ?thesis using assms hm.ok_ins [OF db_okD(4) [OF assms]]
    by (simp add: update_receipt_params_def Some db_ok_def)
qed (simp add: update_receipt_params_def assms)

lemma block_produced_ok:
  assumes "block_produced lib k v db = Ok db'" and "db_ok db"
  shows "db_ok db'"
proof (cases "db' = db")
  case False
  then obtain row where k: "k \<in> keys_of (db_eth_block db)" and db': "db' = db\<lparr>db_eth_block := bt_insert k row (db_eth_block db)\<rparr>"
    using assms(1) by (auto simp: block_produced_def keys_of_def res_elims split: option.splits)
  have "keys_of (bt_insert k row (db_eth_block db)) = keys_of (db_eth_block db)"
    using bt.keys_of_ins [OF db_okD(5) [OF assms(2)]] k by auto
  then show ?thesis using assms(2) bt.ok_ins [OF db_okD(5) [OF assms(2)]] by (simp add: db' db_ok_def)
qed (use assms in simp)

lemma new_slot_ok:
  assumes "db_ok db" and "bt_ok slots" and "keys_of (db_sol_slot db) \<subseteq> keys_of slots" and "bt_ok blocks"
    and "keys_of blocks \<subseteq> keys_of slots"
  shows "db_ok (db\<lparr>db_sol_slot := slots, db_sol_block := blocks\<rparr>)"
  using assms by (auto simp: db_ok_def)

lemma set_block_with_status2_ok:
  assumes "set_block_with_status2 s parent block st bh t db = Ok db'" and "db_ok db"
  shows "db_ok db'"
proof -
  obtain slots blocks row where slots: "insert_new bt_insert s row True (db_sol_slot db) = Ok slots"
    and blocks: "insert_new bt_insert s block True (db_sol_block db) = Ok blocks"
    and db': "db' = db\<lparr>db_sol_slot := slots, db_sol_block := blocks\<rparr>"
    using assms(1) by (auto simp: set_block_with_status2_def res_elims)
  note f = bt.insert_new_facts [OF slots db_okD(1) [OF assms(2)]] bt.insert_new_facts [OF blocks db_okD(2) [OF assms(2)]]
  show ?thesis unfolding db' using assms(2) f by (intro new_slot_ok) (auto simp: db_ok_def)
qed

lemma update_finalized_block2_fails: "update_finalized_block2 s parent block bh t db \<noteq> Ok db'"
  by (simp add: update_finalized_block2_def insert_or_update_def)

lemma insert_sol_slot_ok:
  assumes "insert_sol_slot k b fin db = Ok (db', u)" and "db_ok db"
  shows "db_ok db'"
proof -
  obtain slots row where slots: "insert_new bt_insert k row True (db_sol_slot db) = Ok slots"
    and db': "db' = db\<lparr>db_sol_slot := slots, db_sol_block := db_sol_block db\<rparr>"
    using assms(1) by (auto simp: insert_sol_slot_def res_elims)
  note f = bt.insert_new_facts [OF slots db_okD(1) [OF assms(2)]]
  show ?thesis unfolding db' using assms(2) f by (intro new_slot_ok) (auto simp: db_ok_def)
qed

lemma sql_set_finalized_slot_ok:
  assumes "db_ok db"
  shows "db_ok (fst (sql_set_finalized_slot s db))"
proof -
  have map_keys: "map fst (map (\<lambda>(s, sr). (s, f s sr)) m) = map fst m" for f and m :: "(slot, sol_slot_row) btree"
    by (induction m) auto
  obtain f where "fst (sql_set_finalized_slot s db) =
      db\<lparr>db_sol_slot := map (\<lambda>(s, sr). (s, f s sr)) (db_sol_slot db), db_sol_block := db_sol_block db\<rparr>"
    by (auto simp: sql_set_finalized_slot_def Let_def)
  moreover have "bt_ok (map (\<lambda>(s, sr). (s, f s sr)) (db_sol_slot db))"
    using db_okD(1) [OF assms] by (simp only: bt_ok_def map_keys)
  ultimately show ?thesis using assms new_slot_ok [OF assms] by (simp add: keys_of_map db_ok_def)
qed

lemma sql_clean_from_slot_ok:
  assumes "sql_clean_from_slot from_slot db = Ok db'" and "db_ok db"
  shows "db_ok db'"
proof -
  have sub: "subseq (map fst (filter P m)) (map fst m)" for P and m :: "('k \<times> 'v) list"
    by (intro subseq_map subseq_filter_left)
  show ?thesis
    using assms by (auto simp: db_ok_def sql_clean_from_slot_eq keys_of_before intro: hm.ok_subseq [OF _ sub] bt.ok_subseq [OF _ sub])
qed

section \<open>Operations\<close>

lemma in_transaction_db_ok:
  assumes "in_transaction f pg = (pg', r)" and "\<And>db' x. f (pg_db pg) = Ok (db', x) \<Longrightarrow> db_ok db'" and "db_ok (pg_db pg)"
  shows "db_ok (pg_db pg')"
  using in_transaction_keeps [where P = db_ok and f = f and pg = pg] assms by simp

lemma run_all_db_ok:
  assumes "run_all f xs db = Ok db'" and "db_ok db" and "\<And>x db db'. f x db = Ok db' \<Longrightarrow> db_ok db \<Longrightarrow> db_ok db'"
  shows "db_ok db'"
  using assms(1,2) by (rule run_all_inv) (rule assms(3))

lemma store_txs_ok: "store_txs s i b db = Ok db' \<Longrightarrow> db_ok db \<Longrightarrow> db_ok db'"
  unfolding store_txs_def by (erule run_all_db_ok) (auto intro: insert_eth_block_tx_ok)

lemma store_eth_blocks_ok: "store_eth_blocks rs db = Ok db' \<Longrightarrow> db_ok db \<Longrightarrow> db_ok db'"
  unfolding store_eth_blocks_def
  by (erule run_all_db_ok, assumption, clarsimp, erule run_all_db_ok)
    (auto simp: res_elims store_rollup_header_def elim!: store_txs_ok insert_eth_block_ok)

lemma store_parsed_txs_ok: "store_parsed_txs lib rs db = Ok db' \<Longrightarrow> db_ok db \<Longrightarrow> db_ok db'"
  unfolding store_parsed_txs_def
  by (erule run_all_db_ok, assumption, clarsimp, erule run_all_db_ok)
    (auto simp: res_elims store_tx_def Let_def elim!: insert_evm_tx_result_ok insert_evm_tx_ok)

lemma store_receipts_ok: "store_receipts lib s params gas i txs db = Ok db' \<Longrightarrow> db_ok db \<Longrightarrow> db_ok db'"
  by (induction lib s params gas i txs db rule: store_receipts.induct) (auto simp: res_elims intro: update_receipt_params_ok)

lemma store_block_receipts_ok: "store_block_receipts lib pending e db = Ok db' \<Longrightarrow> db_ok db \<Longrightarrow> db_ok db'"
  by (auto simp: store_block_receipts_def split: prod.splits option.splits dest: store_receipts_ok)

lemma store_produced_ok: "store_produced lib pending e db = Ok db' \<Longrightarrow> db_ok db \<Longrightarrow> db_ok db'"
  by (auto simp: store_produced_def split: prod.splits if_splits dest: block_produced_ok)

lemma store_sol_block_ok: "store_sol_block lib fin e db = Ok db' \<Longrightarrow> db_ok db \<Longrightarrow> db_ok db'"
  by (auto simp: store_sol_block_def call_procedure_def res_elims split: prod.splits if_splits
      dest: set_block_with_status2_ok)

lemma finalize_sol_block_ok: "finalize_sol_block lib e db = Ok db' \<Longrightarrow> db_ok db \<Longrightarrow> db_ok db'"
  by (auto simp: finalize_sol_block_def call_procedure_def res_elims update_finalized_block2_fails
      split: prod.splits if_splits)

text \<open>The writing operations of the storages, as they are called by the indexer, one after another.\<close>

inductive pg_op :: "pg_lib \<Rightarrow> pg \<Rightarrow> pg \<Rightarrow> bool" for lib where
  op_register: "pg_register_parse_results lib pg rs = (pg', r) \<Longrightarrow> pg_op lib pg pg'"
| op_produced: "pg_blocks_produced lib pg pp produced = (pg', r) \<Longrightarrow> pg_op lib pg pg'"
| op_clean: "pg_clean_from_slot pg s = (pg', r) \<Longrightarrow> pg_op lib pg pg'"
| op_store: "pg_store_blocks lib pg blocks fin = (pg', r) \<Longrightarrow> pg_op lib pg pg'"
| op_update: "pg_update_finalized_blocks lib pg blocks = (pg', r) \<Longrightarrow> pg_op lib pg pg'"
| op_finalize: "pg_set_finalized_slot lib pg s = (pg', q) \<Longrightarrow> pg_op lib pg pg'"
| op_relayed: "in_transaction (insert_sol_slot s b fin) pg = (pg', r) \<Longrightarrow> pg_op lib pg pg'"

inductive_cases pg_opE: "pg_op lib pg pg'"

lemma run_all_tx_ok:
  assumes "in_transaction (\<lambda>db. try_res (run_all f xs db) (\<lambda>db. Ok (db, ()))) pg = (pg', r)" and "db_ok (pg_db pg)"
    and "\<And>x db db'. f x db = Ok db' \<Longrightarrow> db_ok db \<Longrightarrow> db_ok db'"
  shows "db_ok (pg_db pg')"
  by (rule in_transaction_db_ok [OF assms(1) _ assms(2)]) (auto simp: res_elims intro: run_all_db_ok [OF _ assms(2,3)])

lemma tx_register_ok:
  assumes "tx_register_parse_results lib pg rs = (pg', r)" and "db_ok (pg_db pg)"
  shows "db_ok (pg_db pg')"
  by (rule in_transaction_db_ok [OF assms(1) [unfolded tx_register_parse_results_def] _ assms(2)])
    (auto simp: res_elims intro: store_parsed_txs_ok [OF _ assms(2)])

lemma pg_op_ok:
  assumes "pg_op lib pg pg'" and "db_ok (pg_db pg)"
  shows "db_ok (pg_db pg')"
  using assms(1)
proof cases
  case (op_register rs r)
  obtain pg1 q where one: "tx_register_parse_results lib pg rs = (pg1, q)" by fastforce
  have ok1: "db_ok (pg_db pg1)" by (rule tx_register_ok [OF one assms(2)])
  have "db_ok (pg_db pg2)" if "in_transaction (\<lambda>db. try_res (store_eth_blocks rs db) (\<lambda>db. Ok (db, ()))) pg1 = (pg2, r2)" for pg2 r2
    by (rule in_transaction_db_ok [OF that _ ok1]) (auto simp: res_elims intro: store_eth_blocks_ok [OF _ ok1])
  then show ?thesis using op_register one ok1 assms(2)
    by (cases q) (auto simp: pg_register_parse_results_def split: if_splits)
next
  case (op_produced pp produced r)
  obtain pg1 q where one: "in_transaction (\<lambda>db.
      try_res (run_all (store_produced lib (pp_pending_blocks pp)) (produced_iter produced) db) (\<lambda>db. Ok (db, ()))) pg = (pg1, q)"
    by fastforce
  have ok1: "db_ok (pg_db pg1)" by (rule run_all_tx_ok [OF one assms(2) store_produced_ok])
  have "db_ok (pg_db pg2)" if "tx_blocks_produced lib pg1 (pp_pending_blocks pp) produced = (pg2, r2)" for pg2 r2
    using that unfolding tx_blocks_produced_def by (rule run_all_tx_ok [OF _ ok1 store_block_receipts_ok])
  then show ?thesis using op_produced one ok1 by (cases q) (auto simp: pg_blocks_produced_def)
next
  case (op_clean s r)
  then show ?thesis unfolding pg_clean_from_slot_def
    by (rule in_transaction_db_ok [OF _ _ assms(2)]) (auto simp: res_elims intro: sql_clean_from_slot_ok [OF _ assms(2)])
next
  case (op_store blocks fin r)
  then show ?thesis unfolding pg_store_blocks_def by (rule run_all_tx_ok [OF _ assms(2) store_sol_block_ok])
next
  case (op_update blocks r)
  then show ?thesis unfolding pg_update_finalized_blocks_def by (rule run_all_tx_ok [OF _ assms(2) finalize_sol_block_ok])
next
  case (op_finalize s q)
  obtain pg1 r where one: "in_transaction (\<lambda>db. Ok (sql_set_finalized_slot s db)) pg = (pg1, r)" by fastforce
  have "db_ok (pg_db pg1)"
    by (rule in_transaction_db_ok [OF one _ assms(2)]) (use sql_set_finalized_slot_ok [OF assms(2), of s] in \<open>metis fst_conv res.inject(1)\<close>)
  then show ?thesis using op_finalize one by (cases r) (auto simp: pg_set_finalized_slot_def)
next
  case (op_relayed s b fin r)
  then show ?thesis by (rule in_transaction_db_ok [OF _ _ assms(2)]) (auto intro: insert_sol_slot_ok [OF _ assms(2)])
qed

lemma pg_ops_ok: "(pg_op lib)\<^sup>*\<^sup>* pg pg' \<Longrightarrow> db_ok (pg_db pg) \<Longrightarrow> db_ok (pg_db pg')"
  by (induction rule: rtranclp_induct) (auto intro: pg_op_ok)

text \<open>
  The tables stay well formed: whatever operations of the storages run in whatever order,
  failures included, keys are unique and foreign keys refer to rows that are there; so for every
  transaction of a block both its bytes and its result can be read.
\<close>

theorem tables_well_formed:
  assumes "(pg_op lib)\<^sup>*\<^sup>* pg pg'" and "db_ok (pg_db pg)"
  shows "db_ok (pg_db pg') \<and> (\<forall>s i hash. (s, i, hash) \<in> keys_of (db_eth_block_txs (pg_db pg')) \<longrightarrow>
    hash \<in> keys_of (db_evm_tx (pg_db pg')) \<and> (s, hash) \<in> keys_of (db_evm_tx_result (pg_db pg')))"
  using pg_ops_ok [OF assms] by (fastforce simp: db_ok_def)

theorem tables_well_formed_witness:
  "\<exists>pg' r. pg_clean_from_slot test_pg 6 = (pg', r) \<and> db_ok (pg_db pg')"
proof -
  have ok: "db_ok (pg_db test_pg)"
    by (simp add: test_pg_def test_db_def db_ok_def bt_ok_def hm_ok_def keys_of_def)
  obtain pg' r where run: "pg_clean_from_slot test_pg 6 = (pg', r)" by fastforce
  then have "(pg_op test_pg_lib)\<^sup>*\<^sup>* test_pg pg'" by (intro r_into_rtranclp op_clean)
  from tables_well_formed [OF this ok] run show ?thesis by blast
qed

end
