(* ===== verification/Block_Loader.thy ===== *)
theory Block_Loader
  imports Block_Parser
begin

text \<open>
  \<^verbatim>\<open>rome-evm-client/src/indexer/solana_block_loader.rs\<close>: the task that loads the Solana
  blocks with the transactions of the EVM program into the storage, follows the finalized
  slot, and loads blocks again that changed on the chain.
\<close>

section \<open>The client and the storage\<close>

datatype commitment_level = CommitmentConfirmed | CommitmentFinalized

text \<open>
  The trait \<^verbatim>\<open>SolanaClient\<close>, whose answers may depend on the number of the call.  A block
  comes with its signatures.
\<close>

record sol_client =
  lc_get_transaction :: "nat \<Rightarrow> bytes \<Rightarrow> commitment_level \<Rightarrow> encoded_transaction option res"
  lc_get_signatures :: "nat \<Rightarrow> pubkey \<Rightarrow> commitment_level \<Rightarrow> bytes \<Rightarrow> bytes \<Rightarrow> rstr list res"
  lc_get_block :: "nat \<Rightarrow> slot \<Rightarrow> commitment_level \<Rightarrow> (solana_block \<times> rstr list option) option res"
  lc_get_slot :: "nat \<Rightarrow> commitment_level \<Rightarrow> slot res"

text \<open>The operations of the trait \<^verbatim>\<open>SolanaBlockStorage\<close> that the loader uses.\<close>

record 'w block_store =
  bs_store_blocks :: "'w \<Rightarrow> (slot, solana_block) btree \<Rightarrow> slot \<Rightarrow> 'w \<times> unit res"
  bs_update_finalized_blocks :: "'w \<Rightarrow> (slot, solana_block) btree \<Rightarrow> 'w \<times> unit res"
  bs_get_block :: "'w \<Rightarrow> slot \<Rightarrow> 'w \<times> solana_block option res"
  bs_get_last_slot :: "'w \<Rightarrow> 'w \<times> slot option res"
  bs_set_finalized_slot :: "'w \<Rightarrow> slot \<Rightarrow> 'w \<times> (slot, solana_block) btree res"

text \<open>
  \<^verbatim>\<open>SolanaBlockLoader\<close>; \<open>ld_order\<close> is the iteration order of a set of slots,
  \<open>ld_signature\<close> is \<^verbatim>\<open>Signature::from_str\<close>.
\<close>

record 'w block_loader =
  ld_store :: "'w block_store"
  ld_client :: sol_client
  ld_commitment :: commitment_level
  ld_program_id :: pubkey
  ld_batch_size :: slot
  ld_order :: "slot list \<Rightarrow> slot list"
  ld_signature :: "rstr \<Rightarrow> bytes option"

text \<open>What changes: the number of calls, the storage, and the reorg events sent.\<close>

record 'w load_state =
  ls_calls :: nat
  ls_world :: 'w
  ls_reorgs :: "slot list"

definition query :: "(nat \<Rightarrow> 'a) \<Rightarrow> 'w load_state \<Rightarrow> 'w load_state \<times> 'a" where
  "query f s = (s\<lparr>ls_calls := Suc (ls_calls s)\<rparr>, f (ls_calls s))"

definition on_store :: "('w \<Rightarrow> 'w \<times> 'a) \<Rightarrow> 'w load_state \<Rightarrow> 'w load_state \<times> 'a" where
  "on_store f s = (case f (ls_world s) of (w, r) \<Rightarrow> (s\<lparr>ls_world := w\<rparr>, r))"

text \<open>\<^verbatim>\<open>join_all\<close>; the calls of the futures are taken in their order.\<close>

fun join_all :: "('a \<Rightarrow> 's \<Rightarrow> 's \<times> 'b) \<Rightarrow> 'a list \<Rightarrow> 's \<Rightarrow> 's \<times> 'b list" where
  "join_all f [] s = (s, [])"
| "join_all f (x # xs) s =
     (case f x s of (s1, r) \<Rightarrow> (case join_all f xs s1 of (s2, rs) \<Rightarrow> (s2, r # rs)))"

section \<open>Loading transactions\<close>

fun uses_program :: "pubkey \<Rightarrow> pubkey list \<Rightarrow> compiled_instruction list \<Rightarrow> bool res" where
  "uses_program program accounts [] = Ok False"
| "uses_program program accounts (i # is) =
     (if length accounts \<le> unat (program_id_index i) then Panic ''index out of bounds''
      else if accounts ! unat (program_id_index i) = program then Ok True
      else uses_program program accounts is)"

definition program_tx :: "pubkey \<Rightarrow> encoded_transaction option \<Rightarrow> encoded_transaction option res" where
  "program_tx program tx =
     (case tx of
        None \<Rightarrow> Ok None
      | Some t \<Rightarrow>
          (case decoded t of
             None \<Rightarrow> Ok None
           | Some vt \<Rightarrow> try_res (uses_program program (static_account_keys vt) (instructions vt)) (\<lambda>used.
               Ok (if used then Some t else None))))"

definition load_transaction ::
  "'w block_loader \<Rightarrow> commitment_level \<Rightarrow> bytes \<Rightarrow> 'w load_state \<Rightarrow> 'w load_state \<times> encoded_transaction option res" where
  "load_transaction ld level sig s =
     and_then (query (\<lambda>t. lc_get_transaction (ld_client ld) t sig level) s) (\<lambda>s tx.
       (s, program_tx (ld_program_id ld) tx))"

definition load_transactions ::
  "'w block_loader \<Rightarrow> commitment_level \<Rightarrow> bytes list \<Rightarrow> 'w load_state
    \<Rightarrow> 'w load_state \<times> encoded_transaction list option res" where
  "load_transactions ld level sigs s =
     (case join_all (load_transaction ld level) sigs s of
        (s', rs) \<Rightarrow> (s', joined rs (try_res (collect_results rs) (\<lambda>txs.
          let loaded = List.map_filter id txs in Ok (if loaded = [] then None else Some loaded)))))"

section \<open>Loading blocks\<close>

definition load_block_transactions ::
  "'w block_loader \<Rightarrow> commitment_level \<Rightarrow> solana_block \<times> rstr list option \<Rightarrow> 'w load_state
    \<Rightarrow> 'w load_state \<times> solana_block res" where
  "load_block_transactions ld level b s =
     (case b of (block, opt_sigs) \<Rightarrow>
        let sig_of = (\<lambda>pick. case opt_sigs of
              None \<Rightarrow> None | Some sigs \<Rightarrow> if sigs = [] then None else ld_signature ld (pick sigs));
            before = sig_of last;
            until = sig_of hd in
        case (before, until) of
          (Some before, Some until) \<Rightarrow>
            and_then (query (\<lambda>t. lc_get_signatures (ld_client ld) t (ld_program_id ld) level before until) s) (\<lambda>s between.
            and_then (load_transactions ld level
                (rev (before # List.map_filter (ld_signature ld) between @ [until])) s) (\<lambda>s txs.
              (s, Ok (block\<lparr>sol_transactions := txs\<rparr>))))
        | _ \<Rightarrow> (s, Ok block))"

definition load_block ::
  "'w block_loader \<Rightarrow> commitment_level \<Rightarrow> slot \<Rightarrow> 'w load_state \<Rightarrow> 'w load_state \<times> solana_block option res" where
  "load_block ld level slot_nr s =
     and_then (query (\<lambda>t. lc_get_block (ld_client ld) t slot_nr level) s) (\<lambda>s b.
       case b of
         None \<Rightarrow> (s, Ok None)
       | Some b \<Rightarrow> and_then (load_block_transactions ld level b s) (\<lambda>s block. (s, Ok (Some block))))"

fun insert_loaded :: "(slot \<times> solana_block option res) list \<Rightarrow> (slot, solana_block) btree \<Rightarrow> (slot, solana_block) btree" where
  "insert_loaded [] results = results"
| "insert_loaded ((slot_nr, r) # rs) results =
     insert_loaded rs (case r of Ok (Some b) \<Rightarrow> bt_insert slot_nr b results | _ \<Rightarrow> results)"

definition load_blocks ::
  "'w block_loader \<Rightarrow> slot list \<Rightarrow> 'w load_state \<Rightarrow> 'w load_state \<times> (slot, solana_block) btree res" where
  "load_blocks ld slots s =
     (if slots = [] then (s, Ok [])
      else (case join_all (load_block ld (ld_commitment ld)) (ld_order ld slots) s of
        (s', rs) \<Rightarrow> (s', joined rs
          (if list_all is_ok rs then Ok (insert_loaded (zip (ld_order ld slots) rs) [])
           else Err (Custom ''Failed to load blocks on slots'')))))"

section \<open>Finalized blocks\<close>

definition recheck_finalized_block ::
  "'w block_loader \<Rightarrow> slot \<times> solana_block \<Rightarrow> 'w load_state \<Rightarrow> 'w load_state \<times> solana_block option res" where
  "recheck_finalized_block ld e s =
     (case e of (slot_nr, block) \<Rightarrow>
        case query (\<lambda>t. lc_get_block (ld_client ld) t slot_nr CommitmentFinalized) s of
          (s', Ok (Some (finalized_block, _))) \<Rightarrow>
            if blockhash finalized_block \<noteq> blockhash block then load_block ld CommitmentFinalized slot_nr s'
            else (s', Ok None)
        | (s', Ok None) \<Rightarrow> (s', Ok None)
        | (s', Err e) \<Rightarrow> (s', Err (Custom ''Failed to recheck block''))
        | (s', Panic m) \<Rightarrow> (s', Panic m))"

definition send_reorg :: "slot option \<Rightarrow> 'w load_state \<Rightarrow> 'w load_state" where
  "send_reorg reset s = (case reset of None \<Rightarrow> s | Some slot_nr \<Rightarrow> s\<lparr>ls_reorgs := ls_reorgs s @ [slot_nr]\<rparr>)"

definition recheck_finalized_blocks ::
  "'w block_loader \<Rightarrow> (slot, solana_block) btree \<Rightarrow> 'w load_state \<Rightarrow> 'w load_state \<times> unit res" where
  "recheck_finalized_blocks ld blocks s =
     (case join_all (recheck_finalized_block ld) blocks s of
        (s1, rs) \<Rightarrow>
          and_then (s1, joined rs (collect_results rs)) (\<lambda>s1 _.
            let updated_blocks = insert_loaded (zip (map fst blocks) rs) [];
                reset_from_slot = map_option fst (bt_first updated_blocks) in
            and_then (on_store (\<lambda>w. bs_update_finalized_blocks (ld_store ld) w updated_blocks) s1) (\<lambda>s2 _.
              (send_reorg reset_from_slot s2, Ok ()))))"

definition update_finalized_slot :: "'w block_loader \<Rightarrow> slot \<Rightarrow> 'w load_state \<Rightarrow> 'w load_state \<times> unit res" where
  "update_finalized_slot ld finalized_slot s =
     and_then (on_store (\<lambda>w. bs_set_finalized_slot (ld_store ld) w finalized_slot) s) (\<lambda>s blocks.
       recheck_finalized_blocks ld blocks s)"

section \<open>Preloading\<close>

definition slots_between :: "slot \<Rightarrow> slot \<Rightarrow> slot list" where
  "slots_between a b = map word_of_nat [unat a..<unat b]"

definition preload_blocks ::
  "'w block_loader \<Rightarrow> slot \<Rightarrow> slot \<Rightarrow> slot \<Rightarrow> 'w load_state \<Rightarrow> 'w load_state \<times> slot res" where
  "preload_blocks ld from_slot max_slot finalized_slot s =
     and_then (s, sub_or_panic max_slot from_slot) (\<lambda>s rest.
       let to_slot = from_slot + min rest (ld_batch_size ld) in
       and_then (load_blocks ld (slots_between from_slot to_slot) s) (\<lambda>s blocks.
       and_then (on_store (\<lambda>w. bs_store_blocks (ld_store ld) w blocks finalized_slot) s) (\<lambda>s _.
         (s, Ok to_slot))))"

definition get_latest_slots :: "'w block_loader \<Rightarrow> 'w load_state \<Rightarrow> 'w load_state \<times> (slot \<times> slot) res" where
  "get_latest_slots ld s =
     (case query (\<lambda>t. lc_get_slot (ld_client ld) t CommitmentConfirmed) s of
        (s1, r1) \<Rightarrow>
          (case query (\<lambda>t. lc_get_slot (ld_client ld) t CommitmentFinalized) s1 of
             (s2, r2) \<Rightarrow> (s2, joined [r1, r2]
               (case (r1, r2) of
                  (Ok confirmed_slot, Ok finalized_slot) \<Rightarrow> Ok (confirmed_slot, finalized_slot)
                | _ \<Rightarrow> Err (Custom ''Failed to get latest slots from Solana'')))))"

text \<open>The inner loop; the fuel counts the batches.\<close>

fun preload_loop ::
  "nat \<Rightarrow> 'w block_loader \<Rightarrow> slot \<Rightarrow> slot \<Rightarrow> slot \<Rightarrow> 'w load_state \<Rightarrow> ('w load_state \<times> unit res) option" where
  "preload_loop 0 ld current_slot to_slot finalized_slot s = None"
| "preload_loop (Suc n) ld current_slot to_slot finalized_slot s =
     (if current_slot < to_slot then
        (case preload_blocks ld current_slot to_slot finalized_slot s of
           (s', Ok next_slot) \<Rightarrow> preload_loop n ld next_slot to_slot finalized_slot s'
         | (s', Err e) \<Rightarrow> Some (s', Err e)
         | (s', Panic m) \<Rightarrow> Some (s', Panic m))
      else Some (s, Ok ()))"

text \<open>
  \<^verbatim>\<open>preload_blocks_until_in_sync\<close>; \<open>n\<close> counts the rounds, \<open>m\<close> is the fuel of the inner
  loop.  Sleeping is no operation.
\<close>

fun preload_until_in_sync ::
  "nat \<Rightarrow> nat \<Rightarrow> 'w block_loader \<Rightarrow> slot \<Rightarrow> 'w load_state \<Rightarrow> ('w load_state \<times> slot res) option" where
  "preload_until_in_sync 0 m ld from_slot s = None"
| "preload_until_in_sync (Suc n) m ld from_slot s =
     (case get_latest_slots ld s of
        (s1, Ok (to_slot, finalized_slot)) \<Rightarrow>
          (if from_slot < to_slot then
             (case preload_loop m ld from_slot to_slot finalized_slot s1 of
                None \<Rightarrow> None
              | Some (s2, r) \<Rightarrow>
                  (case and_then (s2, r) (\<lambda>s _. update_finalized_slot ld finalized_slot s) of
                     (s3, Ok _) \<Rightarrow> preload_until_in_sync n m ld to_slot s3
                   | (s3, Err e) \<Rightarrow> Some (s3, Err e)
                   | (s3, Panic p) \<Rightarrow> Some (s3, Panic p)))
           else Some (and_then (update_finalized_slot ld finalized_slot s1) (\<lambda>s _. (s, Ok from_slot))))
      | (s1, Err e) \<Rightarrow> preload_until_in_sync n m ld from_slot s1
      | (s1, Panic p) \<Rightarrow> Some (s1, Panic p))"

text \<open>
  \<^verbatim>\<open>start_loading\<close>: the slot it starts from, the first synchronisation, the signal
  (\<open>started\<close> says whether there is a sender, and whether it is listened to), and then \<open>k\<close>
  rounds of the endless loop, in which an error is only logged.
\<close>

fun loading_rounds ::
  "nat \<Rightarrow> nat \<Rightarrow> nat \<Rightarrow> 'w block_loader \<Rightarrow> slot \<Rightarrow> 'w load_state \<Rightarrow> ('w load_state \<times> slot res) option" where
  "loading_rounds 0 n m ld from_slot s = Some (s, Ok from_slot)"
| "loading_rounds (Suc k) n m ld from_slot s =
     (case preload_until_in_sync n m ld from_slot s of
        None \<Rightarrow> None
      | Some (s', Ok next_slot) \<Rightarrow> loading_rounds k n m ld next_slot s'
      | Some (s', Err e) \<Rightarrow> loading_rounds k n m ld from_slot s'
      | Some (s', Panic p) \<Rightarrow> Some (s', Panic p))"

definition loading_start :: "'w block_loader \<Rightarrow> slot option \<Rightarrow> 'w load_state \<Rightarrow> 'w load_state \<times> slot res" where
  "loading_start ld start_slot s =
     and_then (on_store (bs_get_last_slot (ld_store ld)) s) (\<lambda>s opt_last.
       (s, ok_or (Custom ''start_slot is not set'') (case opt_last of Some l \<Rightarrow> Some l | None \<Rightarrow> start_slot)))"

definition start_loading ::
  "nat \<Rightarrow> nat \<Rightarrow> nat \<Rightarrow> 'w block_loader \<Rightarrow> slot option \<Rightarrow> bool option \<Rightarrow> 'w load_state
    \<Rightarrow> ('w load_state \<times> slot res) option" where
  "start_loading k n m ld start_slot started s =
     (case loading_start ld start_slot s of
        (s1, Ok from_slot) \<Rightarrow>
          (case preload_until_in_sync n m ld from_slot s1 of
             None \<Rightarrow> None
           | Some (s2, Ok from_slot) \<Rightarrow>
               if started = Some False then Some (s2, Panic ''Failed to send SolanaBlockLoader started signal'')
               else loading_rounds k n m ld from_slot s2
           | Some (s2, r) \<Rightarrow> Some (s2, r))
      | (s1, r) \<Rightarrow> Some (s1, r))"

section \<open>Checking\<close>

text \<open>
  The walk of \<^verbatim>\<open>check_batch\<close> along the parents, with the number of blocks that are still
  in the batch.
\<close>

definition check_block :: "'w block_loader \<Rightarrow> slot \<Rightarrow> 'w load_state \<Rightarrow> 'w load_state \<times> solana_block res" where
  "check_block ld slot_nr s =
     and_then (on_store (\<lambda>w. bs_get_block (ld_store ld) w slot_nr) s) (\<lambda>s b.
       case b of
         Some block \<Rightarrow> (s, Ok block)
       | None \<Rightarrow> and_then (load_block ld (ld_commitment ld) slot_nr s) (\<lambda>s b.
           (s, ok_or (Custom ''Failed to load block on slot'') b)))"

fun check_walk ::
  "nat \<Rightarrow> 'w block_loader \<Rightarrow> slot \<Rightarrow> slot \<Rightarrow> (slot, solana_block) btree \<Rightarrow> 'w load_state
    \<Rightarrow> 'w load_state \<times> (slot \<times> (slot, solana_block) btree) res" where
  "check_walk 0 ld start_slot current_slot blocks s = (s, Ok (current_slot, blocks))"
| "check_walk (Suc n) ld start_slot current_slot blocks s =
     (if start_slot \<le> current_slot then
        and_then (check_block ld current_slot s) (\<lambda>s block.
          check_walk n ld start_slot (parent_slot block) (bt_insert current_slot block blocks) s)
      else (s, Ok (current_slot, blocks)))"

definition check_batch :: "'w block_loader \<Rightarrow> slot \<Rightarrow> slot \<Rightarrow> 'w load_state \<Rightarrow> 'w load_state \<times> slot res" where
  "check_batch ld start_slot end_slot s =
     and_then (check_walk (unat (ld_batch_size ld)) ld start_slot end_slot [] s) (\<lambda>s (current_slot, blocks).
     and_then (recheck_finalized_blocks ld blocks s) (\<lambda>s _. (s, Ok current_slot)))"

fun check_loop :: "nat \<Rightarrow> 'w block_loader \<Rightarrow> slot \<Rightarrow> slot \<Rightarrow> 'w load_state \<Rightarrow> ('w load_state \<times> unit res) option" where
  "check_loop 0 ld start_slot end_slot s = None"
| "check_loop (Suc n) ld start_slot end_slot s =
     (if start_slot \<le> end_slot then
        (case check_batch ld start_slot end_slot s of
           (s', Ok next_slot) \<Rightarrow> check_loop n ld start_slot next_slot s'
         | (s', Err e) \<Rightarrow> Some (s', Err e)
         | (s', Panic m) \<Rightarrow> Some (s', Panic m))
      else Some (s, Ok ()))"

definition checking_end :: "'w block_loader \<Rightarrow> slot option \<Rightarrow> 'w load_state \<Rightarrow> 'w load_state \<times> slot option res" where
  "checking_end ld end_slot s =
     (case end_slot of
        Some slot_nr \<Rightarrow> (s, Ok (Some slot_nr))
      | None \<Rightarrow>
          (case on_store (bs_get_last_slot (ld_store ld)) s of
             (s', Ok l) \<Rightarrow> (s', Ok l)
           | (s', Err e) \<Rightarrow> (s', Err (Custom ''Failed to get last slot from SolanaBlockStorage''))
           | (s', Panic m) \<Rightarrow> (s', Panic m)))"

definition start_checking ::
  "nat \<Rightarrow> 'w block_loader \<Rightarrow> slot \<Rightarrow> slot option \<Rightarrow> 'w load_state \<Rightarrow> ('w load_state \<times> unit res) option" where
  "start_checking n ld start_slot end_slot s =
     (case checking_end ld end_slot s of
        (s1, Ok None) \<Rightarrow> Some (s1, Ok ())
      | (s1, Ok (Some end_slot)) \<Rightarrow>
          if end_slot < start_slot then Some (s1, Ok ())
          else (case on_store (\<lambda>w. bs_get_block (ld_store ld) w start_slot) s1 of
                  (s2, Ok None) \<Rightarrow> Some (s2, Ok ())
                | (s2, Ok (Some _)) \<Rightarrow> check_loop n ld start_slot end_slot s2
                | (s2, Err e) \<Rightarrow> Some (s2, Err e)
                | (s2, Panic m) \<Rightarrow> Some (s2, Panic m))
      | (s1, Err e) \<Rightarrow> Some (s1, Err e)
      | (s1, Panic m) \<Rightarrow> Some (s1, Panic m))"

end
