(* ===== verification/Loader_Facts.thy ===== *)
theory Loader_Facts
  imports Block_Loader Pg_Pending
begin

text \<open>
  What the block loader promises: no gaps in the storage, and a reorg event for the first
  finalized block that changed on the chain.
\<close>

section \<open>Joined futures\<close>

lemma join_all_facts:
  assumes "join_all f xs s = (s', rs)" and "\<And>x s s' r. f x s = (s', r) \<Longrightarrow> I s \<Longrightarrow> I s'" and "I s"
  shows "I s'" and "list_all2 (\<lambda>x r. \<exists>s1 s2. I s1 \<and> f x s1 = (s2, r)) xs rs"
proof -
  have "I s' \<and> list_all2 (\<lambda>x r. \<exists>s1 s2. I s1 \<and> f x s1 = (s2, r)) xs rs"
    using assms(1,3)
  proof (induction xs arbitrary: s rs)
    case (Cons x xs)
    obtain s1 r where one: "f x s = (s1, r)" by (cases "f x s")
    obtain rs' where all: "join_all f xs s1 = (s', rs')" and rs: "rs = r # rs'"
      using Cons.prems(1) by (auto simp: one split: prod.splits)
    have "I s1" by (rule assms(2) [OF one Cons.prems(2)])
    from Cons.IH [OF all this] one Cons.prems(2) show ?case by (auto simp: rs)
  qed simp
  then show "I s'" and "list_all2 (\<lambda>x r. \<exists>s1 s2. I s1 \<and> f x s1 = (s2, r)) xs rs" by simp_all
qed

text \<open>Asking the client changes neither the storage nor the events.\<close>

definition same_store :: "'w load_state \<Rightarrow> 'w load_state \<Rightarrow> bool" where
  "same_store s s' \<longleftrightarrow> ls_world s' = ls_world s \<and> ls_reorgs s' = ls_reorgs s"

lemma same_store_simps [simp]: "same_store s s" "same_store s (s\<lparr>ls_calls := n\<rparr>)"
  by (simp_all add: same_store_def)

lemma same_store_trans: "same_store s s' \<Longrightarrow> same_store s' s'' \<Longrightarrow> same_store s s''"
  by (simp add: same_store_def)

lemma and_then_same_store:
  assumes "and_then m k = (s', r)" and "same_store s (fst m)" and "\<And>s1 x s2 r. k s1 x = (s2, r) \<Longrightarrow> same_store s1 s2"
  shows "same_store s s'"
  using assms by (cases m; cases "snd m") (auto simp: and_then_def intro: same_store_trans)

lemma query_same_store: "same_store s (fst (query f s))"
  by (simp add: query_def)

lemma load_transaction_same: "load_transaction ld level sig s = (s', r) \<Longrightarrow> same_store s s'"
  unfolding load_transaction_def by (rule and_then_same_store, assumption, rule query_same_store) simp

lemma join_all_same:
  assumes "join_all f xs s = (s', rs)" and "\<And>x s s' r. f x s = (s', r) \<Longrightarrow> same_store s s'"
  shows "same_store s s'"
  by (rule join_all_facts(1) [OF assms(1), where I = "same_store s"]) (auto dest: assms(2) intro: same_store_trans)

lemma load_transactions_same: "load_transactions ld level sigs s = (s', r) \<Longrightarrow> same_store s s'"
  by (auto simp: load_transactions_def split: prod.splits dest: join_all_same [OF _ load_transaction_same])

lemma load_block_transactions_same: "load_block_transactions ld level b s = (s', r) \<Longrightarrow> same_store s s'"
  by (auto simp: load_block_transactions_def Let_def split: prod.splits option.splits
      elim!: and_then_same_store [OF _ query_same_store]
      intro: and_then_same_store [OF _ load_transactions_same [OF prod.collapse [symmetric]]])

lemma load_block_same: "load_block ld level slot_nr s = (s', r) \<Longrightarrow> same_store s s'"
  unfolding load_block_def
  by (rule and_then_same_store, assumption, rule query_same_store)
    (auto split: option.splits elim!: and_then_same_store [OF _ load_block_transactions_same [OF prod.collapse [symmetric]]])

lemma recheck_block_same: "recheck_finalized_block ld e s = (s', r) \<Longrightarrow> same_store s s'"
  by (auto simp: recheck_finalized_block_def query_def split: prod.splits res.splits option.splits if_splits
      dest!: load_block_same intro: same_store_trans [rotated])

section \<open>A concrete loader\<close>

text \<open>A chain of which slot 3 has no block; the confirmed slot is 5, the finalized slot 4.\<close>

definition chain_block :: "slot \<Rightarrow> rstr \<Rightarrow> solana_block" where
  "chain_block k h = \<lparr>previous_blockhash = [], blockhash = h, parent_slot = k - 1, sol_transactions = None, block_time = Some 1\<rparr>"

definition test_client :: sol_client where
  "test_client = \<lparr>lc_get_transaction = (\<lambda>t sig level. Ok None), lc_get_signatures = (\<lambda>t p level b u. Ok []),
     lc_get_block = (\<lambda>t k level. Ok (if k = 3 then None else Some (chain_block k [7], None))),
     lc_get_slot = (\<lambda>t level. Ok (if level = CommitmentConfirmed then 5 else 4))\<rparr>"

definition test_loader :: "'w block_store \<Rightarrow> 'w block_loader" where
  "test_loader store = \<lparr>ld_store = store, ld_client = test_client, ld_commitment = CommitmentConfirmed, ld_program_id = 0,
     ld_batch_size = 2, ld_order = (\<lambda>xs. xs), ld_signature = (\<lambda>_. None)\<rparr>"

definition test_state :: "'w \<Rightarrow> 'w load_state" where
  "test_state w = \<lparr>ls_calls = 0, ls_world = w, ls_reorgs = []\<rparr>"

text \<open>A storage that is the map of its blocks.\<close>

definition map_store :: "(slot, solana_block) btree block_store" where
  "map_store = \<lparr>bs_store_blocks = (\<lambda>w blocks fin. (foldr (\<lambda>(k, b). bt_insert k b) blocks w, Ok ())),
     bs_update_finalized_blocks = (\<lambda>w blocks. (foldr (\<lambda>(k, b). bt_insert k b) blocks w, Ok ())),
     bs_get_block = (\<lambda>w k. (w, Ok (map_of w k))), bs_get_last_slot = (\<lambda>w. (w, Ok (max_of (map fst w)))),
     bs_set_finalized_slot = (\<lambda>w k. (w, Ok []))\<rparr>"

lemmas test_loading = test_loader_def test_client_def test_state_def chain_block_def map_store_def

section \<open>Loaded blocks\<close>

lemma keys_insert_loaded:
  "fst ` set (insert_loaded rs m) = fst ` set m \<union> {k. \<exists>b. (k, Ok (Some b)) \<in> set rs}"
  by (induction rs m rule: insert_loaded.induct) (auto simp: keys_bt_insert split: res.splits option.splits)

lemma insert_loaded_ok: "bt_ok m \<Longrightarrow> bt_ok (insert_loaded rs m)"
  by (induction rs m rule: insert_loaded.induct) (auto simp: bt_ok_insert split: res.splits option.splits)

lemma insert_loaded_entries:
  "(k, b) \<in> set (insert_loaded rs m) \<Longrightarrow> (k, b) \<in> set m \<or> (k, Ok (Some b)) \<in> set rs"
proof (induction rs m rule: insert_loaded.induct)
  case (2 k' r rs m)
  then show ?case using set_bt_insert by (fastforce split: res.splits option.splits)
qed simp

lemma load_block_loads:
  assumes "load_block ld level slot_nr s = (s', Ok ob)"
  shows "\<exists>t. (case lc_get_block (ld_client ld) t slot_nr level of
      Ok None \<Rightarrow> ob = None
    | Ok (Some (b, _)) \<Rightarrow> (\<exists>b'. ob = Some b' \<and> blockhash b' = blockhash b \<and> parent_slot b' = parent_slot b)
    | _ \<Rightarrow> False)"
proof -
  obtain s1 b where q: "lc_get_block (ld_client ld) (ls_calls s) slot_nr level = Ok b"
    and rest: "(case b of None \<Rightarrow> (s1, Ok None)
      | Some b \<Rightarrow> and_then (load_block_transactions ld level b s1) (\<lambda>s block. (s, Ok (Some block)))) = (s', Ok ob)"
    using assms by (auto simp: load_block_def query_def and_then_eq_Ok)
  show ?thesis
  proof (rule exI [of _ "ls_calls s"], cases b)
    case (Some p)
    then obtain bl sigs where p: "p = (bl, sigs)" by (cases p)
    obtain s2 b' where "load_block_transactions ld level (bl, sigs) s1 = (s2, Ok b')" "ob = Some b'"
      using rest by (auto simp: Some p and_then_eq_Ok)
    moreover from this have "blockhash b' = blockhash bl \<and> parent_slot b' = parent_slot bl"
      by (auto simp: load_block_transactions_def Let_def and_then_eq_Ok split: option.splits)
    ultimately show "case lc_get_block (ld_client ld) (ls_calls s) slot_nr level of
        Ok None \<Rightarrow> ob = None
      | Ok (Some (b, _)) \<Rightarrow> (\<exists>b'. ob = Some b' \<and> blockhash b' = blockhash b \<and> parent_slot b' = parent_slot b)
      | _ \<Rightarrow> False" by (simp add: q Some p)
  qed (use rest in \<open>auto simp: q\<close>)
qed

lemma joined_results:
  assumes "joined rs r = Ok x"
  shows "r = Ok x" and "first_panic rs = None"
  using assms by (auto simp: joined_def split: option.splits)

lemma recheck_block_result:
  assumes "recheck_finalized_block ld (slot_nr, b) s = (s', Ok ob)"
    and steady: "\<And>t. lc_get_block (ld_client ld) t slot_nr CommitmentFinalized = chain slot_nr"
  shows "case chain slot_nr of
      Ok (Some (fb, _)) \<Rightarrow>
        if blockhash fb \<noteq> blockhash b then \<exists>b'. ob = Some b' \<and> blockhash b' = blockhash fb else ob = None
    | Ok None \<Rightarrow> ob = None
    | _ \<Rightarrow> False"
  using assms(1) load_block_loads [of ld CommitmentFinalized slot_nr]
  by (fastforce simp: recheck_finalized_block_def query_def steady split: res.splits option.splits prod.splits if_splits)

text \<open>The blocks that the chain has with another hash, when the client answers with the same chain.\<close>

definition changed_slots ::
  "(slot \<Rightarrow> (solana_block \<times> rstr list option) option res) \<Rightarrow> (slot, solana_block) btree \<Rightarrow> slot set" where
  "changed_slots chain blocks =
     {slot_nr. \<exists>b fb sigs. (slot_nr, b) \<in> set blocks \<and> chain slot_nr = Ok (Some (fb, sigs)) \<and> blockhash fb \<noteq> blockhash b}"

lemma recheck_results:
  assumes "join_all (recheck_finalized_block ld) blocks s = (s', rs)" and "list_all is_ok rs"
    and steady: "\<And>t slot_nr. lc_get_block (ld_client ld) t slot_nr CommitmentFinalized = chain slot_nr"
  shows "{k. \<exists>b. (k, Ok (Some b)) \<in> set (zip (map fst blocks) rs)} = changed_slots chain blocks" and
    "(k, Ok (Some b)) \<in> set (zip (map fst blocks) rs) \<Longrightarrow> \<exists>fb sigs. chain k = Ok (Some (fb, sigs)) \<and> blockhash b = blockhash fb"
proof -
  have rs: "list_all2 (\<lambda>e r. \<exists>s1 s2. recheck_finalized_block ld e s1 = (s2, r)) blocks rs"
    using join_all_facts(2) [OF assms(1), of "\<lambda>_. True"] by simp
  have one: "case chain (fst e) of
      Ok (Some (fb, _)) \<Rightarrow>
        if blockhash fb \<noteq> blockhash (snd e) then \<exists>b'. r = Ok (Some b') \<and> blockhash b' = blockhash fb else r = Ok None
    | Ok None \<Rightarrow> r = Ok None
    | _ \<Rightarrow> False" if "(e, r) \<in> set (zip blocks rs)" for e r
  proof -
    have "is_ok r" using assms(2) that by (auto simp: list_all_iff dest: set_zip_rightD)
    then obtain ob where r: "r = Ok ob" by (auto simp: is_ok_iff)
    have "\<forall>x \<in> set (zip blocks rs). \<exists>s1 s2. recheck_finalized_block ld (fst x) s1 = (s2, snd x)"
      using rs by (auto simp: list_all2_iff)
    from bspec [OF this that] obtain s1 s2 where "recheck_finalized_block ld (fst e, snd e) s1 = (s2, Ok ob)"
      by (auto simp: r)
    from recheck_block_result [OF this, where chain = chain, OF steady] show ?thesis
      by (simp add: r split: res.splits option.splits prod.splits)
  qed
  have zip: "set (zip (map fst blocks) rs) = (\<lambda>(e, r). (fst e, r)) ` set (zip blocks rs)"
    by (simp add: zip_map1)
  have len: "length blocks = length rs" using rs by (rule list_all2_lengthD)
  show "\<exists>fb sigs. chain k = Ok (Some (fb, sigs)) \<and> blockhash b = blockhash fb"
    if k: "(k, Ok (Some b)) \<in> set (zip (map fst blocks) rs)"
  proof -
    obtain e where e: "(e, Ok (Some b)) \<in> set (zip blocks rs)" "k = fst e" using k unfolding zip by auto
    from one [OF e(1)] show ?thesis by (simp add: e(2) split: res.splits option.splits prod.splits if_splits)
  qed
  show "{k. \<exists>b. (k, Ok (Some b)) \<in> set (zip (map fst blocks) rs)} = changed_slots chain blocks"
  proof (rule set_eqI, rule iffI)
    fix k assume "k \<in> {k. \<exists>b. (k, Ok (Some b)) \<in> set (zip (map fst blocks) rs)}"
    then obtain e b where e: "(e, Ok (Some b)) \<in> set (zip blocks rs)" "k = fst e" unfolding zip by auto
    then have "(k, snd e) \<in> set blocks" by (auto dest: set_zip_leftD)
    moreover from one [OF e(1)] obtain fb sigs where "chain k = Ok (Some (fb, sigs))" "blockhash fb \<noteq> blockhash (snd e)"
      by (auto simp: e(2) split: res.splits option.splits prod.splits if_splits)
    ultimately show "k \<in> changed_slots chain blocks" unfolding changed_slots_def by blast
  next
    fix k assume "k \<in> changed_slots chain blocks"
    then obtain b fb sigs where b: "(k, b) \<in> set blocks" "chain k = Ok (Some (fb, sigs))" "blockhash fb \<noteq> blockhash b"
      by (auto simp: changed_slots_def)
    then obtain r where "((k, b), r) \<in> set (zip blocks rs)" using len by (metis in_set_impl_in_set_zip1)
    moreover from one [OF this] b obtain b' where "r = Ok (Some b')" by auto
    ultimately show "k \<in> {k. \<exists>b. (k, Ok (Some b)) \<in> set (zip (map fst blocks) rs)}" unfolding zip by force
  qed
qed

lemma recheck_Ok:
  assumes "recheck_finalized_blocks ld blocks s = (s', Ok ())"
    and "\<And>t slot_nr. lc_get_block (ld_client ld) t slot_nr CommitmentFinalized = chain slot_nr"
  shows "\<exists>updated. bt_ok updated \<and> fst ` set updated = changed_slots chain blocks \<and>
    (\<forall>(k, b) \<in> set updated. \<exists>fb sigs. chain k = Ok (Some (fb, sigs)) \<and> blockhash b = blockhash fb) \<and>
    bs_update_finalized_blocks (ld_store ld) (ls_world s) updated = (ls_world s', Ok ()) \<and>
    ls_reorgs s' = ls_reorgs s @ (if changed_slots chain blocks = {} then [] else [Min (changed_slots chain blocks)])"
proof -
  obtain s1 rs where join: "join_all (recheck_finalized_block ld) blocks s = (s1, rs)"
    by (cases "join_all (recheck_finalized_block ld) blocks s")
  define updated where "updated = insert_loaded (zip (map fst blocks) rs) []"
  obtain xs where ok: "joined rs (collect_results rs) = Ok xs" and
    upd: "and_then (on_store (\<lambda>w. bs_update_finalized_blocks (ld_store ld) w updated) s1) (\<lambda>s2 _.
      (send_reorg (map_option fst (bt_first updated)) s2, Ok ())) = (s', Ok ())"
    using assms(1) by (auto simp: recheck_finalized_blocks_def join and_then_eq_Ok updated_def Let_def)
  have "list_all is_ok rs" by (rule collect_results_Ok [OF joined_Ok [OF ok]])
  note res = recheck_results [OF join this assms(2)]
  have keys: "fst ` set updated = changed_slots chain blocks"
    by (simp add: updated_def keys_insert_loaded res(1))
  have bt: "bt_ok updated" by (simp add: updated_def insert_loaded_ok)
  have "same_store s s1" by (rule join_all_same [OF join recheck_block_same])
  moreover have "map_option fst (bt_first updated) = (if changed_slots chain blocks = {} then None else Some (Min (changed_slots chain blocks)))"
  proof (cases updated)
    case (Cons e rest)
    have "Min (fst ` set updated) = fst e"
      using bt by (intro Min_eqI) (auto simp: Cons bt_ok_def less_imp_le)
    then show ?thesis using keys by (auto simp: bt_first_def Cons)
  qed (use keys in \<open>simp add: bt_first_def\<close>)
  moreover have "\<forall>(k, b) \<in> set updated. \<exists>fb sigs. chain k = Ok (Some (fb, sigs)) \<and> blockhash b = blockhash fb"
    using insert_loaded_entries res(2) by (fastforce simp: updated_def)
  ultimately show ?thesis using upd keys bt
    by (intro exI [of _ updated]) (auto simp: and_then_eq_Ok on_store_def same_store_def send_reorg_def split: prod.splits if_splits)
qed

text \<open>
  C15. Rechecking finalized blocks finds exactly the blocks that changed on the chain: when it
  succeeds, the storage was given, under their slots, blocks with the hashes of the chain, for
  the changed slots and no other, and if there are any, one reorg event was sent, for the first
  of them.
\<close>

theorem finalized_changes_reloaded:
  assumes "recheck_finalized_blocks ld blocks s = (s', Ok ())"
    and "\<And>t slot_nr. lc_get_block (ld_client ld) t slot_nr CommitmentFinalized = chain slot_nr"
  shows "\<exists>updated. bt_ok updated \<and> fst ` set updated = changed_slots chain blocks \<and>
    (\<forall>(k, b) \<in> set updated. \<exists>fb sigs. chain k = Ok (Some (fb, sigs)) \<and> blockhash b = blockhash fb) \<and>
    bs_update_finalized_blocks (ld_store ld) (ls_world s) updated = (ls_world s', Ok ()) \<and>
    ls_reorgs s' = ls_reorgs s @ (if changed_slots chain blocks = {} then [] else [Min (changed_slots chain blocks)])"
  by (rule recheck_Ok [OF assms])

definition test_blocks :: "(slot, solana_block) btree" where
  "test_blocks = [(2, chain_block 2 [7]), (4, chain_block 4 [6]), (6, chain_block 6 [5])]"

lemma test_client_steady:
  "lc_get_block (ld_client (test_loader store)) t k level = Ok (if k = 3 then None else Some (chain_block k [7], None))"
  by (simp add: test_loader_def test_client_def)

lemma blockhash_chain_block [simp]: "blockhash (chain_block k h) = h"
  by (simp add: chain_block_def)

lemma ld_test_store: "ld_store (test_loader store) = store"
  by (simp add: test_loader_def)

lemma test_get_block:
  "query (\<lambda>t. lc_get_block (ld_client (test_loader store)) t k level) u =
    (u\<lparr>ls_calls := Suc (ls_calls u)\<rparr>, Ok (if k = 3 then None else Some (chain_block k [7], None)))"
  by (simp add: query_def test_client_steady)

lemma test_load_block:
  "load_block (test_loader store) level k u =
    (u\<lparr>ls_calls := Suc (ls_calls u)\<rparr>, Ok (if k = 3 then None else Some (chain_block k [7])))"
  by (simp add: load_block_def test_get_block load_block_transactions_def)

lemma test_recheck:
  "recheck_finalized_block (test_loader store) (k, chain_block k h) s =
    (if k = 3 \<or> h = [7] then (s\<lparr>ls_calls := Suc (ls_calls s)\<rparr>, Ok None)
     else (s\<lparr>ls_calls := Suc (Suc (ls_calls s))\<rparr>, Ok (Some (chain_block k [7]))))"
  unfolding recheck_finalized_block_def prod.case test_get_block test_load_block by simp

theorem finalized_changes_reloaded_witness:
  "\<exists>s'. recheck_finalized_blocks (test_loader map_store) test_blocks (test_state []) = (s', Ok ()) \<and> ls_reorgs s' = [4]"
proof -
  have "snd (recheck_finalized_blocks (test_loader map_store) test_blocks (test_state [])) = Ok ()"
    by (simp add: recheck_finalized_blocks_def test_blocks_def test_recheck joined_def on_store_def Let_def map_store_def
        ld_test_store)
  then obtain s' where run: "recheck_finalized_blocks (test_loader map_store) test_blocks (test_state []) = (s', Ok ())"
    by (cases "recheck_finalized_blocks (test_loader map_store) test_blocks (test_state [])") auto
  have mem: "slot_nr \<in> changed_slots (\<lambda>k. Ok (if k = 3 then None else Some (chain_block k [7], None))) test_blocks \<longleftrightarrow>
      slot_nr \<noteq> 3 \<and> (\<exists>b. (slot_nr, b) \<in> set test_blocks \<and> blockhash b \<noteq> [7])" for slot_nr
    by (auto simp: changed_slots_def)
  have "filter (\<lambda>e. blockhash (snd e) \<noteq> [7]) test_blocks = [(4, chain_block 4 [6]), (6, chain_block 6 [5])]"
    by (simp add: test_blocks_def)
  moreover have "(\<exists>b. (slot_nr, b) \<in> set test_blocks \<and> blockhash b \<noteq> [7]) \<longleftrightarrow>
      slot_nr \<in> fst ` set (filter (\<lambda>e. blockhash (snd e) \<noteq> [7]) test_blocks)" for slot_nr by force
  ultimately have keys: "(\<exists>b. (slot_nr, b) \<in> set test_blocks \<and> blockhash b \<noteq> [7]) \<longleftrightarrow> slot_nr \<in> {4, 6}" for slot_nr
    by simp
  have "changed_slots (\<lambda>k. Ok (if k = 3 then None else Some (chain_block k [7], None))) test_blocks = {4, 6}"
    unfolding set_eq_iff mem keys by auto
  with finalized_changes_reloaded [OF run test_client_steady] have "ls_reorgs s' = [4]"
    by (elim exE conjE) (simp add: test_state_def)
  with run show ?thesis by blast
qed

section \<open>Changed blocks and the Postgres storage\<close>

text \<open>The Postgres storage as the storage of the loader.\<close>

definition pg_block_store :: "pg_lib \<Rightarrow> pg block_store" where
  "pg_block_store lib = \<lparr>bs_store_blocks = pg_store_blocks lib, bs_update_finalized_blocks = pg_update_finalized_blocks lib,
     bs_get_block = pg_get_block lib, bs_get_last_slot = pg_get_last_slot, bs_set_finalized_slot = pg_set_finalized_slot lib\<rparr>"

lemma pg_update_fails:
  assumes "blocks \<noteq> []" and "pg_update_finalized_blocks lib pg blocks = (pg', r)"
  shows "\<not> is_ok r \<and> pg_db pg' = pg_db pg"
proof -
  obtain e rest where blocks: "blocks = e # rest" using assms(1) by (cases blocks) auto
  obtain k b where e: "e = (k, b)" by (cases e)
  have "\<not> is_ok (finalize_sol_block lib e db)" for db
    by (cases "block_to_json lib b")
      (simp_all add: e finalize_sol_block_def call_procedure_def update_finalized_block2_sig_def)
  then have "\<not> is_ok (run_all (finalize_sol_block lib) blocks db)" for db
    using \<open>\<And>db. \<not> is_ok (finalize_sol_block lib e db)\<close> [of db]
    by (cases "finalize_sol_block lib e db") (simp_all add: blocks)
  then show ?thesis using assms(2)
    by (auto simp: pg_update_finalized_blocks_def in_transaction_def Let_def is_ok_iff res_elims split: if_splits res.splits prod.splits)
qed

text \<open>
  C32. With the Postgres storage a change of a finalized block is never recorded: the call of
  the procedure does not match its declaration, so the recheck fails, the tables stay as they
  are and no reorg event is sent.
\<close>

theorem reorg_never_recorded:
  assumes "ld_store ld = pg_block_store lib" and "recheck_finalized_blocks ld blocks s = (s', r)"
    and "\<And>t slot_nr. lc_get_block (ld_client ld) t slot_nr CommitmentFinalized = chain slot_nr"
    and "changed_slots chain blocks \<noteq> {}"
  shows "\<not> is_ok r \<and> pg_db (ls_world s') = pg_db (ls_world s) \<and> ls_reorgs s' = ls_reorgs s"
proof -
  obtain s1 rs where join: "join_all (recheck_finalized_block ld) blocks s = (s1, rs)"
    by (cases "join_all (recheck_finalized_block ld) blocks s")
  have same: "same_store s s1" by (rule join_all_same [OF join recheck_block_same])
  show ?thesis
  proof (cases "joined rs (collect_results rs)")
    case (Ok xs)
    then have ok: "list_all is_ok rs" by (intro collect_results_Ok [OF joined_Ok])
    define updated where "updated = insert_loaded (zip (map fst blocks) rs) []"
    have "fst ` set updated = changed_slots chain blocks"
      by (simp add: updated_def keys_insert_loaded recheck_results(1) [OF join ok assms(3)])
    then have ne: "updated \<noteq> []" using assms(4) by auto
    obtain w q where w: "pg_update_finalized_blocks lib (ls_world s1) updated = (w, q)" by fastforce
    have bad: "\<not> is_ok q" using pg_update_fails [OF ne w] by simp
    have "s' = s1\<lparr>ls_world := w\<rparr> \<and> \<not> is_ok r"
      using assms(2) bad
      by (cases q) (auto simp: recheck_finalized_blocks_def join Ok updated_def [symmetric] Let_def on_store_def
          assms(1) pg_block_store_def w)
    then show ?thesis using same pg_update_fails [OF ne w] by (simp add: same_store_def)
  qed (use assms(2) same in \<open>auto simp: recheck_finalized_blocks_def join same_store_def\<close>)
qed

theorem reorg_never_recorded_witness:
  "\<exists>s' r. recheck_finalized_blocks (test_loader (pg_block_store test_pg_lib)) [(4, chain_block 4 [6])] (test_state test_pg) = (s', r) \<and>
    \<not> is_ok r \<and> pg_db (ls_world s') = test_db \<and> ls_reorgs s' = []"
proof -
  let ?ld = "test_loader (pg_block_store test_pg_lib)"
  let ?chain = "\<lambda>k. Ok (if k = 3 then None else Some (chain_block k [7], None :: rstr list option))"
  obtain s' r where run: "recheck_finalized_blocks ?ld [(4, chain_block 4 [6])] (test_state test_pg) = (s', r)" by fastforce
  have "4 \<in> changed_slots ?chain [(4, chain_block 4 [6])]" by (auto simp: changed_slots_def)
  then have "\<not> is_ok r \<and> pg_db (ls_world s') = pg_db (ls_world (test_state test_pg)) \<and> ls_reorgs s' = ls_reorgs (test_state test_pg)"
    by (intro reorg_never_recorded [OF _ run, where chain = ?chain]) (auto simp: test_loader_def test_client_def)
  with run show ?thesis by (auto simp: test_state_def test_pg_def)
qed

section \<open>No gaps\<close>

text \<open>The slots a storage has blocks of, and what the operations do to them.\<close>

locale stored_blocks =
  fixes store :: "'w block_store" and stored :: "'w \<Rightarrow> slot set"
  assumes adds: "bs_store_blocks store w blocks fin = (w', Ok ()) \<Longrightarrow> fst ` set blocks \<subseteq> stored w'"
    and store_keeps: "bs_store_blocks store w blocks fin = (w', r) \<Longrightarrow> stored w \<subseteq> stored w'"
    and update_keeps: "bs_update_finalized_blocks store w blocks = (w', q) \<Longrightarrow> stored w \<subseteq> stored w'"
    and finalize_keeps: "bs_set_finalized_slot store w fin = (w', p) \<Longrightarrow> stored w \<subseteq> stored w'"

text \<open>A slot that the client never says to be without a block.\<close>

definition has_block :: "'w block_loader \<Rightarrow> slot \<Rightarrow> bool" where
  "has_block ld slot_nr \<longleftrightarrow> (\<forall>t. lc_get_block (ld_client ld) t slot_nr (ld_commitment ld) \<noteq> Ok None)"

lemma set_slots_between: "set (slots_between a b) = {k. a \<le> k \<and> k < b}"
proof (rule set_eqI, rule iffI)
  fix k assume "k \<in> {k. a \<le> k \<and> k < b}"
  then have "unat a \<le> unat k" "unat k < unat b" by (simp_all add: word_le_nat_alt word_less_nat_alt)
  then show "k \<in> set (slots_between a b)" by (auto simp: slots_between_def image_iff intro!: bexI [of _ "unat k"])
next
  fix k assume "k \<in> set (slots_between a b)"
  then obtain n where n: "k = word_of_nat n" "unat a \<le> n" "n < unat b" by (auto simp: slots_between_def)
  then have "unat k = n" using unat_bound [of b] by (simp add: unat_of_nat)
  then show "k \<in> {k. a \<le> k \<and> k < b}" using n by (simp add: word_le_nat_alt word_less_nat_alt)
qed

lemma load_blocks_keys:
  assumes "load_blocks ld slots s = (s', Ok blocks)" and "set (ld_order ld slots) = set slots"
    and "k \<in> set slots" and "has_block ld k"
  shows "k \<in> fst ` set blocks"
proof -
  obtain rs where join: "join_all (load_block ld (ld_commitment ld)) (ld_order ld slots) s = (s', rs)"
    and ok: "list_all is_ok rs" and blocks: "blocks = insert_loaded (zip (ld_order ld slots) rs) []"
    using assms(1,3) by (auto simp: load_blocks_def split: if_splits prod.splits dest!: joined_Ok)
  have rs: "list_all2 (\<lambda>k r. \<exists>s1 s2. load_block ld (ld_commitment ld) k s1 = (s2, r)) (ld_order ld slots) rs"
    using join_all_facts(2) [OF join, of "\<lambda>_. True"] by simp
  obtain r where kr: "(k, r) \<in> set (zip (ld_order ld slots) rs)"
    using assms(2,3) list_all2_lengthD [OF rs] by (metis in_set_impl_in_set_zip1)
  moreover have "\<forall>x \<in> set (zip (ld_order ld slots) rs). \<exists>s1 s2. load_block ld (ld_commitment ld) (fst x) s1 = (s2, snd x)"
    using rs by (auto simp: list_all2_iff)
  ultimately obtain s1 s2 where lb: "load_block ld (ld_commitment ld) k s1 = (s2, r)" by fastforce
  have "is_ok r" using ok kr by (auto simp: list_all_iff dest: set_zip_rightD)
  then obtain ob where "r = Ok ob" by (auto simp: is_ok_iff)
  with load_block_loads [of ld "ld_commitment ld" k s1 s2 ob] lb assms(4) obtain b where "r = Ok (Some b)"
    by (fastforce simp: has_block_def split: res.splits option.splits)
  then show ?thesis using kr by (auto simp: blocks keys_insert_loaded)
qed

lemma load_blocks_same: "load_blocks ld slots s = (s', r) \<Longrightarrow> same_store s s'"
  by (auto simp: load_blocks_def split: if_splits prod.splits dest: join_all_same [OF _ load_block_same])

lemma get_latest_slots_same: "get_latest_slots ld s = (s', r) \<Longrightarrow> same_store s s'"
  by (auto simp: get_latest_slots_def query_def)

text \<open>What holds of the storage after a part of a computation and is kept by the rest of it.\<close>

lemma and_then_keeps:
  assumes "and_then m k = (s', r)" and "I (fst m)" and "\<And>s1 x s2 r. k s1 x = (s2, r) \<Longrightarrow> I s1 \<Longrightarrow> I s2"
  shows "I s'"
  using assms by (cases m; cases "snd m") (auto simp: and_then_def)

lemma slots_step:
  fixes a b c :: slot
  assumes "a \<le> b"
  shows "a \<le> a + min (b - a) c" and "a + min (b - a) c \<le> b"
    and "0 < c \<Longrightarrow> a < b \<Longrightarrow> a < a + min (b - a) c"
proof -
  have ab: "unat (b - a) = unat b - unat a" "unat a \<le> unat b"
    using assms by (simp_all add: unat_sub word_le_nat_alt)
  have m: "unat (min (b - a) c) \<le> unat b - unat a" using ab by (simp add: min_def word_le_nat_alt)
  have "unat a + unat (min (b - a) c) < 2 ^ 64" using m ab(2) unat_bound [of b] by simp
  then have sum: "unat (a + min (b - a) c) = unat a + unat (min (b - a) c)" by (simp add: unat_word_ariths)
  show "a \<le> a + min (b - a) c" and "a + min (b - a) c \<le> b"
    using sum m ab(2) by (simp_all add: word_le_nat_alt)
  assume "0 < c" "a < b"
  then have "0 < min (b - a) c" using ab by (simp add: word_less_nat_alt min_def)
  then show "a < a + min (b - a) c" using sum by (simp add: word_less_nat_alt)
qed

text \<open>The slots of a range that have a block are stored; and the storage loses nothing.\<close>

definition covered :: "('w \<Rightarrow> slot set) \<Rightarrow> 'w block_loader \<Rightarrow> slot \<Rightarrow> slot \<Rightarrow> 'w load_state \<Rightarrow> bool" where
  "covered stored ld a b s \<longleftrightarrow> {k. a \<le> k \<and> k < b \<and> has_block ld k} \<subseteq> stored (ls_world s)"

definition grows :: "('w \<Rightarrow> slot set) \<Rightarrow> 'w load_state \<Rightarrow> 'w load_state \<Rightarrow> bool" where
  "grows stored s s' \<longleftrightarrow> stored (ls_world s) \<subseteq> stored (ls_world s')"

lemma grows_refl [simp]: "grows stored s s"
  by (simp add: grows_def)

lemma grows_trans: "grows stored s s1 \<Longrightarrow> grows stored s1 s' \<Longrightarrow> grows stored s s'"
  by (auto simp: grows_def)

lemma same_grows: "same_store s s' \<Longrightarrow> grows stored s s'"
  by (simp add: same_store_def grows_def)

lemma and_then_grows:
  assumes "grows stored s (fst m)" and "\<And>s1 x. snd m = Ok x \<Longrightarrow> fst m = s1 \<Longrightarrow> grows stored s1 (fst (k s1 x))"
  shows "grows stored s (fst (and_then m k))"
  using assms by (cases m; cases "snd m") (auto intro: grows_trans)

lemma on_store_grows: "(\<And>w' x. f (ls_world s) = (w', x) \<Longrightarrow> stored (ls_world s) \<subseteq> stored w') \<Longrightarrow> grows stored s (fst (on_store f s))"
  by (auto simp: on_store_def grows_def split: prod.split)

lemma on_store_eq: "on_store f s = (s', r) \<longleftrightarrow> (\<exists>w. f (ls_world s) = (w, r) \<and> s' = s\<lparr>ls_world := w\<rparr>)"
  by (auto simp: on_store_def split: prod.split)

lemma send_reorg_grows: "grows stored s (send_reorg q s)"
  by (auto simp: send_reorg_def grows_def split: option.split)

lemma covered_grows: "covered stored ld a b s \<Longrightarrow> grows stored s s' \<Longrightarrow> covered stored ld a b s'"
  by (auto simp: covered_def grows_def)

lemma covered_same: "covered stored ld a a s"
  by (auto simp: covered_def)

lemma covered_join: "covered stored ld a b s \<Longrightarrow> covered stored ld b c s \<Longrightarrow> covered stored ld a c s"
  unfolding covered_def by (blast intro: not_less [THEN iffD1] le_less_trans)

context stored_blocks
begin

lemma recheck_grows:
  assumes "ld_store ld = store"
  shows "grows stored s (fst (recheck_finalized_blocks ld blocks s))"
proof -
  obtain s1 rs where join: "join_all (recheck_finalized_block ld) blocks s = (s1, rs)"
    by (cases "join_all (recheck_finalized_block ld) blocks s")
  have "grows stored s s1" by (rule same_grows, rule join_all_same [OF join recheck_block_same])
  then show ?thesis
    by (auto simp: recheck_finalized_blocks_def join assms Let_def
        intro!: and_then_grows on_store_grows send_reorg_grows dest: update_keeps)
qed

lemma update_grows:
  assumes "ld_store ld = store"
  shows "grows stored s (fst (update_finalized_slot ld fin s))"
  unfolding update_finalized_slot_def
  by (intro and_then_grows on_store_grows recheck_grows assms) (auto simp: assms dest: finalize_keeps)

lemma preload_blocks_grows:
  assumes "ld_store ld = store"
  shows "grows stored s (fst (preload_blocks ld a b fin s))"
  unfolding preload_blocks_def Let_def
  by (intro and_then_grows on_store_grows same_grows load_blocks_same [OF prod.collapse [symmetric]])
    (auto simp: assms dest: store_keeps)

lemma preload_blocks_covers:
  assumes "preload_blocks ld a b fin s = (s', Ok c)" and "ld_store ld = store"
    and "\<And>xs. set (ld_order ld xs) = set xs"
  shows "a \<le> c" and "c \<le> b" and "covered stored ld a c s'"
proof -
  obtain s1 blocks w' where ab: "a \<le> b" and c: "c = a + min (b - a) (ld_batch_size ld)"
    and load: "load_blocks ld (slots_between a c) s = (s1, Ok blocks)"
    and st: "bs_store_blocks store (ls_world s1) blocks fin = (w', Ok ())" and s': "s' = s1\<lparr>ls_world := w'\<rparr>"
    using assms(1) by (auto simp: preload_blocks_def and_then_eq_Ok sub_or_panic_Ok Let_def on_store_eq assms(2))
  show "a \<le> c" and "c \<le> b" using slots_step [OF ab] by (simp_all add: c)
  show "covered stored ld a c s'"
    using load_blocks_keys [OF load assms(3)] adds [OF st] by (auto simp: covered_def s' set_slots_between)
qed

lemma preload_loop_covers:
  assumes "preload_loop n ld a b fin s = Some (s', r)" and "ld_store ld = store"
    and "\<And>xs. set (ld_order ld xs) = set xs"
  shows "grows stored s s' \<and> (r = Ok () \<longrightarrow> covered stored ld a b s')"
  using assms(1)
proof (induction n arbitrary: a s)
  case (Suc n)
  show ?case
  proof (cases "a < b")
    case True
    obtain s1 q where one: "preload_blocks ld a b fin s = (s1, q)" by (cases "preload_blocks ld a b fin s")
    have g: "grows stored s s1" using preload_blocks_grows [OF assms(2), of s a b fin] by (simp add: one)
    show ?thesis
    proof (cases q)
      case (Ok c)
      then have "grows stored s1 s' \<and> (r = Ok () \<longrightarrow> covered stored ld c b s')"
        using Suc.prems True one by (intro Suc.IH) simp
      moreover note preload_blocks_covers(3) [OF one [unfolded Ok] assms(2,3)]
      ultimately show ?thesis using g by (blast intro: grows_trans covered_grows covered_join)
    qed (use Suc True one g in auto)
  qed (use Suc in \<open>auto simp: covered_def\<close>)
qed simp

lemma preload_covers:
  assumes "preload_until_in_sync n m ld a s = Some (s', r)" and "ld_store ld = store"
    and "\<And>xs. set (ld_order ld xs) = set xs"
  shows "grows stored s s' \<and> (\<forall>c. r = Ok c \<longrightarrow> a \<le> c \<and> covered stored ld a c s')"
  using assms(1)
proof (induction n arbitrary: a s)
  case (Suc n)
  obtain s1 q where slots: "get_latest_slots ld s = (s1, q)" by (cases "get_latest_slots ld s")
  have g1: "grows stored s s1" by (rule same_grows, rule get_latest_slots_same [OF slots])
  show ?case
  proof (cases q)
    case (Ok p)
    obtain b fin where p: "p = (b, fin)" by (cases p)
    show ?thesis
    proof (cases "a < b")
      case True
      obtain s2 t where loop: "preload_loop m ld a b fin s1 = Some (s2, t)"
        using Suc.prems by (auto simp: slots Ok p True split: option.splits)
      note l = preload_loop_covers [OF loop assms(2,3)]
      obtain s3 u where upd: "and_then (s2, t) (\<lambda>s _. update_finalized_slot ld fin s) = (s3, u)" by fastforce
      have g3: "grows stored s2 s3"
        using and_then_grows [of stored s2 "(s2, t)" "\<lambda>s _. update_finalized_slot ld fin s"] update_grows [OF assms(2)]
        by (simp add: upd)
      show ?thesis
      proof (cases u)
        case (Ok v)
        then have t: "t = Ok ()" using upd by (cases t) auto
        have "grows stored s3 s' \<and> (\<forall>c. r = Ok c \<longrightarrow> b \<le> c \<and> covered stored ld b c s')"
          using Suc.prems by (intro Suc.IH) (simp add: slots \<open>q = Ok p\<close> p True loop upd Ok)
        moreover have "covered stored ld a b s3" using l t g3 by (blast intro: covered_grows)
        ultimately show ?thesis using g1 g3 l True
          by (blast intro: grows_trans covered_grows covered_join order.trans less_imp_le)
      qed (use Suc.prems g1 l g3 in \<open>auto simp: slots Ok p True loop upd intro: grows_trans\<close>)
    next
      case False
      then have fin: "and_then (update_finalized_slot ld fin s1) (\<lambda>s _. (s, Ok a)) = (s', r)"
        using Suc.prems by (simp add: slots Ok p)
      have "grows stored s1 s'"
        using and_then_grows [of stored s1 "update_finalized_slot ld fin s1" "\<lambda>s _. (s, Ok a)"] update_grows [OF assms(2)]
        by (simp add: fin)
      then show ?thesis using g1 fin by (auto simp: and_then_eq_Ok intro: grows_trans covered_same)
    qed
  next
    case (Err e)
    then have "grows stored s1 s' \<and> (\<forall>c. r = Ok c \<longrightarrow> a \<le> c \<and> covered stored ld a c s')"
      using Suc.prems by (intro Suc.IH) (simp add: slots)
    then show ?thesis using g1 by (blast intro: grows_trans)
  qed (use Suc.prems g1 in \<open>auto simp: slots\<close>)
qed simp

lemma loading_rounds_cover:
  assumes "loading_rounds k n m ld a s = Some (s', r)" and "ld_store ld = store"
    and "\<And>xs. set (ld_order ld xs) = set xs"
  shows "grows stored s s' \<and> (\<forall>c. r = Ok c \<longrightarrow> a \<le> c \<and> covered stored ld a c s')"
  using assms(1)
proof (induction k arbitrary: a s)
  case (Suc k)
  obtain s1 q where one: "preload_until_in_sync n m ld a s = Some (s1, q)"
    using Suc.prems by (auto split: option.splits)
  note p = preload_covers [OF one assms(2,3)]
  show ?case
  proof (cases q)
    case (Ok b)
    then have "grows stored s1 s' \<and> (\<forall>c. r = Ok c \<longrightarrow> b \<le> c \<and> covered stored ld b c s')"
      using Suc.prems one by (intro Suc.IH) simp
    with p Ok show ?thesis by (blast intro: grows_trans covered_grows covered_join order.trans)
  next
    case (Err e)
    then have "grows stored s1 s' \<and> (\<forall>c. r = Ok c \<longrightarrow> a \<le> c \<and> covered stored ld a c s')"
      using Suc.prems one by (intro Suc.IH) simp
    with p show ?thesis by (blast intro: grows_trans)
  qed (use Suc.prems one p in auto)
qed (auto simp: covered_same)

lemma start_loading_covers:
  assumes "start_loading k n m ld start_slot started s = Some (s', Ok c)" and "ld_store ld = store"
    and "\<And>xs. set (ld_order ld xs) = set xs"
    and "bs_get_last_slot store (ls_world s) = (w, Ok opt_last)"
  shows "\<exists>a. (case opt_last of Some l \<Rightarrow> a = l | None \<Rightarrow> start_slot = Some a) \<and> a \<le> c \<and> covered stored ld a c s'"
proof -
  obtain s1 a where start: "loading_start ld start_slot s = (s1, Ok a)"
    using assms(1) by (auto simp: start_loading_def split: prod.splits res.splits)
  obtain s2 q where sync: "preload_until_in_sync n m ld a s1 = Some (s2, q)"
    using assms(1) by (auto simp: start_loading_def start split: option.splits)
  then obtain b where b: "q = Ok b" and rounds: "loading_rounds k n m ld b s2 = Some (s', Ok c)"
    using assms(1) by (auto simp: start_loading_def start split: res.splits if_splits)
  have "case opt_last of Some l \<Rightarrow> a = l | None \<Rightarrow> start_slot = Some a"
    using start assms(4) by (auto simp: loading_start_def and_then_eq_Ok on_store_eq assms(2) res_elims split: option.splits)
  moreover have "a \<le> c \<and> covered stored ld a c s'"
    using preload_covers [OF sync assms(2,3)] loading_rounds_cover [OF rounds assms(2,3)] b
    by (blast intro: covered_grows covered_join order.trans)
  ultimately show ?thesis by blast
qed

end

text \<open>The Postgres storage keeps every block it was given.\<close>

definition sol_keys :: "db \<Rightarrow> slot set" where
  "sol_keys db = fst ` set (db_sol_block db)"

definition pg_stored :: "pg \<Rightarrow> slot set" where
  "pg_stored pg = sol_keys (pg_db pg)"

lemma insert_new_keys:
  assumes "insert_new bt_insert k v True t = Ok t'"
  shows "fst ` set t' = insert k (fst ` set t)"
proof (cases "map_of t k")
  case (Some u)
  then have "k \<in> fst ` set t" by (metis map_of_eq_None_iff option.distinct(1))
  then show ?thesis using assms Some by (auto simp: insert_new_def)
next
  case None
  then have "t' = bt_insert k v t" using assms by (simp add: insert_new_def)
  then show ?thesis by (simp only: keys_bt_insert)
qed

lemma store_sol_block_keys:
  assumes "store_sol_block lib fin (k, b) db = Ok db'"
  shows "sol_keys db' = insert k (sol_keys db)"
proof -
  obtain json slots blocks where "insert_new bt_insert k json True (db_sol_block db) = Ok blocks"
    and "db' = db\<lparr>db_sol_slot := slots, db_sol_block := blocks\<rparr>"
    using assms by (auto simp: store_sol_block_def set_block_with_status2_def set_block_with_status2_sig_def
        call_procedure_def res_elims)
  then show ?thesis by (simp add: sol_keys_def insert_new_keys)
qed

lemma run_store_sol_blocks_keys:
  "run_all (store_sol_block lib fin) blocks db = Ok db' \<Longrightarrow> sol_keys db' = fst ` set blocks \<union> sol_keys db"
proof (induction blocks arbitrary: db)
  case (Cons e blocks)
  obtain k b where e: "e = (k, b)" by (cases e)
  obtain db1 where one: "store_sol_block lib fin (k, b) db = Ok db1"
    and rest: "run_all (store_sol_block lib fin) blocks db1 = Ok db'"
    using Cons.prems by (auto simp: e res_elims)
  show ?case unfolding Cons.IH [OF rest] store_sol_block_keys [OF one] by (simp add: e Un_commute)
qed simp

lemma run_finalize_sol_blocks_keys:
  assumes "run_all (finalize_sol_block lib) blocks db = Ok db'"
  shows "sol_keys db \<subseteq> sol_keys db'"
  using assms
proof (rule run_all_inv [where P = "\<lambda>d. sol_keys db \<subseteq> sol_keys d"])
  fix e s s' assume "finalize_sol_block lib e s = Ok s'" and sub: "sol_keys db \<subseteq> sol_keys s"
  then show "sol_keys db \<subseteq> sol_keys s'"
    by (cases e) (auto simp: finalize_sol_block_def call_procedure_def update_finalized_block2_def insert_or_update_def
        res_elims split: if_splits)
qed simp

lemma in_transaction_stored:
  assumes "in_transaction f pg = (pg', r)" and "\<And>db' x. f (pg_db pg) = Ok (db', x) \<Longrightarrow> sol_keys (pg_db pg) \<subseteq> sol_keys db'"
  shows "pg_stored pg \<subseteq> pg_stored pg'"
  using in_transaction_keeps [where P = "\<lambda>d. sol_keys (pg_db pg) \<subseteq> sol_keys d" and pg = pg and f = f] assms
  by (simp add: pg_stored_def)

interpretation pg_blocks: stored_blocks "pg_block_store lib" pg_stored for lib
proof unfold_locales
  fix w w' :: pg and blocks fin r
  show "fst ` set blocks \<subseteq> pg_stored w'" if st: "bs_store_blocks (pg_block_store lib) w blocks fin = (w', Ok ())"
  proof -
    obtain db' where "run_all (store_sol_block lib fin) blocks (pg_db w) = Ok db'" "pg_db w' = db'"
      using st by (auto simp: pg_block_store_def pg_store_blocks_def in_transaction_Ok res_elims)
    then show ?thesis using run_store_sol_blocks_keys by (simp add: pg_stored_def)
  qed
  show "pg_stored w \<subseteq> pg_stored w'" if "bs_store_blocks (pg_block_store lib) w blocks fin = (w', r)"
    using that unfolding pg_block_store_def pg_store_blocks_def block_store.simps
    by (rule in_transaction_stored) (auto simp: res_elims dest: run_store_sol_blocks_keys)
  show "pg_stored w \<subseteq> pg_stored w'" if "bs_update_finalized_blocks (pg_block_store lib) w blocks = (w', r)"
    using that unfolding pg_block_store_def pg_update_finalized_blocks_def block_store.simps
    by (rule in_transaction_stored) (simp add: res_elims run_finalize_sol_blocks_keys)
next
  fix w w' :: pg and fin p
  assume "bs_set_finalized_slot (pg_block_store lib) w fin = (w', p)"
  moreover obtain w1 r where tr: "in_transaction (\<lambda>db. Ok (sql_set_finalized_slot fin db)) w = (w1, r)" by fastforce
  ultimately have "w' = w1"
    by (cases r) (auto simp: pg_block_store_def pg_set_finalized_slot_def)
  then show "pg_stored w \<subseteq> pg_stored w'"
    using in_transaction_stored [OF tr] by (auto simp: sql_set_finalized_slot_def Let_def sol_keys_def)
qed

lemma pg_loading_covers:
  assumes "start_loading k n m ld start_slot started s = Some (s', Ok c)" and "ld_store ld = pg_block_store lib"
    and "\<And>xs. set (ld_order ld xs) = set xs"
  shows "\<exists>a. (case max_of (map fst (db_sol_block (pg_db (ls_world s)))) of Some l \<Rightarrow> a = l | None \<Rightarrow> start_slot = Some a) \<and>
    a \<le> c \<and> (\<forall>k. a \<le> k \<and> k < c \<and> has_block ld k \<longrightarrow> k \<in> pg_stored (ls_world s'))"
proof -
  obtain w q where w: "pg_get_last_slot (ls_world s) = (w, q)" by fastforce
  have "is_ok q"
  proof (rule ccontr)
    assume "\<not> is_ok q"
    then show False using assms(1,2) w
      by (cases q) (auto simp: start_loading_def loading_start_def on_store_def pg_block_store_def)
  qed
  then obtain opt_last where q: "q = Ok opt_last" by (auto simp: is_ok_iff)
  then have "opt_last = max_of (map fst (db_sol_block (pg_db (ls_world s))))"
    using w by (auto simp: pg_get_last_slot_def reading_def in_transaction_Ok)
  with pg_blocks.start_loading_covers [OF assms] w q show ?thesis
    by (fastforce simp: pg_block_store_def covered_def)
qed

text \<open>
  C11. The loader leaves no gaps: when it has reached a slot, every slot before it, from the
  last slot that was stored when it started (or from the configured one, if the storage was
  empty), is in the storage, unless the client said that the slot has no block.
\<close>

theorem loader_leaves_no_gaps:
  assumes "start_loading k n m ld start_slot started s = Some (s', Ok c)" and "ld_store ld = pg_block_store lib"
    and "\<And>xs. set (ld_order ld xs) = set xs"
  shows "\<exists>a. (case max_of (map fst (db_sol_block (pg_db (ls_world s)))) of Some l \<Rightarrow> a = l | None \<Rightarrow> start_slot = Some a) \<and>
    a \<le> c \<and> (\<forall>k. a \<le> k \<and> k < c \<and> has_block ld k \<longrightarrow> k \<in> pg_stored (ls_world s'))"
  by (rule pg_loading_covers [OF assms])

definition empty_pg :: pg where
  "empty_pg = \<lparr>pg_db = \<lparr>db_sol_slot = [], db_sol_block = [], db_evm_tx = [], db_evm_tx_result = [], db_eth_block = [],
     db_eth_block_txs = []\<rparr>, pg_calls = 0, pg_up = (\<lambda>_. True)\<rparr>"

lemma test_loading_runs:
  "map_option snd (start_loading 1 3 3 (test_loader (pg_block_store test_pg_lib)) (Some 2) None (test_state empty_pg)) = Some (Ok 5)"
  by code_simp

theorem loader_leaves_no_gaps_witness:
  "\<exists>s'. start_loading 1 3 3 (test_loader (pg_block_store test_pg_lib)) (Some 2) None (test_state empty_pg) = Some (s', Ok 5) \<and>
    2 \<in> pg_stored (ls_world s') \<and> 4 \<in> pg_stored (ls_world s')"
proof -
  obtain s' where run: "start_loading 1 3 3 (test_loader (pg_block_store test_pg_lib)) (Some 2) None (test_state empty_pg) = Some (s', Ok 5)"
    using test_loading_runs by auto
  from loader_leaves_no_gaps [OF run] run show ?thesis
    by (auto simp: test_loading empty_pg_def has_block_def)
qed

end
