(* ===== verification/Loader_Ends.thy ===== *)
theory Loader_Ends
  imports Loader_Facts
begin

text \<open>
  When the loops of the block loader come to an end: the loader catches up with the chain,
  and the check of the stored blocks terminates, unless it starts from slot 0.
\<close>

section \<open>Preloading\<close>

lemma preload_loop_ends:
  assumes "0 < ld_batch_size ld" and "unat b - unat a < n"
  shows "\<exists>s' r. preload_loop n ld a b fin s = Some (s', r)"
  using assms(2)
proof (induction n arbitrary: a s)
  case (Suc n)
  show ?case
  proof (cases "a < b")
    case True
    obtain s1 q where one: "preload_blocks ld a b fin s = (s1, q)" by fastforce
    show ?thesis
    proof (cases q)
      case (Ok c)
      then have "a \<le> b" and "c = a + min (b - a) (ld_batch_size ld)"
        using one by (auto simp: preload_blocks_def and_then_eq_Ok sub_or_panic_Ok Let_def)
      from slots_step(3) [OF this(1) assms(1) True] this(2) have "a < c" by simp
      then have "unat b - unat c < n" using Suc.prems True by (simp add: word_less_nat_alt)
      from Suc.IH [OF this] show ?thesis by (simp add: True one Ok)
    qed (simp_all add: True one)
  qed simp
qed simp

text \<open>A storage and a client that answer every request with a value.\<close>

definition answering_store :: "'w block_store \<Rightarrow> bool" where
  "answering_store store \<longleftrightarrow> (\<forall>w blocks fin. is_ok (snd (bs_store_blocks store w blocks fin))) \<and>
     (\<forall>w blocks. is_ok (snd (bs_update_finalized_blocks store w blocks))) \<and>
     (\<forall>w fin. is_ok (snd (bs_set_finalized_slot store w fin)))"

definition answering_client :: "'w block_loader \<Rightarrow> bool" where
  "answering_client ld \<longleftrightarrow> (\<forall>t k level. is_ok (lc_get_block (ld_client ld) t k level)) \<and>
     (\<forall>t program level b u. is_ok (lc_get_signatures (ld_client ld) t program level b u)) \<and>
     (\<forall>t sig level. is_ok (try_res (lc_get_transaction (ld_client ld) t sig level) (program_tx (ld_program_id ld))))"

lemma is_ok_and_then: "is_ok (snd (and_then m k)) \<longleftrightarrow> (\<exists>s x. m = (s, Ok x) \<and> is_ok (snd (k s x)))"
  by (cases m; cases "snd m") auto

lemma and_then_ok: "is_ok (snd m) \<Longrightarrow> (\<And>s x. m = (s, Ok x) \<Longrightarrow> is_ok (snd (k s x))) \<Longrightarrow> is_ok (snd (and_then m k))"
  by (cases m; cases "snd m") auto

lemma snd_on_store [simp]: "snd (on_store f s) = snd (f (ls_world s))"
  by (simp add: on_store_def split: prod.split)

lemma collect_results_ok: "list_all is_ok rs \<Longrightarrow> is_ok (collect_results rs)"
  by (induction rs) (auto simp: is_ok_iff)

lemma first_panic_ok: "list_all is_ok rs \<Longrightarrow> first_panic rs = None"
  by (induction rs rule: first_panic.induct) auto

lemma join_all_ok:
  assumes "\<And>x s. x \<in> set xs \<Longrightarrow> is_ok (snd (f x s))"
  shows "list_all is_ok (snd (join_all f xs s))"
  using assms
proof (induction xs arbitrary: s)
  case (Cons x xs)
  obtain s1 r where one: "f x s = (s1, r)" by fastforce
  obtain s2 rs where all: "join_all f xs s1 = (s2, rs)" by fastforce
  have "is_ok r" using Cons.prems [of x s] by (simp add: one)
  moreover have "list_all is_ok rs" using Cons.IH [of s1] Cons.prems by (simp add: all)
  ultimately show ?case by (simp add: one all)
qed simp

lemma load_transactions_ok:
  assumes "answering_client ld"
  shows "is_ok (snd (load_transactions ld level sigs s))"
proof -
  have "is_ok (snd (load_transaction ld level sig s))" for sig s
    using assms [unfolded answering_client_def, THEN conjunct2, THEN conjunct2, rule_format, of "ls_calls s" sig level]
    by (auto simp: load_transaction_def query_def is_ok_iff res_elims)
  then have "list_all is_ok (snd (join_all (load_transaction ld level) sigs s))" by (rule join_all_ok)
  moreover obtain s' rs where "join_all (load_transaction ld level) sigs s = (s', rs)" by fastforce
  ultimately have "join_all (load_transaction ld level) sigs s = (s', rs)" and "list_all is_ok rs" by simp_all
  moreover from this obtain txs where "collect_results rs = Ok txs" using collect_results_ok by (auto simp: is_ok_iff)
  ultimately show ?thesis by (simp add: load_transactions_def joined_def first_panic_ok Let_def)
qed

lemma load_block_ok:
  assumes "answering_client ld"
  shows "is_ok (snd (load_block ld level k s))"
proof -
  have "is_ok (snd (load_block_transactions ld level b s))" for b s
    unfolding load_block_transactions_def Let_def
    by (auto split: prod.split option.split intro!: and_then_ok load_transactions_ok assms)
      (use assms in \<open>simp_all add: answering_client_def query_def\<close>)
  then show ?thesis
    unfolding load_block_def using assms
    by (auto split: option.split intro!: and_then_ok simp: query_def answering_client_def)
qed

lemma load_blocks_ok: "answering_client ld \<Longrightarrow> is_ok (snd (load_blocks ld slots s))"
  using join_all_ok [of "ld_order ld slots" "load_block ld (ld_commitment ld)" s] load_block_ok [of ld]
  by (auto simp: load_blocks_def joined_def first_panic_ok split: prod.split)

lemma update_finalized_slot_ok:
  assumes "answering_client ld" and "answering_store (ld_store ld)"
  shows "is_ok (snd (update_finalized_slot ld fin s))"
proof -
  have "is_ok (snd (recheck_finalized_block ld e s))" for e s
    using load_block_ok [OF assms(1)] assms(1) [unfolded answering_client_def, THEN conjunct1, rule_format, of "ls_calls s" "fst e" CommitmentFinalized]
    by (auto simp: recheck_finalized_block_def query_def is_ok_iff split: prod.splits option.splits)
  then have all: "list_all is_ok (snd (join_all (recheck_finalized_block ld) blocks s))" for blocks s by (rule join_all_ok)
  have "is_ok (snd (recheck_finalized_blocks ld blocks s))" for blocks s
  proof -
    obtain s1 rs where join: "join_all (recheck_finalized_block ld) blocks s = (s1, rs)" by fastforce
    then have ok: "list_all is_ok rs" using all [of blocks s] by simp
    then obtain xs where "collect_results rs = Ok xs" using collect_results_ok by (auto simp: is_ok_iff)
    then show ?thesis using assms(2) ok
      by (simp add: recheck_finalized_blocks_def join joined_def first_panic_ok Let_def answering_store_def and_then_ok)
  qed
  then show ?thesis
    using assms(2) by (simp add: update_finalized_slot_def answering_store_def and_then_ok)
qed

lemma preload_loop_ok:
  assumes "answering_client ld" and "answering_store (ld_store ld)"
    and "preload_loop n ld a b fin s = Some (s', r)"
  shows "r = Ok ()"
  using assms(3)
proof (induction n arbitrary: a s)
  case (Suc n)
  have "is_ok (snd (preload_blocks ld a b fin s))" if "a < b"
    using that assms(2) load_blocks_ok [OF assms(1)]
    by (simp add: preload_blocks_def sub_or_panic_def Let_def answering_store_def less_imp_le and_then_ok)
  then show ?case using Suc by (auto split: if_splits prod.splits res.splits)
qed simp

lemma catches_up:
  assumes "answering_client ld" and "answering_store (ld_store ld)"
    and "\<And>t. lc_get_slot (ld_client ld) t CommitmentConfirmed = Ok b" and "\<And>t. lc_get_slot (ld_client ld) t CommitmentFinalized = Ok fin"
    and "0 < ld_batch_size ld" and "unat b - unat a < m" and "2 \<le> n"
  shows "\<exists>s'. preload_until_in_sync n m ld a s = Some (s', Ok (max a b))"
proof -
  have slots: "\<exists>s1. get_latest_slots ld s = (s1, Ok (b, fin))" for s
    by (simp add: get_latest_slots_def query_def assms(3,4) joined_def)
  have upd: "\<exists>s2. update_finalized_slot ld fin s1 = (s2, Ok ())" for s1
    using update_finalized_slot_ok [OF assms(1,2), of fin s1]
    by (cases "update_finalized_slot ld fin s1") (auto simp: is_ok_iff)
  obtain k where n: "n = Suc (Suc k)" using assms(7) by (metis Suc_le_D numeral_2_eq_2 Suc_le_mono)
  have synced: "\<exists>s'. preload_until_in_sync (Suc j) m ld c s = Some (s', Ok c)" if "\<not> c < b" for c s j
  proof -
    obtain s1 where s1: "get_latest_slots ld s = (s1, Ok (b, fin))" using slots by blast
    obtain s2 where "update_finalized_slot ld fin s1 = (s2, Ok ())" using upd by blast
    then show ?thesis using that by (simp add: s1)
  qed
  show ?thesis
  proof (cases "a < b")
    case True
    obtain s1 where s1: "get_latest_slots ld s = (s1, Ok (b, fin))" using slots by blast
    obtain s2 r where loop: "preload_loop m ld a b fin s1 = Some (s2, r)"
      using preload_loop_ends [OF assms(5,6)] by blast
    have r: "r = Ok ()" by (rule preload_loop_ok [OF assms(1,2) loop])
    obtain s3 where s3: "update_finalized_slot ld fin s2 = (s3, Ok ())" using upd by blast
    obtain s' where "preload_until_in_sync (Suc k) m ld b s3 = Some (s', Ok b)" using synced [of b k s3] by blast
    then show ?thesis using True
      by (simp add: n preload_until_in_sync.simps(2) [of "Suc k" m ld a s] s1 loop r s3 max_def less_imp_le
          del: preload_until_in_sync.simps)
  qed (use synced [of a "Suc k" s] in \<open>simp add: n max_def del: preload_until_in_sync.simps\<close>)
qed


lemma keys_foldr_insert: "fst ` set (foldr (\<lambda>(k, b). bt_insert k b) blocks w) = fst ` set blocks \<union> fst ` set w"
proof (induction blocks)
  case (Cons x xs)
  then show ?case by (cases x) (simp add: keys_bt_insert)
qed simp

lemma map_store_keeps: "stored_blocks map_store (\<lambda>w. fst ` set w)"
  by unfold_locales (auto simp: map_store_def keys_foldr_insert)


text \<open>With batches of no slots the inner loop never ends.\<close>

lemma empty_batches_loop:
  assumes "ld_batch_size ld = 0" and "a < b" and "answering_store (ld_store ld)"
  shows "preload_loop n ld a b fin s = None"
proof (induction n arbitrary: s)
  case (Suc n)
  obtain w where w: "bs_store_blocks (ld_store ld) (ls_world s) [] fin = (w, Ok ())"
    using assms(3) by (metis answering_store_def is_ok_iff prod.collapse unit.exhaust)
  have "slots_between a a = []" by (simp add: slots_between_def)
  then have "preload_blocks ld a b fin s = (s\<lparr>ls_world := w\<rparr>, Ok a)"
    using assms(1,2) w by (simp add: preload_blocks_def sub_or_panic_def load_blocks_def on_store_def less_imp_le)
  then show ?case using Suc assms(2) by auto
qed simp

section \<open>Checking\<close>

text \<open>Every block comes after its parent, in the storage and on the chain.\<close>

definition descends :: "pg_lib \<Rightarrow> db \<Rightarrow> 'w block_loader \<Rightarrow> bool" where
  "descends lib db ld \<longleftrightarrow>
     (\<forall>k json b. map_of (db_sol_block db) k = Some json \<and> block_from_json lib json = Some b \<longrightarrow> parent_slot b < k) \<and>
     (\<forall>t k level b sigs. lc_get_block (ld_client ld) t k level = Ok (Some (b, sigs)) \<longrightarrow> parent_slot b < k)"

text \<open>A check that goes on has left the tables as they were.\<close>

lemma check_block_lower:
  assumes "check_block ld k s = (s', Ok b)" and "ld_store ld = pg_block_store lib" and "descends lib (pg_db (ls_world s)) ld"
  shows "parent_slot b < k \<and> pg_db (ls_world s') = pg_db (ls_world s)"
proof -
  obtain s1 ob where got: "on_store (\<lambda>w. pg_get_block lib w k) s = (s1, Ok ob)"
    and rest: "(case ob of Some block \<Rightarrow> (s1, Ok block)
      | None \<Rightarrow> and_then (load_block ld (ld_commitment ld) k s1) (\<lambda>s b. (s, ok_or (Custom ''Failed to load block on slot'') b))) = (s', Ok b)"
    using assms(1) by (auto simp: check_block_def and_then_eq_Ok assms(2) pg_block_store_def)
  have db: "pg_db (ls_world s1) = pg_db (ls_world s)" and ob: "ob = Some b' \<Longrightarrow> parent_slot b' < k" for b'
    using got assms(3)
    by (auto simp: on_store_eq pg_get_block_def reading_def in_transaction_Ok res_elims read_sol_block_def descends_def split: option.splits)
  show ?thesis
  proof (cases ob)
    case None
    then obtain s2 where s2: "load_block ld (ld_commitment ld) k s1 = (s2, Ok (Some b))" "s2 = s'"
      using rest by (auto simp: and_then_eq_Ok res_elims)
    have "parent_slot b < k"
      using load_block_loads [OF s2(1)] assms(3) by (fastforce simp: descends_def split: res.splits option.splits)
    moreover have "same_store s1 s'" using load_block_same [OF s2(1)] s2(2) by simp
    ultimately show ?thesis using db by (simp add: same_store_def)
  qed (use rest db ob in auto)
qed

lemma check_walk_lower:
  assumes "check_walk n ld a k blocks s = (s', Ok (c, found))" and "ld_store ld = pg_block_store lib"
    and "descends lib (pg_db (ls_world s)) ld"
  shows "pg_db (ls_world s') = pg_db (ls_world s) \<and> c \<le> k \<and> (0 < n \<and> a \<le> k \<longrightarrow> c < k)"
  using assms(1,3)
proof (induction n arbitrary: k blocks s)
  case (Suc n)
  show ?case
  proof (cases "a \<le> k")
    case True
    obtain s1 b where one: "check_block ld k s = (s1, Ok b)"
      and rest: "check_walk n ld a (parent_slot b) (bt_insert k b blocks) s1 = (s', Ok (c, found))"
      using Suc.prems(1) True by (auto simp: and_then_eq_Ok)
    note low = check_block_lower [OF one assms(2) Suc.prems(2)]
    with Suc.IH [OF rest] Suc.prems(2) show ?thesis by (auto intro: le_less_trans less_imp_le)
  qed (use Suc.prems in auto)
qed simp

lemma pg_recheck_keeps:
  assumes "recheck_finalized_blocks ld blocks s = (s', Ok ())" and "ld_store ld = pg_block_store lib"
  shows "pg_db (ls_world s') = pg_db (ls_world s)"
proof -
  obtain s1 rs where join: "join_all (recheck_finalized_block ld) blocks s = (s1, rs)"
    by (cases "join_all (recheck_finalized_block ld) blocks s")
  have same: "same_store s s1" by (rule join_all_same [OF join recheck_block_same])
  define updated where "updated = insert_loaded (zip (map fst blocks) rs) []"
  obtain w q where upd: "pg_update_finalized_blocks lib (ls_world s1) updated = (w, Ok ())"
    and w: "s' = send_reorg q (s1\<lparr>ls_world := w\<rparr>)"
    using assms(1) by (auto simp: recheck_finalized_blocks_def join and_then_eq_Ok Let_def updated_def on_store_eq
        assms(2) pg_block_store_def)
  have "updated = []" using pg_update_fails [OF _ upd] by auto
  then have "pg_db w = pg_db (ls_world s1)" using upd by (auto simp: pg_update_finalized_blocks_def in_transaction_Ok)
  then show ?thesis using same by (simp add: w same_store_def send_reorg_def split: option.split)
qed

lemma check_loop_ends:
  assumes "ld_store ld = pg_block_store lib" and "0 < ld_batch_size ld" and "0 < a"
    and "descends lib (pg_db (ls_world s)) ld" and "unat k < n"
  shows "\<exists>s' r. check_loop n ld a k s = Some (s', r)"
  using assms(4,5)
proof (induction n arbitrary: k s)
  case (Suc n)
  show ?case
  proof (cases "a \<le> k")
    case True
    obtain s1 q where one: "check_batch ld a k s = (s1, q)" by fastforce
    show ?thesis
    proof (cases q)
      case (Ok c)
      then obtain s2 found where walk: "check_walk (unat (ld_batch_size ld)) ld a k [] s = (s2, Ok (c, found))"
        and re: "recheck_finalized_blocks ld found s2 = (s1, Ok ())"
        using one by (auto simp: check_batch_def and_then_eq_Ok)
      have "pg_db (ls_world s1) = pg_db (ls_world s)" and "c < k"
        using check_walk_lower [OF walk assms(1) Suc.prems(1)] pg_recheck_keeps [OF re assms(1)] assms(2) True
        by (auto simp: word_less_nat_alt)
      moreover from this have "unat c < n" using Suc.prems(2) by (simp add: word_less_nat_alt)
      ultimately obtain s' r where "check_loop n ld a c s1 = Some (s', r)"
        using Suc.IH [of s1 c] Suc.prems(1) by auto
      then show ?thesis by (simp add: True one Ok)
    qed (simp_all add: True one)
  qed simp
qed simp

lemma start_checking_ends:
  assumes "ld_store ld = pg_block_store lib" and "0 < ld_batch_size ld" and "0 < a"
    and "descends lib (pg_db (ls_world s)) ld" and "2 ^ 64 \<le> n"
  shows "\<exists>s' r. start_checking n ld a e s = Some (s', r)"
proof -
  have n: "unat k < n" for k :: slot using unat_bound [of k] assms(5) by simp
  obtain s1 q where q: "checking_end ld e s = (s1, q)" by fastforce
  show ?thesis
  proof (cases "\<exists>k. q = Ok (Some k) \<and> \<not> k < a")
    case True
    then obtain k where k: "q = Ok (Some k)" "\<not> k < a" by blast
    then have db1: "pg_db (ls_world s1) = pg_db (ls_world s)"
      using q by (auto simp: checking_end_def on_store_def assms(1) pg_block_store_def pg_get_last_slot_def reading_def
          in_transaction_Ok split: option.splits prod.splits res.splits)
    obtain s2 r where r: "on_store (\<lambda>w. pg_get_block lib w a) s1 = (s2, r)" by fastforce
    have "pg_db (ls_world s2) = pg_db (ls_world s1)" if "r = Ok ob" for ob
      using r that by (auto simp: on_store_eq pg_get_block_def reading_def in_transaction_Ok res_elims)
    then have "\<exists>s' r'. check_loop n ld a k s2 = Some (s', r')" if "r = Ok ob" for ob
      using check_loop_ends [OF assms(1-3) _ n] assms(4) db1 that by simp
    then show ?thesis
      using k r by (auto simp: start_checking_def q assms(1) pg_block_store_def split: res.split option.split)
  qed (auto simp: start_checking_def q split: res.split option.split)
qed

text \<open>
  C34. The check of the stored blocks comes to an end, if batches are not empty, it starts after slot 0 and every block
  has an earlier parent: the walk along the parents passes the start.
\<close>

theorem checking_ends:
  assumes "ld_store ld = pg_block_store lib" and "0 < ld_batch_size ld" and "0 < a"
    and "descends lib (pg_db (ls_world s)) ld" and "2 ^ 64 \<le> n"
  shows "\<exists>s' r. start_checking n ld a e s = Some (s', r)"
  by (rule start_checking_ends [OF assms])

text \<open>Two blocks are stored, the client knows a block for every slot but 0.\<close>

definition checked_lib :: pg_lib where
  "checked_lib = test_pg_lib\<lparr>block_from_json := (\<lambda>json. Some (chain_block (if json = [1] then 1 else 2) [7]))\<rparr>"

definition checked_pg :: pg where
  "checked_pg = empty_pg\<lparr>pg_db := (pg_db empty_pg)\<lparr>db_sol_block := [(1, [1]), (2, [2])]\<rparr>\<rparr>"

definition checked_loader :: "pg block_loader" where
  "checked_loader = (test_loader (pg_block_store checked_lib))\<lparr>ld_client := test_client\<lparr>lc_get_block :=
     (\<lambda>t k level. Ok (if k = 0 then None else Some (chain_block 1 [7], None)))\<rparr>\<rparr>"

theorem checking_ends_witness:
  "\<exists>s' r. start_checking (2 ^ 64) checked_loader 1 None (test_state checked_pg) = Some (s', r)"
proof (rule checking_ends [where lib = checked_lib])
  show "descends checked_lib (pg_db (ls_world (test_state checked_pg))) checked_loader"
    by (auto simp: descends_def test_state_def checked_pg_def empty_pg_def checked_lib_def checked_loader_def test_client_def
        chain_block_def word_gt_0 split: if_splits)
qed (simp_all add: checked_loader_def test_loader_def)

text \<open>From slot 0 it never completes: no slot is below the start.\<close>

lemma check_from_zero: "check_loop n ld 0 k s \<noteq> Some (s', Ok ())"
  by (induction n arbitrary: k s) (auto split: prod.splits res.splits)

section \<open>Missed blocks\<close>

text \<open>A block the walk found comes from the storage, or has the hash of the chain.\<close>

definition found_blocks ::
  "(slot \<Rightarrow> solana_block option) \<Rightarrow> (slot \<Rightarrow> (solana_block \<times> rstr list option) option res) \<Rightarrow> (slot, solana_block) btree \<Rightarrow> bool" where
  "found_blocks stored chain found \<longleftrightarrow> (\<forall>(k, b) \<in> set found. stored k = Some b \<or>
     (stored k = None \<and> (\<exists>cb sigs. chain k = Ok (Some (cb, sigs)) \<and> blockhash b = blockhash cb)))"

lemma check_walk_found:
  assumes "check_walk n ld a k blocks s = (s', Ok (c, found))" and "found_blocks stored chain blocks"
    and "\<And>w k. bs_get_block (ld_store ld) w k = (w, Ok (stored k))"
    and "\<And>t k level. lc_get_block (ld_client ld) t k level = chain k"
  shows "found_blocks stored chain found"
  using assms(1,2)
proof (induction n arbitrary: k blocks s)
  case (Suc n)
  show ?case
  proof (cases "a \<le> k")
    case True
    obtain s1 b where one: "check_block ld k s = (s1, Ok b)"
      and rest: "check_walk n ld a (parent_slot b) (bt_insert k b blocks) s1 = (s', Ok (c, found))"
      using Suc.prems(1) True by (auto simp: and_then_eq_Ok)
    have "stored k = Some b \<or> (stored k = None \<and> (\<exists>cb sigs. chain k = Ok (Some (cb, sigs)) \<and> blockhash b = blockhash cb))"
    proof (cases "stored k")
      case None
      then obtain s2 s3 where "load_block ld (ld_commitment ld) k s2 = (s3, Ok (Some b))"
        using one by (auto simp: check_block_def and_then_eq_Ok on_store_eq assms(3) res_elims)
      from load_block_loads [OF this] show ?thesis
        by (auto simp: assms(4) None split: res.splits option.splits prod.splits)
    qed (use one in \<open>auto simp: check_block_def on_store_def assms(3)\<close>)
    then have "found_blocks stored chain (bt_insert k b blocks)"
      using Suc.prems(2) set_bt_insert [of k b blocks] by (fastforce simp: found_blocks_def)
    from Suc.IH [OF rest this] show ?thesis .
  qed (use Suc.prems in auto)
qed simp

lemma check_batch_skips_missed:
  assumes "check_batch ld a e s = (s', Ok c)"
    and "\<And>w k. bs_get_block (ld_store ld) w k = (w, Ok (stored k))"
    and "\<And>t k level. lc_get_block (ld_client ld) t k level = chain k"
  shows "\<exists>w updated. bs_update_finalized_blocks (ld_store ld) w updated = (ls_world s', Ok ()) \<and>
    (\<forall>k \<in> fst ` set updated. stored k \<noteq> None)"
proof -
  obtain s1 found where walk: "check_walk (unat (ld_batch_size ld)) ld a e [] s = (s1, Ok (c, found))"
    and re: "recheck_finalized_blocks ld found s1 = (s', Ok ())"
    using assms(1) by (auto simp: check_batch_def and_then_eq_Ok)
  have found: "found_blocks stored chain found"
    by (rule check_walk_found [OF walk _ assms(2,3)]) (simp add: found_blocks_def)
  obtain updated where keys: "fst ` set updated = changed_slots chain found"
    and upd: "bs_update_finalized_blocks (ld_store ld) (ls_world s1) updated = (ls_world s', Ok ())"
    using recheck_Ok [OF re assms(3)] by blast
  have "stored k \<noteq> None" if "k \<in> changed_slots chain found" for k
    using that found by (fastforce simp: changed_slots_def found_blocks_def)
  with keys upd show ?thesis by blast
qed

text \<open>
  Contrary to its description the check does not restore blocks that are missing in the
  storage: they are loaded to follow their parents, but what is written back are only blocks
  that were stored with another hash.
\<close>

theorem missed_blocks_not_stored:
  assumes "check_batch ld a e s = (s', Ok c)"
    and "\<And>w k. bs_get_block (ld_store ld) w k = (w, Ok (stored k))"
    and "\<And>t k level. lc_get_block (ld_client ld) t k level = chain k"
  shows "\<exists>w updated. bs_update_finalized_blocks (ld_store ld) w updated = (ls_world s', Ok ()) \<and>
    (\<forall>k \<in> fst ` set updated. stored k \<noteq> None)"
  by (rule check_batch_skips_missed [OF assms])

text \<open>A storage of one block, in which an update leaves the slots it was given.\<close>

definition gap_store :: "slot list block_store" where
  "gap_store = \<lparr>bs_store_blocks = (\<lambda>w blocks fin. (w, Ok ())), bs_update_finalized_blocks = (\<lambda>w blocks. (map fst blocks, Ok ())),
     bs_get_block = (\<lambda>w k. (w, Ok (if k = 5 then Some (chain_block 5 [6]) else None))), bs_get_last_slot = (\<lambda>w. (w, Ok (Some 5))),
     bs_set_finalized_slot = (\<lambda>w k. (w, Ok []))\<rparr>"

lemma test_walk:
  "check_walk (Suc (Suc 0)) (test_loader gap_store) 4 5 [] (test_state []) =
    ((test_state [])\<lparr>ls_calls := 1\<rparr>, Ok (3, [(4, chain_block 4 [7]), (5, chain_block 5 [6])]))"
proof -
  have five: "check_block (test_loader gap_store) 5 s = (s, Ok (chain_block 5 [6]))" for s
    by (simp add: check_block_def on_store_def ld_test_store gap_store_def)
  have four: "check_block (test_loader gap_store) 4 s = (s\<lparr>ls_calls := Suc (ls_calls s)\<rparr>, Ok (chain_block 4 [7]))" for s
    by (simp add: check_block_def on_store_def ld_test_store gap_store_def test_load_block)
  show ?thesis by (simp add: five four) (simp add: chain_block_def four [unfolded chain_block_def] test_state_def)
qed

theorem missed_blocks_not_stored_witness:
  "\<exists>s' w updated. check_batch (test_loader gap_store) 4 5 (test_state []) = (s', Ok 3) \<and>
    bs_update_finalized_blocks gap_store w updated = (ls_world s', Ok ()) \<and> 4 \<notin> fst ` set updated"
proof -
  have size: "unat (ld_batch_size (test_loader gap_store)) = Suc (Suc 0)" by (simp add: test_loader_def)
  have update: "bs_update_finalized_blocks gap_store w blocks = (map fst blocks, Ok ())" for w blocks
    by (simp add: gap_store_def)
  have "snd (check_batch (test_loader gap_store) 4 5 (test_state [])) = Ok 3"
    by (simp add: check_batch_def size test_walk recheck_finalized_blocks_def test_recheck joined_def on_store_def Let_def
        ld_test_store update del: check_walk.simps)
  then obtain s' where run: "check_batch (test_loader gap_store) 4 5 (test_state []) = (s', Ok 3)"
    by (cases "check_batch (test_loader gap_store) 4 5 (test_state [])") auto
  have "\<exists>w updated. bs_update_finalized_blocks (ld_store (test_loader gap_store)) w updated = (ls_world s', Ok ()) \<and>
      (\<forall>k \<in> fst ` set updated. (if k = 5 then Some (chain_block 5 [6]) else None) \<noteq> None)"
    by (rule missed_blocks_not_stored [OF run _ test_client_steady]) (simp add: ld_test_store gap_store_def)
  then obtain w updated where "bs_update_finalized_blocks gap_store w updated = (ls_world s', Ok ())"
    and "\<forall>k \<in> fst ` set updated. k = 5"
    by (auto simp: ld_test_store split: if_splits)
  moreover from this(2) have "4 \<notin> fst ` set updated" by fastforce
  ultimately show ?thesis using run by blast
qed

end
