(* ===== verification/Standalone.thy ===== *)
theory Standalone
  imports Loader_Ends Relayer_Storage Services
begin

text \<open>
  How the parts are configured and run together: \<^verbatim>\<open>config.rs\<close>,
  \<^verbatim>\<open>inmemory/ethereum_block_storage.rs\<close> and \<^verbatim>\<open>standalone_indexer.rs\<close> of
  \<^verbatim>\<open>rome-evm-client/src/indexer\<close>.
\<close>

section \<open>The storage in memory\<close>

text \<open>It stores nothing.\<close>

definition inmemory_eth_storage :: "'w eth_storage" where
  "inmemory_eth_storage = \<lparr>es_get_pending_blocks = (\<lambda>w. (w, Ok None)), es_reproduce_blocks = (\<lambda>w from to. (w, Ok None)),
     es_register_parse_results = (\<lambda>w rs. (w, Ok ())), es_latest_block = (\<lambda>w. (w, Ok None)),
     es_blocks_produced = (\<lambda>w pp produced. (w, Ok ())), es_get_max_slot_produced = (\<lambda>w. (w, Ok None)),
     es_retain_from_slot = (\<lambda>w s. (w, Ok ())), es_clean_from_slot = (\<lambda>w s. (w, Ok ())),
     es_get_slot_for_eth_block = (\<lambda>w n. (w, Ok None))\<rparr>"

text \<open>It meets the contract of production: no block is known, so none has parameters to be stored.\<close>

interpretation inmem: produced_store inmemory_eth_storage "\<lambda>_ _. None" "\<lambda>_. None" "\<lambda>_. True"
  by unfold_locales (simp_all add: inmemory_eth_storage_def)

text \<open>An indexer on this storage never asks its producer for a block.\<close>

lemma inmemory_produces_nothing:
  "ri_eth ri = inmemory_eth_storage \<Longrightarrow> restore_or_produce_blocks n ri s batch_size = Some (s, Ok ())"
  by (simp add: restore_or_produce_blocks_def inmemory_eth_storage_def on_world_def split: option.split)

section \<open>Configuration\<close>

text \<open>The deserializers of the program id; \<open>parse\<close> reads a Solana address.\<close>

definition deserialize_pubkey_from_string :: "(rstr \<Rightarrow> pubkey option) \<Rightarrow> rstr \<Rightarrow> pubkey res" where
  "deserialize_pubkey_from_string parse s = ok_or SerdeJsonError (parse s)"

definition deserialize_optional_pubkey_from_string :: "(rstr \<Rightarrow> pubkey option) \<Rightarrow> rstr option \<Rightarrow> pubkey option res" where
  "deserialize_optional_pubkey_from_string parse maybe_str =
     (case maybe_str of
        None \<Rightarrow> Ok None
      | Some s \<Rightarrow> if list_all is_whitespace s then Ok None
                  else try_res (ok_or SerdeJsonError (parse s)) (\<lambda>p. Ok (Some p)))"

record block_parser_config =
  bc_program_id :: "pubkey option"
  bc_chain_id :: u64
  bc_parse_mode :: block_parse_mode
  bc_enable_deposit_slot :: "slot option"

text \<open>The argument of \<^verbatim>\<open>unwrap_or\<close> is evaluated first, whatever the option is.\<close>

definition block_parser_init :: "block_parser_config \<Rightarrow> pubkey option \<Rightarrow> block_parser res" where
  "block_parser_init cfg program =
     try_res (expect ''program_id is required'' (bc_program_id cfg)) (\<lambda>own.
       Ok \<lparr>program_id = (case program of Some p \<Rightarrow> p | None \<Rightarrow> own), chain_id = bc_chain_id cfg,
           parse_mode = bc_parse_mode cfg, enable_deposit_slot = bc_enable_deposit_slot cfg\<rparr>)"

text \<open>So a program id of its own is required even where another one is given.\<close>

lemma program_id_required: "is_panic (block_parser_init cfg program) \<longleftrightarrow> bc_program_id cfg = None"
  by (cases "bc_program_id cfg") (simp_all add: block_parser_init_def)

datatype 'c producer_config = EngineApiConfig 'c | SingleStateConfig

definition block_producer_init :: "('c \<Rightarrow> 'st producer res) \<Rightarrow> 'st producer \<Rightarrow> 'c producer_config \<Rightarrow> 'st producer res" where
  "block_producer_init engine single cfg = (case cfg of EngineApiConfig c \<Rightarrow> engine c | SingleStateConfig \<Rightarrow> Ok single)"

record mux_config =
  mc_providers :: "rstr list"
  mc_emergency_providers :: "rstr list option"

record 'p mux_client =
  mx_providers :: "'p list"
  mx_emergency_providers :: "'p list option"

definition mux_init :: "(rstr \<Rightarrow> 'p) \<Rightarrow> mux_config \<Rightarrow> 'p mux_client" where
  "mux_init connect cfg = \<lparr>mx_providers = map connect (mc_providers cfg),
     mx_emergency_providers = map_option (map connect) (mc_emergency_providers cfg)\<rparr>"

record loader_config =
  lg_program_id :: pubkey
  lg_batch_size :: "u64 option"
  lg_block_retries :: "nat option"
  lg_tx_retries :: "nat option"
  lg_retry_int_sec :: "u64 option"
  lg_commitment :: commitment_level
  lg_client :: mux_config

record 'p loader_settings =
  lt_program_id :: pubkey
  lt_batch_size :: slot
  lt_block_retries :: nat
  lt_tx_retries :: nat
  lt_retry_int :: u64
  lt_commitment :: commitment_level
  lt_client :: "'p mux_client"

definition DEFAULT_BATCH_SIZE :: u64 where "DEFAULT_BATCH_SIZE = 128"
definition DEFAULT_BLOCK_RETRIES :: nat where "DEFAULT_BLOCK_RETRIES = 100"
definition DEFAULT_TX_RETRIES :: nat where "DEFAULT_TX_RETRIES = 100"
definition DEFAULT_RETRY_INT_SEC :: u64 where "DEFAULT_RETRY_INT_SEC = 1"

definition unwrap_or :: "'a \<Rightarrow> 'a option \<Rightarrow> 'a" where
  "unwrap_or d v = (case v of Some x \<Rightarrow> x | None \<Rightarrow> d)"

definition block_loader_init :: "(rstr \<Rightarrow> 'p) \<Rightarrow> loader_config \<Rightarrow> 'p loader_settings" where
  "block_loader_init connect cfg = \<lparr>lt_program_id = lg_program_id cfg,
     lt_batch_size = unwrap_or DEFAULT_BATCH_SIZE (lg_batch_size cfg),
     lt_block_retries = unwrap_or DEFAULT_BLOCK_RETRIES (lg_block_retries cfg),
     lt_tx_retries = unwrap_or DEFAULT_TX_RETRIES (lg_tx_retries cfg),
     lt_retry_int = unwrap_or DEFAULT_RETRY_INT_SEC (lg_retry_int_sec cfg),
     lt_commitment = lg_commitment cfg, lt_client = mux_init connect (lg_client cfg)\<rparr>"

datatype 'conn eth_storage_config = PgStorageConfig 'conn | InMemoryConfig

definition eth_storage_init :: "pg_lib \<Rightarrow> ('conn \<Rightarrow> unit res) \<Rightarrow> 'conn eth_storage_config \<Rightarrow> pg eth_storage res" where
  "eth_storage_init lib pool cfg = (case cfg of
     PgStorageConfig connection \<Rightarrow> try_res (pool connection) (\<lambda>_. Ok (pg_eth_storage lib))
   | InMemoryConfig \<Rightarrow> Ok inmemory_eth_storage)"

datatype 'r sol_storage_choice = FromRelayer 'r | FromPostgres

definition storage_init ::
  "pg_lib \<Rightarrow> ('conn \<Rightarrow> unit res) \<Rightarrow> (rstr \<Rightarrow> 'r res) \<Rightarrow> 'conn \<Rightarrow> rstr option \<Rightarrow> ('r sol_storage_choice \<times> pg eth_storage) res" where
  "storage_init lib pool relayer connection relayer_url =
     try_res (pool connection) (\<lambda>_.
     try_res (case relayer_url of Some url \<Rightarrow> try_res (relayer url) (\<lambda>r. Ok (FromRelayer r)) | None \<Rightarrow> Ok FromPostgres) (\<lambda>sol.
       Ok (sol, pg_eth_storage lib)))"

record 'c rollup_indexer_config =
  ic_max_slot_history :: "slot option"
  ic_block_parser :: block_parser_config
  ic_block_producer :: "'c producer_config option"

definition block_production_api_enabled :: "'c rollup_indexer_config \<Rightarrow> bool" where
  "block_production_api_enabled cfg = (ic_block_producer cfg \<noteq> None)"

definition rollup_indexer_init ::
  "('c \<Rightarrow> 'st producer res) \<Rightarrow> 'st producer \<Rightarrow> parse_env \<Rightarrow> 'w sol_storage \<Rightarrow> 'w eth_storage \<Rightarrow> pubkey option
    \<Rightarrow> 'c rollup_indexer_config \<Rightarrow> ('w, 'st) rollup_indexer res" where
  "rollup_indexer_init engine single env sol eth program cfg =
     try_res (block_parser_init (ic_block_parser cfg) program) (\<lambda>parser.
     try_res (case ic_block_producer cfg of
         None \<Rightarrow> Ok None
       | Some c \<Rightarrow> (case block_producer_init engine single c of
             Ok p \<Rightarrow> Ok (Some p)
           | Err e \<Rightarrow> Panic ''Failed to create block producer''
           | Panic m \<Rightarrow> Panic m)) (\<lambda>producer.
       Ok \<lparr>ri_block_parser = parser, ri_env = env, ri_sol = sol, ri_eth = eth, ri_producer = producer,
           ri_max_slot_history = ic_max_slot_history cfg\<rparr>))"

lemma configured_indexer:
  assumes "rollup_indexer_init engine single env sol eth program cfg = Ok ri"
  shows "block_production_api_enabled cfg \<longleftrightarrow> ri_producer ri \<noteq> None"
    and "program_id (ri_block_parser ri) = unwrap_or (the (bc_program_id (ic_block_parser cfg))) program"
proof -
  obtain own where own: "bc_program_id (ic_block_parser cfg) = Some own"
    and parser: "program_id (ri_block_parser ri) = (case program of Some p \<Rightarrow> p | None \<Rightarrow> own)"
    using assms by (auto simp: rollup_indexer_init_def block_parser_init_def res_elims)
  then show "program_id (ri_block_parser ri) = unwrap_or (the (bc_program_id (ic_block_parser cfg))) program"
    by (simp add: unwrap_or_def)
  have "(case ic_block_producer cfg of None \<Rightarrow> Ok None
       | Some c \<Rightarrow> (case block_producer_init engine single c of
             Ok p \<Rightarrow> Ok (Some p) | Err e \<Rightarrow> Panic ''Failed to create block producer'' | Panic m \<Rightarrow> Panic m)) = Ok (ri_producer ri)"
    using assms unfolding rollup_indexer_init_def try_res_eq_Ok by auto
  then show "block_production_api_enabled cfg \<longleftrightarrow> ri_producer ri \<noteq> None"
    by (cases "ic_block_producer cfg"; cases "ri_producer ri") (auto simp: block_production_api_enabled_def split: res.splits)
qed

section \<open>Indexing\<close>

text \<open>
  The tasks of \<^verbatim>\<open>start_indexing\<close>, given by what they end with (\<open>None\<close>: they run on).  All
  of them are awaited; then the first result that is not a success is returned, a panic as an
  error.  Without a loader the signal is sent at once (\<open>Some False\<close>: nobody listens).
\<close>

fun first_failure :: "(string \<times> unit res) list \<Rightarrow> unit res" where
  "first_failure [] = Ok ()"
| "first_failure ((name, Ok _) # rs) = first_failure rs"
| "first_failure ((name, Err e) # rs) = Err e"
| "first_failure ((name, Panic m) # rs) = Err (Custom ''Failed to await on'')"

definition join_tasks :: "(string \<times> unit res option) list \<Rightarrow> unit res option" where
  "join_tasks tasks =
     (if list_all (\<lambda>(name, r). r \<noteq> None) tasks then Some (first_failure (map (\<lambda>(name, r). (name, the r)) tasks)) else None)"

definition start_indexing :: "unit res option option \<Rightarrow> unit res option option \<Rightarrow> bool option \<Rightarrow> unit res option" where
  "start_indexing rollup_indexer solana_block_loader idx_started =
     (let futures = (case rollup_indexer of Some r \<Rightarrow> [(''RollupIndexer'', r)] | None \<Rightarrow> []) in
      case solana_block_loader of
        Some r \<Rightarrow> join_tasks (futures @ [(''SolanaBlockLoader'', r)])
      | None \<Rightarrow>
          if idx_started = Some False then Some (Panic ''Failed to send SolanaBlockLoader started signal'')
          else join_tasks futures)"

text \<open>The loader runs on for ever, so an error or a panic of the indexer beside it is never reported.\<close>

lemma first_failure_Ok: "first_failure rs = Ok () \<longleftrightarrow> list_all (\<lambda>(name, r). is_ok r) rs"
  by (induction rs rule: first_failure.induct) auto

lemma indexing_succeeds:
  "start_indexing rollup_indexer (Some loader) idx_started = Some (Ok ()) \<longleftrightarrow>
   loader = Some (Ok ()) \<and> (rollup_indexer = None \<or> rollup_indexer = Some (Some (Ok ())))"
  by (cases loader; cases rollup_indexer)
    (auto simp: start_indexing_def join_tasks_def first_failure_Ok is_ok_iff split: option.splits)

lemma indexer_error_hidden: "start_indexing (Some (Some (Err e))) (Some None) idx_started = None"
  by (simp add: start_indexing_def join_tasks_def)

text \<open>
  \<^verbatim>\<open>RollupIndexer::start\<close>: the slot to start from is found, then the loop runs over what
  the channel of reorganizations gives.
\<close>

definition start_rollup_indexer ::
  "nat \<Rightarrow> ('w, 'st) rollup_indexer \<Rightarrow> ('w, 'st) indexer_state \<Rightarrow> slot option \<Rightarrow> reorg_event list
    \<Rightarrow> (('w, 'st) indexer_state \<times> slot option res) option" where
  "start_rollup_indexer n ri s start_slot evs =
     (case pre_run n ri s start_slot of
        None \<Rightarrow> None
      | Some (s1, Ok from_slot) \<Rightarrow> run n ri s1 from_slot evs
      | Some (s1, Err e) \<Rightarrow> Some (s1, Err e)
      | Some (s1, Panic m) \<Rightarrow> Some (s1, Panic m))"

text \<open>
  An event makes the indexer go on from its slot whatever it had reached: if it had not come
  that far yet, the slots between are never parsed.
\<close>

lemma reorg_forgets_progress:
  "run n ri s from_slot (ReorgSlot k # evs) = run n ri s other_slot (ReorgSlot k # evs)"
  by simp

lemma reorg_jumps:
  assumes "es_clean_from_slot (ri_eth ri) (is_world s) k = (w, Ok ())"
  shows "run n ri s from_slot (ReorgSlot k # evs) = run n ri (s\<lparr>is_world := w\<rparr>) k evs"
  using assms by (simp add: on_world_def)

section \<open>Recovery\<close>

text \<open>
  The events of the check that are not sent yet, those in the channel, the slots from which the
  Ethereum storage was cleaned, the storage, and what \<^verbatim>\<open>select!\<close> returned.  The task that
  cleans goes on when \<^verbatim>\<open>select!\<close> has taken the result of the check.
\<close>

record 'w recovery =
  rc_unsent :: "slot list"
  rc_channel :: "slot list"
  rc_cleaned :: "slot list"
  rc_world :: 'w
  rc_stopped :: bool
  rc_result :: "unit res option"

definition start_recovery :: "bool \<Rightarrow> bool \<Rightarrow> slot list \<Rightarrow> 'w \<Rightarrow> 'w recovery res" where
  "start_recovery rollup_indexer_configured block_loader_configured evs w =
     (if \<not> block_loader_configured \<and> rollup_indexer_configured
      then Panic ''SolanaBlockLoader must be configured for recovery''
      else if rollup_indexer_configured
      then Ok \<lparr>rc_unsent = evs, rc_channel = [], rc_cleaned = [], rc_world = w, rc_stopped = False, rc_result = None\<rparr>
      else Panic ''No rollup indexer configured'')"

definition select_result :: "unit res \<Rightarrow> unit res option \<Rightarrow> unit res option" where
  "select_result r old = (case old of None \<Rightarrow> Some (case r of Panic m \<Rightarrow> Err JoinError | _ \<Rightarrow> r) | Some x \<Rightarrow> Some x)"

text \<open>\<open>check\<close> is what the check ends with after its events, if it ends.\<close>

inductive recovery_step :: "'w eth_storage \<Rightarrow> unit res option \<Rightarrow> 'w recovery \<Rightarrow> 'w recovery \<Rightarrow> bool" for es check where
  rec_send: "rc_unsent s = k # ks \<Longrightarrow>
    recovery_step es check s (s\<lparr>rc_unsent := ks, rc_channel := rc_channel s @ [k]\<rparr>)"
| rec_clean: "rc_channel s = k # ks \<Longrightarrow> \<not> rc_stopped s \<Longrightarrow> es_clean_from_slot es (rc_world s) k = (w, Ok ()) \<Longrightarrow>
    recovery_step es check s (s\<lparr>rc_channel := ks, rc_cleaned := rc_cleaned s @ [k], rc_world := w\<rparr>)"
| rec_clean_error: "rc_channel s = k # ks \<Longrightarrow> \<not> rc_stopped s \<Longrightarrow> es_clean_from_slot es (rc_world s) k = (w, Err e) \<Longrightarrow>
    recovery_step es check s (s\<lparr>rc_channel := ks, rc_world := w, rc_stopped := True,
      rc_result := select_result (Err (Custom ''clean_from_slot error'')) (rc_result s)\<rparr>)"
| rec_checked: "rc_unsent s = [] \<Longrightarrow> check = Some r \<Longrightarrow>
    recovery_step es check s (s\<lparr>rc_result := select_result r (rc_result s)\<rparr>)"
| rec_drained: "rc_unsent s = [] \<Longrightarrow> check = Some r \<Longrightarrow> rc_channel s = [] \<Longrightarrow> \<not> rc_stopped s \<Longrightarrow>
    recovery_step es check s (s\<lparr>rc_stopped := True, rc_result := select_result (Ok ()) (rc_result s)\<rparr>)"

text \<open>
  The storage is cleaned for the events in their order.  But recovery may return before it
  was: the result of the check is enough.
\<close>

lemma recovery_cleans_in_order:
  assumes "(recovery_step es check)\<^sup>*\<^sup>* s0 s" and "start_recovery True True evs w = Ok s0" and "\<not> rc_stopped s"
  shows "rc_cleaned s @ rc_channel s @ rc_unsent s = evs"
proof -
  have "\<not> rc_stopped s \<longrightarrow> rc_cleaned s @ rc_channel s @ rc_unsent s = evs"
    using assms(1)
  proof (induction rule: rtranclp_induct)
    case base
    then show ?case using assms(2) by (auto simp: start_recovery_def)
  next
    case (step s s')
    from step.hyps(2) step.IH show ?case by cases auto
  qed
  with assms(3) show ?thesis by simp
qed

lemma recovery_returns_early:
  assumes "start_recovery True True [k] w = Ok s0"
  shows "\<exists>s. (recovery_step es (Some (Ok ())))\<^sup>*\<^sup>* s0 s \<and> rc_result s = Some (Ok ()) \<and> rc_cleaned s = [] \<and> rc_channel s = [k]"
proof -
  let ?s1 = "s0\<lparr>rc_unsent := [], rc_channel := [k]\<rparr>"
  have s0: "rc_unsent s0 = [k]" "rc_channel s0 = []" "rc_cleaned s0 = []" "rc_result s0 = None"
    using assms by (auto simp: start_recovery_def)
  have "recovery_step es (Some (Ok ())) s0 ?s1" using rec_send [of s0 k "[]"] s0 by simp
  moreover have "recovery_step es (Some (Ok ())) ?s1 (?s1\<lparr>rc_result := Some (Ok ())\<rparr>)"
    using rec_checked [of ?s1 "Some (Ok ())" "Ok ()"] s0 by (simp add: select_result_def)
  ultimately have "(recovery_step es (Some (Ok ())))\<^sup>*\<^sup>* s0 (?s1\<lparr>rc_result := Some (Ok ())\<rparr>)"
    by (meson converse_rtranclp_into_rtranclp r_into_rtranclp)
  then show ?thesis using s0(3) by (intro exI conjI) (assumption, simp_all)
qed

subsection \<open>Recovery with Postgres\<close>

text \<open>A check with the Postgres storage sends no event: it finds nothing, or fails to record it.\<close>

definition same_reorgs :: "'w load_state \<Rightarrow> 'w load_state \<Rightarrow> bool" where
  "same_reorgs s s' \<longleftrightarrow> ls_reorgs s' = ls_reorgs s"

lemma same_reorgs_simps [simp]: "same_reorgs s s" "same_reorgs s (s\<lparr>ls_world := w\<rparr>)"
  by (simp_all add: same_reorgs_def)

lemma same_reorgs_trans: "same_reorgs s s1 \<Longrightarrow> same_reorgs s1 s2 \<Longrightarrow> same_reorgs s s2"
  by (simp add: same_reorgs_def)

lemma same_store_reorgs: "same_store s s' \<Longrightarrow> same_reorgs s s'"
  by (simp add: same_store_def same_reorgs_def)

lemma and_then_reorgs:
  assumes "and_then m k = (s', r)" and "same_reorgs s (fst m)" and "\<And>s1 x s2 r. k s1 x = (s2, r) \<Longrightarrow> same_reorgs s1 s2"
  shows "same_reorgs s s'"
  using assms by (cases m; cases "snd m") (auto simp: and_then_def intro: same_reorgs_trans)

lemma on_store_reorgs: "same_reorgs s (fst (on_store f s))"
  by (simp add: on_store_def same_reorgs_def split: prod.split)

lemma load_block_reorgs: "same_reorgs s (fst (load_block ld level k s))"
  by (cases "load_block ld level k s") (simp add: same_store_reorgs load_block_same)

lemma check_block_reorgs: "same_reorgs s (fst (check_block ld k s))"
proof -
  obtain s' r where run: "check_block ld k s = (s', r)" by fastforce
  have "same_reorgs s s'"
  proof (rule and_then_reorgs [OF run [unfolded check_block_def] on_store_reorgs])
    fix s1 b s2 q
    assume "(case b of Some block \<Rightarrow> (s1, Ok block)
      | None \<Rightarrow> and_then (load_block ld (ld_commitment ld) k s1) (\<lambda>s b. (s, ok_or (Custom ''Failed to load block on slot'') b))) = (s2, q)"
    then show "same_reorgs s1 s2"
      by (cases b) (auto elim!: and_then_reorgs simp: load_block_reorgs)
  qed
  then show ?thesis by (simp add: run)
qed

lemma check_walk_reorgs: "check_walk n ld a k blocks s = (s', r) \<Longrightarrow> same_reorgs s s'"
proof (induction n arbitrary: k blocks s s' r)
  case (Suc n)
  show ?case
  proof (cases "a \<le> k")
    case True
    have "and_then (check_block ld k s) (\<lambda>s block. check_walk n ld a (parent_slot block) (bt_insert k block blocks) s) = (s', r)"
      using Suc.prems True by simp
    then show ?thesis
      by (rule and_then_reorgs [OF _ check_block_reorgs]) (rule Suc.IH)
  qed (use Suc.prems in simp)
qed simp

lemma pg_recheck_reorgs:
  assumes "recheck_finalized_blocks ld blocks s = (s', r)" and "ld_store ld = pg_block_store lib"
  shows "same_reorgs s s'"
proof -
  obtain s1 rs where join: "join_all (recheck_finalized_block ld) blocks s = (s1, rs)"
    by (cases "join_all (recheck_finalized_block ld) blocks s")
  have same: "same_reorgs s s1" by (rule same_store_reorgs [OF join_all_same [OF join recheck_block_same]])
  define updated where "updated = insert_loaded (zip (map fst blocks) rs) []"
  have silent: "same_reorgs s1 s2"
    if "and_then (on_store (\<lambda>w. bs_update_finalized_blocks (ld_store ld) w updated) s1)
      (\<lambda>s2 _. (send_reorg (map_option fst (bt_first updated)) s2, Ok ())) = (s2, q)" for s1 s2 q
  proof (cases "updated = []")
    case True
    then show ?thesis using that
      by (elim and_then_reorgs) (auto simp: on_store_reorgs send_reorg_def bt_first_def)
  next
    case False
    obtain w p where w: "pg_update_finalized_blocks lib (ls_world s1) updated = (w, p)" by fastforce
    then have "\<not> is_ok p" using pg_update_fails [OF False w] by simp
    then show ?thesis using that by (cases p) (auto simp: on_store_def assms(2) pg_block_store_def w)
  qed
  then show ?thesis using assms(1) unfolding recheck_finalized_blocks_def join prod.case
    by (elim and_then_reorgs) (auto simp: same Let_def updated_def dest: silent)
qed

lemma pg_check_reorgs: "check_batch ld a k s = (s', r) \<Longrightarrow> ld_store ld = pg_block_store lib \<Longrightarrow> same_reorgs s s'"
  unfolding check_batch_def
proof (erule and_then_reorgs)
  show "same_reorgs s (fst (check_walk (unat (ld_batch_size ld)) ld a k [] s))"
    by (cases "check_walk (unat (ld_batch_size ld)) ld a k [] s") (simp add: check_walk_reorgs)
next
  fix s1 x s2 q
  assume "ld_store ld = pg_block_store lib"
    and "(case x of (c, blocks) \<Rightarrow> and_then (recheck_finalized_blocks ld blocks s1) (\<lambda>s _. (s, Ok c))) = (s2, q)"
  then show "same_reorgs s1 s2"
    by (cases x; cases "recheck_finalized_blocks ld (snd x) s1")
      (auto elim!: and_then_reorgs simp: pg_recheck_reorgs)
qed

lemma pg_check_loop_reorgs:
  "check_loop n ld a k s = Some (s', r) \<Longrightarrow> ld_store ld = pg_block_store lib \<Longrightarrow> same_reorgs s s'"
proof (induction n arbitrary: k s s' r)
  case (Suc n)
  show ?case
  proof (cases "a \<le> k")
    case True
    obtain s1 q where one: "check_batch ld a k s = (s1, q)" by fastforce
    have "same_reorgs s s1" by (rule pg_check_reorgs [OF one Suc.prems(2)])
    then show ?thesis using Suc.prems Suc.IH [of _ s1] True one by (cases q) (auto intro: same_reorgs_trans [of s s1 s'])
  qed (use Suc.prems in simp)
qed simp

lemma pg_checking_silent:
  assumes "start_checking n ld a e s = Some (s', r)" and "ld_store ld = pg_block_store lib"
  shows "same_reorgs s s'"
proof -
  obtain s1 q where q: "checking_end ld e s = (s1, q)" by fastforce
  have s1: "same_reorgs s s1"
    using q by (auto simp: checking_end_def on_store_def split: option.splits prod.splits res.splits)
  obtain s2 p where p: "on_store (\<lambda>w. bs_get_block (ld_store ld) w a) s1 = (s2, p)" by fastforce
  have s2: "same_reorgs s s2" using on_store_reorgs [of s1] p s1 by (metis fst_conv same_reorgs_trans)
  show ?thesis using assms(1) s1 s2 unfolding start_checking_def q prod.case
    by (auto simp: p split: res.splits option.splits if_splits
        dest!: pg_check_loop_reorgs [OF _ assms(2)] intro: same_reorgs_trans)
qed

text \<open>
  Recovery with the Postgres storages never cleans an Ethereum block: whatever the check finds,
  it sends no event, so in no state of the recovery was the storage cleaned or changed.
\<close>

theorem recovery_never_cleans:
  assumes "start_checking n ld a e s = Some (s', r)" and "ld_store ld = pg_block_store lib" and "ls_reorgs s = []"
    and "start_recovery True True (ls_reorgs s') w = Ok s0" and "(recovery_step es (Some r))\<^sup>*\<^sup>* s0 st"
  shows "rc_cleaned st = [] \<and> rc_world st = w"
proof -
  have none: "ls_reorgs s' = []" using pg_checking_silent [OF assms(1,2)] assms(3) by (simp add: same_reorgs_def)
  have "rc_cleaned st = [] \<and> rc_channel st = [] \<and> rc_unsent st = [] \<and> rc_world st = w"
    using assms(5)
  proof (induction rule: rtranclp_induct)
    case base
    then show ?case using assms(4) none by (auto simp: start_recovery_def)
  next
    case (step s s')
    from step.hyps(2) step.IH show ?case by cases auto
  qed
  then show ?thesis by simp
qed

theorem recovery_never_cleans_witness:
  "\<exists>s' r s0. start_checking (2 ^ 64) checked_loader 1 None (test_state checked_pg) = Some (s', r) \<and>
     start_recovery True True (ls_reorgs s') (5 :: nat) = Ok s0 \<and> rc_cleaned s0 = [] \<and> rc_world s0 = 5"
proof -
  have store: "ld_store checked_loader = pg_block_store checked_lib" by (simp add: checked_loader_def test_loader_def)
  have "\<exists>s' r. start_checking (2 ^ 64) checked_loader 1 None (test_state checked_pg) = Some (s', r)"
  proof (rule start_checking_ends [OF store])
    show "descends checked_lib (pg_db (ls_world (test_state checked_pg))) checked_loader"
      by (auto simp: descends_def test_state_def checked_pg_def empty_pg_def checked_lib_def checked_loader_def test_client_def
          chain_block_def word_gt_0 split: if_splits)
  qed (simp_all add: checked_loader_def test_loader_def)
  then obtain s' r where run: "start_checking (2 ^ 64) checked_loader 1 None (test_state checked_pg) = Some (s', r)" by blast
  obtain s0 where s0: "start_recovery True True (ls_reorgs s') (5 :: nat) = Ok s0" by (simp add: start_recovery_def)
  have "ls_reorgs (test_state checked_pg) = []" by (simp add: test_state_def)
  from recovery_never_cleans [OF run store this s0 rtranclp.rtrancl_refl] run s0 show ?thesis by blast
qed

end
