(* ===== verification/Indexer_Invariant.thy ===== *)
theory Indexer_Invariant
  imports Pg_Types Standalone Pg_Pending
begin

text \<open>
  What every operation of the storages keeps is kept by the whole indexer, from its start on:
  through reproduction, parsing, production, restoration and reorganizations, whatever fails.
  The contract is a locale; it is interpreted for the Postgres storages, where what is kept is
  that the tables are well formed.
\<close>

section \<open>The contract\<close>

text \<open>The operations that synchronization calls, and those of the start and of a reorganization.\<close>

locale sync_invariant =
  fixes es :: "'w eth_storage"
    and sol :: "'w sol_storage"
    and I :: "'w \<Rightarrow> bool"
  assumes pending_keeps: "I w \<Longrightarrow> I (fst (es_get_pending_blocks es w))"
    and register_keeps: "I w \<Longrightarrow> I (fst (es_register_parse_results es w rs))"
    and latest_keeps: "I w \<Longrightarrow> I (fst (es_latest_block es w))"
    and produced_keeps: "I w \<Longrightarrow> I (fst (es_blocks_produced es w pp produced))"
    and retain_keeps: "I w \<Longrightarrow> I (fst (es_retain_from_slot es w k))"
    and last_slot_keeps: "I w \<Longrightarrow> I (fst (ss_get_last_slot sol w))"
    and sol_retain_keeps: "I w \<Longrightarrow> I (fst (ss_retain_from_slot sol w k))"

locale world_invariant = sync_invariant es sol I
  for es :: "'w eth_storage" and sol :: "'w sol_storage" and I :: "'w \<Rightarrow> bool" +
  assumes reproduce_keeps: "I w \<Longrightarrow> I (fst (es_reproduce_blocks es w a b))"
    and max_slot_keeps: "I w \<Longrightarrow> I (fst (es_get_max_slot_produced es w))"
    and clean_keeps: "I w \<Longrightarrow> I (fst (es_clean_from_slot es w k))"
    and slot_for_block_keeps: "I w \<Longrightarrow> I (fst (es_get_slot_for_eth_block es w m))"

context sync_invariant
begin

definition holds :: "('w, 'st) indexer_state \<times> 'a \<Rightarrow> bool" where
  "holds m \<longleftrightarrow> I (is_world (fst m))"

definition holds_end :: "(('w, 'st) indexer_state \<times> 'a) option \<Rightarrow> bool" where
  "holds_end m \<longleftrightarrow> (\<forall>s r. m = Some (s, r) \<longrightarrow> I (is_world s))"

lemma holds_pair [simp]: "holds (s, r) \<longleftrightarrow> I (is_world s)"
  by (simp add: holds_def)

lemma holds_end_simps [simp]: "holds_end None" "holds_end (Some m) \<longleftrightarrow> holds m"
  "holds_end (map_option (\<lambda>(s, r). (s, g r)) o') \<longleftrightarrow> holds_end o'"
  by (simp add: holds_end_def) (cases m, simp add: holds_end_def, auto simp: holds_end_def split: prod.splits)

lemma holds_on_world: "I (is_world s) \<Longrightarrow> (\<And>w. I w \<Longrightarrow> I (fst (f w))) \<Longrightarrow> holds (on_world f s)"
  by (simp add: on_world_def holds_def split: prod.split) (metis fst_conv)

lemma on_world_run: "on_world f s = (s', r) \<Longrightarrow> I (is_world s) \<Longrightarrow> (\<And>w. I w \<Longrightarrow> I (fst (f w))) \<Longrightarrow> I (is_world s')"
  using holds_on_world [of s f] by simp

lemma holds_on_producer: "I (is_world s) \<Longrightarrow> holds (on_producer f s)"
  by (simp add: on_producer_def holds_def split: prod.split)

lemma holds_and_then: "holds m \<Longrightarrow> (\<And>s x. I (is_world s) \<Longrightarrow> holds (k s x)) \<Longrightarrow> holds (and_then m k)"
  by (cases m; cases "snd m") auto

lemma holds_try_with: "I (is_world s) \<Longrightarrow> (\<And>x. holds (k x)) \<Longrightarrow> holds (try_with s r k)"
  by (cases r) (simp_all add: try_with_def)

lemmas holds_intros = holds_on_world holds_on_producer holds_and_then holds_try_with pending_keeps register_keeps latest_keeps
  produced_keeps retain_keeps last_slot_keeps sol_retain_keeps

section \<open>Parsing and producing\<close>

lemma parse_slots_keeps: "I (is_world s) \<Longrightarrow> holds (parse_slots ri s results slots)"
  by (induction ri s results slots rule: parse_slots.induct)
    (auto split: prod.split option.split intro!: holds_and_then)

lemma parse_batch_keeps: "I (is_world s) \<Longrightarrow> holds (parse_blocks_batch ri s a b n)"
  unfolding parse_blocks_batch_def Let_def by (auto intro!: holds_intros parse_slots_keeps)

lemma retain_storages_keeps:
  assumes "ri_eth ri = es" and "ri_sol ri = sol" and "I (is_world s)"
  shows "I (is_world (retain_storages ri s k))"
proof (cases "ri_max_slot_history ri")
  case (Some h)
  obtain s1 r where one: "on_world (\<lambda>w. ss_retain_from_slot sol w (k - max MAX_PARSE_BEHIND h)) s = (s1, r)" by fastforce
  have s1: "I (is_world s1)" by (rule on_world_run [OF one assms(3)]) (rule sol_retain_keeps)
  then have "holds (on_world (\<lambda>w. es_retain_from_slot es w a) (s1\<lparr>is_tx_parser := p\<rparr>))" for a p
    by (auto intro!: holds_on_world retain_keeps)
  then show ?thesis using assms s1
    by (auto simp: retain_storages_def Some Let_def one holds_def split: res.split)
qed (simp add: retain_storages_def assms)

lemma produce_loop_keeps: "I w \<Longrightarrow> produce_loop n es produce w st pp batch_size = Some (w', st', r) \<Longrightarrow> I w'"
proof (induction n arbitrary: w st pp)
  case (Suc n)
  obtain st1 q where one: "produce st pp (Some batch_size) = (st1, q)" by fastforce
  show ?case
  proof (cases "\<exists>result k. q = Ok result \<and> last_key_value (pr_produced_blocks result) = Some k")
    case True
    then obtain result s i p where q: "q = Ok result" "last_key_value (pr_produced_blocks result) = Some (s, i, p)" by auto
    obtain w1 z where two: "es_blocks_produced es w pp (pr_produced_blocks result) = (w1, z)" by fastforce
    have "I w1" using produced_keeps [OF Suc.prems(1), of pp "pr_produced_blocks result"] by (simp add: two)
    then show ?thesis using Suc.prems(2) Suc.IH by (cases z) (auto simp: one q two)
  qed (use Suc.prems one in \<open>auto split: res.splits option.splits\<close>)
qed simp

lemma restore_blocks_keeps: "I w \<Longrightarrow> restore_blocks es pr w st a b pp n = (w', st', r) \<Longrightarrow> I w'"
  using produced_keeps [of w pp] by (auto simp: restore_blocks_def split: prod.splits res.splits) (metis fst_conv)

lemma restore_or_produce_keeps:
  assumes "ri_eth ri = es" and "I (is_world s)"
  shows "holds_end (restore_or_produce_blocks n ri s batch_size)"
proof (cases "ri_producer ri")
  case (Some pr)
  obtain s1 r where one: "on_world (es_get_pending_blocks es) s = (s1, r)" by fastforce
  have s1: "I (is_world s1)" by (rule on_world_run [OF one assms(2)]) (rule pending_keeps)
  obtain s3 q where two: "and_then (on_world (es_latest_block es) s1) (\<lambda>s2 latest.
      and_then (on_producer (pr_last_produced_block pr) s2) (\<lambda>s3 last_in_producer.
      try_with s3 (add_or_panic (case latest of Some b \<Rightarrow> b | None \<Rightarrow> 0) 1) (\<lambda>next.
        (s3, Ok (next, last_in_producer))))) = (s3, q)" by fastforce
  have "holds (s3, q)" unfolding two [symmetric] by (auto intro!: holds_intros s1)
  then have s3: "I (is_world s3)" by simp
  have "holds_end (map_option (\<lambda>(w, st, r). (s3\<lparr>is_world := w, is_producer := st\<rparr>, r))
      (produce_loop n es produce (is_world s3) st pp batch_size))" for produce st pp
    using produce_loop_keeps [OF s3] by (auto simp: holds_end_def)
  moreover have "holds_end (case restore_blocks es pr (is_world s3) st a b pp m of
      (w, st, r) \<Rightarrow> Some (s3\<lparr>is_world := w, is_producer := st\<rparr>, r))" for st a b pp m
    using restore_blocks_keeps [OF s3] by (auto simp: holds_end_def split: prod.splits)
  ultimately show ?thesis using s1 s3
    by (auto simp: restore_or_produce_blocks_def Some assms(1) one two split: res.split option.split)
qed (simp add: restore_or_produce_blocks_def assms)

lemma sync_loop_keeps:
  "ri_eth ri = es \<Longrightarrow> ri_sol ri = sol \<Longrightarrow> I (is_world s) \<Longrightarrow> holds_end (sync_loop n ri s a b batch_size)"
proof (induction n arbitrary: s a)
  case (Suc n)
  obtain s1 r where one: "parse_blocks_batch ri s a b batch_size = (s1, r)" by fastforce
  have s1: "I (is_world s1)" using parse_batch_keeps [OF Suc.prems(3), of ri a b batch_size] by (simp add: one)
  show ?case
  proof (cases r)
    case (Ok x)
    obtain next_slot results where x: "x = (next_slot, results)" by (cases x)
    obtain s2 q where two: "on_world (\<lambda>w. es_register_parse_results es w results) s1 = (s2, q)" by fastforce
    have s2: "I (is_world s2)" by (rule on_world_run [OF two s1]) (rule register_keeps)
    obtain m where m: "restore_or_produce_blocks n ri s2 batch_size = m" by blast
    have m_keeps: "holds_end m" using restore_or_produce_keeps [OF Suc.prems(1) s2] m by blast
    have "holds_end (sync_loop n ri (retain_storages ri s3 a) next_slot b batch_size)" if "m = Some (s3, z)" for s3 z
      using m_keeps that by (intro Suc.IH retain_storages_keeps Suc.prems) simp
    then show ?thesis using Suc.prems s2 m_keeps
      by (cases m; cases q) (auto simp: one Ok x two m split: res.split)
  qed (use Suc.prems one s1 in simp_all)
qed simp

lemma restore_or_produce_until_keeps:
  assumes "ri_eth ri = es" and "ri_sol ri = sol" and "I (is_world s)"
  shows "holds_end (restore_or_produce_until_in_sync n ri s a batch_size)"
proof -
  obtain s1 r where one: "on_world (ss_get_last_slot sol) s = (s1, r)" by fastforce
  have s1: "I (is_world s1)" by (rule on_world_run [OF one assms(3)]) (rule last_slot_keeps)
  then show ?thesis using sync_loop_keeps [OF assms(1,2) s1]
    by (auto simp: restore_or_produce_until_in_sync_def assms(2) one split: res.split option.split)
qed

end

section \<open>Reproduction and the whole run\<close>

context world_invariant
begin

lemmas ops_keep = holds_intros reproduce_keeps max_slot_keeps clean_keeps slot_for_block_keeps

lemma reproduce_blocks_keeps:
  assumes "ri_eth ri = es" and "I (is_world s)"
  shows "holds (reproduce_blocks ri s a b n)"
  unfolding reproduce_blocks_def assms(1) using assms(2)
  by (auto split: option.split simp: Let_def intro!: ops_keep)

lemma reproduce_range_keeps:
  "ri_eth ri = es \<Longrightarrow> I (is_world s) \<Longrightarrow> holds_end (reproduce_range n ri s a b batch_size)"
proof (induction n arbitrary: s a)
  case (Suc n)
  obtain s1 r where one: "reproduce_blocks ri s a b batch_size = (s1, r)" by fastforce
  have "I (is_world s1)" using reproduce_blocks_keeps [OF Suc.prems, of a b batch_size] by (simp add: one)
  then show ?case using Suc one by (cases r) simp_all
qed simp

lemma reproduce_loop_keeps:
  "ri_eth ri = es \<Longrightarrow> I (is_world s) \<Longrightarrow> holds_end (reproduce_loop n ri s a batch_size)"
proof (induction n arbitrary: s a)
  case (Suc n)
  obtain s1 r where one: "on_world (es_get_max_slot_produced es) s = (s1, r)" by fastforce
  have s1: "I (is_world s1)" by (rule on_world_run [OF one Suc.prems(2)]) (rule max_slot_keeps)
  show ?case
  proof (cases "\<exists>to_slot. r = Ok (Some to_slot)")
    case True
    then obtain to_slot where r: "r = Ok (Some to_slot)" by blast
    show ?thesis
    proof (cases "add_or_panic to_slot 1")
      case (Ok next_slot)
      obtain m where m: "reproduce_range n ri s1 a next_slot batch_size = m" by blast
      have "holds_end m" using reproduce_range_keeps [OF Suc.prems(1) s1] m by blast
      then show ?thesis using Suc.IH [OF Suc.prems(1)] Suc.prems(1) s1
        by (cases m) (auto simp: one r Ok m split: res.split)
    qed (use Suc.prems s1 one r in simp_all)
  qed (use Suc s1 one in \<open>auto split: res.split option.split\<close>)
qed simp

lemma reproduce_until_keeps:
  "ri_eth ri = es \<Longrightarrow> I (is_world s) \<Longrightarrow> holds_end (reproduce_blocks_until_in_sync n ri s b batch_size)"
proof (cases "add_or_panic b 1")
  case (Ok next_block)
  assume ri: "ri_eth ri = es" and s: "I (is_world s)"
  obtain s1 r where one: "on_world (\<lambda>w. es_get_slot_for_eth_block es w next_block) s = (s1, r)" by fastforce
  have "I (is_world s1)" by (rule on_world_run [OF one s]) (rule slot_for_block_keeps)
  then show ?thesis using reproduce_loop_keeps [OF ri]
    by (auto simp: reproduce_blocks_until_in_sync_def Ok ri one split: res.split option.split)
qed (simp_all add: reproduce_blocks_until_in_sync_def)

lemma pre_run_keeps:
  "ri_eth ri = es \<Longrightarrow> I (is_world s) \<Longrightarrow> holds_end (pre_run n ri s start_slot)"
proof (cases "ri_producer ri")
  case (Some pr)
  assume ri: "ri_eth ri = es" and s: "I (is_world s)"
  obtain s1 r where one: "on_producer (pr_last_produced_block pr) s = (s1, r)" by fastforce
  have s1: "I (is_world s1)" using holds_on_producer [OF s, of "pr_last_produced_block pr"] by (simp add: one)
  obtain s2 q where two: "on_world (es_latest_block es) s1 = (s2, q)" by fastforce
  have s2: "I (is_world s2)" by (rule on_world_run [OF two s1]) (rule latest_keeps)
  have "holds (and_then (on_world (\<lambda>w. es_get_slot_for_eth_block es w m) s2) (\<lambda>s x. (s, f x)))" for m f
    by (auto intro!: ops_keep s2)
  then show ?thesis using s1 s2 reproduce_until_keeps [OF ri s2]
    by (auto simp: pre_run_def Some one two ri split: res.split option.split)
qed (simp add: pre_run_def)

lemma run_keeps:
  "ri_eth ri = es \<Longrightarrow> ri_sol ri = sol \<Longrightarrow> I (is_world s) \<Longrightarrow> holds_end (run n ri s a evs)"
proof (induction evs arbitrary: s a)
  case (Cons ev evs)
  define m where "m = (case ev of
      ReorgSlot k \<Rightarrow> Some (and_then (on_world (\<lambda>w. es_clean_from_slot es w k) s) (\<lambda>s _. (s, Ok (Some k))))
    | ChannelEmpty \<Rightarrow> map_option (\<lambda>(s, r). (s, try_res r (\<lambda>x. Ok (Some x)))) (restore_or_produce_until_in_sync n ri s a BATCH_SIZE)
    | ChannelDisconnected \<Rightarrow> Some (s, Ok None))"
  have m: "holds_end m"
    unfolding m_def using restore_or_produce_until_keeps [OF Cons.prems] Cons.prems(3)
    by (auto split: reorg_event.split intro!: ops_keep)
  have "run n ri s a (ev # evs) = (case m of
      None \<Rightarrow> None | Some (s', Ok (Some next_slot)) \<Rightarrow> run n ri s' next_slot evs | Some (s', r) \<Rightarrow> Some (s', r))"
    unfolding run.simps m_def Cons.prems(1) by (rule refl)
  then show ?case using m Cons.IH [OF Cons.prems(1,2)] by (cases m) (auto split: res.split option.split)
qed simp

lemma indexer_keeps:
  assumes "start_rollup_indexer n ri s start_slot evs = Some (s', r)" and "ri_eth ri = es" and "ri_sol ri = sol"
    and "I (is_world s)"
  shows "I (is_world s')"
proof -
  obtain s1 q where pre: "pre_run n ri s start_slot = Some (s1, q)"
    using assms(1) by (auto simp: start_rollup_indexer_def split: option.splits)
  have s1: "I (is_world s1)" using pre_run_keeps [OF assms(2,4), of n start_slot] by (simp add: pre)
  have "holds_end (start_rollup_indexer n ri s start_slot evs)"
    by (cases q) (simp_all add: start_rollup_indexer_def pre s1 run_keeps [OF assms(2,3) s1])
  then show ?thesis by (simp add: assms(1))
qed

end

section \<open>The Postgres storages\<close>

definition pg_sol_storage :: "block_source \<Rightarrow> pg sol_storage" where
  "pg_sol_storage source = \<lparr>ss_get_last_slot = pg_get_last_slot, ss_retain_from_slot = pg_sol_retain_from_slot,
     ss_get_block = source\<rparr>"

lemma reading_keeps [simp]: "pg_db (fst (reading f pg)) = pg_db pg"
  using in_transaction_keeps [where P = "\<lambda>db. db = pg_db pg" and f = "\<lambda>db. try_res (f db) (\<lambda>x. Ok (db, x))" and pg = pg]
  by (auto simp: reading_def res_elims)

lemma pg_op_fst: "pg_op lib pg (fst m) \<Longrightarrow> db_ok (pg_db pg) \<Longrightarrow> db_ok (pg_db (fst m))"
  by (rule pg_op_ok)

interpretation pg_tables: world_invariant "pg_eth_storage lib" "pg_sol_storage source" "\<lambda>pg. db_ok (pg_db pg)" for lib source
proof
  fix w :: pg and rs pp produced k
  assume "db_ok (pg_db w)"
  then show "db_ok (pg_db (fst (es_register_parse_results (pg_eth_storage lib) w rs)))"
    and "db_ok (pg_db (fst (es_blocks_produced (pg_eth_storage lib) w pp produced)))"
    and "db_ok (pg_db (fst (es_clean_from_slot (pg_eth_storage lib) w k)))"
    by (auto simp: pg_eth_storage_def
        intro: pg_op_fst [where lib = lib] op_register [OF surjective_pairing] op_produced [OF surjective_pairing]
          op_clean [OF surjective_pairing])
qed (auto simp: pg_eth_storage_def pg_sol_storage_def pg_get_pending_blocks_def pg_reproduce_blocks_def pg_latest_block_def
    pg_get_max_slot_produced_def pg_eth_retain_from_slot_def pg_get_slot_for_eth_block_def pg_get_last_slot_def
    pg_sol_retain_from_slot_def split: prod.split dest: arg_cong [where f = "\<lambda>m. pg_db (fst m)"])

text \<open>
  The indexer keeps the tables well formed: from tables whose keys are unique and whose
  references are to rows that are there, it reaches only such tables, whatever it parses,
  produces, restores or cleans, and however it ends.
\<close>

theorem indexer_keeps_tables:
  assumes "start_rollup_indexer n ri s start_slot evs = Some (s', r)" and "ri_eth ri = pg_eth_storage lib"
    and "ri_sol ri = pg_sol_storage source" and "db_ok (pg_db (is_world s))"
  shows "db_ok (pg_db (is_world s'))"
  by (rule pg_tables.indexer_keeps [OF assms])

text \<open>Without a producer it starts from the given slot; then a reorganization is found and the channel closed.\<close>

definition plain_indexer :: "(pg, unit) rollup_indexer" where
  "plain_indexer = \<lparr>ri_block_parser = test_block_parser, ri_env = test_parse_env, ri_sol = pg_sol_storage test_source,
     ri_eth = pg_eth_storage test_pg_lib, ri_producer = None, ri_max_slot_history = None\<rparr>"

definition plain_state :: "(pg, unit) indexer_state" where
  "plain_state = \<lparr>is_world = test_pg, is_producer = (), is_tx_parser = new_default_tx_parser, is_reads = 0\<rparr>"

lemma plain_run:
  "\<exists>s' r. start_rollup_indexer 1 plain_indexer plain_state (Some 7) [ReorgSlot 6, ChannelDisconnected] = Some (s', r)"
proof -
  obtain w r where "pg_clean_from_slot test_pg 6 = (w, r)" by fastforce
  then show ?thesis
    by (cases r) (simp_all add: start_rollup_indexer_def pre_run_def plain_indexer_def plain_state_def on_world_def
        pg_eth_storage_def)
qed

theorem indexer_keeps_tables_witness:
  "\<exists>s' r. start_rollup_indexer 1 plain_indexer plain_state (Some 7) [ReorgSlot 6, ChannelDisconnected] = Some (s', r) \<and>
     db_ok (pg_db (is_world s'))"
proof -
  obtain s' r where run: "start_rollup_indexer 1 plain_indexer plain_state (Some 7) [ReorgSlot 6, ChannelDisconnected] = Some (s', r)"
    using plain_run by blast
  have "db_ok (pg_db (is_world plain_state))"
    by (simp add: plain_state_def test_pg_def test_db_def db_ok_def bt_ok_def hm_ok_def keys_of_def)
  from indexer_keeps_tables [OF run _ _ this, of test_pg_lib test_source] run show ?thesis
    by (simp add: plain_indexer_def)
qed

end
