(* ===== verification/Pg_Register.thy ===== *)
theory Pg_Register
  imports Pg_Types Pg_Reproduce
begin

text \<open>
  What registering parse results writes: for every slot the bytes and the result of its
  transactions, its blocks at their indices, and the transactions of each block at theirs.  A row that is
  there already stays as it is, as does the first of two rows with the same key.
\<close>

section \<open>The rows of parse results\<close>

definition tx_rows :: "pg_lib \<Rightarrow> block_parse_result \<Rightarrow> (rstr \<times> bytes) list" where
  "tx_rows lib res = map (\<lambda>(tx, r). (hash_hex (tx_hash tx), tx_to_rlp lib tx)) (result_transactions res)"

definition result_rows :: "pg_lib \<Rightarrow> slot \<Rightarrow> block_parse_result \<Rightarrow> ((slot \<times> rstr) \<times> evm_tx_result_row) list" where
  "result_rows lib slot_nr res = map (\<lambda>(tx, r). ((slot_nr, hash_hex (tx_hash tx)),
     \<lparr>tr_tx_result = the (result_to_json lib r), tr_receipt_params = None\<rparr>)) (result_transactions res)"

definition header_row :: "eth_block \<Rightarrow> eth_block_row" where
  "header_row b = \<lparr>er_gas_used = unat (block_gas_used b), er_gas_recipient = map_option address_hex (eb_gas_recipient b),
     er_slot_timestamp = slot_timestamp b, er_params = None\<rparr>"

definition block_rows :: "slot \<Rightarrow> block_parse_result \<Rightarrow> (eth_block_id \<times> eth_block_row) list" where
  "block_rows slot_nr res = map (\<lambda>(i, b). ((slot_nr, i), header_row b)) (List.enumerate 0 (eth_blocks res))"

definition block_tx_rows :: "slot \<Rightarrow> nat \<Rightarrow> eth_block \<Rightarrow> ((slot \<times> nat \<times> rstr) \<times> nat) list" where
  "block_tx_rows slot_nr i b = map (\<lambda>(j, h). ((slot_nr, i, hash_hex h), j)) (List.enumerate 0 (eb_transactions b))"

definition slot_tx_rows :: "slot \<Rightarrow> block_parse_result \<Rightarrow> ((slot \<times> nat \<times> rstr) \<times> nat) list" where
  "slot_tx_rows slot_nr res =
     concat (map (\<lambda>(i, b). block_tx_rows slot_nr i b) (List.enumerate 0 (eth_blocks res)))"

section \<open>Loops that add rows to two tables\<close>

locale row_adding =
  fixes adds :: "'a list \<Rightarrow> 'b list \<Rightarrow> db \<Rightarrow> db \<Rightarrow> bool"
    and ready :: "db \<Rightarrow> bool"
  assumes adds_Nil: "adds [] [] db db"
    and adds_append: "adds xs ys db1 db2 \<Longrightarrow> adds xs' ys' db2 db3 \<Longrightarrow> adds (xs @ xs') (ys @ ys') db1 db3"
    and adds_ready: "adds xs ys db1 db2 \<Longrightarrow> ready db1 \<Longrightarrow> ready db2"
begin

lemma run_all_adds:
  assumes "\<And>e db. e \<in> set es \<Longrightarrow> ready db \<Longrightarrow> \<exists>db'. f e db = Ok db' \<and> adds (p e) (q e) db db'" and "ready db"
  shows "\<exists>db'. run_all f es db = Ok db' \<and> adds (concat (map p es)) (concat (map q es)) db db'"
  using assms
proof (induction es arbitrary: db)
  case (Cons e es)
  obtain db1 where one: "f e db = Ok db1" "adds (p e) (q e) db db1" using Cons.prems by force
  have "\<exists>db'. run_all f es db1 = Ok db' \<and> adds (concat (map p es)) (concat (map q es)) db1 db'"
    by (rule Cons.IH [OF Cons.prems(1) adds_ready [OF one(2) Cons.prems(2)]]) auto
  then show ?case using one adds_append by fastforce
qed (simp add: adds_Nil)

end

lemma concat_map_pair: "concat (map (\<lambda>(a, b). [f a b]) xs) = map (\<lambda>(a, b). f a b) xs"
  by (induction xs) auto

lemma concat_map_Nil: "concat (map (\<lambda>_. []) xs) = []"
  by (induction xs) auto

lemma insert_new_hm:
  "fk \<Longrightarrow> \<exists>m'. insert_new hm_insert k v fk m = Ok m' \<and> map_of m' = map_of [(k, v)] ++ map_of m"
  by (cases "map_of m k") (auto simp: insert_new_def map_add_def lookup_hm_insert fun_eq_iff split: option.split)

lemma insert_new_bt:
  "fk \<Longrightarrow> bt_ok m \<Longrightarrow> \<exists>m'. insert_new bt_insert k v fk m = Ok m' \<and> map_of m' = map_of [(k, v)] ++ map_of m"
  by (cases "map_of m k") (auto simp: insert_new_def map_add_def lookup_bt_insert fun_eq_iff split: option.split)

section \<open>The transactions of the slots\<close>

definition adds_txs :: "(rstr \<times> bytes) list \<Rightarrow> ((slot \<times> rstr) \<times> evm_tx_result_row) list \<Rightarrow> db \<Rightarrow> db \<Rightarrow> bool" where
  "adds_txs txs results db db' \<longleftrightarrow>
     map_of (db_evm_tx db') = map_of txs ++ map_of (db_evm_tx db) \<and>
     map_of (db_evm_tx_result db') = map_of results ++ map_of (db_evm_tx_result db) \<and>
     db_sol_slot db' = db_sol_slot db \<and> db_sol_block db' = db_sol_block db \<and>
     db_eth_block db' = db_eth_block db \<and> db_eth_block_txs db' = db_eth_block_txs db"

interpretation txs: row_adding adds_txs "\<lambda>db. \<forall>s \<in> slots. has_slot db s" for slots
  by unfold_locales (simp_all add: adds_txs_def map_add_assoc has_slot_def)

lemma store_tx_adds:
  assumes "has_slot db s" and "result_to_json lib r = Some json"
  shows "\<exists>db'. store_tx lib s (tx, r) db = Ok db' \<and>
    adds_txs [(hash_hex (tx_hash tx), tx_to_rlp lib tx)]
      [((s, hash_hex (tx_hash tx)), \<lparr>tr_tx_result = json, tr_receipt_params = None\<rparr>)] db db'"
proof -
  let ?h = "hash_hex (tx_hash tx)"
  obtain t where t: "insert_new hm_insert ?h (tx_to_rlp lib tx) True (db_evm_tx db) = Ok t"
      "map_of t = map_of [(?h, tx_to_rlp lib tx)] ++ map_of (db_evm_tx db)"
    using insert_new_hm [OF TrueI, where k = ?h and v = "tx_to_rlp lib tx" and m = "db_evm_tx db"] by blast
  obtain u where u: "insert_new hm_insert (s, ?h) \<lparr>tr_tx_result = json, tr_receipt_params = None\<rparr> True (db_evm_tx_result db) = Ok u"
      "map_of u = map_of [((s, ?h), \<lparr>tr_tx_result = json, tr_receipt_params = None\<rparr>)] ++ map_of (db_evm_tx_result db)"
    using insert_new_hm [OF TrueI, where k = "(s, ?h)" and v = "\<lparr>tr_tx_result = json, tr_receipt_params = None\<rparr>"
      and m = "db_evm_tx_result db"] by blast
  have fk: "has_slot (db\<lparr>db_evm_tx := t\<rparr>) s = True" "(\<exists>y. map_of t ?h = Some y) = True"
    using assms(1) t(2) by (auto simp: has_slot_def map_add_def split: option.split)
  have "store_tx lib s (tx, r) db = Ok (db\<lparr>db_evm_tx := t, db_evm_tx_result := u\<rparr>)"
    using t(1) u(1) assms(2) fk by (simp add: store_tx_def Let_def insert_evm_tx_def insert_evm_tx_result_def)
  then show ?thesis using t(2) u(2) by (simp add: adds_txs_def)
qed

lemma store_parsed_txs_adds:
  assumes "\<And>s res. (s, res) \<in> set rs \<Longrightarrow> slot_number res = s \<and> has_slot db s"
    and "\<And>s res tx r. (s, res) \<in> set rs \<Longrightarrow> (tx, r) \<in> set (result_transactions res) \<Longrightarrow> result_to_json lib r \<noteq> None"
  shows "\<exists>db'. store_parsed_txs lib rs db = Ok db' \<and>
    adds_txs (concat (map (\<lambda>(s, res). tx_rows lib res) rs)) (concat (map (\<lambda>(s, res). result_rows lib s res) rs)) db db'"
  unfolding store_parsed_txs_def
proof (rule txs.run_all_adds [where slots = "fst ` set rs"])
  fix e db' assume e: "e \<in> set rs" and ready: "\<forall>s \<in> fst ` set rs. has_slot db' s"
  obtain s res where sr: "e = (s, res)" by (cases e)
  have s: "slot_number res = s" "has_slot db' s" using assms(1) e ready by (auto simp: sr)
  have "\<exists>db''. run_all (store_tx lib s) (result_transactions res) db' = Ok db'' \<and>
      adds_txs (concat (map (\<lambda>(tx, r). [(hash_hex (tx_hash tx), tx_to_rlp lib tx)]) (result_transactions res)))
        (concat (map (\<lambda>(tx, r). [((s, hash_hex (tx_hash tx)),
          \<lparr>tr_tx_result = the (result_to_json lib r), tr_receipt_params = None\<rparr>)]) (result_transactions res))) db' db''"
  proof (rule txs.run_all_adds [where slots = "{s}"])
    fix x db1 assume x: "x \<in> set (result_transactions res)" and r1: "\<forall>s \<in> {s}. has_slot db1 s"
    obtain tx r where tr: "x = (tx, r)" by (cases x)
    obtain json where json: "result_to_json lib r = Some json" using assms(2) [of s res tx r] e x by (auto simp: sr tr)
    have slot1: "has_slot db1 s" using r1 by simp
    from store_tx_adds [where lib = lib and tx = tx, OF slot1 json] json
    show "\<exists>db'. store_tx lib s x db1 = Ok db' \<and> adds_txs (case x of (tx, r) \<Rightarrow> [(hash_hex (tx_hash tx), tx_to_rlp lib tx)])
        (case x of (tx, r) \<Rightarrow> [((s, hash_hex (tx_hash tx)), \<lparr>tr_tx_result = the (result_to_json lib r), tr_receipt_params = None\<rparr>)]) db1 db'"
      by (simp add: tr)
  qed (use s in simp)
  then show "\<exists>db''. (case e of (_, res) \<Rightarrow> run_all (store_tx lib (slot_number res)) (result_transactions res)) db' = Ok db'' \<and>
      adds_txs (case e of (s, res) \<Rightarrow> tx_rows lib res) (case e of (s, res) \<Rightarrow> result_rows lib s res) db' db''"
    by (simp add: sr s(1) concat_map_pair tx_rows_def result_rows_def)
qed (use assms(1) in auto)

section \<open>The blocks of the slots\<close>

definition adds_blocks ::
  "(eth_block_id \<times> eth_block_row) list \<Rightarrow> ((slot \<times> nat \<times> rstr) \<times> nat) list \<Rightarrow> db \<Rightarrow> db \<Rightarrow> bool" where
  "adds_blocks blocks txs db db' \<longleftrightarrow>
     map_of (db_eth_block db') = map_of blocks ++ map_of (db_eth_block db) \<and>
     map_of (db_eth_block_txs db') = map_of txs ++ map_of (db_eth_block_txs db) \<and>
     (bt_ok (db_eth_block db) \<longrightarrow> bt_ok (db_eth_block db')) \<and>
     db_sol_slot db' = db_sol_slot db \<and> db_sol_block db' = db_sol_block db \<and>
     db_evm_tx db' = db_evm_tx db \<and> db_evm_tx_result db' = db_evm_tx_result db"

text \<open>The foreign keys of the rows: the slots, the results, and blocks that are stored before.\<close>

definition rows_ready :: "slot set \<Rightarrow> (slot \<times> rstr) set \<Rightarrow> eth_block_id set \<Rightarrow> db \<Rightarrow> bool" where
  "rows_ready slots results blocks db \<longleftrightarrow> bt_ok (db_eth_block db) \<and> slots \<subseteq> keys_of (db_sol_slot db) \<and>
     results \<subseteq> keys_of (db_evm_tx_result db) \<and> blocks \<subseteq> keys_of (db_eth_block db)"

interpretation blocks: row_adding adds_blocks "rows_ready slots results blocks" for slots results blocks
  by unfold_locales (auto simp: adds_blocks_def map_add_assoc rows_ready_def keys_of_def)

lemma insert_eth_block_adds:
  assumes "rows_ready slots results blocks db" and "fst k \<in> slots"
  shows "\<exists>db'. insert_eth_block k row db = Ok db' \<and> adds_blocks [(k, row)] [] db db' \<and> k \<in> keys_of (db_eth_block db')"
proof -
  have ok: "bt_ok (db_eth_block db)" and fk: "has_slot db (fst k)"
    using assms by (auto simp: rows_ready_def has_slot_iff)
  obtain t where t: "insert_new bt_insert k row (has_slot db (fst k)) (db_eth_block db) = Ok t"
      "map_of t = map_of [(k, row)] ++ map_of (db_eth_block db)"
    using insert_new_bt [OF fk ok] by blast
  have "bt_ok t" by (rule bt.insert_new_facts(1) [OF t(1) ok])
  then show ?thesis using t by (auto simp: insert_eth_block_def adds_blocks_def keys_of_def)
qed

lemma store_txs_adds:
  assumes "rows_ready slots results blocks db" and "(s, i) \<in> blocks" and "\<And>h. h \<in> set (eb_transactions b) \<Longrightarrow> (s, hash_hex h) \<in> results"
  shows "\<exists>db'. store_txs s i b db = Ok db' \<and> adds_blocks [] (block_tx_rows s i b) db db'"
proof -
  have "\<exists>db'. run_all (\<lambda>(j, h). insert_eth_block_tx s i (hash_hex h) j) (List.enumerate 0 (eb_transactions b)) db = Ok db' \<and>
    adds_blocks (concat (map (\<lambda>_. []) (List.enumerate 0 (eb_transactions b))))
      (concat (map (\<lambda>(j, h). [((s, i, hash_hex h), j)]) (List.enumerate 0 (eb_transactions b)))) db db'"
  proof (rule blocks.run_all_adds [OF _ assms(1)])
    fix e db1 assume e: "e \<in> set (List.enumerate 0 (eb_transactions b))" and ready: "rows_ready slots results blocks db1"
    obtain j h where jh: "e = (j, h)" by (cases e)
    then have "h \<in> set (eb_transactions b)" using e by (auto simp: in_set_enumerate_eq)
    then have fk: "map_of (db_eth_block db1) (s, i) \<noteq> None \<and> map_of (db_evm_tx_result db1) (s, hash_hex h) \<noteq> None"
      using ready assms(2,3) by (auto simp: rows_ready_def keys_of_def)
    obtain t where "insert_new hm_insert (s, i, hash_hex h) j (map_of (db_eth_block db1) (s, i) \<noteq> None \<and>
          map_of (db_evm_tx_result db1) (s, hash_hex h) \<noteq> None) (db_eth_block_txs db1) = Ok t"
        "map_of t = map_of [((s, i, hash_hex h), j)] ++ map_of (db_eth_block_txs db1)"
      using insert_new_hm [OF fk, where k = "(s, i, hash_hex h)" and v = j and m = "db_eth_block_txs db1"] by blast
    then show "\<exists>db'. (case e of (j, h) \<Rightarrow> insert_eth_block_tx s i (hash_hex h) j) db1 = Ok db' \<and>
        adds_blocks [] (case e of (j, h) \<Rightarrow> [((s, i, hash_hex h), j)]) db1 db'"
      by (simp add: jh insert_eth_block_tx_def adds_blocks_def)
  qed
  then show ?thesis by (simp add: concat_map_pair concat_map_Nil store_txs_def block_tx_rows_def)
qed

lemma store_block_adds:
  assumes "rows_ready slots results blocks db" and "s \<in> slots" and "\<And>h. h \<in> set (eb_transactions b) \<Longrightarrow> (s, hash_hex h) \<in> results"
  shows "\<exists>db'. try_res (store_rollup_header s i b db) (store_txs s i b) = Ok db' \<and>
    adds_blocks [((s, i), header_row b)] (block_tx_rows s i b) db db'"
proof -
  obtain db1 where one: "insert_eth_block (s, i) (header_row b) db = Ok db1" "adds_blocks [((s, i), header_row b)] [] db db1"
      "(s, i) \<in> keys_of (db_eth_block db1)"
    using insert_eth_block_adds [OF assms(1), where k = "(s, i)"] assms(2) by auto
  have "rows_ready slots results {(s, i)} db1"
    using blocks.adds_ready [OF one(2) assms(1)] one(3) by (simp add: rows_ready_def)
  from store_txs_adds [OF this _ assms(3)] obtain db2 where
      two: "store_txs s i b db1 = Ok db2" "adds_blocks [] (block_tx_rows s i b) db1 db2" by blast
  from blocks.adds_append [OF one(2) two(2)] one(1) two(1) show ?thesis
    by (auto simp: store_rollup_header_def header_row_def)
qed

lemma store_eth_blocks_adds:
  assumes "bt_ok (db_eth_block db)" and "\<And>s res. (s, res) \<in> set rs \<Longrightarrow> has_slot db s"
    and "\<And>s res b h. (s, res) \<in> set rs \<Longrightarrow> b \<in> set (eth_blocks res) \<Longrightarrow> h \<in> set (eb_transactions b) \<Longrightarrow>
      (s, hash_hex h) \<in> keys_of (db_evm_tx_result db)"
  shows "\<exists>db'. store_eth_blocks rs db = Ok db' \<and>
    adds_blocks (concat (map (\<lambda>(s, res). block_rows s res) rs)) (concat (map (\<lambda>(s, res). slot_tx_rows s res) rs)) db db'"
  unfolding store_eth_blocks_def
proof (rule blocks.run_all_adds [where slots = "fst ` set rs" and results = "keys_of (db_evm_tx_result db)" and blocks = "{}"])
  fix e db1 assume e: "e \<in> set rs" and ready: "rows_ready (fst ` set rs) (keys_of (db_evm_tx_result db)) {} db1"
  obtain s res where sr: "e = (s, res)" by (cases e)
  have "\<exists>db'. run_all (\<lambda>(i, b) db. try_res (store_rollup_header s i b db) (store_txs s i b)) (List.enumerate 0 (eth_blocks res)) db1 = Ok db' \<and>
      adds_blocks (concat (map (\<lambda>(i, b). [((s, i), header_row b)]) (List.enumerate 0 (eth_blocks res))))
        (concat (map (\<lambda>(i, b). block_tx_rows s i b) (List.enumerate 0 (eth_blocks res)))) db1 db'"
  proof (rule blocks.run_all_adds [OF _ ready])
    fix x db2 assume x: "x \<in> set (List.enumerate 0 (eth_blocks res))"
      and ready2: "rows_ready (fst ` set rs) (keys_of (db_evm_tx_result db)) {} db2"
    obtain i b where ib: "x = (i, b)" by (cases x)
    then have "b \<in> set (eth_blocks res)" using x by (auto simp: in_set_enumerate_eq)
    then have fk: "(s, hash_hex h) \<in> keys_of (db_evm_tx_result db)" if "h \<in> set (eb_transactions b)" for h
      using assms(3) e that by (auto simp: sr)
    have "s \<in> fst ` set rs" using e by (force simp: sr)
    from store_block_adds [OF ready2 this fk]
    show "\<exists>db'. (case x of (i, b) \<Rightarrow> \<lambda>db. try_res (store_rollup_header s i b db) (store_txs s i b)) db2 = Ok db' \<and>
        adds_blocks (case x of (i, b) \<Rightarrow> [((s, i), header_row b)]) (case x of (i, b) \<Rightarrow> block_tx_rows s i b) db2 db'"
      by (simp add: ib)
  qed
  then show "\<exists>db'. (case e of (slot_nr, res) \<Rightarrow> run_all (\<lambda>(block_idx, b) db.
        try_res (store_rollup_header slot_nr block_idx b db) (store_txs slot_nr block_idx b))
        (List.enumerate 0 (eth_blocks res))) db1 = Ok db' \<and>
      adds_blocks (case e of (s, res) \<Rightarrow> block_rows s res) (case e of (s, res) \<Rightarrow> slot_tx_rows s res) db1 db'"
    by (simp add: sr concat_map_pair block_rows_def slot_tx_rows_def)
qed (use assms(1,2) in \<open>auto simp: rows_ready_def has_slot_iff\<close>)

section \<open>Registration\<close>

lemma result_in_rows:
  assumes "(s, res) \<in> set rs" and "h \<in> (\<lambda>(tx, r). tx_hash tx) ` set (result_transactions res)"
  shows "(s, hash_hex h) \<in> keys_of (concat (map (\<lambda>(s, res). result_rows lib s res) rs))"
  using assms by (force simp: keys_of_def dom_map_of_conv_image_fst result_rows_def)

text \<open>
  C9. Registering the results of slots that the tables know, whose results can be encoded and whose
  blocks hold only transactions of their slot, succeeds and writes exactly this: the bytes of every transaction and,
  for its slot, its result; every block under its slot and index, without parameters; and every
  transaction of a block under its slot, block and hash with its index.  Rows that were there before are kept, as is the
  first of two rows with the same key, and the tables of the Solana chain are not touched.
\<close>

theorem results_registered:
  assumes "pg_up pg (pg_calls pg)" and "pg_up pg (Suc (pg_calls pg))" and "bt_ok (db_eth_block (pg_db pg))"
    and "\<And>s res. (s, res) \<in> set rs \<Longrightarrow> slot_number res = s \<and> has_slot (pg_db pg) s"
    and "\<And>s res tx r. (s, res) \<in> set rs \<Longrightarrow> (tx, r) \<in> set (result_transactions res) \<Longrightarrow> result_to_json lib r \<noteq> None"
    and "\<And>s res b. (s, res) \<in> set rs \<Longrightarrow> b \<in> set (eth_blocks res) \<Longrightarrow>
      set (eb_transactions b) \<subseteq> (\<lambda>(tx, r). tx_hash tx) ` set (result_transactions res)"
  shows "\<exists>pg'. pg_register_parse_results lib pg rs = (pg', Ok ()) \<and>
    map_of (db_evm_tx (pg_db pg')) = map_of (concat (map (\<lambda>(s, res). tx_rows lib res) rs)) ++ map_of (db_evm_tx (pg_db pg)) \<and>
    map_of (db_evm_tx_result (pg_db pg')) =
      map_of (concat (map (\<lambda>(s, res). result_rows lib s res) rs)) ++ map_of (db_evm_tx_result (pg_db pg)) \<and>
    map_of (db_eth_block (pg_db pg')) = map_of (concat (map (\<lambda>(s, res). block_rows s res) rs)) ++ map_of (db_eth_block (pg_db pg)) \<and>
    map_of (db_eth_block_txs (pg_db pg')) =
      map_of (concat (map (\<lambda>(s, res). slot_tx_rows s res) rs)) ++ map_of (db_eth_block_txs (pg_db pg)) \<and>
    db_sol_slot (pg_db pg') = db_sol_slot (pg_db pg) \<and> db_sol_block (pg_db pg') = db_sol_block (pg_db pg)"
proof (cases "rs = []")
  case False
  obtain db1 where one: "store_parsed_txs lib rs (pg_db pg) = Ok db1"
      "adds_txs (concat (map (\<lambda>(s, res). tx_rows lib res) rs)) (concat (map (\<lambda>(s, res). result_rows lib s res) rs)) (pg_db pg) db1"
    using store_parsed_txs_adds [of rs "pg_db pg" lib] assms(4,5) by blast
  have keys: "keys_of (concat (map (\<lambda>(s, res). result_rows lib s res) rs)) \<subseteq> keys_of (db_evm_tx_result db1)"
    using one(2) by (auto simp: adds_txs_def keys_of_def)
  have "(s, hash_hex h) \<in> keys_of (db_evm_tx_result db1)"
    if "(s, res) \<in> set rs" "b \<in> set (eth_blocks res)" "h \<in> set (eb_transactions b)" for s res b h
    using result_in_rows [OF that(1)] assms(6) [OF that(1,2)] that(3) keys by blast
  moreover have "bt_ok (db_eth_block db1)" "\<And>s res. (s, res) \<in> set rs \<Longrightarrow> has_slot db1 s"
    using one(2) assms(3,4) by (auto simp: adds_txs_def has_slot_def)
  ultimately obtain db2 where two: "store_eth_blocks rs db1 = Ok db2"
      "adds_blocks (concat (map (\<lambda>(s, res). block_rows s res) rs)) (concat (map (\<lambda>(s, res). slot_tx_rows s res) rs)) db1 db2"
    using store_eth_blocks_adds [of db1 rs] by blast
  have "pg_register_parse_results lib pg rs = (pg\<lparr>pg_calls := Suc (Suc (pg_calls pg)), pg_db := db2\<rparr>, Ok ())"
    using False assms(1,2) one(1) two(1)
    by (simp add: pg_register_parse_results_def tx_register_parse_results_def in_transaction_def)
  then show ?thesis using one(2) two(2) by (simp add: adds_txs_def adds_blocks_def)
qed (simp add: pg_register_parse_results_def)

theorem results_registered_witness:
  "\<exists>pg'. pg_register_parse_results test_pg_lib test_pg
      [(5, \<lparr>slot_number = 5, solana_blockhash = 0, parent_solana_blockhash = 0, result_timestamp = Some 1,
         result_transactions = [(default_transaction\<lparr>tx_hash := 3\<rparr>, default_tx_result), (default_transaction\<lparr>tx_hash := 4\<rparr>, default_tx_result)],
         eth_blocks = [\<lparr>block_gas_used = 0, eb_transactions = [3], eb_gas_recipient = None, slot_timestamp = Some 1, eb_block_params = None\<rparr>,
           \<lparr>block_gas_used = 9, eb_transactions = [4, 3], eb_gas_recipient = None, slot_timestamp = Some 1, eb_block_params = None\<rparr>]\<rparr>)] =
      (pg', Ok ()) \<and>
    map_of (db_eth_block_txs (pg_db pg')) (5, 1, hash_hex 3) = Some 1 \<and>
    map_option er_gas_used (map_of (db_eth_block (pg_db pg')) (5, 1)) = Some 9"
proof -
  let ?res = "\<lparr>slot_number = 5, solana_blockhash = 0, parent_solana_blockhash = 0, result_timestamp = Some 1,
         result_transactions = [(default_transaction\<lparr>tx_hash := 3\<rparr>, default_tx_result), (default_transaction\<lparr>tx_hash := 4\<rparr>, default_tx_result)],
         eth_blocks = [\<lparr>block_gas_used = 0, eb_transactions = [3], eb_gas_recipient = None, slot_timestamp = Some 1, eb_block_params = None\<rparr>,
           \<lparr>block_gas_used = 9, eb_transactions = [4, 3], eb_gas_recipient = None, slot_timestamp = Some 1, eb_block_params = None\<rparr>]\<rparr>"
  have inj: "hash_hex a = hash_hex b \<Longrightarrow> a = b" for a b
    using hash_text_law_test unfolding hash_text_law_def by (metis option.inject)
  have ne: "hash_hex 3 \<noteq> hash_hex 4" using inj [of 3 4] by auto
  have "\<exists>pg'. pg_register_parse_results test_pg_lib test_pg [(5, ?res)] = (pg', Ok ()) \<and>
    map_of (db_evm_tx (pg_db pg')) = map_of (concat (map (\<lambda>(s, res). tx_rows test_pg_lib res) [(5 :: slot, ?res)])) ++ map_of (db_evm_tx (pg_db test_pg)) \<and>
    map_of (db_evm_tx_result (pg_db pg')) =
      map_of (concat (map (\<lambda>(s, res). result_rows test_pg_lib s res) [(5, ?res)])) ++ map_of (db_evm_tx_result (pg_db test_pg)) \<and>
    map_of (db_eth_block (pg_db pg')) = map_of (concat (map (\<lambda>(s, res). block_rows s res) [(5, ?res)])) ++ map_of (db_eth_block (pg_db test_pg)) \<and>
    map_of (db_eth_block_txs (pg_db pg')) =
      map_of (concat (map (\<lambda>(s, res). slot_tx_rows s res) [(5, ?res)])) ++ map_of (db_eth_block_txs (pg_db test_pg)) \<and>
    db_sol_slot (pg_db pg') = db_sol_slot (pg_db test_pg) \<and> db_sol_block (pg_db pg') = db_sol_block (pg_db test_pg)"
    by (rule results_registered) (auto simp: test_pg_def test_db_def test_pg_lib_def has_slot_def)
  then obtain pg' where run: "pg_register_parse_results test_pg_lib test_pg [(5, ?res)] = (pg', Ok ())"
    and blocks: "map_of (db_eth_block (pg_db pg')) = map_of (block_rows 5 ?res) ++ map_of (db_eth_block (pg_db test_pg))"
    and txs: "map_of (db_eth_block_txs (pg_db pg')) = map_of (slot_tx_rows 5 ?res) ++ map_of (db_eth_block_txs (pg_db test_pg))"
    by auto
  have "map_of (db_eth_block_txs (pg_db pg')) (5, 1, hash_hex 3) = Some 1"
    unfolding txs using ne not_sym [OF ne]
    by (simp add: slot_tx_rows_def block_tx_rows_def test_pg_def test_db_def map_add_def hash_hex_def str_def)
  moreover have "map_option er_gas_used (map_of (db_eth_block (pg_db pg')) (5, 1)) = Some 9"
    unfolding blocks by (simp add: block_rows_def header_row_def test_pg_def test_db_def map_add_def)
  ultimately show ?thesis using run by blast
qed

end
