(* ===== verification/Indexer_Sync.thy ===== *)
theory Indexer_Sync
  imports Indexer_Invariant Pg_Register
begin

text \<open>
  What the indexer has done when it reports that it is in sync: every slot of the range was
  parsed, in order and once, and what the parser returned for it is in the tables.
\<close>

section \<open>Slots parsed one after another\<close>

text \<open>
  \<open>parses ri (p, t) slots out (p', t')\<close>: the slots were parsed in this order, each from the transaction
  parser that the one before it left, with the results \<open>out\<close>.  In between, the parser may forget slots that no
  later slot can reach back to.
\<close>

inductive parses ::
  "('w, 'st) rollup_indexer \<Rightarrow> default_tx_parser \<times> nat \<Rightarrow> slot list \<Rightarrow> (slot \<times> block_parse_result option) list
    \<Rightarrow> default_tx_parser \<times> nat \<Rightarrow> bool" for ri where
  parses_Nil: "parses ri q [] [] q"
| parses_Cons: "parse_block (default_tx_parser_ops (env_lib (ri_env ri))) (ri_env ri) (ri_block_parser ri)
      (ss_get_block (ri_sol ri)) t x (unat MAX_PARSE_BEHIND) p = (p', t', Ok r) \<Longrightarrow>
    parses ri (p', t') xs out q \<Longrightarrow> parses ri (p, t) (x # xs) ((x, r) # out) q"
| parses_retain: "parses ri (default_retain_from_slot p k, t) xs out q \<Longrightarrow>
    (\<And>x. x \<in> set xs \<Longrightarrow> unat k + unat MAX_PARSE_BEHIND \<le> unat x) \<Longrightarrow> parses ri (p, t) xs out q"

definition parser_state :: "('w, 'st) indexer_state \<Rightarrow> default_tx_parser \<times> nat" where
  "parser_state s = (is_tx_parser s, is_reads s)"

text \<open>A batch: its results hold what the parser returned, and the slots after it can follow.\<close>

lemma parse_slots_parses:
  assumes "parse_slots ri s results xs = (s1, Ok results')" and "distinct xs" and "bt_ok results"
  shows "\<exists>out. map fst out = xs \<and> (\<forall>x res. (x, Some res) \<in> set out \<longrightarrow> map_of results' x = Some res) \<and>
    (\<forall>k. k \<notin> set xs \<longrightarrow> map_of results' k = map_of results k) \<and> is_world s1 = is_world s \<and>
    (\<forall>ys out' q. parses ri (parser_state s1) ys out' q \<longrightarrow> parses ri (parser_state s) (xs @ ys) (out @ out') q)"
  using assms
proof (induction xs arbitrary: s results)
  case Nil
  then show ?case by simp
next
  case (Cons x xs)
  obtain p' t' r where one: "parse_block (default_tx_parser_ops (env_lib (ri_env ri))) (ri_env ri) (ri_block_parser ri)
      (ss_get_block (ri_sol ri)) (is_reads s) x (unat MAX_PARSE_BEHIND) (is_tx_parser s) = (p', t', Ok r)"
    using Cons.prems(1) by (auto simp: res_elims split: prod.splits)
  define results1 where "results1 = (case r of Some res \<Rightarrow> bt_insert x res results | None \<Rightarrow> results)"
  let ?s = "s\<lparr>is_tx_parser := p', is_reads := t'\<rparr>"
  have rest: "parse_slots ri ?s results1 xs = (s1, Ok results')"
    using Cons.prems(1) one by (auto simp: results1_def split: option.splits)
  have ok1: "bt_ok results1" using Cons.prems(3) by (auto simp: results1_def bt_ok_insert split: option.split)
  obtain out where out: "map fst out = xs" "\<forall>x res. (x, Some res) \<in> set out \<longrightarrow> map_of results' x = Some res"
      "\<forall>k. k \<notin> set xs \<longrightarrow> map_of results' k = map_of results1 k" "is_world s1 = is_world ?s"
      "\<forall>ys out' q. parses ri (parser_state s1) ys out' q \<longrightarrow> parses ri (parser_state ?s) (xs @ ys) (out @ out') q"
    using Cons.IH [OF rest _ ok1] Cons.prems(2) by auto
  have "map_of results' x = map_of results1 x" using out(3) Cons.prems(2) by simp
  moreover have "map_of results1 k = map_of results k" if "k \<noteq> x" for k
    using that Cons.prems(3) by (simp add: results1_def lookup_bt_insert split: option.split)
  ultimately show ?case
    using out one parses_Cons [OF one] Cons.prems(3)
    by (intro exI [of _ "(x, r) # out"]) (auto simp: parser_state_def results1_def lookup_bt_insert)
qed

section \<open>What is in the tables\<close>

definition registered :: "db \<Rightarrow> slot \<Rightarrow> block_parse_result \<Rightarrow> bool" where
  "registered db x res \<longleftrightarrow>
     (\<forall>(tx, r) \<in> set (result_transactions res). hash_hex (tx_hash tx) \<in> keys_of (db_evm_tx db) \<and>
       (slot_number res, hash_hex (tx_hash tx)) \<in> keys_of (db_evm_tx_result db)) \<and>
     (\<forall>(i, b) \<in> set (List.enumerate 0 (eth_blocks res)). (x, i) \<in> keys_of (db_eth_block db) \<and>
       (\<forall>h \<in> set (eb_transactions b). (x, i, hash_hex h) \<in> keys_of (db_eth_block_txs db)))"

definition keys_grow :: "db \<Rightarrow> db \<Rightarrow> bool" where
  "keys_grow db db' \<longleftrightarrow> keys_of (db_evm_tx db) \<subseteq> keys_of (db_evm_tx db') \<and>
     keys_of (db_evm_tx_result db) \<subseteq> keys_of (db_evm_tx_result db') \<and>
     keys_of (db_eth_block db) \<subseteq> keys_of (db_eth_block db') \<and>
     keys_of (db_eth_block_txs db) \<subseteq> keys_of (db_eth_block_txs db')"

lemma keys_grow_refl [simp]: "keys_grow db db"
  by (simp add: keys_grow_def)

lemma keys_grow_trans: "keys_grow db db1 \<Longrightarrow> keys_grow db1 db2 \<Longrightarrow> keys_grow db db2"
  unfolding keys_grow_def by (meson subset_trans)

lemma keys_growD:
  assumes "keys_grow db db'"
  shows "k1 \<in> keys_of (db_evm_tx db) \<Longrightarrow> k1 \<in> keys_of (db_evm_tx db')"
    and "k2 \<in> keys_of (db_evm_tx_result db) \<Longrightarrow> k2 \<in> keys_of (db_evm_tx_result db')"
    and "k3 \<in> keys_of (db_eth_block db) \<Longrightarrow> k3 \<in> keys_of (db_eth_block db')"
    and "k4 \<in> keys_of (db_eth_block_txs db) \<Longrightarrow> k4 \<in> keys_of (db_eth_block_txs db')"
  using assms unfolding keys_grow_def by blast+

lemma registered_grow: "registered db x res \<Longrightarrow> keys_grow db db' \<Longrightarrow> registered db' x res"
  unfolding registered_def keys_grow_def by fast

lemma keys_of_bt: "keys_of (bt_insert k v m) = insert k (keys_of m)"
  using keys_bt_insert [of k v m] by (simp add: keys_of_def dom_map_of_conv_image_fst)

lemma keys_of_hm: "keys_of (hm_insert k v m) = insert k (keys_of m)"
  using keys_hm_insert [of k v m] by (simp add: keys_of_def dom_map_of_conv_image_fst)

lemma insert_new_keys_bt: "insert_new bt_insert k v fk m = Ok m' \<Longrightarrow> keys_of m' = insert k (keys_of m)"
  using keys_of_bt [of k v m] by (auto simp: insert_new_def keys_of_def split: option.splits if_splits)

lemma insert_new_keys_hm: "insert_new hm_insert k v fk m = Ok m' \<Longrightarrow> keys_of m' = insert k (keys_of m)"
  using keys_of_hm [of k v m] by (auto simp: insert_new_def keys_of_def split: option.splits if_splits)

lemmas insert_new_keys = insert_new_keys_bt insert_new_keys_hm

lemma store_tx_registers:
  assumes "store_tx lib s (tx, r) db = Ok db'"
  shows "keys_grow db db' \<and> hash_hex (tx_hash tx) \<in> keys_of (db_evm_tx db') \<and>
    (s, hash_hex (tx_hash tx)) \<in> keys_of (db_evm_tx_result db')"
  using assms
  by (auto simp: store_tx_def Let_def res_elims insert_evm_tx_def insert_evm_tx_result_def keys_grow_def
      dest!: insert_new_keys)

lemma insert_eth_block_registers:
  "insert_eth_block k row db = Ok db' \<Longrightarrow> keys_grow db db' \<and> k \<in> keys_of (db_eth_block db')"
  by (auto simp: insert_eth_block_def res_elims keys_grow_def dest!: insert_new_keys)

lemma insert_eth_block_tx_registers:
  "insert_eth_block_tx s i hash j db = Ok db' \<Longrightarrow> keys_grow db db' \<and> (s, i, hash) \<in> keys_of (db_eth_block_txs db')"
  by (auto simp: insert_eth_block_tx_def res_elims keys_grow_def dest!: insert_new_keys)

text \<open>Every statement of a loop leaves its effect in the tables.\<close>

lemma run_all_grows:
  assumes "run_all f xs db = Ok db'" and "\<And>y d d'. y \<in> set xs \<Longrightarrow> f y d = Ok d' \<Longrightarrow> keys_grow d d'"
  shows "keys_grow db db'"
  by (rule run_all_inv [OF assms(1), where P = "keys_grow db"]) (auto intro: keys_grow_trans assms(2))

lemma run_all_registers:
  assumes "run_all f xs db = Ok db'"
    and "\<And>y d d'. y \<in> set xs \<Longrightarrow> f y d = Ok d' \<Longrightarrow> keys_grow d d' \<and> R y d'"
    and "\<And>y d d'. R y d \<Longrightarrow> keys_grow d d' \<Longrightarrow> R y d'"
  shows "keys_grow db db' \<and> (\<forall>y \<in> set xs. R y db')"
  using assms(1,2)
proof (induction xs arbitrary: db)
  case (Cons x xs)
  obtain d where d: "f x db = Ok d" "run_all f xs d = Ok db'" using Cons.prems(1) by (auto simp: res_elims)
  have one: "keys_grow db d \<and> R x d" using Cons.prems(2) [OF _ d(1)] by simp
  have "keys_grow d db' \<and> (\<forall>y \<in> set xs. R y db')" by (rule Cons.IH [OF d(2) Cons.prems(2)]) simp_all
  then show ?case using one assms(3) [of x d db'] by (auto intro: keys_grow_trans)
qed simp

lemma store_txs_registers:
  assumes "store_txs s i b db = Ok db'"
  shows "keys_grow db db' \<and> (\<forall>h \<in> set (eb_transactions b). (s, i, hash_hex h) \<in> keys_of (db_eth_block_txs db'))"
proof -
  have "keys_grow db db' \<and> (\<forall>y \<in> set (List.enumerate 0 (eb_transactions b)). (s, i, hash_hex (snd y)) \<in> keys_of (db_eth_block_txs db'))"
    using assms unfolding store_txs_def
    by (rule run_all_registers) (auto dest: insert_eth_block_tx_registers dest: keys_growD)
  moreover have "\<exists>j. (j, h) \<in> set (List.enumerate 0 (eb_transactions b))" if "h \<in> set (eb_transactions b)" for h
  proof -
    obtain j where "j < length (eb_transactions b)" "eb_transactions b ! j = h" using \<open>h \<in> set (eb_transactions b)\<close> by (auto simp: in_set_conv_nth)
    then show ?thesis by (intro exI [of _ j]) (simp add: in_set_enumerate_eq)
  qed
  ultimately show ?thesis by fastforce
qed

definition block_in :: "slot \<Rightarrow> nat \<times> eth_block \<Rightarrow> db \<Rightarrow> bool" where
  "block_in s e db \<longleftrightarrow> (s, fst e) \<in> keys_of (db_eth_block db) \<and>
     (\<forall>h \<in> set (eb_transactions (snd e)). (s, fst e, hash_hex h) \<in> keys_of (db_eth_block_txs db))"

lemma block_in_grow: "block_in s e db \<Longrightarrow> keys_grow db db' \<Longrightarrow> block_in s e db'"
  unfolding block_in_def keys_grow_def by fast

lemma store_block_registers:
  assumes "try_res (store_rollup_header s i b db) (store_txs s i b) = Ok db'"
  shows "keys_grow db db' \<and> block_in s (i, b) db'"
proof -
  obtain d where d: "store_rollup_header s i b db = Ok d" "store_txs s i b d = Ok db'" using assms by (auto simp: res_elims)
  note one = insert_eth_block_registers [OF d(1) [unfolded store_rollup_header_def]] and two = store_txs_registers [OF d(2)]
  then have "keys_grow db db'" using keys_grow_trans by blast
  then show ?thesis using one two by (auto simp: block_in_def keys_grow_def)
qed

lemma store_eth_blocks_registers:
  assumes "store_eth_blocks rs db = Ok db'"
  shows "keys_grow db db' \<and> (\<forall>(s, res) \<in> set rs. \<forall>e \<in> set (List.enumerate 0 (eth_blocks res)). block_in s e db')"
proof -
  have "keys_grow db db' \<and> (\<forall>y \<in> set rs. \<forall>e \<in> set (List.enumerate 0 (eth_blocks (snd y))). block_in (fst y) e db')"
    using assms unfolding store_eth_blocks_def
  proof (rule run_all_registers)
    fix y d d' assume "(case y of (s, res) \<Rightarrow> run_all (\<lambda>(i, b) db. try_res (store_rollup_header s i b db) (store_txs s i b))
        (List.enumerate 0 (eth_blocks res))) d = Ok d'"
    then have "run_all (\<lambda>(i, b) db. try_res (store_rollup_header (fst y) i b db) (store_txs (fst y) i b))
        (List.enumerate 0 (eth_blocks (snd y))) d = Ok d'" by (simp split: prod.splits)
    then show "keys_grow d d' \<and> (\<forall>e \<in> set (List.enumerate 0 (eth_blocks (snd y))). block_in (fst y) e d')"
      by (rule run_all_registers) (auto dest: store_block_registers intro: block_in_grow)
  qed (auto intro: block_in_grow)
  then show ?thesis by auto
qed

lemma store_parsed_txs_registers:
  assumes "store_parsed_txs lib rs db = Ok db'"
  shows "keys_grow db db' \<and> (\<forall>(s, res) \<in> set rs. \<forall>(tx, r) \<in> set (result_transactions res).
    hash_hex (tx_hash tx) \<in> keys_of (db_evm_tx db') \<and> (slot_number res, hash_hex (tx_hash tx)) \<in> keys_of (db_evm_tx_result db'))"
proof -
  let ?R = "\<lambda>res e db. hash_hex (tx_hash (fst e)) \<in> keys_of (db_evm_tx db) \<and>
    (slot_number res, hash_hex (tx_hash (fst e))) \<in> keys_of (db_evm_tx_result db)"
  have mono: "?R res e d \<Longrightarrow> keys_grow d d' \<Longrightarrow> ?R res e d'" for res and e :: "transaction \<times> tx_result" and d d'
    by (auto simp: keys_grow_def)
  have "keys_grow db db' \<and> (\<forall>y \<in> set rs. \<forall>e \<in> set (result_transactions (snd y)). ?R (snd y) e db')"
    using assms unfolding store_parsed_txs_def
  proof (rule run_all_registers)
    fix y d d' assume "(case y of (_, res) \<Rightarrow> run_all (store_tx lib (slot_number res)) (result_transactions res)) d = Ok d'"
    then have "run_all (store_tx lib (slot_number (snd y))) (result_transactions (snd y)) d = Ok d'" by (simp split: prod.splits)
    then show "keys_grow d d' \<and> (\<forall>e \<in> set (result_transactions (snd y)). ?R (snd y) e d')"
      by (rule run_all_registers) (auto dest: store_tx_registers keys_growD)
  qed (use mono in blast)
  then show ?thesis by fastforce
qed

text \<open>Registration that succeeds leaves all results in the tables.\<close>

lemma pg_register_registers:
  assumes "pg_register_parse_results lib pg rs = (pg', Ok ())" and "(x, res) \<in> set rs"
  shows "registered (pg_db pg') x res"
proof -
  obtain db1 where one: "store_parsed_txs lib rs (pg_db pg) = Ok db1" and two: "store_eth_blocks rs db1 = Ok (pg_db pg')"
    using assms by (auto simp: pg_register_parse_results_def tx_register_parse_results_def res_elims in_transaction_Ok split: if_splits)
  note f = store_parsed_txs_registers [OF one] and g = store_eth_blocks_registers [OF two]
  have "\<forall>(tx, r) \<in> set (result_transactions res). hash_hex (tx_hash tx) \<in> keys_of (db_evm_tx db1) \<and>
      (slot_number res, hash_hex (tx_hash tx)) \<in> keys_of (db_evm_tx_result db1)" using f assms(2) by blast
  moreover have "\<forall>e \<in> set (List.enumerate 0 (eth_blocks res)). block_in x e (pg_db pg')" using g assms(2) by blast
  ultimately show ?thesis using keys_growD(1,2) [OF conjunct1 [OF g]] unfolding registered_def block_in_def by fastforce
qed

section \<open>Nothing is lost\<close>

lemma pg_register_grows: "keys_grow (pg_db pg) (pg_db (fst (pg_register_parse_results lib pg rs)))"
proof -
  have two: "keys_grow (pg_db pg1) (pg_db (fst (in_transaction (\<lambda>db. try_res (store_eth_blocks rs db) (\<lambda>db. Ok (db, ()))) pg1)))" for pg1
    by (rule in_transaction_keeps [where P = "keys_grow (pg_db pg1)"]) (auto simp: res_elims dest: store_eth_blocks_registers)
  have one: "keys_grow (pg_db pg) (pg_db (fst (tx_register_parse_results lib pg rs)))"
    unfolding tx_register_parse_results_def
    by (rule in_transaction_keeps [where P = "keys_grow (pg_db pg)"]) (auto simp: res_elims dest: store_parsed_txs_registers)
  obtain pg1 q where "tx_register_parse_results lib pg rs = (pg1, q)" by fastforce
  with one keys_grow_trans [OF _ two, of "pg_db pg" pg1] show ?thesis
    by (cases q) (auto simp: pg_register_parse_results_def)
qed

lemma store_produced_grows: "store_produced lib pending e db = Ok db' \<Longrightarrow> keys_grow db db'"
  by (auto simp: store_produced_def block_produced_def keys_grow_def keys_of_bt res_elims split: prod.splits if_splits option.splits)

lemma store_receipts_grows: "store_receipts lib s params gas i txs db = Ok db' \<Longrightarrow> keys_grow db db'"
proof (induction lib s params gas i txs db rule: store_receipts.induct)
  case (2 lib s params gas i tx_idx tx r txs db)
  have "keys_grow db (update_receipt_params s h json db)" for h json
    by (auto simp: update_receipt_params_def keys_grow_def keys_of_hm split: option.split)
  with 2 show ?case by (simp add: res_elims Let_def) (blast intro: keys_grow_trans)
qed simp

lemma pg_produced_grows: "keys_grow (pg_db pg) (pg_db (fst (pg_blocks_produced lib pg pp produced)))"
proof -
  have two: "keys_grow (pg_db pg1) (pg_db (fst (tx_blocks_produced lib pg1 pending produced)))" for pg1 pending
    unfolding tx_blocks_produced_def
    by (rule in_transaction_keeps [where P = "keys_grow (pg_db pg1)"])
      (auto simp: res_elims store_block_receipts_def elim!: run_all_grows split: prod.splits option.splits intro: store_receipts_grows)
  let ?f = "\<lambda>db. try_res (run_all (store_produced lib (pp_pending_blocks pp)) (produced_iter produced) db) (\<lambda>db. Ok (db, ()))"
  have one: "keys_grow (pg_db pg) (pg_db (fst (in_transaction ?f pg)))"
    by (rule in_transaction_keeps [where P = "keys_grow (pg_db pg)"])
      (auto simp: res_elims elim!: run_all_grows intro: store_produced_grows)
  obtain pg1 q where "in_transaction ?f pg = (pg1, q)" by fastforce
  with one keys_grow_trans [OF _ two, of "pg_db pg" pg1] show ?thesis
    by (cases q) (auto simp: pg_blocks_produced_def)
qed

lemma pg_pending_keeps [simp]: "pg_db (fst (pg_get_pending_blocks lib w)) = pg_db w"
  using reading_keeps [of pending_transactions w]
  by (cases "reading pending_transactions w") (simp add: pg_get_pending_blocks_def)

interpretation pg_registered: sync_invariant "pg_eth_storage lib" "pg_sol_storage source"
  "\<lambda>pg. \<forall>(x, res) \<in> P. registered (pg_db pg) x res" for lib source P
proof
  fix w :: pg and rs pp produced k
  assume I: "\<forall>(x, res) \<in> P. registered (pg_db w) x res"
  then show "\<forall>(x, res) \<in> P. registered (pg_db (fst (es_register_parse_results (pg_eth_storage lib) w rs))) x res"
    and "\<forall>(x, res) \<in> P. registered (pg_db (fst (es_blocks_produced (pg_eth_storage lib) w pp produced))) x res"
    using registered_grow [OF _ pg_register_grows] registered_grow [OF _ pg_produced_grows]
    by (auto simp: pg_eth_storage_def)
qed (auto simp: pg_eth_storage_def pg_sol_storage_def pg_latest_block_def
    pg_eth_retain_from_slot_def pg_get_last_slot_def
    pg_sol_retain_from_slot_def split: prod.split dest: arg_cong [where f = "\<lambda>m. pg_db (fst m)"])

section \<open>Synchronization\<close>

text \<open>Neither production nor restoration touches the transaction parser.\<close>

lemma restore_or_produce_parser:
  "restore_or_produce_blocks n ri s batch_size = Some (s', r) \<Longrightarrow> parser_state s' = parser_state s"
  by (auto simp: restore_or_produce_blocks_def parser_state_def on_world_def on_producer_def and_then_def try_with_def
      split: option.splits prod.splits res.splits if_splits)

lemma retain_storages_parser:
  "parser_state (retain_storages ri s a) = parser_state s \<or>
    (\<exists>k. parser_state (retain_storages ri s a) = (default_retain_from_slot (is_tx_parser s) k, is_reads s) \<and>
      unat k + unat MAX_PARSE_BEHIND \<le> unat a)"
proof (cases "ri_max_slot_history ri")
  case (Some h)
  let ?keep = "max MAX_PARSE_BEHIND h"
  have "unat (a - ?keep) + unat MAX_PARSE_BEHIND \<le> unat a" if "?keep < a"
  proof -
    have le: "?keep \<le> a" using that by (rule less_imp_le)
    have "unat MAX_PARSE_BEHIND \<le> unat ?keep" unfolding word_le_nat_alt [symmetric] by (rule max.cobounded1)
    then show ?thesis using unat_sub [OF le] le by (simp add: word_le_nat_alt)
  qed
  then show ?thesis
    by (auto simp: retain_storages_def Some Let_def parser_state_def on_world_def split: prod.splits res.splits)
qed (simp add: retain_storages_def)

lemma retain_storages_parses:
  assumes "parses ri (parser_state (retain_storages ri' s a)) xs out q" and "\<And>x. x \<in> set xs \<Longrightarrow> a \<le> x"
  shows "parses ri (parser_state s) xs out q"
  using retain_storages_parser [of ri' s a]
proof (elim disjE exE conjE)
  fix k assume k: "parser_state (retain_storages ri' s a) = (default_retain_from_slot (is_tx_parser s) k, is_reads s)"
    and le: "unat k + unat MAX_PARSE_BEHIND \<le> unat a"
  have "unat k + unat MAX_PARSE_BEHIND \<le> unat x" if "x \<in> set xs" for x
    using le assms(2) [OF that] by (simp add: word_le_nat_alt)
  then show ?thesis using assms(1) unfolding k by (simp add: parser_state_def parses_retain)
qed (use assms(1) in simp)

lemma slot_range_split: "a \<le> b \<Longrightarrow> b \<le> c \<Longrightarrow> slot_range a c = slot_range a b @ slot_range b c"
  using upt_add_eq_append [of "unat a" "unat b" "unat c - unat b"]
  by (simp add: slot_range_def word_le_nat_alt flip: map_append)

lemma distinct_slot_range: "distinct (slot_range a b)"
proof -
  have "inj_on (word_of_nat :: nat \<Rightarrow> slot) {unat a ..< unat b}"
    using unat_bound [of b] by (intro inj_onI) (auto simp: word_unat_eq_iff unat_of_nat)
  then show ?thesis by (simp add: slot_range_def distinct_map)
qed

lemma slot_range_ge: "x \<in> set (slot_range a b) \<Longrightarrow> a \<le> x"
  using unat_bound [of b] by (auto simp: slot_range_def word_le_nat_alt unat_of_nat)

definition all_registered :: "pg \<Rightarrow> (slot \<times> block_parse_result option) list \<Rightarrow> bool" where
  "all_registered pg out \<longleftrightarrow> (\<forall>x res. (x, Some res) \<in> set out \<longrightarrow> registered (pg_db pg) x res)"

lemma all_registered_set: "all_registered pg out \<longleftrightarrow> (\<forall>(x, res) \<in> {(x, res). (x, Some res) \<in> set out}. registered (pg_db pg) x res)"
  by (auto simp: all_registered_def)

lemma sync_loop_registers:
  assumes "sync_loop n ri s a b batch_size = Some (s', Ok ())" and "a \<le> b" and "ri_eth ri = pg_eth_storage lib"
    and "ri_sol ri = pg_sol_storage source"
  shows "\<exists>out. parses ri (parser_state s) (slot_range a b) out (parser_state s') \<and> map fst out = slot_range a b \<and>
    all_registered (is_world s') out"
  using assms(1,2)
proof (induction n arbitrary: s a)
  case (Suc n)
  show ?case
  proof (cases "a < b")
    case True
    define c where "c = a + min (b - a) (word_of_nat batch_size)"
    have c: "a \<le> c" "c \<le> b"
    proof -
      have le: "min (b - a) (word_of_nat batch_size) \<le> b - a" by simp
      show "a \<le> c" "c \<le> b" using le Suc.prems(2) unat_bound [of b] unfolding c_def
        by (auto simp: word_le_nat_alt unat_plus_if' unat_sub_if' split: if_splits)
    qed
    have batch: "parse_blocks_batch ri s a b batch_size =
        and_then (parse_slots ri s [] (slot_range a c)) (\<lambda>s results. (s, Ok (c, results)))"
      using Suc.prems(2) by (simp add: parse_blocks_batch_def try_with_def sub_or_panic_def c_def Let_def)
    obtain s1 r1 where "parse_slots ri s [] (slot_range a c) = (s1, r1)" by fastforce
    then obtain results where parse: "parse_slots ri s [] (slot_range a c) = (s1, Ok results)"
      using Suc.prems(1) True batch by (cases r1) auto
    have rest: "(case on_world (\<lambda>w. es_register_parse_results (ri_eth ri) w results) s1 of
                (s2, Err e) \<Rightarrow> Some (s2, Err e)
              | (s2, Panic m) \<Rightarrow> Some (s2, Panic m)
              | (s2, Ok _) \<Rightarrow>
                  (case restore_or_produce_blocks n ri s2 batch_size of
                     None \<Rightarrow> None
                   | Some (s3, Err e) \<Rightarrow> Some (s3, Err e)
                   | Some (s3, Panic m) \<Rightarrow> Some (s3, Panic m)
                   | Some (s3, Ok _) \<Rightarrow> sync_loop n ri (retain_storages ri s3 a) c b batch_size)) = Some (s', Ok ())"
      using Suc.prems(1) True by (simp add: batch parse)
    obtain s2 where two: "on_world (\<lambda>w. es_register_parse_results (ri_eth ri) w results) s1 = (s2, Ok ())"
      using rest by (auto split: prod.splits res.splits)
    obtain s3 where three: "restore_or_produce_blocks n ri s2 batch_size = Some (s3, Ok ())"
      and loop: "sync_loop n ri (retain_storages ri s3 a) c b batch_size = Some (s', Ok ())"
      using rest two by (auto split: option.splits prod.splits res.splits)
    obtain out1 where out1: "map fst out1 = slot_range a c" "\<forall>x res. (x, Some res) \<in> set out1 \<longrightarrow> map_of results x = Some res"
        "\<forall>ys out' q. parses ri (parser_state s1) ys out' q \<longrightarrow> parses ri (parser_state s) (slot_range a c @ ys) (out1 @ out') q"
      using parse_slots_parses [OF parse distinct_slot_range] by auto
    obtain out2 where out2: "parses ri (parser_state (retain_storages ri s3 a)) (slot_range c b) out2 (parser_state s')"
        "map fst out2 = slot_range c b" "all_registered (is_world s') out2"
      using Suc.IH [OF loop c(2)] by blast
    have same: "parser_state s3 = parser_state s1"
      using restore_or_produce_parser [OF three] two by (auto simp: on_world_def parser_state_def split: prod.splits)
    have "parses ri (parser_state s3) (slot_range c b) out2 (parser_state s')"
      by (rule retain_storages_parses [OF out2(1)]) (use slot_range_ge c(1) in \<open>blast intro: order.trans\<close>)
    then have run: "parses ri (parser_state s) (slot_range a b) (out1 @ out2) (parser_state s')"
      using out1(3) unfolding slot_range_split [OF c] same by blast
    define P where "P = {(x, res). (x, Some res) \<in> set out1}"
    have all: "all_registered pg out1 \<longleftrightarrow> (\<forall>(x, res) \<in> P. registered (pg_db pg) x res)" for pg
      unfolding P_def by (rule all_registered_set)
    have "all_registered (is_world s2) out1"
      using two out1(2) pg_register_registers [OF _ map_of_SomeD, of lib _ results]
      by (auto simp: all_registered_def on_world_def assms(3) pg_eth_storage_def split: prod.splits)
    then have s2: "\<forall>(x, res) \<in> P. registered (pg_db (is_world s2)) x res" unfolding all .
    note pg_registered.restore_or_produce_keeps [OF assms(3) s2, of n batch_size]
    then have s3: "\<forall>(x, res) \<in> P. registered (pg_db (is_world s3)) x res"
      by (simp only: three pg_registered.holds_end_simps pg_registered.holds_pair)
    note pg_registered.sync_loop_keeps [OF assms(3,4) pg_registered.retain_storages_keeps [OF assms(3,4) s3], of n a c b batch_size]
    then have "all_registered (is_world s') out1"
      unfolding all by (simp only: loop pg_registered.holds_end_simps pg_registered.holds_pair)
    then show ?thesis using run out1(1) out2(2,3) slot_range_split [OF c]
      by (intro exI [of _ "out1 @ out2"]) (auto simp: all_registered_def)
  next
    case False
    then have "slot_range a b = []" "s' = s" using Suc.prems by (simp_all add: slot_range_def word_less_nat_alt)
    then show ?thesis by (simp add: all_registered_def parses_Nil)
  qed
qed simp


text \<open>A slot with the deposit transaction of its attributes.\<close>

definition sync_indexer :: "(pg, unit) rollup_indexer" where
  "sync_indexer = plain_indexer\<lparr>ri_block_parser := test_block_parser\<lparr>enable_deposit_slot := Some 0\<rparr>,
     ri_env := test_parse_env\<lparr>env_lib := test_lib\<lparr>rlp_decode := \<lambda>_. Some (default_transaction\<lparr>tx_hash := 3\<rparr>)\<rparr>\<rparr>\<rparr>"

definition sync_state :: "(pg, unit) indexer_state" where
  "sync_state = plain_state\<lparr>is_world := test_pg\<lparr>pg_db := test_db\<lparr>db_sol_block := [(6, [])]\<rparr>\<rparr>\<rparr>"

definition sync_result :: block_parse_result where
  "sync_result = \<lparr>slot_number = 5, solana_blockhash = u256_of_be (replicate 32 0),
     parent_solana_blockhash = u256_of_be (replicate 32 0), result_timestamp = Some 1,
     result_transactions = [(default_transaction\<lparr>tx_hash := 3\<rparr>, default_tx_result)],
     eth_blocks = [new_eth_block (Some 1) [3] 0 None]\<rparr>"

lemma sync_parse:
  "\<exists>p'. parse_block (default_tx_parser_ops (env_lib (ri_env sync_indexer))) (ri_env sync_indexer) (ri_block_parser sync_indexer)
     (ss_get_block (ri_sol sync_indexer)) 0 5 (unat MAX_PARSE_BEHIND) new_default_tx_parser = (p', 1, Ok (Some sync_result))"
  by (simp add: sync_indexer_def plain_indexer_def pg_sol_storage_def sync_result_def
      parse_block_def parse_loop.simps test_source_def block_eval parser_eval MAX_PARSE_BEHIND_def
      new_block_parse_result_def h256_from_slice_def u256_from_i64_def parse_transactions_def
      create_eth_blocks_def new_grouping_def create_l1_attributes_tx_def Let_def group_tx_def update_if_user_deposited_tx_def
      default_tx_result_def default_transaction_def default_gas_report_def u256_of_len_def add_or_panic_def checked_add_def new_eth_block_def deposit_type_def)

lemma sync_register:
  "\<exists>w. pg_register_parse_results test_pg_lib pg [(5, sync_result)] = (w, Ok ())"
  if up: "pg_up pg = (\<lambda>_. True)" and db: "pg_db pg = test_db\<lparr>db_sol_block := [(6, [])]\<rparr>"
proof -
  have slot: "has_slot (test_db\<lparr>db_sol_block := [(6, [])]\<rparr>) 5" by (simp add: has_slot_def test_db_def)
  obtain db1 where one: "store_parsed_txs test_pg_lib [(5, sync_result)] (pg_db pg) = Ok db1"
      "adds_txs (tx_rows test_pg_lib sync_result) (result_rows test_pg_lib 5 sync_result) (pg_db pg) db1"
    using store_parsed_txs_adds [of "[(5, sync_result)]" "pg_db pg" test_pg_lib] slot db
    by (auto simp: sync_result_def test_pg_lib_def)
  have key: "(5, hash_hex 3) \<in> keys_of (db_evm_tx_result db1)" and ok: "bt_ok (db_eth_block db1)" and slot1: "has_slot db1 5"
    using one(2) db slot by (auto simp: adds_txs_def keys_of_def result_rows_def sync_result_def test_db_def has_slot_def)
  obtain db2 where "store_eth_blocks [(5, sync_result)] db1 = Ok db2"
    using store_eth_blocks_adds [OF ok, of "[(5, sync_result)]"] slot1 key by (auto simp: sync_result_def new_eth_block_def)
  then show ?thesis using one(1) up
    by (simp add: pg_register_parse_results_def tx_register_parse_results_def in_transaction_def)
qed

lemma sync_run: "\<exists>s'. restore_or_produce_until_in_sync 3 sync_indexer sync_state 5 10 = Some (s', Ok 6)"
proof -
  obtain p' where parse: "parse_block (default_tx_parser_ops (env_lib (ri_env sync_indexer))) (ri_env sync_indexer)
     (ri_block_parser sync_indexer) (ss_get_block (ri_sol sync_indexer)) 0 5 (unat MAX_PARSE_BEHIND) new_default_tx_parser =
     (p', 1, Ok (Some sync_result))" using sync_parse by blast
  define s1 where "s1 = sync_state\<lparr>is_world := (is_world sync_state)\<lparr>pg_calls := 1\<rparr>\<rparr>"
  have last: "on_world (ss_get_last_slot (ri_sol sync_indexer)) sync_state = (s1, Ok (Some 6))"
    by (simp add: on_world_def sync_indexer_def plain_indexer_def pg_sol_storage_def pg_get_last_slot_def reading_def
        in_transaction_def sync_state_def plain_state_def test_pg_def s1_def)
  let ?s2 = "s1\<lparr>is_tx_parser := p', is_reads := 1\<rparr>"
  have one: "(5 :: slot) + min (6 - 5) (word_of_nat 10) = 6" by (simp add: min_def)
  have range: "slot_range 5 6 = [5]" by (simp add: slot_range_def)
  have start: "is_reads s1 = 0" "is_tx_parser s1 = new_default_tx_parser"
    by (simp_all add: s1_def sync_state_def plain_state_def)
  have batch: "parse_blocks_batch sync_indexer s1 5 6 10 = (?s2, Ok (6, [(5, sync_result)]))"
    using parse by (simp del: One_nat_def add: parse_blocks_batch_def sub_or_panic_def try_with_def Let_def one range start)
  obtain w where reg: "pg_register_parse_results test_pg_lib (is_world ?s2) [(5, sync_result)] = (w, Ok ())"
    using sync_register [of "is_world ?s2"] by (auto simp: s1_def sync_state_def plain_state_def test_pg_def)
  have store: "on_world (\<lambda>w. es_register_parse_results (ri_eth sync_indexer) w [(5, sync_result)]) ?s2 = (?s2\<lparr>is_world := w\<rparr>, Ok ())"
    using reg by (simp add: on_world_def sync_indexer_def plain_indexer_def pg_eth_storage_def)
  have none: "ri_producer sync_indexer = None" by (simp add: sync_indexer_def plain_indexer_def)
  have "\<exists>s'. sync_loop 3 sync_indexer s1 5 6 10 = Some (s', Ok ())"
    by (simp del: One_nat_def add: numeral_3_eq_3 batch store restore_or_produce_blocks_def none)
  then show ?thesis by (auto simp: restore_or_produce_until_in_sync_def last)
qed

lemma parses_sync:
  "parses sync_indexer q xs out q' \<Longrightarrow> q = (new_default_tx_parser, 0) \<Longrightarrow> xs = [5] \<Longrightarrow> (5, Some sync_result) \<in> set out"
proof (induction rule: parses.induct)
  case (parses_Cons t x p p' t' r xs out q)
  then show ?case using sync_parse by auto
next
  case (parses_retain p k t xs out q)
  then show ?case by (simp add: default_retain_from_slot_def new_default_tx_parser_def)
qed simp


end
