(* ===== verification/Geth_Pool.thy ===== *)
theory Geth_Pool
  imports Eth_Types
begin

text \<open>
  \<^verbatim>\<open>rome-geth/src/types/tx.rs\<close>: the transactions of the pool of op-geth, and their
  conversion to requests of the ethers crate.
\<close>

section \<open>Types\<close>

record geth_pool_tx =
  gp_block_hash :: "h256 option"
  gp_block_number :: "u64 option"
  gp_chain_id :: "u64 option"
  gp_from :: address
  gp_gas :: "u256 option"
  gp_gas_price :: "u256 option"
  gp_max_priority_fee_per_gas :: "u256 option"
  gp_max_fee_per_gas :: "u256 option"
  gp_hash :: h256
  gp_input :: "bytes option"
  gp_nonce :: u256
  gp_r :: u256
  gp_s :: u256
  gp_to :: "address option"
  gp_transaction_index :: "u64 option"
  gp_type_field :: u64
  gp_v :: u64
  gp_value :: "u256 option"

text \<open>The pending and queued transactions, by address and nonce.\<close>

record geth_pool_result =
  gp_pending :: "(nat list, (u64, geth_pool_tx) btree) hmap"
  gp_queued :: "(nat list, (u64, geth_pool_tx) btree) hmap"

text \<open>The requests of ethers; an access list is the addresses with their storage keys.\<close>

type_synonym access_list = "(address \<times> h256 list) list"

record pool_tx_request =
  rq_from :: "address option"
  rq_to :: "address option"
  rq_gas :: "u256 option"
  rq_gas_price :: "u256 option"
  rq_value :: "u256 option"
  rq_data :: "bytes option"
  rq_nonce :: "u256 option"
  rq_chain_id :: "u64 option"

record eip1559_request =
  dq_from :: "address option"
  dq_to :: "address option"
  dq_gas :: "u256 option"
  dq_value :: "u256 option"
  dq_data :: "bytes option"
  dq_nonce :: "u256 option"
  dq_access_list :: access_list
  dq_max_priority_fee_per_gas :: "u256 option"
  dq_max_fee_per_gas :: "u256 option"
  dq_chain_id :: "u64 option"

datatype typed_transaction =
    LegacyTx pool_tx_request
  | Eip2930Tx pool_tx_request access_list
  | Eip1559Tx eip1559_request

datatype pool_tx_conversion_error = UnknownTypeValue u64

section \<open>Conversion\<close>

definition try_into_legacy :: "geth_pool_tx \<Rightarrow> pool_tx_conversion_error + typed_transaction" where
  "try_into_legacy v = Inr (LegacyTx \<lparr>rq_from = Some (gp_from v), rq_to = gp_to v, rq_gas = gp_gas v,
     rq_gas_price = gp_gas_price v, rq_value = gp_value v, rq_data = gp_input v, rq_nonce = Some (gp_nonce v),
     rq_chain_id = gp_chain_id v\<rparr>)"

definition try_into_eip2930 :: "geth_pool_tx \<Rightarrow> pool_tx_conversion_error + typed_transaction" where
  "try_into_eip2930 v = Inr (Eip2930Tx \<lparr>rq_from = Some (gp_from v), rq_to = gp_to v, rq_gas = gp_gas v,
     rq_gas_price = gp_gas_price v, rq_value = gp_value v, rq_data = gp_input v, rq_nonce = Some (gp_nonce v),
     rq_chain_id = gp_chain_id v\<rparr> [])"

definition try_into_eip1559 :: "geth_pool_tx \<Rightarrow> pool_tx_conversion_error + typed_transaction" where
  "try_into_eip1559 v = Inr (Eip1559Tx \<lparr>dq_from = Some (gp_from v), dq_to = gp_to v, dq_gas = gp_gas v,
     dq_value = gp_value v, dq_data = gp_input v, dq_nonce = Some (gp_nonce v), dq_access_list = [],
     dq_max_priority_fee_per_gas = gp_max_priority_fee_per_gas v, dq_max_fee_per_gas = gp_max_fee_per_gas v,
     dq_chain_id = gp_chain_id v\<rparr>)"

definition typed_transaction_of :: "geth_pool_tx \<Rightarrow> pool_tx_conversion_error + typed_transaction" where
  "typed_transaction_of v =
     (if gp_type_field v = 0 then try_into_legacy v
      else if gp_type_field v = 1 then try_into_eip2930 v
      else if gp_type_field v = 2 then try_into_eip1559 v
      else Inl (UnknownTypeValue (gp_type_field v)))"

text \<open>
  Exactly the three known types are converted; whatever the transaction was signed with, its
  access list is empty, and no signature is kept.
\<close>

lemma conversion_total: "(\<exists>t. typed_transaction_of v = Inr t) \<longleftrightarrow> gp_type_field v \<le> 2"
proof -
  have "gp_type_field v \<le> 2 \<longleftrightarrow> gp_type_field v = 0 \<or> gp_type_field v = 1 \<or> gp_type_field v = 2"
    by (auto simp: word_le_nat_alt word_unat_eq_iff)
  then show ?thesis
    by (auto simp: typed_transaction_of_def try_into_legacy_def try_into_eip2930_def try_into_eip1559_def)
qed

fun request_access_list :: "typed_transaction \<Rightarrow> access_list" where
  "request_access_list (LegacyTx t) = []"
| "request_access_list (Eip2930Tx t l) = l"
| "request_access_list (Eip1559Tx t) = dq_access_list t"

lemma access_list_dropped: "typed_transaction_of v = Inr t \<Longrightarrow> request_access_list t = []"
  by (auto simp: typed_transaction_of_def try_into_legacy_def try_into_eip2930_def try_into_eip1559_def split: if_splits)

end
